(* ===== verification/Prelude.thy ===== *)
theory Prelude
  imports "HOL-Library.Word" "HOL-Library.Multiset" "HOL-Library.Monad_Syntax"
begin

unbundle bit_operations_syntax

text \<open>
  Shared vocabulary of the development: the machine integer types of the C sources (LP64, as on
  the x86-64 machines the tools run on), the collections of definitional equations that
  the proofs of the components unfold, and generic lemmas on lists, options and words.
\<close>

section \<open>Machine integers\<close>

type_synonym u8 = "8 word"
type_synonym u16 = "16 word"
type_synonym u32 = "32 word"
type_synonym u64 = "64 word"

section \<open>Collections\<close>

named_theorems const_defs \<open>values of the enumerations and macros of the headers\<close>
named_theorems op_defs \<open>equations of the small operations that proofs unfold\<close>

section \<open>Lists\<close>

lemma mset_remove_middle: "mset (xs @ x # ys) = add_mset x (mset (xs @ ys))"
  by simp

lemma nth_append_middle: "(xs @ x # ys) ! length xs = x"
  by simp

lemma sum_list_filter_split:
  "sum_list (map f (filter P xs)) + sum_list (map f (filter (\<lambda>x. \<not> P x) xs))
   = (sum_list (map f xs) :: 'b :: comm_monoid_add)"
  by (induction xs) (auto simp: ac_simps)

lemma sorted_wrt_insert_between:
  assumes "sorted_wrt R (xs @ ys)"
    and "\<And>x. x \<in> set xs \<Longrightarrow> R x z" and "\<And>y. y \<in> set ys \<Longrightarrow> R z y"
  shows "sorted_wrt R (xs @ z # ys)"
  using assms by (auto simp: sorted_wrt_append)

lemma sorted_wrt_remove_middle:
  "sorted_wrt R (xs @ z # ys) \<Longrightarrow> sorted_wrt R (xs @ ys)"
  by (auto simp: sorted_wrt_append)

section \<open>Words\<close>

lemma word_and_mask_of_nat_less: "unat (w AND (2 ^ n - 1) :: 'a :: len word) < 2 ^ n"
proof -
  have "w AND (2 ^ n - 1) = take_bit n w"
    by (simp add: take_bit_eq_mask mask_eq_exp_minus_1)
  then show ?thesis
    by (simp add: unsigned_take_bit_eq)
qed

lemma inc_mono_nat: "(a :: nat) \<le> b \<Longrightarrow> a \<le> Suc b"
  by simp

end
