(* ===== verification/Trace_Format.thy ===== *)
theory Trace_Format
  imports Prelude
begin

text \<open>
  The trace record of \<open>blktrace_api.h\<close> and the helpers of \<open>blktrace.h\<close> that every tool uses:
  the enumerations of categories and actions, the packed \<open>struct blk_io_trace\<close>, its magic number,
  the byte order conversion and the verification of a record read from a file.
  A record carries its payload: the \<open>pdu_len\<close> bytes that follow the struct in memory.
\<close>

section \<open>Enumerations of blktrace_api.h\<close>

datatype blk_tc =
    TC_READ | TC_WRITE | TC_FLUSH | TC_SYNC | TC_QUEUE | TC_REQUEUE | TC_ISSUE | TC_COMPLETE
  | TC_FS | TC_PC | TC_NOTIFY | TC_AHEAD | TC_META | TC_DISCARD | TC_DRV_DATA | TC_FUA

fun BLK_TC :: "blk_tc \<Rightarrow> u32" where
  "BLK_TC TC_READ = push_bit 0 1"
| "BLK_TC TC_WRITE = push_bit 1 1"
| "BLK_TC TC_FLUSH = push_bit 2 1"
| "BLK_TC TC_SYNC = push_bit 3 1"
| "BLK_TC TC_QUEUE = push_bit 4 1"
| "BLK_TC TC_REQUEUE = push_bit 5 1"
| "BLK_TC TC_ISSUE = push_bit 6 1"
| "BLK_TC TC_COMPLETE = push_bit 7 1"
| "BLK_TC TC_FS = push_bit 8 1"
| "BLK_TC TC_PC = push_bit 9 1"
| "BLK_TC TC_NOTIFY = push_bit 10 1"
| "BLK_TC TC_AHEAD = push_bit 11 1"
| "BLK_TC TC_META = push_bit 12 1"
| "BLK_TC TC_DISCARD = push_bit 13 1"
| "BLK_TC TC_DRV_DATA = push_bit 14 1"
| "BLK_TC TC_FUA = push_bit 15 1"

definition BLK_TC_SHIFT :: nat where
  "BLK_TC_SHIFT = 16"

definition BLK_TC_ACT :: "u32 \<Rightarrow> u32" where
  "BLK_TC_ACT act = push_bit BLK_TC_SHIFT act"

datatype blk_ta =
    TA_QUEUE | TA_BACKMERGE | TA_FRONTMERGE | TA_GETRQ | TA_SLEEPRQ | TA_REQUEUE | TA_ISSUE
  | TA_COMPLETE | TA_PLUG | TA_UNPLUG_IO | TA_UNPLUG_TIMER | TA_INSERT | TA_SPLIT | TA_BOUNCE
  | TA_REMAP | TA_ABORT | TA_DRV_DATA

text \<open>The double-underscore constants: the action code in the low 16 bits.\<close>

fun ta_code :: "blk_ta \<Rightarrow> u32" where
  "ta_code TA_QUEUE = 1"
| "ta_code TA_BACKMERGE = 2"
| "ta_code TA_FRONTMERGE = 3"
| "ta_code TA_GETRQ = 4"
| "ta_code TA_SLEEPRQ = 5"
| "ta_code TA_REQUEUE = 6"
| "ta_code TA_ISSUE = 7"
| "ta_code TA_COMPLETE = 8"
| "ta_code TA_PLUG = 9"
| "ta_code TA_UNPLUG_IO = 10"
| "ta_code TA_UNPLUG_TIMER = 11"
| "ta_code TA_INSERT = 12"
| "ta_code TA_SPLIT = 13"
| "ta_code TA_BOUNCE = 14"
| "ta_code TA_REMAP = 15"
| "ta_code TA_ABORT = 16"
| "ta_code TA_DRV_DATA = 17"

datatype blk_tn = TN_PROCESS | TN_TIMESTAMP | TN_MESSAGE

fun tn_code :: "blk_tn \<Rightarrow> u32" where
  "tn_code TN_PROCESS = 0"
| "tn_code TN_TIMESTAMP = 1"
| "tn_code TN_MESSAGE = 2"

text \<open>The actions in full: the code with its category.\<close>

fun BLK_TA :: "blk_ta \<Rightarrow> u32" where
  "BLK_TA TA_REQUEUE = ta_code TA_REQUEUE OR BLK_TC_ACT (BLK_TC TC_REQUEUE)"
| "BLK_TA TA_ISSUE = ta_code TA_ISSUE OR BLK_TC_ACT (BLK_TC TC_ISSUE)"
| "BLK_TA TA_COMPLETE = ta_code TA_COMPLETE OR BLK_TC_ACT (BLK_TC TC_COMPLETE)"
| "BLK_TA TA_SPLIT = ta_code TA_SPLIT"
| "BLK_TA TA_BOUNCE = ta_code TA_BOUNCE"
| "BLK_TA TA_DRV_DATA = ta_code TA_DRV_DATA OR BLK_TC_ACT (BLK_TC TC_DRV_DATA)"
| "BLK_TA a = ta_code a OR BLK_TC_ACT (BLK_TC TC_QUEUE)"

fun BLK_TN :: "blk_tn \<Rightarrow> u32" where
  "BLK_TN n = tn_code n OR BLK_TC_ACT (BLK_TC TC_NOTIFY)"

definition BLK_IO_TRACE_MAGIC :: u32 where
  "BLK_IO_TRACE_MAGIC = 0x65617400"

definition BLK_IO_TRACE_VERSION :: u32 where
  "BLK_IO_TRACE_VERSION = 0x07"

definition SUPPORTED_VERSION :: u32 where
  "SUPPORTED_VERSION = 0x07"

definition MAX_VEC :: u32 where
  "MAX_VEC = 200"

section \<open>The trace record\<close>

record blk_io_trace =
  tr_magic :: u32
  tr_sequence :: u32
  tr_time :: u64
  tr_sector :: u64
  tr_bytes :: u32
  tr_action :: u32
  tr_pid :: u32
  tr_device :: u32
  tr_cpu :: u32
  tr_error :: u16
  tr_vec_count :: u16
  tr_seq :: u32
  tr_pdu_len :: u16
  tr_pdu :: "u8 list"

record blk_io_trace_remap =
  r_device_from :: u32
  r_device_to :: u32
  r_sector_from :: u64

section \<open>Macros of blktrace.h\<close>

definition MINORBITS :: nat where
  "MINORBITS = 20"

definition MINORMASK :: u32 where
  "MINORMASK = push_bit MINORBITS 1 - 1"

definition MAJOR :: "u32 \<Rightarrow> u32" where
  "MAJOR dev = drop_bit MINORBITS dev"

definition MINOR :: "u32 \<Rightarrow> u32" where
  "MINOR dev = dev AND MINORMASK"

definition SECONDS :: "u64 \<Rightarrow> u64" where
  "SECONDS x = x div 1000000000"

definition NANO_SECONDS :: "u64 \<Rightarrow> u64" where
  "NANO_SECONDS x = x mod 1000000000"

definition t_sec :: "blk_io_trace \<Rightarrow> u32" where
  "t_sec t = drop_bit 9 (tr_bytes t)"

definition t_kb :: "blk_io_trace \<Rightarrow> u32" where
  "t_kb t = drop_bit 10 (tr_bytes t)"

definition t_b :: "blk_io_trace \<Rightarrow> u32" where
  "t_b t = tr_bytes t AND 1023"

text \<open>A test of a category bit, \<open>t->action & BLK_TC_ACT(c)\<close>, as a condition.\<close>

definition has_tc :: "u32 \<Rightarrow> blk_tc \<Rightarrow> bool" where
  "has_tc action c \<longleftrightarrow> action AND BLK_TC_ACT (BLK_TC c) \<noteq> 0"

section \<open>Byte order\<close>

text \<open>The glibc byte swaps, written on the value (the tools run on little-endian hosts).\<close>

definition bswap_16 :: "u16 \<Rightarrow> u16" where
  "bswap_16 x = push_bit 8 x OR drop_bit 8 x"

definition bswap_32 :: "u32 \<Rightarrow> u32" where
  "bswap_32 x = push_bit 24 (x AND 0xff) OR push_bit 8 (x AND 0xff00)
     OR drop_bit 8 (x AND 0xff0000) OR drop_bit 24 (x AND 0xff000000)"

definition bswap_64 :: "u64 \<Rightarrow> u64" where
  "bswap_64 x = push_bit 56 (x AND 0xff) OR push_bit 40 (x AND 0xff00)
     OR push_bit 24 (x AND 0xff0000) OR push_bit 8 (x AND 0xff000000)
     OR drop_bit 8 (x AND 0xff00000000) OR drop_bit 24 (x AND 0xff0000000000)
     OR drop_bit 40 (x AND 0xff000000000000) OR drop_bit 56 (x AND 0xff00000000000000)"

text \<open>
  The global \<open>data_is_native\<close> is \<open>-1\<close> (not known yet), \<open>0\<close> or \<open>1\<close>.
\<close>

datatype native = Native_unknown | Native_no | Native_yes

definition CHECK_MAGIC :: "blk_io_trace \<Rightarrow> bool" where
  "CHECK_MAGIC t \<longleftrightarrow> tr_magic t AND 0xffffff00 = BLK_IO_TRACE_MAGIC"

datatype verify_error = Bad_magic u32 | Unsupported_version u32

definition verify_trace :: "blk_io_trace \<Rightarrow> verify_error option" where
  "verify_trace t =
     (if \<not> CHECK_MAGIC t then Some (Bad_magic (tr_magic t))
      else if tr_magic t AND 0xff \<noteq> SUPPORTED_VERSION then Some (Unsupported_version (tr_magic t AND 0xff))
      else None)"

text \<open>
  \<open>trace_to_cpu\<close> returns early only when the data is known to be native (\<open>data_is_native\<close> non-zero,
  so the value \<open>-1\<close> returns as well). Fields \<open>vec_count\<close> and \<open>seq\<close> are not converted.
\<close>

definition trace_to_cpu :: "native \<Rightarrow> blk_io_trace \<Rightarrow> blk_io_trace" where
  "trace_to_cpu data_is_native t =
     (if data_is_native \<noteq> Native_no then t
      else t\<lparr>tr_magic := bswap_32 (tr_magic t),
             tr_sequence := bswap_32 (tr_sequence t),
             tr_time := bswap_64 (tr_time t),
             tr_sector := bswap_64 (tr_sector t),
             tr_bytes := bswap_32 (tr_bytes t),
             tr_action := bswap_32 (tr_action t),
             tr_pid := bswap_32 (tr_pid t),
             tr_device := bswap_32 (tr_device t),
             tr_cpu := bswap_32 (tr_cpu t),
             tr_error := bswap_16 (tr_error t),
             tr_pdu_len := bswap_16 (tr_pdu_len t)\<rparr>)"

text \<open>The new value of \<open>data_is_native\<close> and the return code.\<close>

definition check_data_endianness :: "native \<Rightarrow> u32 \<Rightarrow> native \<times> bool" where
  "check_data_endianness data_is_native magic =
     (if magic AND 0xffffff00 = BLK_IO_TRACE_MAGIC then (Native_yes, True)
      else let magic' = bswap_32 magic in
           if magic' AND 0xffffff00 = BLK_IO_TRACE_MAGIC then (Native_no, True)
           else (data_is_native, False))"

definition get_pdulen :: "native \<Rightarrow> blk_io_trace \<Rightarrow> u16" where
  "get_pdulen data_is_native t =
     (if data_is_native \<noteq> Native_no then tr_pdu_len t else bswap_16 (tr_pdu_len t))"

definition get_magic :: "native \<Rightarrow> blk_io_trace \<Rightarrow> u32" where
  "get_magic data_is_native t =
     (if data_is_native \<noteq> Native_no then tr_magic t else bswap_32 (tr_magic t))"

section \<open>Lemmas\<close>

lemmas [const_defs] =
  BLK_TC_SHIFT_def BLK_TC_ACT_def BLK_IO_TRACE_MAGIC_def BLK_IO_TRACE_VERSION_def
  SUPPORTED_VERSION_def MINORBITS_def MINORMASK_def

lemma BLK_TC_ACT_bit:
  "BLK_TC_ACT (BLK_TC TC_READ) = 0x10000" "BLK_TC_ACT (BLK_TC TC_WRITE) = 0x20000"
  "BLK_TC_ACT (BLK_TC TC_FLUSH) = 0x40000" "BLK_TC_ACT (BLK_TC TC_SYNC) = 0x80000"
  "BLK_TC_ACT (BLK_TC TC_QUEUE) = 0x100000" "BLK_TC_ACT (BLK_TC TC_REQUEUE) = 0x200000"
  "BLK_TC_ACT (BLK_TC TC_ISSUE) = 0x400000" "BLK_TC_ACT (BLK_TC TC_COMPLETE) = 0x800000"
  "BLK_TC_ACT (BLK_TC TC_FS) = 0x1000000" "BLK_TC_ACT (BLK_TC TC_PC) = 0x2000000"
  "BLK_TC_ACT (BLK_TC TC_NOTIFY) = 0x4000000" "BLK_TC_ACT (BLK_TC TC_AHEAD) = 0x8000000"
  "BLK_TC_ACT (BLK_TC TC_META) = 0x10000000" "BLK_TC_ACT (BLK_TC TC_DISCARD) = 0x20000000"
  "BLK_TC_ACT (BLK_TC TC_DRV_DATA) = 0x40000000" "BLK_TC_ACT (BLK_TC TC_FUA) = 0x80000000"
  by (simp_all add: const_defs push_bit_eq_mult)

lemma bswap_16_bswap_16 [simp]: "bswap_16 (bswap_16 x) = x"
  by (rule bit_word_eqI) (auto simp: bswap_16_def bit_simps)

lemma byte_masks_32:
  "(0xff :: u32) = mask 8" "(0xff00 :: u32) = push_bit 8 (mask 8)"
  "(0xff0000 :: u32) = push_bit 16 (mask 8)" "(0xff000000 :: u32) = push_bit 24 (mask 8)"
  by (simp_all add: mask_eq_exp_minus_1 push_bit_eq_mult)

lemma byte_masks_64:
  "(0xff :: u64) = mask 8" "(0xff00 :: u64) = push_bit 8 (mask 8)"
  "(0xff0000 :: u64) = push_bit 16 (mask 8)" "(0xff000000 :: u64) = push_bit 24 (mask 8)"
  "(0xff00000000 :: u64) = push_bit 32 (mask 8)" "(0xff0000000000 :: u64) = push_bit 40 (mask 8)"
  "(0xff000000000000 :: u64) = push_bit 48 (mask 8)"
  "(0xff00000000000000 :: u64) = push_bit 56 (mask 8)"
  by (simp_all add: mask_eq_exp_minus_1 push_bit_eq_mult)

lemma less_32_split: "(n :: nat) < 32 \<Longrightarrow> \<exists>b k. b < 4 \<and> k < 8 \<and> n = 8 * b + k"
  by (intro exI [of _ "n div 8"] exI [of _ "n mod 8"]) auto

lemma less_64_split: "(n :: nat) < 64 \<Longrightarrow> \<exists>b k. b < 8 \<and> k < 8 \<and> n = 8 * b + k"
  by (intro exI [of _ "n div 8"] exI [of _ "n mod 8"]) auto

text \<open>Byte \<open>b\<close> of the result is byte \<open>3 - b\<close> (\<open>7 - b\<close>) of the argument.\<close>

lemma bit_bswap_32:
  assumes "b < 4" and "k < 8"
  shows "bit (bswap_32 x) (8 * b + k) = bit x (8 * (3 - b) + k)"
proof -
  have "b = 0 \<or> b = 1 \<or> b = 2 \<or> b = 3"
    using assms by linarith
  then show ?thesis
    using assms(2) unfolding bswap_32_def byte_masks_32
    by (elim disjE) (simp_all add: bit_simps)
qed

lemma bit_bswap_64:
  assumes "b < 8" and "k < 8"
  shows "bit (bswap_64 x) (8 * b + k) = bit x (8 * (7 - b) + k)"
proof -
  have "b = 0 \<or> b = 1 \<or> b = 2 \<or> b = 3 \<or> b = 4 \<or> b = 5 \<or> b = 6 \<or> b = 7"
    using assms by linarith
  then show ?thesis
    using assms(2) unfolding bswap_64_def byte_masks_64
    by (elim disjE) (simp_all add: bit_simps)
qed

lemma bswap_32_bswap_32 [simp]: "bswap_32 (bswap_32 x) = x"
proof (rule bit_word_eqI)
  fix n :: nat
  assume "n < LENGTH(32)"
  then have "n < 32"
    by simp
  then obtain b k where "b < 4" "k < 8" "n = 8 * b + k"
    using less_32_split by blast
  then show "bit (bswap_32 (bswap_32 x)) n = bit x n"
    using bit_bswap_32 [of b k] bit_bswap_32 [of "3 - b" k] by simp
qed

lemma bswap_64_bswap_64 [simp]: "bswap_64 (bswap_64 x) = x"
proof (rule bit_word_eqI)
  fix n :: nat
  assume "n < LENGTH(64)"
  then have "n < 64"
    by simp
  then obtain b k where "b < 8" "k < 8" "n = 8 * b + k"
    using less_64_split by blast
  then show "bit (bswap_64 (bswap_64 x)) n = bit x n"
    using bit_bswap_64 [of b k] bit_bswap_64 [of "7 - b" k] by simp
qed

lemma trace_to_cpu_involution [simp]: "trace_to_cpu n (trace_to_cpu n t) = t"
  by (simp add: trace_to_cpu_def)

lemma trace_to_cpu_native [simp]:
  "trace_to_cpu Native_yes t = t" "trace_to_cpu Native_unknown t = t"
  by (simp_all add: trace_to_cpu_def)

lemma verify_trace_None_iff:
  "verify_trace t = None \<longleftrightarrow> CHECK_MAGIC t \<and> tr_magic t AND 0xff = SUPPORTED_VERSION"
  by (simp add: verify_trace_def)

lemma magic_split: "(w :: u32) = (w AND 0xffffff00) OR (w AND 0xff)"
proof -
  have "(w AND 0xffffff00) OR (w AND 0xff) = w AND (0xffffff00 OR 0xff)"
    by (simp only: and.commute [of w] bit.conj_disj_distrib2)
  also have "(0xffffff00 OR 0xff :: u32) = - 1"
    by simp
  finally show ?thesis
    by simp
qed

lemma verify_trace_magic:
  "verify_trace t = None \<Longrightarrow> tr_magic t = 0x65617407"
  using magic_split [of "tr_magic t"]
  by (simp add: verify_trace_None_iff CHECK_MAGIC_def const_defs)

lemma BLK_TN_value:
  "BLK_TN TN_PROCESS = 0x4000000" "BLK_TN TN_TIMESTAMP = 0x4000001" "BLK_TN TN_MESSAGE = 0x4000002"
  by (simp_all add: BLK_TC_ACT_bit del: BLK_TC.simps)

text \<open>The constants stay folded; \<open>BLK_TC_ACT_bit\<close> and \<open>BLK_TN_value\<close> give their values.\<close>

declare BLK_TC.simps [simp del] BLK_TA.simps [simp del] BLK_TN.simps [simp del]

end
