(* ===== verification/Act_Mask.thy ===== *)
theory Act_Mask
  imports Trace_Format
begin

text \<open>
  \<open>act_mask.c\<close>: the names of the trace categories accepted on the command lines of the tools
  (\<open>-a\<close>) and the test of a numeric mask (\<open>-A\<close>).
\<close>

section \<open>C strings, compared without case\<close>

definition tolower_c :: "char \<Rightarrow> char" where
  "tolower_c c = (let n = (of_char c :: nat) in if 65 \<le> n \<and> n \<le> 90 then char_of (n + 32) else c)"

text \<open>\<open>strcasecmp\<close> returns \<open>0\<close>: the condition under which \<open>!strcasecmp(s, t)\<close> holds.\<close>

definition strcasecmp_eq :: "string \<Rightarrow> string \<Rightarrow> bool" where
  "strcasecmp_eq s t \<longleftrightarrow> map tolower_c s = map tolower_c t"

section \<open>The table\<close>

record mask_map =
  mask_of :: int
  short_form :: string
  long_form :: string

fun tc_name :: "blk_tc \<Rightarrow> string" where
  "tc_name TC_READ = ''READ''"
| "tc_name TC_WRITE = ''WRITE''"
| "tc_name TC_FLUSH = ''FLUSH''"
| "tc_name TC_SYNC = ''SYNC''"
| "tc_name TC_QUEUE = ''QUEUE''"
| "tc_name TC_REQUEUE = ''REQUEUE''"
| "tc_name TC_ISSUE = ''ISSUE''"
| "tc_name TC_COMPLETE = ''COMPLETE''"
| "tc_name TC_FS = ''FS''"
| "tc_name TC_PC = ''PC''"
| "tc_name TC_NOTIFY = ''NOTIFY''"
| "tc_name TC_AHEAD = ''AHEAD''"
| "tc_name TC_META = ''META''"
| "tc_name TC_DISCARD = ''DISCARD''"
| "tc_name TC_DRV_DATA = ''DRV_DATA''"
| "tc_name TC_FUA = ''FUA''"

definition DECLARE_MASK_MAP :: "blk_tc \<Rightarrow> mask_map" where
  "DECLARE_MASK_MAP c =
     \<lparr>mask_of = uint (BLK_TC c), short_form = tc_name c, long_form = ''BLK_TC_'' @ tc_name c\<rparr>"

definition mask_maps :: "mask_map list" where
  "mask_maps = map DECLARE_MASK_MAP
     [TC_READ, TC_WRITE, TC_FLUSH, TC_SYNC, TC_QUEUE, TC_REQUEUE, TC_ISSUE, TC_COMPLETE,
      TC_FS, TC_PC, TC_NOTIFY, TC_AHEAD, TC_META, TC_DISCARD, TC_DRV_DATA, TC_FUA]"

definition COMPARE_MASK_MAP :: "mask_map \<Rightarrow> string \<Rightarrow> bool" where
  "COMPARE_MASK_MAP mmp str \<longleftrightarrow>
     strcasecmp_eq (short_form mmp) str \<or> strcasecmp_eq (long_form mmp) str"

fun find_mask_in :: "mask_map list \<Rightarrow> string \<Rightarrow> int" where
  "find_mask_in [] str = - 1"
| "find_mask_in (m # ms) str = (if COMPARE_MASK_MAP m str then mask_of m else find_mask_in ms str)"

definition find_mask_map :: "string \<Rightarrow> int" where
  "find_mask_map str = find_mask_in mask_maps str"

definition valid_act_opt :: "int \<Rightarrow> bool" where
  "valid_act_opt x \<longleftrightarrow> 1 \<le> x \<and> x < 2 ^ BLK_TC_SHIFT"

section \<open>Lemmas\<close>

definition names_tc :: "string \<Rightarrow> blk_tc \<Rightarrow> bool" where
  "names_tc str c \<longleftrightarrow> strcasecmp_eq (tc_name c) str \<or> strcasecmp_eq (''BLK_TC_'' @ tc_name c) str"

lemma COMPARE_declared [simp]: "COMPARE_MASK_MAP (DECLARE_MASK_MAP c) str \<longleftrightarrow> names_tc str c"
  by (simp add: COMPARE_MASK_MAP_def DECLARE_MASK_MAP_def names_tc_def)

lemma mask_declared [simp]: "mask_of (DECLARE_MASK_MAP c) = uint (BLK_TC c)"
  by (simp add: DECLARE_MASK_MAP_def)

lemma BLK_TC_range: "1 \<le> uint (BLK_TC c)" "uint (BLK_TC c) < 2 ^ BLK_TC_SHIFT"
  by (cases c; simp add: BLK_TC.simps const_defs push_bit_eq_mult)+

lemma tolower_prefix: "map tolower_c ''BLK_TC_'' = ''blk_tc_''"
  by code_simp

definition all_tcs :: "blk_tc list" where
  "all_tcs = [TC_READ, TC_WRITE, TC_FLUSH, TC_SYNC, TC_QUEUE, TC_REQUEUE, TC_ISSUE, TC_COMPLETE,
     TC_FS, TC_PC, TC_NOTIFY, TC_AHEAD, TC_META, TC_DISCARD, TC_DRV_DATA, TC_FUA]"

lemma mask_maps_all: "mask_maps = map DECLARE_MASK_MAP all_tcs"
  by (simp only: mask_maps_def all_tcs_def)

lemma all_tc: "c \<in> set all_tcs"
  by (cases c) (simp_all add: all_tcs_def)

definition tc_lower :: "blk_tc \<Rightarrow> string" where
  "tc_lower c = map tolower_c (tc_name c)"

lemma distinct_tc_lower: "distinct (map tc_lower all_tcs)"
  by code_simp

lemma tc_lower_inject: "tc_lower c = tc_lower d \<longleftrightarrow> c = d"
  by (metis distinct_tc_lower distinct_map inj_onD all_tc)

lemma tc_lower_not_prefixed: "tc_lower c \<noteq> ''blk_tc_'' @ tc_lower d"
proof -
  have "list_all (\<lambda>c. take 3 (tc_lower c) \<noteq> ''blk'') all_tcs"
    by code_simp
  then have "take 3 (tc_lower c) \<noteq> ''blk''"
    using all_tc [of c] unfolding list_all_iff by blast
  then show ?thesis
    by (cases "tc_lower c = ''blk_tc_'' @ tc_lower d") simp_all
qed

lemma names_tc_unique:
  assumes "names_tc str c" and "names_tc str d"
  shows "c = d"
  using assms unfolding names_tc_def strcasecmp_eq_def map_append tolower_prefix tc_lower_def [symmetric]
  by (metis tc_lower_inject tc_lower_not_prefixed same_append_eq)

lemma find_mask_in_declared:
  "find_mask_in (map DECLARE_MASK_MAP cs) str =
     (case find (names_tc str) cs of None \<Rightarrow> - 1 | Some c \<Rightarrow> uint (BLK_TC c))"
  by (induction cs) auto

lemma find_mask_map_cases:
  "(\<exists>c. names_tc str c \<and> find_mask_map str = uint (BLK_TC c)) \<or>
   (\<forall>c. \<not> names_tc str c) \<and> find_mask_map str = - 1"
proof (cases "find (names_tc str) all_tcs")
  case None
  then have "\<not> names_tc str c" for c
    using all_tc [of c] by (auto simp: find_None_iff)
  then show ?thesis
    unfolding find_mask_map_def mask_maps_all find_mask_in_declared None by simp
next
  case (Some c)
  then have "names_tc str c"
    by (auto simp: find_Some_iff)
  then show ?thesis
    unfolding find_mask_map_def mask_maps_all find_mask_in_declared Some by auto
qed

lemma distinct_BLK_TC: "distinct (map BLK_TC all_tcs)"
  by (simp add: BLK_TC.simps all_tcs_def push_bit_eq_mult)

lemma BLK_TC_inject: "BLK_TC c = BLK_TC d \<longleftrightarrow> c = d"
  by (metis distinct_BLK_TC distinct_map inj_onD all_tc)

lemma find_mask_map_names: "find_mask_map str = uint (BLK_TC c) \<longleftrightarrow> names_tc str c"
proof -
  have "uint (BLK_TC d) \<noteq> - 1" "uint (BLK_TC d) = uint (BLK_TC e) \<longleftrightarrow> d = e" for d e
    using BLK_TC_range [of d] BLK_TC_inject by (simp_all add: word_uint_eq_iff [symmetric])
  then show ?thesis
    using find_mask_map_cases [of str] names_tc_unique by metis
qed

lemma find_mask_map_none: "find_mask_map str = - 1 \<longleftrightarrow> (\<forall>c. \<not> names_tc str c)"
  using find_mask_map_cases [of str] find_mask_map_names [of str] BLK_TC_range
  by (metis zero_le_one le_minus_one_simps(3) order_trans)

lemma find_mask_map_valid: "find_mask_map str = - 1 \<or> valid_act_opt (find_mask_map str)"
  using find_mask_map_cases [of str] BLK_TC_range by (auto simp: valid_act_opt_def)

section \<open>Properties\<close>

text \<open>C31: \<open>find_mask_map\<close> returns the mask of category \<open>c\<close> exactly for the short and the long name of
  \<open>c\<close>, in any mixture of cases; every other string gives \<open>-1\<close>, and every mask it returns is one
  that \<open>valid_act_opt\<close> accepts.\<close>

theorem find_mask_map_correct:
  "(\<forall>c. find_mask_map str = uint (BLK_TC c) \<longleftrightarrow>
        strcasecmp_eq (tc_name c) str \<or> strcasecmp_eq (''BLK_TC_'' @ tc_name c) str)
   \<and> (find_mask_map str = - 1 \<longleftrightarrow> (\<forall>c. \<not> names_tc str c))
   \<and> (find_mask_map str = - 1 \<or> valid_act_opt (find_mask_map str))"
  unfolding names_tc_def [symmetric]
  using find_mask_map_names find_mask_map_none find_mask_map_valid by simp

end
