(* ===== verification/Jhash.thy ===== *)
theory Jhash
  imports Prelude
begin

text \<open>
  \<open>jhash.h\<close>: Jenkins' lookup3 hash, which keys the process tables of blkparse. The mixing macros
  are functions on the triple of the three words; a key is the list of the \<open>length\<close> bytes (or
  words) at the pointer \<open>k\<close>, and advancing \<open>k\<close> drops the elements already hashed.
\<close>

section \<open>Definitions\<close>

definition rot32 :: "u32 \<Rightarrow> nat \<Rightarrow> u32" where
  "rot32 x k = push_bit k x OR drop_bit (32 - k) x"

definition jhash_mix :: "u32 \<times> u32 \<times> u32 \<Rightarrow> u32 \<times> u32 \<times> u32" where
  "jhash_mix = (\<lambda>(a, b, c).
     let a = a - c; a = a XOR rot32 c 4; c = c + b;
         b = b - a; b = b XOR rot32 a 6; a = a + c;
         c = c - b; c = c XOR rot32 b 8; b = b + a;
         a = a - c; a = a XOR rot32 c 16; c = c + b;
         b = b - a; b = b XOR rot32 a 19; a = a + c;
         c = c - b; c = c XOR rot32 b 4; b = b + a
     in (a, b, c))"

definition jhash_final :: "u32 \<times> u32 \<times> u32 \<Rightarrow> u32 \<times> u32 \<times> u32" where
  "jhash_final = (\<lambda>(a, b, c).
     let c = c XOR b; c = c - rot32 b 14;
         a = a XOR c; a = a - rot32 c 11;
         b = b XOR a; b = b - rot32 a 25;
         c = c XOR b; c = c - rot32 b 16;
         a = a XOR c; a = a - rot32 c 4;
         b = b XOR a; b = b - rot32 a 14;
         c = c XOR b; c = c - rot32 b 24
     in (a, b, c))"

definition JHASH_GOLDEN_RATIO :: u32 where
  "JHASH_GOLDEN_RATIO = 0xdeadbeef"

definition byte_at :: "u8 list \<Rightarrow> nat \<Rightarrow> u32" where
  "byte_at k i = ucast (k ! i)"

text \<open>The loop \<open>while (length > 12)\<close> and the fall-through switch on the last bytes.\<close>

definition jhash_block :: "u8 list \<Rightarrow> u32 \<times> u32 \<times> u32 \<Rightarrow> u32 \<times> u32 \<times> u32" where
  "jhash_block k = (\<lambda>(a, b, c).
     (a + (byte_at k 0 + push_bit 8 (byte_at k 1) + push_bit 16 (byte_at k 2) + push_bit 24 (byte_at k 3)),
      b + (byte_at k 4 + push_bit 8 (byte_at k 5) + push_bit 16 (byte_at k 6) + push_bit 24 (byte_at k 7)),
      c + (byte_at k 8 + push_bit 8 (byte_at k 9) + push_bit 16 (byte_at k 10) + push_bit 24 (byte_at k 11))))"

definition jhash_switch :: "u8 list \<Rightarrow> u32 \<times> u32 \<times> u32 \<Rightarrow> u32 \<times> u32 \<times> u32" where
  "jhash_switch k = (\<lambda>(a, b, c).
     let n = length k;
         c = (if 12 \<le> n then c + push_bit 24 (byte_at k 11) else c);
         c = (if 11 \<le> n then c + push_bit 16 (byte_at k 10) else c);
         c = (if 10 \<le> n then c + push_bit 8 (byte_at k 9) else c);
         c = (if 9 \<le> n then c + byte_at k 8 else c);
         b = (if 8 \<le> n then b + push_bit 24 (byte_at k 7) else b);
         b = (if 7 \<le> n then b + push_bit 16 (byte_at k 6) else b);
         b = (if 6 \<le> n then b + push_bit 8 (byte_at k 5) else b);
         b = (if 5 \<le> n then b + byte_at k 4 else b);
         a = (if 4 \<le> n then a + push_bit 24 (byte_at k 3) else a);
         a = (if 3 \<le> n then a + push_bit 16 (byte_at k 2) else a);
         a = (if 2 \<le> n then a + push_bit 8 (byte_at k 1) else a)
     in if 1 \<le> n then jhash_final (a + byte_at k 0, b, c) else (a, b, c))"

function jhash_loop :: "u8 list \<Rightarrow> u32 \<times> u32 \<times> u32 \<Rightarrow> u32 \<times> u32 \<times> u32" where
  "jhash_loop k abc =
     (if length k > 12 then jhash_loop (drop 12 k) (jhash_mix (jhash_block k abc))
      else jhash_switch k abc)"
  by auto
termination
  by (relation "measure (\<lambda>(k, _). length k)") auto

declare jhash_loop.simps [simp del]

definition jhash :: "u8 list \<Rightarrow> u32 \<Rightarrow> u32" where
  "jhash k initval =
     (let i = JHASH_GOLDEN_RATIO + of_nat (length k) + initval;
          (a, b, c) = jhash_loop k (i, i, i)
      in c)"

fun jhash2_loop :: "u32 list \<Rightarrow> u32 \<times> u32 \<times> u32 \<Rightarrow> u32 \<times> u32 \<times> u32" where
  "jhash2_loop (k0 # k1 # k2 # k3 # ks) (a, b, c) =
     jhash2_loop (k3 # ks) (jhash_mix (a + k0, b + k1, c + k2))"
| "jhash2_loop [k0, k1, k2] (a, b, c) = jhash_final (a + k0, b + k1, c + k2)"
| "jhash2_loop [k0, k1] (a, b, c) = jhash_final (a + k0, b + k1, c)"
| "jhash2_loop [k0] (a, b, c) = jhash_final (a + k0, b, c)"
| "jhash2_loop [] (a, b, c) = (a, b, c)"

definition jhash2 :: "u32 list \<Rightarrow> u32 \<Rightarrow> u32" where
  "jhash2 k initval =
     (let i = JHASH_GOLDEN_RATIO + push_bit 2 (of_nat (length k)) + initval;
          (a, b, c) = jhash2_loop k (i, i, i)
      in c)"

definition jhash_3words :: "u32 \<Rightarrow> u32 \<Rightarrow> u32 \<Rightarrow> u32 \<Rightarrow> u32" where
  "jhash_3words a b c initval =
     (let (a, b, c) = jhash_final (a + (JHASH_GOLDEN_RATIO + initval),
        b + (JHASH_GOLDEN_RATIO + initval), c + (JHASH_GOLDEN_RATIO + initval))
      in c)"

definition jhash_2words :: "u32 \<Rightarrow> u32 \<Rightarrow> u32 \<Rightarrow> u32" where
  "jhash_2words a b initval = jhash_3words 0 a b initval"

definition jhash_1word :: "u32 \<Rightarrow> u32 \<Rightarrow> u32" where
  "jhash_1word a initval = jhash_3words 0 0 a initval"

section \<open>The mixing steps are reversible\<close>

text \<open>One line of the mix, in the roles \<open>x -= z; x ^= rot(z, k); z += y\<close>, and its inverse.\<close>

definition mix_line :: "nat \<Rightarrow> u32 \<times> u32 \<times> u32 \<Rightarrow> u32 \<times> u32 \<times> u32" where
  "mix_line k = (\<lambda>(x, y, z). (y, z + y, (x - z) XOR rot32 z k))"

definition unmix_line :: "nat \<Rightarrow> u32 \<times> u32 \<times> u32 \<Rightarrow> u32 \<times> u32 \<times> u32" where
  "unmix_line k = (\<lambda>(y, w, v). let z = w - y in ((v XOR rot32 z k) + z, y, z))"

lemma unmix_mix_line [simp]: "unmix_line k (mix_line k p) = p"
  by (cases p) (simp add: mix_line_def unmix_line_def xor.assoc)

lemma mix_unmix_line [simp]: "mix_line k (unmix_line k p) = p"
  by (cases p) (simp add: mix_line_def unmix_line_def Let_def xor.assoc)

lemma jhash_mix_lines:
  "jhash_mix p = (mix_line 4 \<circ> mix_line 19 \<circ> mix_line 16 \<circ> mix_line 8 \<circ> mix_line 6 \<circ> mix_line 4) p"
  by (cases p) (simp add: jhash_mix_def mix_line_def Let_def ac_simps)

definition jhash_unmix :: "u32 \<times> u32 \<times> u32 \<Rightarrow> u32 \<times> u32 \<times> u32" where
  "jhash_unmix = unmix_line 4 \<circ> unmix_line 6 \<circ> unmix_line 8 \<circ> unmix_line 16 \<circ> unmix_line 19 \<circ> unmix_line 4"

lemma jhash_unmix_mix: "jhash_unmix (jhash_mix p) = p"
  by (simp add: jhash_mix_lines jhash_unmix_def)

lemma jhash_mix_unmix: "jhash_mix (jhash_unmix p) = p"
  by (simp add: jhash_mix_lines jhash_unmix_def)

text \<open>One step of the final mixing, \<open>z ^= y; z -= rot(y, k)\<close>.\<close>

definition final_line :: "nat \<Rightarrow> u32 \<times> u32 \<times> u32 \<Rightarrow> u32 \<times> u32 \<times> u32" where
  "final_line k = (\<lambda>(x, y, z). (y, (z XOR y) - rot32 y k, x))"

definition unfinal_line :: "nat \<Rightarrow> u32 \<times> u32 \<times> u32 \<Rightarrow> u32 \<times> u32 \<times> u32" where
  "unfinal_line k = (\<lambda>(y, v, x). (x, y, (v + rot32 y k) XOR y))"

lemma unfinal_final_line [simp]: "unfinal_line k (final_line k p) = p"
  by (cases p) (simp add: final_line_def unfinal_line_def xor.assoc)

lemma final_unfinal_line [simp]: "final_line k (unfinal_line k p) = p"
  by (cases p) (simp add: final_line_def unfinal_line_def xor.assoc)

lemma jhash_final_lines:
  "(case jhash_final (a, b, c) of (a', b', c') \<Rightarrow> (b', c', a')) =
   (final_line 24 \<circ> final_line 14 \<circ> final_line 4 \<circ> final_line 16 \<circ> final_line 25 \<circ> final_line 11
     \<circ> final_line 14) (a, b, c)"
  by (simp add: jhash_final_def final_line_def Let_def)

definition jhash_unfinal :: "u32 \<times> u32 \<times> u32 \<Rightarrow> u32 \<times> u32 \<times> u32" where
  "jhash_unfinal = (\<lambda>(a', b', c'). (unfinal_line 14 \<circ> unfinal_line 11 \<circ> unfinal_line 25 \<circ> unfinal_line 16
     \<circ> unfinal_line 4 \<circ> unfinal_line 14 \<circ> unfinal_line 24) (b', c', a'))"

lemma jhash_unfinal_final: "jhash_unfinal (jhash_final p) = p"
  using jhash_final_lines [of "fst p" "fst (snd p)" "snd (snd p)"]
  by (cases p; cases "jhash_final p") (simp add: jhash_unfinal_def)

lemma jhash_final_unfinal: "jhash_final (jhash_unfinal q) = q"
proof -
  obtain a b c where abc: "jhash_unfinal q = (a, b, c)"
    by (cases "jhash_unfinal q")
  obtain a' b' c' where q: "q = (a', b', c')"
    by (cases q)
  have "(case jhash_final (a, b, c) of (x, y, z) \<Rightarrow> (y, z, x)) = (b', c', a')"
    unfolding jhash_final_lines by (simp add: abc [symmetric] jhash_unfinal_def q)
  then show ?thesis
    unfolding abc by (simp add: q split: prod.splits)
qed

section \<open>Agreement of the routines\<close>

text \<open>The bytes of a little-endian word.\<close>

definition word_bytes :: "u32 \<Rightarrow> u8 list" where
  "word_bytes w = [ucast w, ucast (drop_bit 8 w), ucast (drop_bit 16 w), ucast (drop_bit 24 w)]"

lemma ucast_drop_bit_8: "(ucast (ucast (drop_bit n (w :: u32)) :: u8) :: u32) = take_bit 8 (drop_bit n w)"
  by (rule bit_word_eqI) (auto simp: bit_simps)

lemma ucast_u8: "(ucast (ucast (w :: u32) :: u8) :: u32) = take_bit 8 w"
  by (rule bit_word_eqI) (auto simp: bit_simps)

lemma bytes_sum_word:
  fixes w :: u32
  shows "take_bit 8 w + push_bit 8 (take_bit 8 (drop_bit 8 w)) + push_bit 16 (take_bit 8 (drop_bit 16 w))
    + push_bit 24 (take_bit 8 (drop_bit 24 w)) = w"
proof -
  have *: "take_bit (m + 8) w = take_bit m w + push_bit m (take_bit 8 (drop_bit m w))" for m
    by (subst disjunctive_add) (auto simp: bit_simps intro!: bit_word_eqI)
  show ?thesis
    using * [of 8] * [of 16] * [of 24] take_bit_word_eq_self [of 32 w] by simp
qed

lemma add_bytes_word:
  "x + push_bit 24 (take_bit 8 (drop_bit 24 w)) + push_bit 16 (take_bit 8 (drop_bit 16 w))
     + push_bit 8 (take_bit 8 (drop_bit 8 w)) + take_bit 8 w = x + (w :: u32)"
  using bytes_sum_word [of w] by (simp add: ac_simps)

lemma length_word_bytes [simp]: "length (word_bytes w) = 4"
  by (simp add: word_bytes_def)

lemma length_words_bytes [simp]: "length (concat (map word_bytes ws)) = 4 * length ws"
  by (induction ws) simp_all

lemma byte_at_word_bytes:
  "byte_at (word_bytes w @ k) 0 = take_bit 8 w"
  "byte_at (word_bytes w @ k) (Suc 0) = take_bit 8 (drop_bit 8 w)"
  "byte_at (word_bytes w @ k) 2 = take_bit 8 (drop_bit 16 w)"
  "byte_at (word_bytes w @ k) 3 = take_bit 8 (drop_bit 24 w)"
  by (simp_all add: byte_at_def word_bytes_def ucast_drop_bit_8 ucast_u8)

lemma byte_at_word_bytes_shift: "4 \<le> i \<Longrightarrow> byte_at (word_bytes w @ k) i = byte_at k (i - 4)"
  by (simp add: byte_at_def nth_append)

lemmas byte_at_simps =
  byte_at_word_bytes byte_at_word_bytes_shift byte_at_word_bytes [where k = "[]", simplified]

lemma jhash_block_words:
  "jhash_block (word_bytes x @ word_bytes y @ word_bytes z @ k) (a, b, c) = (a + x, b + y, c + z)"
  using bytes_sum_word [of x] bytes_sum_word [of y] bytes_sum_word [of z]
  by (simp add: jhash_block_def byte_at_simps)

lemma jhash_loop_words:
  "jhash_loop (concat (map word_bytes ws)) (a, b, c) = jhash2_loop ws (a, b, c)"
proof (induction ws "(a, b, c)" arbitrary: a b c rule: jhash2_loop.induct)
  case (1 k0 k1 k2 k3 ks a b c)
  then show ?case
    by (subst jhash_loop.simps) (cases "jhash_mix (a + k0, b + k1, c + k2)"; simp add: jhash_block_words)
next
  case (2 k0 k1 k2 a b c)
  show ?case
    by (subst jhash_loop.simps)
      (simp add: jhash_switch_def byte_at_simps add_bytes_word)
next
  case (3 k0 k1 a b c)
  show ?case
    by (subst jhash_loop.simps)
      (simp add: jhash_switch_def byte_at_simps add_bytes_word)
next
  case (4 k0 a b c)
  show ?case
    by (subst jhash_loop.simps)
      (simp add: jhash_switch_def byte_at_simps add_bytes_word)
next
  case (5 a b c)
  show ?case
    by (subst jhash_loop.simps) (simp add: jhash_switch_def)
qed

text \<open>A bound on the memory a key occupies: its length is a \<open>u32\<close>.\<close>

lemma push_bit_2_of_nat: "push_bit 2 (of_nat n :: u32) = of_nat (4 * n)"
  by (simp add: push_bit_eq_mult)

section \<open>Properties\<close>

text \<open>\<open>__jhash_mix\<close> mixes three words reversibly, as its comment says, and so does the final
  mixing: both have a two-sided inverse, so no information of the key is lost before \<open>c\<close> is taken.\<close>

theorem jhash_mixing_reversible:
  "jhash_unmix (jhash_mix p) = p \<and> jhash_mix (jhash_unmix p) = p
   \<and> jhash_unfinal (jhash_final p) = p \<and> jhash_final (jhash_unfinal p) = p"
  by (simp add: jhash_unmix_mix jhash_mix_unmix jhash_unfinal_final jhash_final_unfinal)

text \<open>C30: the routines specialised to words agree with the generic one: \<open>jhash2\<close> of any list of words
  is \<open>jhash\<close> of their bytes in memory, and \<open>jhash_3words\<close>, \<open>jhash_2words\<close> and \<open>jhash_1word\<close> are \<open>jhash2\<close>
  of the three words with the length taken out of the initial value.\<close>

theorem jhash_routines_agree:
  "jhash (concat (map word_bytes ws)) initval = jhash2 ws initval
   \<and> jhash_3words a b c initval = jhash2 [a, b, c] (initval - 12)
   \<and> jhash_2words a b initval = jhash2 [0, a, b] (initval - 12)
   \<and> jhash_1word a initval = jhash2 [0, 0, a] (initval - 12)"
proof -
  have "jhash_3words x y z i = jhash2 [x, y, z] (i - 12)" for x y z i
    by (simp add: jhash_3words_def jhash2_def ac_simps)
  moreover have "jhash (concat (map word_bytes ws)) initval = jhash2 ws initval"
    by (simp add: jhash_def jhash2_def jhash_loop_words push_bit_2_of_nat)
  ultimately show ?thesis
    by (simp add: jhash_2words_def jhash_1word_def)
qed

end
