(* ===== verification/Rbtree.thy ===== *)
theory Rbtree
  imports Prelude
begin

text \<open>
  \<open>rbtree.c\<close> and \<open>rbtree.h\<close>: the red-black trees all tools keep their traces in. The nodes are
  intrusive structs with parent pointers; a node pointer is modelled as a position in a tree, that
  is the subtree rooted at the node together with the path from the node up to the root. Following
  a child pointer extends the path, following the parent pointer pops it, and assigning to the
  fields of the node's ancestors edits the path. A dereference of a null pointer is the value
  \<open>None\<close>, so that the theorem that an operation returns also says that it dereferences no null
  pointer.
\<close>

section \<open>Trees and positions\<close>

datatype color = RB_RED | RB_BLACK

datatype 'a rb = Null | Nd color "'a rb" 'a "'a rb"

text \<open>One step of a path: the node is the left (right) child of a parent with this colour, this
  element and this other child.\<close>

datatype 'a crumb = InLeft color 'a "'a rb" | InRight color "'a rb" 'a

type_synonym 'a path = "'a crumb list"

fun up :: "'a crumb \<Rightarrow> 'a rb \<Rightarrow> 'a rb" where
  "up (InLeft c x r) t = Nd c t x r"
| "up (InRight c l x) t = Nd c l x t"

fun plug :: "'a rb \<Rightarrow> 'a path \<Rightarrow> 'a rb" where
  "plug t [] = t"
| "plug t (c # p) = plug (up c t) p"

fun crumb_color :: "'a crumb \<Rightarrow> color" where
  "crumb_color (InLeft c x r) = c"
| "crumb_color (InRight c l x) = c"

fun inorder :: "'a rb \<Rightarrow> 'a list" where
  "inorder Null = []"
| "inorder (Nd c l x r) = inorder l @ x # inorder r"

section \<open>Colours and rotations\<close>

text \<open>\<open>is_red\<close> is \<open>t && rb_is_red(t)\<close>; its negation is \<open>!t || rb_is_black(t)\<close>.\<close>

fun is_red :: "'a rb \<Rightarrow> bool" where
  "is_red Null = False"
| "is_red (Nd c l x r) = (c = RB_RED)"

fun rb_set_color :: "color \<Rightarrow> 'a rb \<Rightarrow> 'a rb" where
  "rb_set_color c Null = Null"
| "rb_set_color c (Nd _ l x r) = Nd c l x r"

abbreviation rb_set_black :: "'a rb \<Rightarrow> 'a rb" where
  "rb_set_black \<equiv> rb_set_color RB_BLACK"

abbreviation rb_set_red :: "'a rb \<Rightarrow> 'a rb" where
  "rb_set_red \<equiv> rb_set_color RB_RED"

text \<open>A rotation at a node gives the subtree that stands in its place.\<close>

fun rb_rotate_left :: "'a rb \<Rightarrow> 'a rb option" where
  "rb_rotate_left (Nd c l x (Nd rc rl y rr)) = Some (Nd rc (Nd c l x rl) y rr)"
| "rb_rotate_left _ = None"

fun rb_rotate_right :: "'a rb \<Rightarrow> 'a rb option" where
  "rb_rotate_right (Nd c (Nd lc ll y lr) x r) = Some (Nd lc ll y (Nd c lr x r))"
| "rb_rotate_right _ = None"

section \<open>Insertion\<close>

text \<open>
  The loop of \<open>rb_insert_color\<close>, at the position of \<open>node\<close>. After a rotation the loop goes on at
  \<open>node\<close>, now below the black former parent, and ends there. A red parent without a parent of its
  own is the null dereference \<open>gparent->rb_left\<close>.
\<close>

function rb_insert_color :: "'a rb \<Rightarrow> 'a path \<Rightarrow> 'a rb option" where
  "rb_insert_color node [] = Some (rb_set_black node)"
| "rb_insert_color node [c1] =
     (if crumb_color c1 = RB_RED then None else Some (rb_set_black (plug node [c1])))"
| "rb_insert_color node (c1 # InLeft gc g uncle # rest) =
     (if crumb_color c1 = RB_BLACK then Some (rb_set_black (plug node (c1 # InLeft gc g uncle # rest)))
      else if is_red uncle
      then rb_insert_color (Nd RB_RED (rb_set_black (up c1 node)) g (rb_set_black uncle)) rest
      else do {
        parent \<leftarrow> (case c1 of InRight _ _ _ \<Rightarrow> rb_rotate_left (up c1 node) | InLeft _ _ _ \<Rightarrow> Some (up c1 node));
        top \<leftarrow> rb_rotate_right (Nd RB_RED (rb_set_black parent) g uncle);
        case top of Null \<Rightarrow> None | Nd c l x r \<Rightarrow> rb_insert_color l (InLeft c x r # rest)
      })"
| "rb_insert_color node (c1 # InRight gc uncle g # rest) =
     (if crumb_color c1 = RB_BLACK then Some (rb_set_black (plug node (c1 # InRight gc uncle g # rest)))
      else if is_red uncle
      then rb_insert_color (Nd RB_RED (rb_set_black uncle) g (rb_set_black (up c1 node))) rest
      else do {
        parent \<leftarrow> (case c1 of InLeft _ _ _ \<Rightarrow> rb_rotate_right (up c1 node) | InRight _ _ _ \<Rightarrow> Some (up c1 node));
        top \<leftarrow> rb_rotate_left (Nd RB_RED uncle g (rb_set_black parent));
        case top of Null \<Rightarrow> None | Nd c l x r \<Rightarrow> rb_insert_color r (InRight c l x # rest)
      })"
  by pat_completeness auto
termination
  by (relation "measure (\<lambda>(_, p). length p)") auto

text \<open>
  The \<open>while (*p)\<close> descents of the clients: the path to the empty slot that \<open>rb_link_node\<close> fills.
  \<open>goes_left y\<close> is the client's test at a node with element \<open>y\<close>.
\<close>

fun rb_slot :: "('a \<Rightarrow> bool) \<Rightarrow> 'a rb \<Rightarrow> 'a path \<Rightarrow> 'a path" where
  "rb_slot goes_left Null p = p"
| "rb_slot goes_left (Nd c l y r) p =
     (if goes_left y then rb_slot goes_left l (InLeft c y r # p) else rb_slot goes_left r (InRight c l y # p))"

text \<open>\<open>rb_link_node\<close> stores a red node without children in the slot; \<open>rb_insert_color\<close> follows at
  every call site.\<close>

definition rb_link_insert :: "'a \<Rightarrow> 'a path \<Rightarrow> 'a rb option" where
  "rb_link_insert x p = rb_insert_color (Nd RB_RED Null x Null) p"

section \<open>Removal\<close>

datatype 'a erase_step = Climb "'a rb" "'a path" | Break "'a rb"

text \<open>The branch \<open>parent->rb_left == node\<close> once \<open>other\<close> is not red: parent \<open>(pc, p)\<close>.\<close>

fun erase_left :: "'a rb \<Rightarrow> color \<Rightarrow> 'a \<Rightarrow> 'a rb \<Rightarrow> 'a path \<Rightarrow> 'a erase_step option" where
  "erase_left node pc p Null rest = None"
| "erase_left node pc p (Nd oc ol ox orr) rest =
     (if \<not> is_red ol \<and> \<not> is_red orr then Some (Climb (Nd pc node p (Nd RB_RED ol ox orr)) rest)
      else do {
        other \<leftarrow> (if \<not> is_red orr then rb_rotate_right (Nd RB_RED (rb_set_black ol) ox orr)
                   else Some (Nd oc ol ox orr));
        (case other of Null \<Rightarrow> None
         | Nd _ ol' ox' or' \<Rightarrow> do {
             top \<leftarrow> rb_rotate_left (Nd RB_BLACK node p (Nd pc ol' ox' (rb_set_black or')));
             Some (Break (plug top rest)) })
      })"

fun erase_right :: "'a rb \<Rightarrow> color \<Rightarrow> 'a \<Rightarrow> 'a rb \<Rightarrow> 'a path \<Rightarrow> 'a erase_step option" where
  "erase_right node pc p Null rest = None"
| "erase_right node pc p (Nd oc ol ox orr) rest =
     (if \<not> is_red ol \<and> \<not> is_red orr then Some (Climb (Nd pc (Nd RB_RED ol ox orr) p node) rest)
      else do {
        other \<leftarrow> (if \<not> is_red ol then rb_rotate_left (Nd RB_RED ol ox (rb_set_black orr))
                   else Some (Nd oc ol ox orr));
        (case other of Null \<Rightarrow> None
         | Nd _ ol' ox' or' \<Rightarrow> do {
             top \<leftarrow> rb_rotate_right (Nd RB_BLACK (Nd pc (rb_set_black ol') ox' or') p node);
             Some (Break (plug top rest)) })
      })"

text \<open>
  One iteration of \<open>__rb_erase_color\<close>, for the parent that the path's first step describes. When
  \<open>node\<close> is a null right child and its sibling is null as well, the test \<open>parent->rb_left == node\<close>
  succeeds and \<open>other\<close> is the null pointer: the first case of the second equation.
\<close>

fun erase_body :: "'a rb \<Rightarrow> 'a crumb \<Rightarrow> 'a path \<Rightarrow> 'a erase_step option" where
  "erase_body node (InLeft pc p other) rest =
     (if other = Null then None
      else if is_red other then do {
        top \<leftarrow> rb_rotate_left (Nd RB_RED node p (rb_set_black other));
        (case top of Nd c (Nd _ _ _ other') x r \<Rightarrow> erase_left node RB_RED p other' (InLeft c x r # rest)
         | _ \<Rightarrow> None) }
      else erase_left node pc p other rest)"
| "erase_body node (InRight pc other p) rest =
     (if other = Null then None
      else if is_red other then do {
        top \<leftarrow> rb_rotate_right (Nd RB_RED (rb_set_black other) p node);
        (case top of Nd c l x (Nd _ other' _ _) \<Rightarrow> erase_right node RB_RED p other' (InRight c l x # rest)
         | _ \<Rightarrow> None) }
      else erase_right node pc p other rest)"

lemma erase_left_climb:
  "erase_left node pc p other rest = Some (Climb n q) \<Longrightarrow>
     q = rest \<and> (pc = RB_RED \<longrightarrow> is_red n) \<and> \<not> is_red n = (pc = RB_BLACK)"
  by (cases other; cases pc) (auto split: if_splits bind_splits rb.splits)

lemma erase_right_climb:
  "erase_right node pc p other rest = Some (Climb n q) \<Longrightarrow>
     q = rest \<and> (pc = RB_RED \<longrightarrow> is_red n) \<and> \<not> is_red n = (pc = RB_BLACK)"
  by (cases other; cases pc) (auto split: if_splits bind_splits rb.splits)

lemma erase_body_climb:
  "erase_body node c rest = Some (Climb n q) \<Longrightarrow> q = rest \<or> is_red n \<and> length q = Suc (length rest)"
  by (cases c) (auto split: if_splits bind_splits rb.splits dest!: erase_left_climb erase_right_climb)

function rb_erase_color :: "'a rb \<Rightarrow> 'a path \<Rightarrow> 'a rb option" where
  "rb_erase_color node [] = Some (rb_set_black node)"
| "rb_erase_color node (c # rest) =
     (if is_red node then Some (plug (rb_set_black node) (c # rest))
      else case erase_body node c rest of
        None \<Rightarrow> None
      | Some (Break t) \<Rightarrow> Some (rb_set_black t)
      | Some (Climb n q) \<Rightarrow> rb_erase_color n q)"
  by pat_completeness auto
termination
  by (relation "measure (\<lambda>(n, p). 2 * length p + (if is_red n then 0 else 1))")
    (auto dest!: erase_body_climb)

text \<open>Following the left (right) pointers down.\<close>

fun go_left :: "'a rb \<Rightarrow> 'a path \<Rightarrow> 'a rb \<times> 'a path" where
  "go_left (Nd c (Nd c' l' x' r') x r) p = go_left (Nd c' l' x' r') (InLeft c x r # p)"
| "go_left t p = (t, p)"

fun go_right :: "'a rb \<Rightarrow> 'a path \<Rightarrow> 'a rb \<times> 'a path" where
  "go_right (Nd c l x (Nd c' l' x' r')) p = go_right (Nd c' l' x' r') (InRight c l x # p)"
| "go_right t p = (t, p)"

text \<open>The tail of \<open>rb_erase\<close>: \<open>child\<close> takes the place of the unlinked node of colour \<open>c\<close>.\<close>

definition erase_unlink :: "color \<Rightarrow> 'a rb \<Rightarrow> 'a path \<Rightarrow> 'a rb option" where
  "erase_unlink c child p =
     (if c = RB_BLACK then rb_erase_color child p else Some (plug child p))"

fun rb_erase :: "'a rb \<Rightarrow> 'a path \<Rightarrow> 'a rb option" where
  "rb_erase Null p = None"
| "rb_erase (Nd c l x r) p =
     (if l = Null then erase_unlink c r p
      else if r = Null then erase_unlink c l p
      else case go_left r [] of
             (Nd sc _ y child, q) \<Rightarrow> erase_unlink sc child (q @ InRight c l y # p)
           | (Null, _) \<Rightarrow> None)"

section \<open>Traversal and replacement\<close>

definition rb_first :: "'a rb \<Rightarrow> ('a rb \<times> 'a path) option" where
  "rb_first root = (if root = Null then None else Some (go_left root []))"

definition rb_last :: "'a rb \<Rightarrow> ('a rb \<times> 'a path) option" where
  "rb_last root = (if root = Null then None else Some (go_right root []))"

fun climb_next :: "'a rb \<Rightarrow> 'a path \<Rightarrow> ('a rb \<times> 'a path) option" where
  "climb_next t [] = None"
| "climb_next t (InRight c l x # p) = climb_next (Nd c l x t) p"
| "climb_next t (InLeft c x r # p) = Some (Nd c t x r, p)"

fun climb_prev :: "'a rb \<Rightarrow> 'a path \<Rightarrow> ('a rb \<times> 'a path) option" where
  "climb_prev t [] = None"
| "climb_prev t (InLeft c x r # p) = climb_prev (Nd c t x r) p"
| "climb_prev t (InRight c l x # p) = Some (Nd c l x t, p)"

text \<open>The test \<open>rb_parent(node) == node\<close> of a node outside every tree has no counterpart: a position
  is always in a tree.\<close>

fun rb_next :: "'a rb \<Rightarrow> 'a path \<Rightarrow> ('a rb \<times> 'a path) option" where
  "rb_next Null p = None"
| "rb_next (Nd c l x r) p =
     (if r \<noteq> Null then Some (go_left r (InRight c l x # p)) else climb_next (Nd c l x r) p)"

fun rb_prev :: "'a rb \<Rightarrow> 'a path \<Rightarrow> ('a rb \<times> 'a path) option" where
  "rb_prev Null p = None"
| "rb_prev (Nd c l x r) p =
     (if l \<noteq> Null then Some (go_right l (InLeft c x r # p)) else climb_prev (Nd c l x r) p)"

fun rb_replace_node :: "'a rb \<Rightarrow> 'a path \<Rightarrow> 'a \<Rightarrow> 'a rb option" where
  "rb_replace_node Null p new = None"
| "rb_replace_node (Nd c l x r) p new = Some (plug (Nd c l new r) p)"

section \<open>Contents\<close>

fun lctx :: "'a path \<Rightarrow> 'a list" where
  "lctx [] = []"
| "lctx (InLeft c x r # p) = lctx p"
| "lctx (InRight c l x # p) = lctx p @ inorder l @ [x]"

fun rctx :: "'a path \<Rightarrow> 'a list" where
  "rctx [] = []"
| "rctx (InLeft c x r # p) = x # inorder r @ rctx p"
| "rctx (InRight c l x # p) = rctx p"

lemma inorder_plug [simp]: "inorder (plug t p) = lctx p @ inorder t @ rctx p"
proof (induction p arbitrary: t)
  case (Cons c p)
  then show ?case
    by (cases c) simp_all
qed simp

lemma lctx_append [simp]: "lctx (p @ q) = lctx q @ lctx p"
proof (induction p)
  case (Cons c p)
  then show ?case
    by (cases c) simp_all
qed simp

lemma rctx_append [simp]: "rctx (p @ q) = rctx p @ rctx q"
proof (induction p)
  case (Cons c p)
  then show ?case
    by (cases c) simp_all
qed simp

lemma inorder_set_color [simp]: "inorder (rb_set_color c t) = inorder t"
  by (cases t) simp_all

lemma inorder_up [simp]: "inorder (up c t) = lctx [c] @ inorder t @ rctx [c]"
  by (cases c) simp_all

lemma rotate_left_inorder [dest]: "rb_rotate_left t = Some u \<Longrightarrow> inorder u = inorder t"
  by (erule rb_rotate_left.elims) auto

lemma rotate_right_inorder [dest]: "rb_rotate_right t = Some u \<Longrightarrow> inorder u = inorder t"
  by (erule rb_rotate_right.elims) auto

lemma plug_append [simp]: "plug t (p @ q) = plug (plug t p) q"
  by (induction p arbitrary: t) simp_all

text \<open>The iterations of \<open>rb_insert_color\<close>, by the positions of the node and of its parent.\<close>

lemma rb_insert_color_black:
  "crumb_color c1 = RB_BLACK \<Longrightarrow>
     rb_insert_color node (c1 # p) = Some (rb_set_black (plug node (c1 # p)))"
  by (cases "(node, c1 # p)" rule: rb_insert_color.cases) (simp_all del: plug.simps)

lemma rb_insert_color_red_uncle:
  assumes "crumb_color c1 = RB_RED"
  shows "is_red uncle \<Longrightarrow> rb_insert_color node (c1 # InLeft gc g uncle # rest) =
      rb_insert_color (Nd RB_RED (rb_set_black (up c1 node)) g (rb_set_black uncle)) rest"
    and "is_red uncle \<Longrightarrow> rb_insert_color node (c1 # InRight gc uncle g # rest) =
      rb_insert_color (Nd RB_RED (rb_set_black uncle) g (rb_set_black (up c1 node))) rest"
  using assms by simp_all

lemma rb_insert_color_rotate:
  assumes "\<not> is_red u"
  shows "rb_insert_color n' (InLeft RB_RED x xr # InLeft gc g u # rest) =
      rb_insert_color n' (InLeft RB_BLACK x (Nd RB_RED xr g u) # rest)"
    and "rb_insert_color (Nd nc nl n nr) (InRight RB_RED xl x # InLeft gc g u # rest) =
      rb_insert_color (Nd RB_RED xl x nl) (InLeft RB_BLACK n (Nd RB_RED nr g u) # rest)"
    and "rb_insert_color n' (InRight RB_RED xl x # InRight gc u g # rest) =
      rb_insert_color n' (InRight RB_BLACK (Nd RB_RED u g xl) x # rest)"
    and "rb_insert_color (Nd nc nl n nr) (InLeft RB_RED x xr # InRight gc u g # rest) =
      rb_insert_color (Nd RB_RED nr x xr) (InRight RB_BLACK (Nd RB_RED u g nl) n # rest)"
  using assms by simp_all

text \<open>Case analysis on an iteration: the parent is the root, it is black, it is red with a red uncle,
  or it is red with a black uncle.\<close>

lemma insert_path_cases:
  obtains "p = []"
  | c1 q where "p = c1 # q" "crumb_color c1 = RB_BLACK"
  | c1 where "p = [c1]" "crumb_color c1 = RB_RED"
  | c1 gc g u rest where "p = c1 # InLeft gc g u # rest" "crumb_color c1 = RB_RED" "is_red u"
  | c1 gc g u rest where "p = c1 # InRight gc u g # rest" "crumb_color c1 = RB_RED" "is_red u"
  | x xr gc g u rest where "p = InLeft RB_RED x xr # InLeft gc g u # rest" "\<not> is_red u"
  | x xl gc g u rest where "p = InRight RB_RED xl x # InLeft gc g u # rest" "\<not> is_red u"
  | x xr gc g u rest where "p = InLeft RB_RED x xr # InRight gc u g # rest" "\<not> is_red u"
  | x xl gc g u rest where "p = InRight RB_RED xl x # InRight gc u g # rest" "\<not> is_red u"
proof (cases p)
  case Nil
  then show ?thesis
    by (rule that(1))
next
  case p: (Cons c1 q)
  show ?thesis
  proof (cases "crumb_color c1")
    case RB_BLACK
    with p show ?thesis
      by (rule that(2))
  next
    case red: RB_RED
    show ?thesis
    proof (cases q)
      case Nil
      with p red show ?thesis
        using that(3) by simp
    next
      case q: (Cons c2 rest)
      show ?thesis
      proof (cases c2)
        case c2: (InLeft gc g u)
        show ?thesis
          using p q c2 red that(4,6,7) by (cases c1; cases "is_red u") simp_all
      next
        case c2: (InRight gc u g)
        show ?thesis
          using p q c2 red that(5,8,9) by (cases c1; cases "is_red u") simp_all
      qed
    qed
  qed
qed

lemma rb_insert_color_inorder:
  "rb_insert_color node p = Some t \<Longrightarrow> node \<noteq> Null \<Longrightarrow> inorder t = inorder (plug node p)"
proof (induction "length p" arbitrary: node p rule: less_induct)
  case less
  obtain nc nl n nr where node: "node = Nd nc nl n nr"
    using less.prems(2) by (cases node) auto
  have IH: "inorder t = lctx q @ inorder m @ rctx q"
    if "rb_insert_color m q = Some t" "length q < length p" "m \<noteq> Null" for m q
    using less.hyps [OF that(2,1,3)] by simp
  note eqs = node rb_insert_color_red_uncle rb_insert_color_rotate
  show ?case
  proof (cases p rule: insert_path_cases)
    case 1
    then show ?thesis
      using less.prems by auto
  next
    case (2 c1 q)
    then show ?thesis
      using less.prems by (auto simp: rb_insert_color_black simp del: plug.simps)
  next
    case (3 c1)
    with less.prems(1) show ?thesis
      by simp
  next
    case (4 c1 gc g u rest)
    with less.prems(1) show ?thesis
      by (cases c1) (simp_all add: eqs IH del: rb_insert_color.simps)
  next
    case (5 c1 gc g u rest)
    with less.prems(1) show ?thesis
      by (cases c1) (simp_all add: eqs IH del: rb_insert_color.simps)
  next
    case (6 x xr gc g u rest)
    with less.prems(1) have "rb_insert_color node (InLeft RB_BLACK x (Nd RB_RED xr g u) # rest) = Some t"
      by (simp add: rb_insert_color_rotate del: rb_insert_color.simps)
    with 6 show ?thesis
      by (simp add: IH less.prems(2))
  next
    case (7 x xl gc g u rest)
    with less.prems(1) have "rb_insert_color (Nd RB_RED xl x nl) (InLeft RB_BLACK n (Nd RB_RED nr g u) # rest) = Some t"
      by (simp add: node rb_insert_color_rotate del: rb_insert_color.simps)
    with 7 show ?thesis
      by (simp add: IH node)
  next
    case (8 x xr gc g u rest)
    with less.prems(1) have "rb_insert_color (Nd RB_RED nr x xr) (InRight RB_BLACK (Nd RB_RED u g nl) n # rest) = Some t"
      by (simp add: node rb_insert_color_rotate del: rb_insert_color.simps)
    with 8 show ?thesis
      by (simp add: IH node)
  next
    case (9 x xl gc g u rest)
    with less.prems(1) have "rb_insert_color node (InRight RB_BLACK (Nd RB_RED u g xl) x # rest) = Some t"
      by (simp add: rb_insert_color_rotate del: rb_insert_color.simps)
    with 9 show ?thesis
      by (simp add: IH less.prems(2))
  qed
qed

section \<open>Balance\<close>

fun bh :: "'a rb \<Rightarrow> nat" where
  "bh Null = 0"
| "bh (Nd c l x r) = bh l + (if c = RB_BLACK then 1 else 0)"

fun balanced :: "'a rb \<Rightarrow> bool" where
  "balanced Null = True"
| "balanced (Nd c l x r) \<longleftrightarrow> balanced l \<and> balanced r \<and> bh l = bh r
     \<and> (c = RB_RED \<longrightarrow> \<not> is_red l \<and> \<not> is_red r)"

text \<open>The trees the operations maintain: no red node has a red child, all paths have the same number
  of black nodes, and the root is black.\<close>

definition rb_inv :: "'a rb \<Rightarrow> bool" where
  "rb_inv t \<longleftrightarrow> balanced t \<and> \<not> is_red t"

text \<open>A path that accepts a subtree of black height \<open>h\<close>, which may be red when \<open>red\<close> holds.\<close>

fun path_inv :: "bool \<Rightarrow> nat \<Rightarrow> 'a path \<Rightarrow> bool" where
  "path_inv red h [] \<longleftrightarrow> \<not> red"
| "path_inv red h (InLeft c x r # p) \<longleftrightarrow> balanced r \<and> bh r = h
     \<and> (c = RB_RED \<longrightarrow> \<not> red \<and> \<not> is_red r) \<and> path_inv (c = RB_RED) (if c = RB_BLACK then Suc h else h) p"
| "path_inv red h (InRight c l x # p) \<longleftrightarrow> balanced l \<and> bh l = h
     \<and> (c = RB_RED \<longrightarrow> \<not> red \<and> \<not> is_red l) \<and> path_inv (c = RB_RED) (if c = RB_BLACK then Suc h else h) p"

lemma path_inv_weaken: "path_inv red h p \<Longrightarrow> path_inv False h p"
  by (cases "(red, h, p)" rule: path_inv.cases) auto

lemma balanced_plug:
  "rb_inv (plug t p) \<longleftrightarrow> balanced t \<and> path_inv (is_red t) (bh t) p"
proof (induction p arbitrary: t)
  case Nil
  then show ?case
    by (simp add: rb_inv_def)
next
  case (Cons c p)
  then show ?case
    by (cases c; auto)
qed

lemma balanced_set_black [simp]: "balanced t \<Longrightarrow> balanced (rb_set_black t)"
  by (cases t) simp_all

lemma bh_set_black: "bh (rb_set_black t) = (if is_red t then Suc (bh t) else bh t)"
  by (cases t) (auto intro: color.exhaust)

lemma is_red_set_black [simp]: "\<not> is_red (rb_set_black t)"
  by (cases t) simp_all

lemma rb_set_black_id: "\<not> is_red t \<Longrightarrow> rb_set_black t = t"
  by (cases t) (auto intro: color.exhaust)

lemma is_red_iff: "is_red t \<longleftrightarrow> (\<exists>l x r. t = Nd RB_RED l x r)"
  by (cases t) auto

lemma rb_inv_set_black: "balanced t \<Longrightarrow> rb_inv (rb_set_black t)"
  by (simp add: rb_inv_def)

lemma rb_inv_black_root: "rb_inv t \<Longrightarrow> rb_set_black t = t"
  by (simp add: rb_inv_def rb_set_black_id)

lemma not_red_black: "c \<noteq> RB_RED \<longleftrightarrow> c = RB_BLACK"
  by (cases c) simp_all

lemma rb_insert_color_balanced:
  assumes "balanced node" and "is_red node" and "path_inv False (bh node) p"
  shows "\<exists>t. rb_insert_color node p = Some t \<and> rb_inv t"
  using assms
proof (induction "length p" arbitrary: node p rule: less_induct)
  case less
  obtain nl n nr where node: "node = Nd RB_RED nl n nr"
    using less.prems(2) by (auto simp: is_red_iff)
  have IH: "\<exists>t. rb_insert_color m q = Some t \<and> rb_inv t"
    if "length q < length p" "balanced m" "is_red m" "path_inv False (bh m) q" for m :: "'a rb" and q
    using less.hyps [OF that] .
  show ?case
  proof (cases p rule: insert_path_cases)
    case 1
    then show ?thesis
      using less.prems by (auto simp: rb_inv_set_black)
  next
    case (2 c1 q)
    then have "rb_inv (plug node p)"
      using less.prems unfolding balanced_plug by (cases c1) (auto simp: 2)
    with 2 show ?thesis
      by (simp add: rb_insert_color_black rb_inv_black_root del: plug.simps)
  next
    case (3 c1)
    with less.prems(3) show ?thesis
      by (cases c1) auto
  next
    case (4 c1 gc g u rest)
    then have "gc = RB_BLACK"
      using less.prems(3) by (cases c1) (auto intro: color.exhaust [of gc])
    with 4 show ?thesis
      using less.prems
      by (cases c1; simp add: node rb_insert_color_red_uncle del: rb_insert_color.simps)
        (rule IH; simp add: bh_set_black)+
  next
    case (5 c1 gc g u rest)
    then have "gc = RB_BLACK"
      using less.prems(3) by (cases c1) (auto intro: color.exhaust [of gc])
    with 5 show ?thesis
      using less.prems
      by (cases c1; simp add: node rb_insert_color_red_uncle del: rb_insert_color.simps)
        (rule IH; simp add: bh_set_black)+
  next
    case (6 x xr gc g u rest)
    then have "gc = RB_BLACK"
      using less.prems(3) by (auto intro: color.exhaust [of gc])
    with 6 show ?thesis
      using less.prems
      by (simp add: node rb_insert_color_rotate del: rb_insert_color.simps) (rule IH; simp)
  next
    case (7 x xl gc g u rest)
    then have "gc = RB_BLACK"
      using less.prems(3) by (auto intro: color.exhaust [of gc])
    with 7 show ?thesis
      using less.prems
      by (simp add: node rb_insert_color_rotate del: rb_insert_color.simps) (rule IH; simp)
  next
    case (8 x xr gc g u rest)
    then have "gc = RB_BLACK"
      using less.prems(3) by (auto intro: color.exhaust [of gc])
    with 8 show ?thesis
      using less.prems
      by (simp add: node rb_insert_color_rotate del: rb_insert_color.simps) (rule IH; simp)
  next
    case (9 x xl gc g u rest)
    then have "gc = RB_BLACK"
      using less.prems(3) by (auto intro: color.exhaust [of gc])
    with 9 show ?thesis
      using less.prems
      by (simp add: node rb_insert_color_rotate del: rb_insert_color.simps) (rule IH; simp)
  qed
qed

lemma rb_slot_plug [simp]: "plug Null (rb_slot f t p) = plug t p"
  by (induction f t p rule: rb_slot.induct) simp_all

lemma path_inv_slot: "rb_inv t \<Longrightarrow> path_inv False 0 (rb_slot f t [])"
  using balanced_plug [of Null "rb_slot f t []"] by simp

lemma rb_link_insert_ok:
  assumes "rb_inv t"
  shows "\<exists>u. rb_link_insert x (rb_slot f t []) = Some u \<and> rb_inv u
    \<and> inorder u = lctx (rb_slot f t []) @ x # rctx (rb_slot f t [])"
proof -
  have "path_inv False (bh (Nd RB_RED Null x Null)) (rb_slot f t [])"
    using path_inv_slot [OF assms] by simp
  then obtain u where u: "rb_insert_color (Nd RB_RED Null x Null) (rb_slot f t []) = Some u" "rb_inv u"
    using rb_insert_color_balanced [of "Nd RB_RED Null x Null" "rb_slot f t []"] by auto
  then show ?thesis
    using rb_insert_color_inorder [OF u(1)] by (simp add: rb_link_insert_def)
qed

text \<open>The slot splits the contents: what precedes it and what follows it.\<close>

lemma slot_contents: "lctx (rb_slot f t []) @ rctx (rb_slot f t []) = inorder t"
  using inorder_plug [of Null "rb_slot f t []"] by simp

text \<open>When the test is monotone along the contents, the slot is at its boundary.\<close>

lemma rb_slot_boundary:
  assumes "sorted_wrt (\<lambda>x y. f x \<longrightarrow> f y) (inorder t)"
  shows "(\<forall>z \<in> set (lctx (rb_slot f t p)). z \<in> set (lctx p) \<or> \<not> f z)
    \<and> (\<forall>z \<in> set (rctx (rb_slot f t p)). z \<in> set (rctx p) \<or> f z)"
  using assms
proof (induction f t p rule: rb_slot.induct)
  case (2 f c l y r p)
  have sorted: "sorted_wrt (\<lambda>x y. f x \<longrightarrow> f y) (inorder l)" "sorted_wrt (\<lambda>x y. f x \<longrightarrow> f y) (inorder r)"
    and sides: "\<And>z. z \<in> set (inorder r) \<Longrightarrow> f y \<Longrightarrow> f z" "\<And>z. z \<in> set (inorder l) \<Longrightarrow> f z \<Longrightarrow> f y"
  proof -
    define R where "R = (\<lambda>x y. f x \<longrightarrow> f y)"
    have R: "sorted_wrt R (inorder l)" "sorted_wrt R (inorder r)"
      "\<forall>z \<in> set (inorder l). R z y" "\<forall>z \<in> set (inorder r). R y z"
      using 2(3) unfolding R_def [symmetric] by (simp_all add: sorted_wrt_append)
    show "sorted_wrt (\<lambda>x y. f x \<longrightarrow> f y) (inorder l)" "sorted_wrt (\<lambda>x y. f x \<longrightarrow> f y) (inorder r)"
      using R(1,2) unfolding R_def .
    show "\<And>z. z \<in> set (inorder r) \<Longrightarrow> f y \<Longrightarrow> f z" "\<And>z. z \<in> set (inorder l) \<Longrightarrow> f z \<Longrightarrow> f y"
      using R(3,4) unfolding R_def by blast+
  qed
  show ?case
  proof (cases "f y")
    case True
    then have "\<forall>z \<in> set (inorder r). f z"
      using sides(1) by blast
    then show ?thesis
      using 2(1) [OF True sorted(1)] True by auto
  next
    case False
    then have "\<forall>z \<in> set (inorder l). \<not> f z"
      using sides(2) by blast
    then show ?thesis
      using 2(2) [OF False sorted(2)] False by auto
  qed
qed simp

lemma rb_slot_split:
  assumes "sorted_wrt (\<lambda>x y. f x \<longrightarrow> f y) (inorder t)"
  shows "y \<in> set (lctx (rb_slot f t [])) \<Longrightarrow> \<not> f y"
    and "y \<in> set (rctx (rb_slot f t [])) \<Longrightarrow> f y"
  using rb_slot_boundary [OF assms, where p = "[]"] unfolding lctx.simps rctx.simps list.set by blast+

section \<open>Removal\<close>

definition step_ok :: "'a list \<Rightarrow> 'a erase_step option \<Rightarrow> bool" where
  "step_ok xs s = (case s of None \<Rightarrow> False
     | Some (Climb n q) \<Rightarrow> balanced (rb_set_black n) \<and> path_inv False (Suc (bh n)) q \<and> lctx q @ inorder n @ rctx q = xs
     | Some (Break t) \<Rightarrow> rb_inv t \<and> inorder t = xs)"

lemma erase_left_ok:
  assumes "balanced node" "\<not> is_red node" "balanced other" "\<not> is_red other" "bh other = Suc (bh node)"
    and "path_inv (pc = RB_RED) (if pc = RB_BLACK then Suc (bh other) else bh other) rest"
  shows "step_ok (lctx rest @ inorder node @ p # inorder other @ rctx rest) (erase_left node pc p other rest)"
proof -
  obtain ol ox orr where other: "other = Nd RB_BLACK ol ox orr"
    using assms(4,5) by (cases other) (auto intro: color.exhaust)
  show ?thesis
  proof (cases "\<not> is_red ol \<and> \<not> is_red orr")
    case True
    then show ?thesis
      using assms path_inv_weaken [of True _ rest] unfolding other
      by (cases pc) (auto simp: step_ok_def)
  next
    case False
    show ?thesis
    proof (cases "is_red orr")
      case True
      then obtain a z b where orr: "orr = Nd RB_RED a z b"
        by (auto simp: is_red_iff)
      have "rb_inv (plug (Nd pc (Nd RB_BLACK node p ol) ox (Nd RB_BLACK a z b)) rest)"
        unfolding balanced_plug using assms orr other by (cases pc) auto
      then show ?thesis
        using True False by (simp add: other orr step_ok_def)
    next
      case right: False
      with False obtain a z b where ol: "ol = Nd RB_RED a z b"
        by (auto simp: is_red_iff)
      have "rb_inv (plug (Nd pc (Nd RB_BLACK node p a) z (Nd RB_BLACK b ox orr)) rest)"
        unfolding balanced_plug using assms ol other right by (cases pc) auto
      then show ?thesis
        using right False by (simp add: other ol step_ok_def)
    qed
  qed
qed

lemma erase_right_ok:
  assumes "balanced node" "\<not> is_red node" "balanced other" "\<not> is_red other" "bh other = Suc (bh node)"
    and "path_inv (pc = RB_RED) (if pc = RB_BLACK then Suc (bh other) else bh other) rest"
  shows "step_ok (lctx rest @ inorder other @ p # inorder node @ rctx rest) (erase_right node pc p other rest)"
proof -
  obtain ol ox orr where other: "other = Nd RB_BLACK ol ox orr"
    using assms(4,5) by (cases other) (auto intro: color.exhaust)
  show ?thesis
  proof (cases "\<not> is_red ol \<and> \<not> is_red orr")
    case True
    then show ?thesis
      using assms path_inv_weaken [of True _ rest] unfolding other
      by (cases pc) (auto simp: step_ok_def)
  next
    case False
    show ?thesis
    proof (cases "is_red ol")
      case True
      then obtain a z b where ol: "ol = Nd RB_RED a z b"
        by (auto simp: is_red_iff)
      have "rb_inv (plug (Nd pc (Nd RB_BLACK a z b) ox (Nd RB_BLACK orr p node)) rest)"
        unfolding balanced_plug using assms ol other by (cases pc) auto
      then show ?thesis
        using True False by (simp add: other ol step_ok_def)
    next
      case left: False
      with False obtain a z b where orr: "orr = Nd RB_RED a z b"
        by (auto simp: is_red_iff)
      have "rb_inv (plug (Nd pc (Nd RB_BLACK ol ox a) z (Nd RB_BLACK b p node)) rest)"
        unfolding balanced_plug using assms orr other left by (cases pc) auto
      then show ?thesis
        using left False by (simp add: other orr step_ok_def)
    qed
  qed
qed

lemma erase_body_ok:
  assumes "balanced node" "\<not> is_red node" "path_inv False (Suc (bh node)) (c # rest)"
  shows "step_ok (lctx (c # rest) @ inorder node @ rctx (c # rest)) (erase_body node c rest)"
proof (cases c)
  case c: (InLeft pc p other)
  have other: "other \<noteq> Null" "balanced other" "bh other = Suc (bh node)"
    using assms(3) c by auto
  show ?thesis
  proof (cases "is_red other")
    case True
    then obtain ol ox orr where o: "other = Nd RB_RED ol ox orr"
      by (auto simp: is_red_iff)
    then have "pc = RB_BLACK"
      using assms(3) c by (cases pc) auto
    with assms(3) c o have child: "balanced ol" "\<not> is_red ol" "bh ol = Suc (bh node)"
      and path: "path_inv (RB_RED = RB_RED) (if RB_RED = RB_BLACK then Suc (bh ol) else bh ol) (InLeft RB_BLACK ox orr # rest)"
      by auto
    from child(3) obtain oc a z b where "ol = Nd oc a z b"
      by (cases ol) auto
    with \<open>pc = RB_BLACK\<close> show ?thesis
      using erase_left_ok [OF assms(1,2) child path, of p] o c by (simp del: erase_left.simps)
  next
    case False
    then show ?thesis
      using assms other c erase_left_ok [of node other pc rest p]
      by (cases pc) (simp_all del: erase_left.simps)
  qed
next
  case c: (InRight pc other p)
  have other: "other \<noteq> Null" "balanced other" "bh other = Suc (bh node)"
    using assms(3) c by auto
  show ?thesis
  proof (cases "is_red other")
    case True
    then obtain ol ox orr where o: "other = Nd RB_RED ol ox orr"
      by (auto simp: is_red_iff)
    then have "pc = RB_BLACK"
      using assms(3) c by (cases pc) auto
    with assms(3) c o have child: "balanced orr" "\<not> is_red orr" "bh orr = Suc (bh node)"
      and path: "path_inv (RB_RED = RB_RED) (if RB_RED = RB_BLACK then Suc (bh orr) else bh orr) (InRight RB_BLACK ol ox # rest)"
      by auto
    from child(3) obtain oc a z b where "orr = Nd oc a z b"
      by (cases orr) auto
    with \<open>pc = RB_BLACK\<close> show ?thesis
      using erase_right_ok [OF assms(1,2) child path, of p] o c by (simp del: erase_right.simps)
  next
    case False
    then show ?thesis
      using assms other c erase_right_ok [of node other pc rest p]
      by (cases pc) (simp_all del: erase_right.simps)
  qed
qed

lemma rb_erase_color_ok:
  assumes "balanced (rb_set_black node)" "path_inv False (Suc (bh node)) p"
  shows "\<exists>t. rb_erase_color node p = Some t \<and> rb_inv t \<and> inorder t = inorder (plug node p)"
  using assms
proof (induction node p rule: rb_erase_color.induct)
  case (1 node)
  then show ?case
    by (simp add: rb_inv_def)
next
  case (2 node c rest)
  show ?case
  proof (cases "is_red node")
    case True
    then have "rb_inv (plug (rb_set_black node) (c # rest))"
      unfolding balanced_plug using 2 by (simp add: bh_set_black del: path_inv.simps)
    then show ?thesis
      using True by (simp del: plug.simps)
  next
    case False
    then have ok: "step_ok (lctx (c # rest) @ inorder node @ rctx (c # rest)) (erase_body node c rest)"
      using 2 by (intro erase_body_ok) (simp_all add: rb_set_black_id)
    then obtain s where s: "erase_body node c rest = Some s"
      by (auto simp: step_ok_def split: option.splits)
    show ?thesis
    proof (cases s)
      case (Climb n q)
      then show ?thesis
        using False 2(1) [OF False s Climb] ok s by (auto simp: step_ok_def simp del: plug.simps)
    next
      case (Break t)
      then show ?thesis
        using False ok s by (simp add: step_ok_def rb_inv_black_root del: plug.simps)
    qed
  qed
qed

lemma erase_unlink_ok:
  assumes "balanced child" "path_inv (c = RB_RED) (if c = RB_BLACK then Suc (bh child) else bh child) p"
    and "c = RB_RED \<Longrightarrow> \<not> is_red child"
  shows "\<exists>t. erase_unlink c child p = Some t \<and> rb_inv t \<and> inorder t = lctx p @ inorder child @ rctx p"
proof (cases c)
  case RB_RED
  then have "rb_inv (plug child p)"
    unfolding balanced_plug using assms path_inv_weaken by auto
  then show ?thesis
    using RB_RED by (simp add: erase_unlink_def)
next
  case RB_BLACK
  then show ?thesis
    using rb_erase_color_ok [of child p] assms by (simp add: erase_unlink_def)
qed

lemma go_left_plug:
  "go_left t p = (u, q) \<Longrightarrow> plug u q = plug t p"
  by (induction t p rule: go_left.induct) auto

lemma go_left_min: "go_left t p = (u, q) \<Longrightarrow> t \<noteq> Null \<Longrightarrow> \<exists>c x r. u = Nd c Null x r"
  by (induction t p rule: go_left.induct) auto

lemma go_left_lctx: "go_left t p = (u, q) \<Longrightarrow> lctx q = lctx p"
  by (induction t p rule: go_left.induct) auto

lemma go_right_plug:
  "go_right t p = (u, q) \<Longrightarrow> plug u q = plug t p"
  by (induction t p rule: go_right.induct) auto

lemma go_right_max: "go_right t p = (u, q) \<Longrightarrow> t \<noteq> Null \<Longrightarrow> \<exists>c l x. u = Nd c l x Null"
  by (induction t p rule: go_right.induct) auto

lemma go_right_rctx: "go_right t p = (u, q) \<Longrightarrow> rctx q = rctx p"
  by (induction t p rule: go_right.induct) auto

lemma path_inv_swap_root:
  "path_inv red h (q @ InRight c l x # p) = path_inv red h (q @ InRight c l y # p)"
proof (induction q arbitrary: red h)
  case (Cons k q)
  then show ?case
    by (cases k) simp_all
qed simp

lemma rb_erase_balanced:
  assumes "rb_inv (plug (Nd c l x r) p)"
  shows "\<exists>t. rb_erase (Nd c l x r) p = Some t \<and> rb_inv t
    \<and> inorder t = lctx p @ inorder l @ inorder r @ rctx p"
proof -
  have node: "balanced (Nd c l x r)" "path_inv (c = RB_RED) (bh (Nd c l x r)) p"
    using assms unfolding balanced_plug by (cases c; auto)+
  consider "l = Null" | "l \<noteq> Null" "r = Null" | "l \<noteq> Null" "r \<noteq> Null"
    by blast
  then show ?thesis
  proof cases
    case 1
    then show ?thesis
      using node erase_unlink_ok [of r c p] by (cases c) simp_all
  next
    case 2
    then show ?thesis
      using node erase_unlink_ok [of l c p] by (cases c) simp_all
  next
    case 3
    obtain u q where uq: "go_left r [] = (u, q)"
      by (cases "go_left r []")
    then obtain sc y child where u: "u = Nd sc Null y child"
      using go_left_min 3(2) by blast
    have "rb_inv (plug u (q @ InRight c l x # p))"
      using assms go_left_plug [OF uq] by simp
    then have sub: "balanced child" "path_inv (sc = RB_RED) (bh u) (q @ InRight c l y # p)"
      "sc = RB_RED \<Longrightarrow> \<not> is_red child" "bh child = 0"
      unfolding balanced_plug using u path_inv_swap_root [of _ _ q c l x p y] by auto
    have "lctx q = []"
      using go_left_lctx [OF uq] by simp
    moreover have "inorder r = inorder (plug u q)"
      using go_left_plug [OF uq] by simp
    ultimately have "inorder r = y # inorder child @ rctx q" "lctx q = []"
      by (simp_all add: u)
    then show ?thesis
      using 3 uq u sub erase_unlink_ok [of child sc "q @ InRight c l y # p"] by (cases sc) simp_all
  qed
qed

section \<open>Traversal\<close>

text \<open>A position in a tree of contents \<open>xs\<close>: the element at the node with what precedes and follows it.\<close>

fun at_pos :: "'a rb \<times> 'a path \<Rightarrow> 'a list \<times> 'a list" where
  "at_pos (Null, p) = (lctx p, rctx p)"
| "at_pos (Nd c l x r, p) = (lctx p @ inorder l, x # inorder r @ rctx p)"

lemma at_pos_plug: "fst (at_pos (t, p)) @ snd (at_pos (t, p)) = inorder (plug t p)"
  by (cases t) simp_all

lemma at_pos_go_left: "t \<noteq> Null \<Longrightarrow> at_pos (go_left t p) = (lctx p, inorder t @ rctx p)"
  by (induction t p rule: go_left.induct) auto

lemma at_pos_go_right:
  "t \<noteq> Null \<Longrightarrow> at_pos (go_right t p) = (lctx p @ butlast (inorder t), last (inorder t) # rctx p)"
proof (induction t p rule: go_right.induct)
  case (1 c l x c' l' x' r' p)
  then show ?case
    by (simp add: butlast_append)
qed (auto simp: butlast_append)

lemma inorder_Nil_iff [simp]: "inorder t = [] \<longleftrightarrow> t = Null"
  by (cases t) simp_all

lemma rb_first_None [simp]: "rb_first t = None \<longleftrightarrow> t = Null"
  by (simp add: rb_first_def)

lemma rb_first_pos:
  "rb_first t = Some (u, q) \<Longrightarrow> at_pos (u, q) = ([], inorder t) \<and> plug u q = t \<and> u \<noteq> Null"
  using at_pos_go_left [of t "[]"] go_left_plug [of t "[]" u q] go_left_min [of t "[]" u q]
  by (auto simp: rb_first_def split: if_splits)

lemma climb_next_pos:
  "climb_next t p = Some (u, q) \<Longrightarrow>
     at_pos (u, q) = (lctx p @ inorder t, rctx p) \<and> plug u q = plug t p \<and> u \<noteq> Null"
  by (induction t p rule: climb_next.induct) auto

lemma climb_next_None: "climb_next t p = None \<Longrightarrow> rctx p = []"
  by (induction t p rule: climb_next.induct) auto

lemma climb_prev_pos:
  "climb_prev t p = Some (u, q) \<Longrightarrow>
     fst (at_pos (u, q)) @ [hd (snd (at_pos (u, q)))] = lctx p
     \<and> tl (snd (at_pos (u, q))) = inorder t @ rctx p \<and> plug u q = plug t p \<and> u \<noteq> Null"
  by (induction t p rule: climb_prev.induct) auto

lemma climb_prev_None: "climb_prev t p = None \<Longrightarrow> lctx p = []"
  by (induction t p rule: climb_prev.induct) auto

lemma rb_next_cases:
  assumes "at_pos (t, p) = (xs, x # ys)" and "t \<noteq> Null"
  shows "(case rb_next t p of None \<Rightarrow> ys = []
     | Some (u, q) \<Rightarrow> at_pos (u, q) = (xs @ [x], ys) \<and> plug u q = plug t p \<and> u \<noteq> Null)"
proof -
  obtain c l z r where t: "t = Nd c l z r"
    using assms(2) by (cases t) auto
  show ?thesis
  proof (cases "r = Null")
    case True
    then show ?thesis
      using assms climb_next_pos [of t p] climb_next_None [of t p]
      by (auto simp: t split: option.splits)
  next
    case False
    obtain u q where uq: "go_left r (InRight c l z # p) = (u, q)"
      by (cases "go_left r (InRight c l z # p)")
    then show ?thesis
      using assms False at_pos_go_left [OF False, of "InRight c l z # p"] go_left_plug [OF uq]
        go_left_min [OF uq False]
      by (auto simp: t)
  qed
qed

lemma rb_prev_cases:
  assumes "at_pos (t, p) = (xs, x # ys)" and "t \<noteq> Null"
  shows "(case rb_prev t p of None \<Rightarrow> xs = []
     | Some (u, q) \<Rightarrow> xs \<noteq> [] \<and> at_pos (u, q) = (butlast xs, last xs # x # ys) \<and> plug u q = plug t p
         \<and> u \<noteq> Null)"
proof -
  obtain c l z r where t: "t = Nd c l z r"
    using assms(2) by (cases t) auto
  show ?thesis
  proof (cases "l = Null")
    case True
    show ?thesis
    proof (cases "climb_prev t p")
      case None
      then show ?thesis
        using assms climb_prev_None [of t p] True by (simp add: t)
    next
      case (Some uq)
      obtain u q where uq: "uq = (u, q)"
        by (cases uq)
      obtain as bs where pos: "at_pos (u, q) = (as, bs)"
        by (cases "at_pos (u, q)")
      have "bs \<noteq> []"
        using climb_prev_pos [of t p u q] Some uq pos by (cases u) auto
      then have "as @ [hd bs] = xs" "bs = hd bs # x # ys" "plug u q = plug t p" "u \<noteq> Null"
        using climb_prev_pos [of t p u q] Some uq pos assms True
        by (auto simp: t) (metis list.collapse)
      then show ?thesis
        using Some uq pos True by (auto simp: t butlast_append)
    qed
  next
    case False
    obtain u q where uq: "go_right l (InLeft c z r # p) = (u, q)"
      by (cases "go_right l (InLeft c z r # p)")
    then show ?thesis
      using assms False at_pos_go_right [OF False, of "InLeft c z r # p"] go_right_plug [OF uq]
        go_right_max [OF uq False]
      by (auto simp: t butlast_append)
  qed
qed

text \<open>Visiting the tree from \<open>rb_first\<close> by \<open>rb_next\<close>, as the clients' loops do.\<close>

fun rb_visit :: "nat \<Rightarrow> ('a rb \<times> 'a path) option \<Rightarrow> 'a list" where
  "rb_visit (Suc k) (Some (Nd c l x r, p)) = x # rb_visit k (rb_next (Nd c l x r) p)"
| "rb_visit _ _ = []"

lemma rb_visit_from:
  assumes "at_pos (t, p) = (xs, ys)" "t \<noteq> Null" "length ys \<le> k"
  shows "rb_visit k (Some (t, p)) = ys"
  using assms
proof (induction k arbitrary: t p xs ys)
  case 0
  then show ?case
    by (cases t) auto
next
  case (Suc k)
  obtain c l x r where t: "t = Nd c l x r"
    using Suc.prems(2) by (cases t) auto
  obtain y ys' where ys: "ys = y # ys'" "y = x"
    using Suc.prems(1) by (auto simp: t)
  show ?case
  proof (cases "rb_next t p")
    case None
    then show ?thesis
      using rb_next_cases [of t p xs y ys'] Suc.prems ys by (simp add: t)
  next
    case (Some uq)
    then obtain u q where "rb_next t p = Some (u, q)"
      by (cases uq) auto
    moreover from this have "at_pos (u, q) = (xs @ [y], ys')" "u \<noteq> Null"
      using rb_next_cases [of t p xs y ys'] Suc.prems ys by auto
    ultimately show ?thesis
      using Suc.IH [of u q "xs @ [y]" ys'] Suc.prems(3) ys by (simp add: t)
  qed
qed

section \<open>Height\<close>

fun rb_height :: "'a rb \<Rightarrow> nat" where
  "rb_height Null = 0"
| "rb_height (Nd c l x r) = Suc (max (rb_height l) (rb_height r))"

lemma height_bh: "balanced t \<Longrightarrow> rb_height t \<le> 2 * bh t + (if is_red t then 1 else 0)"
proof (induction t)
  case (Nd c l x r)
  then show ?case
    by (cases c) (auto split: if_splits)
qed simp

lemma bh_size: "balanced t \<Longrightarrow> 2 ^ bh t \<le> Suc (length (inorder t))"
proof (induction t)
  case (Nd c l x r)
  then show ?case
    by (cases c) auto
qed simp

lemma rb_height_log: "rb_inv t \<Longrightarrow> 2 ^ ((rb_height t + 1) div 2) \<le> Suc (length (inorder t))"
proof -
  assume inv: "rb_inv t"
  then have "(rb_height t + 1) div 2 \<le> bh t"
    using height_bh [of t] by (simp add: rb_inv_def)
  then have "2 ^ ((rb_height t + 1) div 2) \<le> (2 :: nat) ^ bh t"
    by (simp add: power_increasing)
  also have "\<dots> \<le> Suc (length (inorder t))"
    using inv by (simp add: bh_size rb_inv_def)
  finally show ?thesis .
qed

section \<open>Properties\<close>

text \<open>C10: linking a node in the slot that a client's descent reaches and calling \<open>rb_insert_color\<close>
  dereferences no null pointer, keeps the colour and black-height rules (hence a height logarithmic
  in the number of nodes), and inserts the element at the boundary between the elements that the
  client's test sends to its left and those it sends to its right.\<close>

theorem rb_insert_correct:
  assumes "rb_inv t" and "sorted_wrt (\<lambda>x y. goes_left x \<longrightarrow> goes_left y) (inorder t)"
  shows "\<exists>u xs ys. rb_link_insert x (rb_slot goes_left t []) = Some u \<and> rb_inv u
    \<and> inorder t = xs @ ys \<and> inorder u = xs @ x # ys
    \<and> (\<forall>y \<in> set xs. \<not> goes_left y) \<and> (\<forall>y \<in> set ys. goes_left y)
    \<and> 2 ^ ((rb_height u + 1) div 2) \<le> Suc (Suc (length (inorder t)))"
proof -
  obtain u where u: "rb_link_insert x (rb_slot goes_left t []) = Some u" "rb_inv u"
    "inorder u = lctx (rb_slot goes_left t []) @ x # rctx (rb_slot goes_left t [])"
    using rb_link_insert_ok [OF assms(1)] by blast
  have "length (inorder u) = Suc (length (inorder t))"
    unfolding u(3) slot_contents [of goes_left t, symmetric] by simp
  then have height: "2 ^ ((rb_height u + 1) div 2) \<le> Suc (Suc (length (inorder t)))"
    using rb_height_log [OF u(2)] by simp
  have sides: "\<forall>y \<in> set (lctx (rb_slot goes_left t [])). \<not> goes_left y"
    "\<forall>y \<in> set (rctx (rb_slot goes_left t [])). goes_left y"
    using rb_slot_split [OF assms(2)] by blast+
  show ?thesis
    by (intro exI conjI, rule u(1), rule u(2), rule slot_contents [of goes_left t, symmetric], rule u(3))
      (rule sides height)+
qed

theorem rb_insert_correct_witness:
  "\<exists>u. rb_link_insert (4 :: nat) (rb_slot (\<lambda>y. 4 < y) (Nd RB_BLACK (Nd RB_RED Null 3 Null) 5 Null) []) = Some u
    \<and> rb_inv u \<and> mset (inorder u) = {#3, 4, 5#}"
proof -
  let ?t = "Nd RB_BLACK (Nd RB_RED Null 3 Null) (5 :: nat) Null"
  have "rb_inv ?t" "sorted_wrt (\<lambda>x y. 4 < x \<longrightarrow> 4 < y) (inorder ?t)"
    by (simp_all add: rb_inv_def)
  from rb_insert_correct [OF this] obtain u xs ys where
    u: "rb_link_insert 4 (rb_slot (\<lambda>y. 4 < y) ?t []) = Some u" "rb_inv u" "inorder ?t = xs @ ys" "inorder u = xs @ 4 # ys"
    by blast
  have "mset (inorder u) = {#3, 4, 5#}"
    using arg_cong [OF u(3), of mset] by (simp add: u(4) add_mset_commute)
  with u(1,2) show ?thesis
    by blast
qed

text \<open>C11: \<open>rb_erase\<close> at any node of a red-black tree dereferences no null pointer, keeps the colour and
  black-height rules and removes exactly that node's element, leaving the others in their order.\<close>

theorem rb_erase_correct:
  assumes "rb_inv (plug (Nd c l x r) p)"
  shows "\<exists>u. rb_erase (Nd c l x r) p = Some u \<and> rb_inv u
    \<and> inorder (plug (Nd c l x r) p) = (lctx p @ inorder l) @ x # (inorder r @ rctx p)
    \<and> inorder u = (lctx p @ inorder l) @ (inorder r @ rctx p)"
  using rb_erase_balanced [OF assms] by auto

theorem rb_erase_correct_witness:
  "\<exists>u. rb_erase (Nd RB_BLACK Null (1 :: nat) Null) [InLeft RB_BLACK (2 :: nat) (Nd RB_BLACK Null 3 (Nd RB_RED Null 4 Null))] = Some u
    \<and> rb_inv u
    \<and> inorder (plug (Nd RB_BLACK Null 1 Null) [InLeft RB_BLACK (2 :: nat) (Nd RB_BLACK Null 3 (Nd RB_RED Null 4 Null))])
      = (lctx [InLeft RB_BLACK (2 :: nat) (Nd RB_BLACK Null 3 (Nd RB_RED Null 4 Null))] @ inorder Null)
        @ 1 # (inorder Null @ rctx [InLeft RB_BLACK (2 :: nat) (Nd RB_BLACK Null 3 (Nd RB_RED Null 4 Null))])
    \<and> inorder u = (lctx [InLeft RB_BLACK (2 :: nat) (Nd RB_BLACK Null 3 (Nd RB_RED Null 4 Null))] @ inorder Null)
        @ (inorder Null @ rctx [InLeft RB_BLACK (2 :: nat) (Nd RB_BLACK Null 3 (Nd RB_RED Null 4 Null))])"
  by (rule rb_erase_correct) (simp add: rb_inv_def)

text \<open>\<open>rb_first\<close> followed by \<open>rb_next\<close> visits every node once, in order; \<open>rb_prev\<close> steps to the element
  before the current one in the same tree, or returns null at the first.\<close>

theorem rb_traversal_correct:
  "rb_visit (length (inorder t)) (rb_first t) = inorder t
   \<and> (case rb_prev (Nd c l x r) p of
        None \<Rightarrow> lctx p @ inorder l = []
      | Some (u, q) \<Rightarrow> plug u q = plug (Nd c l x r) p
          \<and> (\<exists>xs y. lctx p @ inorder l = xs @ [y] \<and> at_pos (u, q) = (xs, y # x # inorder r @ rctx p)))"
proof
  show "rb_visit (length (inorder t)) (rb_first t) = inorder t"
  proof (cases "rb_first t")
    case (Some uq)
    then obtain u q where "rb_first t = Some (u, q)"
      by (cases uq) auto
    then show ?thesis
      using rb_first_pos [of t u q] rb_visit_from [of u q "[]" "inorder t"] by simp
  qed simp
next
  show "case rb_prev (Nd c l x r) p of
        None \<Rightarrow> lctx p @ inorder l = []
      | Some (u, q) \<Rightarrow> plug u q = plug (Nd c l x r) p
          \<and> (\<exists>xs y. lctx p @ inorder l = xs @ [y] \<and> at_pos (u, q) = (xs, y # x # inorder r @ rctx p))"
  proof -
    define xs where "xs = lctx p @ inorder l"
    have "at_pos (Nd c l x r, p) = (xs, x # inorder r @ rctx p)"
      by (simp add: xs_def)
    then have *: "case rb_prev (Nd c l x r) p of None \<Rightarrow> xs = []
      | Some (u, q) \<Rightarrow> xs \<noteq> [] \<and> at_pos (u, q) = (butlast xs, last xs # x # inorder r @ rctx p)
          \<and> plug u q = plug (Nd c l x r) p \<and> u \<noteq> Null"
      by (rule rb_prev_cases) simp
    have "xs \<noteq> [] \<Longrightarrow> xs = butlast xs @ [last xs]"
      by simp
    with * show ?thesis
      unfolding xs_def [symmetric] by (cases "rb_prev (Nd c l x r) p") (auto simp del: rb_prev.simps)
  qed
qed

end
