(* ===== verification/Blkparse_State.thy ===== *)
theory Blkparse_State
  imports Trace_Format Rbtree
begin

text \<open>
  The data of \<open>blkparse.c\<close>: statistics, skip lists, per-CPU and per-device state, the process
  tables, the traces queued for sorting, the tracked requests, and the global variables.
  An \<open>unsigned long\<close> and an \<open>unsigned long long\<close> are 64 bits wide, an \<open>unsigned int\<close> 32. The rb
  trees hold the structs their nodes are embedded in.
\<close>

section \<open>Statistics of blktrace.h\<close>

record io_stats =
  qreads :: u64
  qwrites :: u64
  creads :: u64
  cwrites :: u64
  mreads :: u64
  mwrites :: u64
  ireads :: u64
  iwrites :: u64
  rrqueue :: u64
  wrqueue :: u64
  qread_kb :: u64
  qwrite_kb :: u64
  cread_kb :: u64
  cwrite_kb :: u64
  qread_b :: u64
  qwrite_b :: u64
  cread_b :: u64
  cwrite_b :: u64
  iread_kb :: u64
  iwrite_kb :: u64
  mread_kb :: u64
  mwrite_kb :: u64
  mread_b :: u64
  mwrite_b :: u64
  iread_b :: u64
  iwrite_b :: u64
  qreads_pc :: u64
  qwrites_pc :: u64
  ireads_pc :: u64
  iwrites_pc :: u64
  rrqueue_pc :: u64
  wrqueue_pc :: u64
  creads_pc :: u64
  cwrites_pc :: u64
  qread_kb_pc :: u64
  qwrite_kb_pc :: u64
  iread_kb_pc :: u64
  iwrite_kb_pc :: u64
  qread_b_pc :: u64
  qwrite_b_pc :: u64
  iread_b_pc :: u64
  iwrite_b_pc :: u64
  io_unplugs :: u64
  timer_unplugs :: u64

text \<open>The state that \<open>memset(.., 0, ..)\<close> leaves.\<close>

definition zero_stats :: io_stats where
  "zero_stats =
     \<lparr>qreads = 0, qwrites = 0, creads = 0, cwrites = 0, mreads = 0, mwrites = 0, ireads = 0,
      iwrites = 0, rrqueue = 0, wrqueue = 0, qread_kb = 0, qwrite_kb = 0, cread_kb = 0,
      cwrite_kb = 0, qread_b = 0, qwrite_b = 0, cread_b = 0, cwrite_b = 0, iread_kb = 0,
      iwrite_kb = 0, mread_kb = 0, mwrite_kb = 0, mread_b = 0, mwrite_b = 0, iread_b = 0,
      iwrite_b = 0, qreads_pc = 0, qwrites_pc = 0, ireads_pc = 0, iwrites_pc = 0, rrqueue_pc = 0,
      wrqueue_pc = 0, creads_pc = 0, cwrites_pc = 0, qread_kb_pc = 0, qwrite_kb_pc = 0,
      iread_kb_pc = 0, iwrite_kb_pc = 0, qread_b_pc = 0, qwrite_b_pc = 0, iread_b_pc = 0,
      iwrite_b_pc = 0, io_unplugs = 0, timer_unplugs = 0\<rparr>"

section \<open>Traces, processes and tracked requests\<close>

text \<open>A trace read from the input, \<open>struct trace\<close>: the record and the number of the batch that read it.\<close>

record trace =
  t_bit :: blk_io_trace
  t_read_sequence :: u64

text \<open>A range of missing sequence numbers, both ends included.\<close>

record skip_info =
  skip_start :: u64
  skip_end :: u64

text \<open>The command name is the array \<open>char comm[16]\<close>.\<close>

record process_pid_map =
  ppm_pid :: u32
  ppm_comm :: "u8 list"

text \<open>The waits are indexed by the direction: the first component is for reads (\<open>[0]\<close>).\<close>

record per_process_info =
  ppi_ppm :: process_pid_map
  ppi_io_stats :: io_stats
  ppi_more_than_one :: bool
  longest_allocation_wait :: "u64 \<times> u64"
  longest_dispatch_wait :: "u64 \<times> u64"
  longest_completion_wait :: "u64 \<times> u64"

record io_track =
  iot_ppm :: process_pid_map
  iot_sector :: u64
  allocation_time :: u64
  queue_time :: u64
  dispatch_time :: u64
  completion_time :: u64

section \<open>CPUs and devices\<close>

text \<open>The skip list from its tail to its head: all walks but the one that sums it up start at the
  tail, and a new skip becomes the tail.\<close>

record per_cpu_info =
  pci_cpu :: u32
  pci_nelems :: u32
  pci_fd :: int
  pci_fdblock :: int
  pci_io_stats :: io_stats
  rb_last_root :: "trace rb"
  rb_last_entries :: u64
  last_sequence :: u64
  smallest_seq_read :: u64
  pci_skips :: "skip_info list"

text \<open>The array \<open>cpus\<close> is a list, \<open>cpu_map\<close> a list of words or the null pointer.\<close>

record per_dev_info =
  pdi_dev :: u32
  pdi_backwards :: bool
  pdi_events :: u64
  first_reported_time :: u64
  last_reported_time :: u64
  last_read_time :: u64
  pdi_io_stats :: io_stats
  pdi_skip_count :: u64
  pdi_seq_skips :: u64
  max_depth :: "u32 \<times> u32"
  cur_depth :: "u32 \<times> u32"
  rb_track :: "io_track rb"
  pdi_nfiles :: u32
  cpu_map :: "u64 list option"
  cpu_map_max :: u32
  pdi_cpus :: "per_cpu_info list"

text \<open>An array of two elements indexed by the direction \<open>w\<close>.\<close>

definition dir_get :: "bool \<Rightarrow> 'a \<times> 'a \<Rightarrow> 'a" where
  "dir_get w p = (if w then snd p else fst p)"

definition dir_set :: "bool \<Rightarrow> 'a \<Rightarrow> 'a \<times> 'a \<Rightarrow> 'a \<times> 'a" where
  "dir_set w x p = (if w then (fst p, x) else (x, snd p))"

lemma dir_get_set [simp]: "dir_get v (dir_set w x p) = (if v = w then x else dir_get v p)"
  by (simp add: dir_get_def dir_set_def)

section \<open>Global variables\<close>

text \<open>What the program prints for a trace: the call of \<open>process_fmt\<close> with the action, the record, the
  elapsed time and the payload, the text of a message event, or a warning on the standard error.\<close>

datatype warning =
    Sector_alias u64 | Merge_not_found u64 | Issue_not_found u64 | Complete_not_found u64
  | Bad_pc_action u32 | Bad_fs_action u32 | Duplicate_time u32

datatype out_item =
    Process_fmt string blk_io_trace u64 "u8 list"
  | Message_text blk_io_trace "u8 list"
  | Warning warning

text \<open>
  The options, the process tables and the output. A bucket of \<open>ppm_hash_table\<close> is the list of
  its chain. A \<open>per_process_info\<close> is reached through two chains and updated in place: the structs
  are in \<open>ppi_store\<close> and the chains hold their positions. Memory that \<open>malloc\<close> returns is not
  cleared: \<open>malloc_iot n\<close> is what the \<open>n\<close>-th struct \<open>io_track\<close> holds when it is allocated.
\<close>

record globals =
  per_process_stats :: bool
  track_ios :: bool
  ppi_hash_by_pid :: bool
  verbose :: bool
  text_output :: bool
  bin_output_msgs :: bool
  dump_binary :: bool
  data_is_native :: native
  override_format :: "char \<Rightarrow> string option"
  ppm_hash_table :: "nat \<Rightarrow> process_pid_map list"
  ppi_store :: "per_process_info list"
  ppi_hash_table :: "nat \<Rightarrow> nat list"
  ppi_list :: "nat list"
  malloc_iot :: "nat \<Rightarrow> io_track"
  iot_allocated :: nat
  start_timestamp :: u64
  abs_start_time :: "int \<times> int"
  have_drv_data :: bool
  out :: "out_item list"
  binary_out :: "blk_io_trace list"

definition emit :: "out_item \<Rightarrow> globals \<Rightarrow> globals" where
  "emit x g = g\<lparr>out := out g @ [x]\<rparr>"

definition warn :: "warning \<Rightarrow> globals \<Rightarrow> globals" where
  "warn x g = emit (Warning x) g"

section \<open>Initial values\<close>

text \<open>The initialisers of the globals, given what \<open>malloc\<close> returns.\<close>

definition init_globals :: "(nat \<Rightarrow> io_track) \<Rightarrow> globals" where
  "init_globals junk =
     \<lparr>per_process_stats = False, track_ios = False, ppi_hash_by_pid = True, verbose = False,
      text_output = True, bin_output_msgs = True, dump_binary = False, data_is_native = Native_unknown, override_format = (\<lambda>_. None),
      ppm_hash_table = (\<lambda>_. []), ppi_store = [], ppi_hash_table = (\<lambda>_. []), ppi_list = [],
      malloc_iot = junk, iot_allocated = 0, start_timestamp = 0, abs_start_time = (0, 0),
      have_drv_data = False, out = [], binary_out = []\<rparr>"

definition zero_dev_info :: per_dev_info where
  "zero_dev_info =
     \<lparr>pdi_dev = 0, pdi_backwards = False, pdi_events = 0, first_reported_time = 0,
      last_reported_time = 0, last_read_time = 0, pdi_io_stats = zero_stats, pdi_skip_count = 0,
      pdi_seq_skips = 0, max_depth = (0, 0), cur_depth = (0, 0), rb_track = Null, pdi_nfiles = 0,
      cpu_map = None, cpu_map_max = 0, pdi_cpus = []\<rparr>"

definition zero_trace :: blk_io_trace where
  "zero_trace =
     \<lparr>tr_magic = 0, tr_sequence = 0, tr_time = 0, tr_sector = 0, tr_bytes = 0, tr_action = 0, tr_pid = 0,
      tr_device = 0, tr_cpu = 0, tr_error = 0, tr_vec_count = 0, tr_seq = 0, tr_pdu_len = 0, tr_pdu = []\<rparr>"

definition zero_iot :: io_track where
  "zero_iot =
     \<lparr>iot_ppm = \<lparr>ppm_pid = 0, ppm_comm = []\<rparr>, iot_sector = 0, allocation_time = 0, queue_time = 0,
      dispatch_time = 0, completion_time = 0\<rparr>"

end
