(* ===== verification/Skip_List.thy ===== *)
theory Skip_List
  imports Blkparse_State
begin

text \<open>
  The skip lists of \<open>blkparse.c\<close>: per CPU, the ranges of sequence numbers that have not shown up yet.
  \<open>check_sequence\<close> records a gap with \<open>insert_skip\<close>, a late trace is taken out of it by
  \<open>check_current_skips\<close>, and \<open>collect_pdi_skips\<close> sums up what is still missing for the report.
\<close>

section \<open>Operations\<close>

text \<open>The walk of \<open>insert_skip\<close> for a range adjacent to the new one.\<close>

fun merge_skip :: "u64 \<Rightarrow> u64 \<Rightarrow> skip_info list \<Rightarrow> skip_info list option" where
  "merge_skip start end' [] = None"
| "merge_skip start end' (sip # sips) =
     (if end' = skip_start sip - 1 then Some (sip\<lparr>skip_start := start\<rparr> # sips)
      else if start = skip_end sip + 1 then Some (sip\<lparr>skip_end := end'\<rparr> # sips)
      else map_option (Cons sip) (merge_skip start end' sips))"

definition insert_skip :: "u64 \<Rightarrow> u64 \<Rightarrow> skip_info list \<Rightarrow> skip_info list" where
  "insert_skip start end' sips =
     (case merge_skip start end' sips of
        Some sips' \<Rightarrow> sips'
      | None \<Rightarrow> \<lparr>skip_start = start, skip_end = end'\<rparr> # sips)"

definition IN_SKIP :: "skip_info \<Rightarrow> u64 \<Rightarrow> bool" where
  "IN_SKIP sip seq \<longleftrightarrow> skip_start sip \<le> seq \<and> seq \<le> skip_end sip"

text \<open>The walk of \<open>check_current_skips\<close>: the list after the update of the first range that contains
  \<open>seq\<close>, and the range it then passes to \<open>insert_skip\<close>, if it splits one. \<open>sip->end\<close> has its new value
  when it is passed.\<close>

fun take_seq :: "u64 \<Rightarrow> skip_info list \<Rightarrow> (skip_info list \<times> (u64 \<times> u64) option) option" where
  "take_seq seq [] = None"
| "take_seq seq (sip # sips) =
     (if IN_SKIP sip seq then
        (if skip_start sip = seq then
           (if skip_end sip = seq then Some (sips, None)
            else Some (sip\<lparr>skip_start := skip_start sip + 1\<rparr> # sips, None))
         else if skip_end sip = seq then Some (sip\<lparr>skip_end := skip_end sip - 1\<rparr> # sips, None)
         else let sip' = sip\<lparr>skip_end := seq - 1\<rparr>
              in Some (sip' # sips, Some (seq + 1, skip_end sip')))
      else map_option (\<lambda>(ks, x). (sip # ks, x)) (take_seq seq sips))"

definition check_current_skips :: "u64 \<Rightarrow> skip_info list \<Rightarrow> skip_info list \<times> bool" where
  "check_current_skips seq sips =
     (case take_seq seq sips of
        None \<Rightarrow> (sips, False)
      | Some (sips', None) \<Rightarrow> (sips', True)
      | Some (sips', Some (s, e)) \<Rightarrow> (insert_skip s e sips', True))"

fun sum_skips :: "skip_info list \<Rightarrow> u64 \<times> u64 \<Rightarrow> u64 \<times> u64" where
  "sum_skips [] (n, m) = (n, m)"
| "sum_skips (sip # sips) (n, m) = sum_skips sips (n + 1, m + (skip_end sip - skip_start sip + 1))"

definition collect_pdi_skips :: "per_dev_info \<Rightarrow> per_dev_info" where
  "collect_pdi_skips pdi =
     (let (n, m) = fold (\<lambda>pci. sum_skips (rev (pci_skips pci))) (pdi_cpus pdi) (0, 0)
      in pdi\<lparr>pdi_skip_count := n, pdi_seq_skips := m\<rparr>)"

section \<open>What a skip list stands for\<close>

definition skip_set :: "skip_info \<Rightarrow> nat set" where
  "skip_set sip = {unat (skip_start sip)..unat (skip_end sip)}"

definition missing :: "skip_info list \<Rightarrow> nat set" where
  "missing sips = (\<Union>sip \<in> set sips. skip_set sip)"

text \<open>Every range is non-empty and stops short of the largest word, and no two ranges overlap.\<close>

definition skips_ok :: "skip_info list \<Rightarrow> bool" where
  "skips_ok sips \<longleftrightarrow>
     (\<forall>sip \<in> set sips. skip_start sip \<le> skip_end sip \<and> skip_end sip \<noteq> - 1)
     \<and> sorted_wrt (\<lambda>a b. skip_set a \<inter> skip_set b = {}) sips"

definition skip_total :: "skip_info list \<Rightarrow> u64" where
  "skip_total sips = sum_list (map (\<lambda>sip. skip_end sip - skip_start sip + 1) sips)"

lemma missing_simps [simp]:
  "missing [] = {}" "missing (sip # sips) = skip_set sip \<union> missing sips"
  by (simp_all add: missing_def)

lemma skip_total_simps [simp]:
  "skip_total [] = 0"
  "skip_total (sip # sips) = (skip_end sip - skip_start sip + 1) + skip_total sips"
  by (simp_all add: skip_total_def)

lemma skips_ok_Nil [simp]: "skips_ok []"
  by (simp add: skips_ok_def)

lemma skips_ok_Cons:
  "skips_ok (sip # sips) \<longleftrightarrow> skip_start sip \<le> skip_end sip \<and> skip_end sip \<noteq> - 1
     \<and> skip_set sip \<inter> missing sips = {} \<and> skips_ok sips"
  by (auto simp: skips_ok_def missing_def)

lemma sum_skips_total:
  "sum_skips sips (n, m) = (n + of_nat (length sips), m + skip_total sips)"
  by (induction sips arbitrary: n m) (simp_all add: ac_simps)

lemma IN_SKIP_set: "IN_SKIP sip seq \<longleftrightarrow> unat seq \<in> skip_set sip"
  by (simp add: IN_SKIP_def skip_set_def word_le_nat_alt)

lemma unat_succ: "w \<noteq> - 1 \<Longrightarrow> unat (w + 1) = Suc (unat (w :: u64))"
  using unat_add_lem [of w 1] by (metis add.commute unatSuc add_eq_0_iff)

lemma unat_pred: "w \<noteq> 0 \<Longrightarrow> Suc (unat (w - 1)) = unat (w :: u64)"
  by (metis diff_add_cancel unatSuc add.commute)

lemma merge_skip_ok:
  assumes "merge_skip s e sips = Some sips'" "skips_ok sips" "s \<le> e" "e \<noteq> - 1"
    and "{unat s..unat e} \<inter> missing sips = {}"
  shows "missing sips' = missing sips \<union> {unat s..unat e} \<and> skips_ok sips'
    \<and> skip_total sips' = skip_total sips + (e - s + 1)"
  using assms
proof (induction sips arbitrary: sips')
  case (Cons sip sips)
  have sip: "skip_start sip \<le> skip_end sip" "skip_end sip \<noteq> - 1" "skip_set sip \<inter> missing sips = {}"
    "skips_ok sips" "{unat s..unat e} \<inter> missing sips = {}" "unat s \<le> unat e"
    "unat (skip_start sip) \<le> unat (skip_end sip)"
    using Cons.prems by (auto simp: skips_ok_Cons word_le_nat_alt)
  consider (low) "e = skip_start sip - 1" | (high) "e \<noteq> skip_start sip - 1" "s = skip_end sip + 1"
    | (next_one) "e \<noteq> skip_start sip - 1" "s \<noteq> skip_end sip + 1"
    by blast
  then show ?case
  proof cases
    case low
    then have "skip_start sip \<noteq> 0"
      using Cons.prems(4) by auto
    then have "unat (skip_start sip) = Suc (unat e)"
      using unat_pred low by simp
    then have "{unat s..unat (skip_end sip)} = skip_set sip \<union> {unat s..unat e}"
      using sip by (auto simp: skip_set_def)
    moreover have "s \<le> skip_end sip"
      using \<open>unat (skip_start sip) = Suc (unat e)\<close> sip by (simp add: word_le_nat_alt)
    ultimately show ?thesis
      using Cons.prems low sip by (auto simp: skips_ok_Cons skip_set_def)
  next
    case high
    then have "unat s = Suc (unat (skip_end sip))"
      using unat_succ sip(2) by simp
    then have "{unat (skip_start sip)..unat e} = skip_set sip \<union> {unat s..unat e}"
      using sip by (auto simp: skip_set_def)
    moreover have "skip_start sip \<le> e"
      using \<open>unat s = Suc (unat (skip_end sip))\<close> sip by (simp add: word_le_nat_alt)
    ultimately show ?thesis
      using Cons.prems high sip by (auto simp: skips_ok_Cons skip_set_def)
  next
    case next_one
    then obtain ks where ks: "merge_skip s e sips = Some ks" "sips' = sip # ks"
      using Cons.prems(1) by auto
    then have "missing ks = missing sips \<union> {unat s..unat e} \<and> skips_ok ks
        \<and> skip_total ks = skip_total sips + (e - s + 1)"
      using Cons.IH Cons.prems sip by blast
    then show ?thesis
      using ks Cons.prems sip by (auto simp: skips_ok_Cons)
  qed
qed simp

lemma insert_skip_ok:
  assumes "skips_ok sips" "s \<le> e" "e \<noteq> - 1" and "{unat s..unat e} \<inter> missing sips = {}"
  shows "missing (insert_skip s e sips) = missing sips \<union> {unat s..unat e}"
    and "skips_ok (insert_skip s e sips)"
    and "skip_total (insert_skip s e sips) = skip_total sips + (e - s + 1)"
proof -
  have "missing (insert_skip s e sips) = missing sips \<union> {unat s..unat e}
    \<and> skips_ok (insert_skip s e sips) \<and> skip_total (insert_skip s e sips) = skip_total sips + (e - s + 1)"
  proof (cases "merge_skip s e sips")
    case None
    then show ?thesis
      using assms by (auto simp: insert_skip_def skips_ok_Cons skip_set_def ac_simps)
  next
    case (Some ks)
    then show ?thesis
      using merge_skip_ok [OF Some assms] by (simp add: insert_skip_def)
  qed
  then show "missing (insert_skip s e sips) = missing sips \<union> {unat s..unat e}"
    and "skips_ok (insert_skip s e sips)"
    and "skip_total (insert_skip s e sips) = skip_total sips + (e - s + 1)"
    by simp_all
qed

lemma take_seq_None: "take_seq seq sips = None \<longleftrightarrow> unat seq \<notin> missing sips"
  by (induction sips) (auto simp: IN_SKIP_set Let_def)

text \<open>The range that contains a missing number.\<close>

lemma missing_obtain:
  assumes "unat seq \<in> missing sips"
  obtains ks sip ks' where "sips = ks @ sip # ks'" "unat seq \<in> skip_set sip" "unat seq \<notin> missing ks"
  using assms
proof (induction sips arbitrary: thesis)
  case (Cons sip sips)
  show ?case
  proof (cases "unat seq \<in> skip_set sip")
    case True
    then show ?thesis
      using Cons.prems(1) [of "[]" sip sips] by simp
  next
    case False
    then obtain ks sip' ks' where "sips = ks @ sip' # ks'" "unat seq \<in> skip_set sip'" "unat seq \<notin> missing ks"
      using Cons by auto
    then show ?thesis
      using Cons.prems(1) [of "sip # ks" sip' ks'] False by simp
  qed
qed simp

lemma take_seq_append:
  "unat seq \<notin> missing ks \<Longrightarrow> take_seq seq (ks @ sips) = map_option (\<lambda>(l, x). (ks @ l, x)) (take_seq seq sips)"
proof (induction ks)
  case Nil
  then show ?case
    by (cases "take_seq seq sips") auto
next
  case (Cons k ks)
  then show ?case
    by (cases "take_seq seq sips") (auto simp: IN_SKIP_set)
qed

lemma missing_append [simp]: "missing (a @ b) = missing a \<union> missing b"
  by (simp add: missing_def)

lemma skip_total_append [simp]: "skip_total (a @ b) = skip_total a + skip_total b"
  by (simp add: skip_total_def)

lemma skips_ok_append:
  "skips_ok (a @ b) \<longleftrightarrow> skips_ok a \<and> skips_ok b \<and> missing a \<inter> missing b = {}"
  by (induction a) (auto simp: skips_ok_Cons)

lemma atLeastAtMost_Suc: "{a..b} - {a} = {Suc a..(b :: nat)}"
  by auto

lemma check_not_missing: "unat seq \<notin> missing sips \<Longrightarrow> check_current_skips seq sips = (sips, False)"
  using take_seq_None [of seq sips] by (simp add: check_current_skips_def)

text \<open>In a list of disjoint ranges, the range of a missing number is the one the walk stops at.\<close>

lemma skips_ok_split:
  assumes "skips_ok sips" "sip \<in> set sips" "unat seq \<in> skip_set sip"
  obtains ks ks' where "sips = ks @ sip # ks'" "unat seq \<notin> missing ks"
    "take_seq seq sips = map_option (\<lambda>(l, x). (ks @ l, x)) (take_seq seq (sip # ks'))"
proof -
  from assms(2) obtain ks ks' where split: "sips = ks @ sip # ks'"
    by (meson split_list)
  then have "unat seq \<notin> missing ks"
    using assms(1,3) by (auto simp: skips_ok_append)
  then show ?thesis
    using that split take_seq_append [of seq ks "sip # ks'"] by blast
qed

lemma skip_sets:
  assumes "skip_start sip < skip_end sip"
  shows "skip_set (sip\<lparr>skip_start := skip_start sip + 1\<rparr>) = skip_set sip - {unat (skip_start sip)}"
    and "skip_set (sip\<lparr>skip_end := skip_end sip - 1\<rparr>) = skip_set sip - {unat (skip_end sip)}"
proof -
  have "skip_start sip \<noteq> - 1" "skip_end sip \<noteq> 0"
    using assms by auto
  then have "unat (skip_start sip + 1) = Suc (unat (skip_start sip))"
    "Suc (unat (skip_end sip - 1)) = unat (skip_end sip)"
    by (simp_all add: unat_succ unat_pred)
  then show "skip_set (sip\<lparr>skip_start := skip_start sip + 1\<rparr>) = skip_set sip - {unat (skip_start sip)}"
    and "skip_set (sip\<lparr>skip_end := skip_end sip - 1\<rparr>) = skip_set sip - {unat (skip_end sip)}"
    by (auto simp: skip_set_def)
qed

lemma skip_set_before:
  assumes "skip_start sip < seq"
  shows "skip_set (sip\<lparr>skip_end := seq - 1\<rparr>) = skip_set sip - {unat seq..unat (skip_end sip)} \<union>
    ({unat (skip_start sip)..<unat seq} - skip_set sip)"
proof -
  have "seq \<noteq> 0"
    using assms by auto
  then have "Suc (unat (seq - 1)) = unat seq"
    by (rule unat_pred)
  then show ?thesis
    by (auto simp: skip_set_def)
qed

section \<open>Properties\<close>

text \<open>C13: recording a gap that overlaps no gap recorded so far adds exactly its numbers to the missing
  ones, whether \<open>insert_skip\<close> extends an adjacent range or appends a new one; the ranges stay disjoint
  and the number that \<open>collect_pdi_skips\<close> reports grows by the size of the gap.\<close>

theorem insert_skip_correct:
  assumes "skips_ok sips" "s \<le> e" "e \<noteq> - 1" and "{unat s..unat e} \<inter> missing sips = {}"
  shows "missing (insert_skip s e sips) = missing sips \<union> {unat s..unat e}
    \<and> skips_ok (insert_skip s e sips)
    \<and> snd (sum_skips (insert_skip s e sips) (0, 0)) = snd (sum_skips sips (0, 0)) + (e - s + 1)"
  using insert_skip_ok [OF assms] by (simp add: sum_skips_total)

theorem insert_skip_correct_witness:
  "missing (insert_skip 5 7 [\<lparr>skip_start = 8, skip_end = 9\<rparr>]) = missing [\<lparr>skip_start = 8, skip_end = 9\<rparr>] \<union> {unat (5 :: u64)..unat (7 :: u64)}
    \<and> skips_ok (insert_skip 5 7 [\<lparr>skip_start = 8, skip_end = 9\<rparr>])
    \<and> snd (sum_skips (insert_skip 5 7 [\<lparr>skip_start = 8, skip_end = 9\<rparr>]) (0, 0))
      = snd (sum_skips [\<lparr>skip_start = 8, skip_end = 9\<rparr>] (0, 0)) + (7 - 5 + 1)"
  by (rule insert_skip_correct) (simp_all add: skips_ok_Cons skip_set_def)

text \<open>C33: a late trace is recognised exactly when its number is missing, and when the number is the first
  or the last of its range, that number and no other ceases to be missing.\<close>

theorem check_current_skips_edge:
  assumes "skips_ok sips" "sip \<in> set sips" and "seq = skip_start sip \<or> seq = skip_end sip"
  shows "(\<exists>sips'. check_current_skips seq sips = (sips', True) \<and> missing sips' = missing sips - {unat seq}
      \<and> skips_ok sips' \<and> skip_total sips' + 1 = skip_total sips)
    \<and> (\<forall>n. unat n \<notin> missing sips \<longrightarrow> check_current_skips n sips = (sips, False))"
proof -
  have sip: "skip_start sip \<le> skip_end sip" "skip_end sip \<noteq> - 1"
    using assms(1,2) by (auto simp: skips_ok_def)
  then have seq: "unat seq \<in> skip_set sip"
    using assms(3) by (auto simp: skip_set_def word_le_nat_alt)
  obtain ks ks' where sips: "sips = ks @ sip # ks'" "unat seq \<notin> missing ks"
    "take_seq seq sips = map_option (\<lambda>(l, x). (ks @ l, x)) (take_seq seq (sip # ks'))"
    using skips_ok_split [OF assms(1,2) seq] by blast
  have ok: "skips_ok ks" "skips_ok ks'" "missing ks \<inter> skip_set sip = {}" "skip_set sip \<inter> missing ks' = {}"
    "missing ks \<inter> missing ks' = {}"
    using assms(1) by (auto simp: sips skips_ok_append skips_ok_Cons)
  have "\<exists>sips'. check_current_skips seq sips = (sips', True) \<and> missing sips' = missing sips - {unat seq}
      \<and> skips_ok sips' \<and> skip_total sips' + 1 = skip_total sips"
  proof (cases "skip_start sip = skip_end sip")
    case True
    then have "skip_set sip = {unat seq}"
      using assms(3) by (auto simp: skip_set_def)
    then show ?thesis
      using ok sips True assms(3) seq
      by (auto simp: check_current_skips_def IN_SKIP_set skips_ok_append skips_ok_Cons)
  next
    case False
    then have less: "skip_start sip < skip_end sip"
      using sip by simp
    then have "skip_start sip \<noteq> - 1" "skip_end sip \<noteq> 0"
      by auto
    with less have bounds: "skip_start sip + 1 \<le> skip_end sip" "skip_start sip \<le> skip_end sip - 1"
      "skip_end sip - 1 \<noteq> - 1"
      using unat_succ [of "skip_start sip"] unat_pred [of "skip_end sip"]
      by (auto simp: word_le_nat_alt word_less_nat_alt)
    show ?thesis
    proof (cases "seq = skip_start sip")
      case True
      then show ?thesis
        using ok sips less seq bounds sip skip_sets(1) [OF less]
        by (auto simp: check_current_skips_def IN_SKIP_set skips_ok_append skips_ok_Cons)
    next
      case False
      then show ?thesis
        using ok sips less seq bounds sip skip_sets(2) [OF less] assms(3)
        by (auto simp: check_current_skips_def IN_SKIP_set skips_ok_append skips_ok_Cons)
    qed
  qed
  then show ?thesis
    using check_not_missing by blast
qed

theorem check_current_skips_edge_witness:
  "(\<exists>sips'. check_current_skips 8 [\<lparr>skip_start = 8, skip_end = 9\<rparr>] = (sips', True)
      \<and> missing sips' = missing [\<lparr>skip_start = 8, skip_end = 9\<rparr>] - {unat (8 :: u64)}
      \<and> skips_ok sips' \<and> skip_total sips' + 1 = skip_total [\<lparr>skip_start = 8, skip_end = 9\<rparr>])
    \<and> check_current_skips 20 [\<lparr>skip_start = 8, skip_end = 9\<rparr>] = ([\<lparr>skip_start = 8, skip_end = 9\<rparr>], False)"
proof -
  let ?sips = "[\<lparr>skip_start = 8, skip_end = 9\<rparr>]"
  have "unat (20 :: u64) \<notin> missing ?sips"
    by (simp add: skip_set_def)
  with check_current_skips_edge [of ?sips "hd ?sips" 8] show ?thesis
    by (simp add: skips_ok_Cons skip_set_def)
qed

text \<open>When the late number lies strictly inside its range, \<open>check_current_skips\<close> sets \<open>sip->end\<close> before
  it passes \<open>sip->end\<close> as the end of the upper part: the part above the number is forgotten as well, an
  empty range is appended, and the count of missing numbers comes out too low by the size of the lost part
  and one more.\<close>

theorem check_current_skips_split:
  assumes "skips_ok sips" "sip \<in> set sips" and "skip_start sip < seq" "seq < skip_end sip"
  shows "\<exists>sips'. check_current_skips seq sips = (sips', True)
    \<and> missing sips' = missing sips - {unat seq..unat (skip_end sip)}
    \<and> \<lparr>skip_start = seq + 1, skip_end = seq - 1\<rparr> \<in> set sips'
    \<and> skip_total sips' + (skip_end sip - seq + 2) = skip_total sips"
proof -
  have seq: "unat seq \<in> skip_set sip"
    using assms(3,4) by (simp add: skip_set_def word_less_nat_alt)
  have nz: "seq \<noteq> 0" "seq \<noteq> - 1"
    using assms(3,4) by auto
  then have succ: "unat (seq + 1) = Suc (unat seq)" "Suc (unat (seq - 1)) = unat seq"
    by (simp_all add: unat_succ unat_pred)
  obtain ks ks' where sips: "sips = ks @ sip # ks'" "unat seq \<notin> missing ks"
    "take_seq seq sips = map_option (\<lambda>(l, x). (ks @ l, x)) (take_seq seq (sip # ks'))"
    using skips_ok_split [OF assms(1,2) seq] by blast
  have ok: "skips_ok ks" "skips_ok ks'" "missing ks \<inter> skip_set sip = {}" "skip_set sip \<inter> missing ks' = {}"
    using assms(1) by (auto simp: sips skips_ok_append skips_ok_Cons)
  define sip' where "sip' = sip\<lparr>skip_end := seq - 1\<rparr>"
  have take: "take_seq seq sips = Some (ks @ sip' # ks', Some (seq + 1, seq - 1))"
    using sips(3) seq assms(3,4) by (auto simp: IN_SKIP_set Let_def sip'_def)
  have no_merge: "merge_skip (seq + 1) (seq - 1) l = None" if "unat seq \<notin> missing l" "skips_ok l" for l
    using that
  proof (induction l)
    case (Cons k l)
    have "skip_start k \<noteq> seq" "skip_end k \<noteq> seq"
      using Cons.prems by (auto simp: skips_ok_Cons skip_set_def word_le_nat_alt)
    then show ?case
      using Cons by (auto simp: skips_ok_Cons)
  qed simp
  have set': "skip_set sip' = skip_set sip - {unat seq..unat (skip_end sip)}"
    using assms(3,4) succ by (auto simp: skip_set_def sip'_def word_less_nat_alt)
  have "skips_ok (ks @ sip' # ks')"
    using assms(1,3) succ set' nz unfolding sips skips_ok_append skips_ok_Cons
    by (auto simp: sip'_def word_le_nat_alt word_less_nat_alt)
  moreover have "unat seq \<notin> missing (ks @ sip' # ks')"
    using sips(2) ok seq set' assms(4) by (auto simp: word_less_nat_alt)
  ultimately have check: "check_current_skips seq sips =
      (\<lparr>skip_start = seq + 1, skip_end = seq - 1\<rparr> # ks @ sip' # ks', True)"
    using take no_merge by (simp add: check_current_skips_def insert_skip_def)
  moreover have "skip_set \<lparr>skip_start = seq + 1, skip_end = seq - 1\<rparr> = {}"
    using succ by (simp add: skip_set_def)
  moreover have "{unat seq..unat (skip_end sip)} \<subseteq> skip_set sip"
    using seq by (auto simp: skip_set_def)
  ultimately show ?thesis
    using ok set' by (auto simp: sips sip'_def)
qed

theorem check_current_skips_split_witness:
  "\<exists>sips'. check_current_skips 5 [\<lparr>skip_start = 3, skip_end = 9\<rparr>] = (sips', True)
    \<and> missing sips' = missing [\<lparr>skip_start = 3, skip_end = 9\<rparr>] - {unat (5 :: u64)..unat (skip_end \<lparr>skip_start = 3, skip_end = 9\<rparr>)}
    \<and> \<lparr>skip_start = 5 + 1, skip_end = 5 - 1\<rparr> \<in> set sips'
    \<and> skip_total sips' + (skip_end \<lparr>skip_start = 3, skip_end = 9\<rparr> - 5 + 2) = skip_total [\<lparr>skip_start = 3, skip_end = 9\<rparr>]"
  by (rule check_current_skips_split [where sip = "\<lparr>skip_start = 3, skip_end = 9\<rparr>"])
    (auto simp: skips_ok_Cons)

end
