(* ===== verification/Cpu_Map.thy ===== *)
theory Cpu_Map
  imports Blkparse_State
begin

text \<open>
  The CPUs of a device in \<open>blkparse.c\<close>: the growing array of per-CPU states (\<open>get_cpu_info\<close>) and the
  bitmap of the CPUs whose trace files are still open (\<open>cpu_mark_online\<close>, \<open>cpu_mark_offline\<close>,
  \<open>cpu_is_online\<close>). An access outside the bitmap or through the null pointer is \<open>None\<close>.
\<close>

section \<open>The per-CPU states\<close>

definition zero_cpu_info :: per_cpu_info where
  "zero_cpu_info = \<lparr>pci_cpu = 0, pci_nelems = 0, pci_fd = 0, pci_fdblock = 0, pci_io_stats = zero_stats,
     rb_last_root = Null, rb_last_entries = 0, last_sequence = 0, smallest_seq_read = 0, pci_skips = []\<rparr>"

text \<open>The loop at the end of \<open>resize_cpu_info\<close> sets up every entry whose descriptor is \<open>0\<close>.\<close>

definition init_cpu_info :: "per_cpu_info \<Rightarrow> per_cpu_info" where
  "init_cpu_info pci =
     (if pci_fd pci = 0
      then pci\<lparr>pci_fd := - 1, rb_last_root := Null, rb_last_entries := 0, last_sequence := - 1\<rparr>
      else pci)"

definition resize_cpu_info :: "per_dev_info \<Rightarrow> nat \<Rightarrow> per_dev_info" where
  "resize_cpu_info pdi cpu =
     (let ncpus = length (pdi_cpus pdi);
          new_count = cpu + 1;
          cpus = pdi_cpus pdi @ replicate (new_count - ncpus) zero_cpu_info
      in pdi\<lparr>pdi_cpus := map init_cpu_info cpus\<rparr>)"

text \<open>The parameter is an \<open>int\<close>: a CPU number of a record with the top bit set is negative and the
  index is out of range. The pointer that is returned is the index \<open>cpu\<close>.\<close>

definition get_cpu_info :: "per_dev_info \<Rightarrow> u32 \<Rightarrow> (per_dev_info \<times> nat) option" where
  "get_cpu_info pdi cpu =
     (if sint cpu < 0 then None
      else let n = unat cpu;
               pdi = (if length (pdi_cpus pdi) \<le> n then resize_cpu_info pdi n else pdi);
               pci = pdi_cpus pdi ! n
           in Some (pdi\<lparr>pdi_cpus := (pdi_cpus pdi)[n := pci\<lparr>pci_cpu := cpu\<rparr>]\<rparr>, n))"

section \<open>The bitmap\<close>

definition CPUS_PER_LONG :: nat where
  "CPUS_PER_LONG = 8 * 8"

definition CPU_IDX :: "u32 \<Rightarrow> nat" where
  "CPU_IDX cpu = unat cpu div CPUS_PER_LONG"

definition CPU_BIT :: "u32 \<Rightarrow> nat" where
  "CPU_BIT cpu = unat cpu mod CPUS_PER_LONG"

text \<open>\<open>new_max\<close> is computed in 64 bits and stored in an \<open>int\<close>; the size passed to \<open>malloc\<close>,
  \<open>new_max / sizeof(long)\<close>, is a number of bytes.\<close>

definition cpu_map_new_max :: "u32 \<Rightarrow> u32" where
  "cpu_map_new_max cpu =
     ucast ((ucast cpu + of_nat CPUS_PER_LONG) AND NOT (of_nat CPUS_PER_LONG - 1) :: u64)"

definition cpu_map_longs :: "u32 \<Rightarrow> nat" where
  "cpu_map_longs new_max = unat ((scast new_max :: u64) div 8) div 8"

definition grow_cpu_map :: "per_dev_info \<Rightarrow> u32 \<Rightarrow> per_dev_info" where
  "grow_cpu_map pdi cpu =
     (let new_max = cpu_map_new_max cpu;
          old = (case cpu_map pdi of None \<Rightarrow> [] | Some m \<Rightarrow> take (unat (cpu_map_max pdi) div 8 div 8) m);
          m = old @ replicate (cpu_map_longs new_max - length old) 0
      in pdi\<lparr>cpu_map := Some m, cpu_map_max := new_max\<rparr>)"

definition map_update :: "(u64 \<Rightarrow> u64) \<Rightarrow> per_dev_info \<Rightarrow> u32 \<Rightarrow> per_dev_info option" where
  "map_update f pdi cpu =
     (case cpu_map pdi of
        None \<Rightarrow> None
      | Some m \<Rightarrow> if CPU_IDX cpu < length m
                  then Some (pdi\<lparr>cpu_map := Some (m[CPU_IDX cpu := f (m ! CPU_IDX cpu)])\<rparr>)
                  else None)"

definition cpu_mark_online :: "per_dev_info \<Rightarrow> u32 \<Rightarrow> per_dev_info option" where
  "cpu_mark_online pdi cpu =
     (let pdi = (if cpu_map_max pdi \<le> cpu \<or> cpu_map pdi = None then grow_cpu_map pdi cpu else pdi)
      in map_update (\<lambda>w. w OR push_bit (CPU_BIT cpu) 1) pdi cpu)"

definition cpu_mark_offline :: "per_dev_info \<Rightarrow> u32 \<Rightarrow> per_dev_info option" where
  "cpu_mark_offline pdi cpu = map_update (\<lambda>w. w AND NOT (push_bit (CPU_BIT cpu) 1)) pdi cpu"

definition cpu_is_online :: "per_dev_info \<Rightarrow> u32 \<Rightarrow> bool option" where
  "cpu_is_online pdi cpu =
     (case cpu_map pdi of
        None \<Rightarrow> None
      | Some m \<Rightarrow> if CPU_IDX cpu < length m then Some (m ! CPU_IDX cpu AND push_bit (CPU_BIT cpu) 1 \<noteq> 0) else None)"

section \<open>The set of online CPUs\<close>

text \<open>The map is large enough for the numbers below \<open>cpu_map_max\<close>.\<close>

definition cpu_map_ok :: "per_dev_info \<Rightarrow> bool" where
  "cpu_map_ok pdi = (case cpu_map pdi of
     None \<Rightarrow> cpu_map_max pdi = 0 | Some m \<Rightarrow> unat (cpu_map_max pdi) = 64 * length m)"

definition word_bits :: "u64 list \<Rightarrow> nat set" where
  "word_bits ws = {c. c div 64 < length ws \<and> bit (ws ! (c div 64)) (c mod 64)}"

definition online_set :: "per_dev_info \<Rightarrow> nat set" where
  "online_set pdi = (case cpu_map pdi of None \<Rightarrow> {} | Some m \<Rightarrow> word_bits m)"

lemma word_bits_Nil [simp]: "word_bits [] = {}"
  by (simp add: word_bits_def)

lemma and_bit_nonzero: "(w :: u64) AND push_bit k 1 \<noteq> 0 \<longleftrightarrow> bit w k"
  by (simp add: and_exp_eq_0_iff_not_bit)

lemma and_not_63: "(w :: u64) AND NOT 63 = push_bit 6 (drop_bit 6 w)"
proof -
  have m: "(63 :: u64) = mask 6"
    by (simp add: mask_eq_exp_minus_1)
  show ?thesis
    unfolding m by (rule bit_word_eqI) (auto simp: bit_simps)
qed

lemma unat_scast_positive:
  fixes w :: u32
  assumes "unat w < 2 ^ 31"
  shows "unat (scast w :: u64) = unat w"
proof -
  have "uint w < 2 ^ 31"
    using assms of_nat_less_iff [of "unat w" "2 ^ 31", where 'a = int] by simp
  moreover have "- (2 ^ 31) \<le> uint w"
    using order_trans [OF _ uint_ge_0 [of w], of "- (2 ^ 31)"] by simp
  ultimately have "sint w = uint w"
    by (simp add: sint_uint signed_take_bit_int_eq_self)
  then have "(scast w :: u64) = ucast w"
    unfolding scast_eq ucast_eq by simp
  moreover have "unat w < 2 ^ 64"
    using assms by simp
  then have "unat (ucast w :: u64) = unat w"
    by (simp add: unsigned_ucast_eq take_bit_nat_eq_self)
  ultimately show ?thesis
    by simp
qed

lemma cpu_map_new_max_val:
  assumes "unat cpu < 2 ^ 31 - 64"
  shows "unat (cpu_map_new_max cpu) = 64 * (unat cpu div 64 + 1)"
    and "cpu_map_longs (cpu_map_new_max cpu) = unat cpu div 64 + 1"
proof -
  have "(ucast cpu :: u64) = of_nat (unat cpu)"
    by simp
  then have "(ucast cpu + 64 :: u64) = of_nat (unat cpu + 64)"
    by simp
  then have sum: "unat (ucast cpu + 64 :: u64) = unat cpu + 64"
    using assms by (simp only: unat_of_nat) (simp add: take_bit_nat_eq_self)
  have "unat (drop_bit 6 (ucast cpu + 64 :: u64)) = unat cpu div 64 + 1"
    by (simp add: drop_bit_eq_div unat_div sum)
  then have "unat (push_bit 6 (drop_bit 6 (ucast cpu + 64)) :: u64) = 64 * (unat cpu div 64 + 1)"
    using assms by (simp add: push_bit_eq_mult unat_mult_lem [THEN iffD1])
  then have big: "unat ((ucast cpu + 64 :: u64) AND NOT 63) = 64 * (unat cpu div 64 + 1)"
    by (simp only: and_not_63)
  then have small: "unat ((ucast cpu + 64 :: u64) AND NOT 63) < 2 ^ 31"
    using assms by simp
  then show new_max: "unat (cpu_map_new_max cpu) = 64 * (unat cpu div 64 + 1)"
    using big by (simp add: cpu_map_new_max_def CPUS_PER_LONG_def unsigned_ucast_eq take_bit_nat_eq_self)
  have "unat (cpu_map_new_max cpu) < 2 ^ 31"
    using new_max big small by simp
  then show "cpu_map_longs (cpu_map_new_max cpu) = unat cpu div 64 + 1"
    using new_max by (simp add: cpu_map_longs_def unat_div unat_scast_positive)
qed

lemma map_update_online:
  assumes "cpu_map pdi = Some m" "CPU_IDX cpu < length m"
  shows "map_update f pdi cpu = Some (pdi\<lparr>cpu_map := Some (m[CPU_IDX cpu := f (m ! CPU_IDX cpu)])\<rparr>)"
  using assms by (simp add: map_update_def)

lemma cpu_index: "CPU_IDX cpu = unat cpu div 64" "CPU_BIT cpu = unat cpu mod 64"
  by (simp_all add: CPU_IDX_def CPU_BIT_def CPUS_PER_LONG_def)

lemma same_bit: "(c :: nat) div 64 = d div 64 \<Longrightarrow> c mod 64 = d mod 64 \<longleftrightarrow> c = d"
  by (metis div_mult_mod_eq)

lemma online_set_update:
  assumes "cpu_map pdi = Some m" "CPU_IDX cpu < length m"
  shows "online_set (pdi\<lparr>cpu_map := Some (m[CPU_IDX cpu := m ! CPU_IDX cpu OR push_bit (CPU_BIT cpu) 1])\<rparr>)
      = insert (unat cpu) (online_set pdi)"
    and "online_set (pdi\<lparr>cpu_map := Some (m[CPU_IDX cpu := m ! CPU_IDX cpu AND NOT (push_bit (CPU_BIT cpu) 1)])\<rparr>)
      = online_set pdi - {unat cpu}"
  using assms same_bit
  by (auto simp: online_set_def word_bits_def cpu_index nth_list_update bit_simps)

lemma word_bits_padded [simp]: "word_bits (ws @ replicate k 0) = word_bits ws"
proof -
  have "c div 64 < length ws + k \<and> bit ((ws @ replicate k 0) ! (c div 64)) (c mod 64)
      \<longleftrightarrow> c div 64 < length ws \<and> bit (ws ! (c div 64)) (c mod 64)" for c
    by (cases "c div 64 < length ws") (auto simp: nth_append cong: conj_cong)
  then show ?thesis
    by (simp add: word_bits_def)
qed

lemma grow_cpu_map_ok:
  assumes "cpu_map_ok pdi" "unat cpu < 2 ^ 31 - 64" "cpu_map_max pdi \<le> cpu \<or> cpu_map pdi = None"
  shows "cpu_map_ok (grow_cpu_map pdi cpu)" "online_set (grow_cpu_map pdi cpu) = online_set pdi"
    "\<exists>m. cpu_map (grow_cpu_map pdi cpu) = Some m \<and> CPU_IDX cpu < length m"
proof -
  define old where "old = (case cpu_map pdi of None \<Rightarrow> [] | Some m \<Rightarrow> take (unat (cpu_map_max pdi) div 8 div 8) m)"
  have old: "old = (case cpu_map pdi of None \<Rightarrow> [] | Some m \<Rightarrow> m)"
    using assms(1) by (auto simp: old_def cpu_map_ok_def split: option.splits)
  have "length old \<le> unat cpu div 64 + 1"
    using assms(1,3) by (auto simp: old cpu_map_ok_def word_le_nat_alt split: option.splits)
  then have grown: "grow_cpu_map pdi cpu = pdi\<lparr>cpu_map := Some (old @ replicate (unat cpu div 64 + 1 - length old) 0),
      cpu_map_max := cpu_map_new_max cpu\<rparr>" and len: "length old \<le> unat cpu div 64 + 1"
    by (simp_all add: grow_cpu_map_def old_def [symmetric] cpu_map_new_max_val [OF assms(2)] Let_def)
  then show "cpu_map_ok (grow_cpu_map pdi cpu)"
    by (simp add: cpu_map_ok_def cpu_map_new_max_val [OF assms(2)])
  show "online_set (grow_cpu_map pdi cpu) = online_set pdi"
    unfolding grown by (simp add: online_set_def old split: option.splits)
  show "\<exists>m. cpu_map (grow_cpu_map pdi cpu) = Some m \<and> CPU_IDX cpu < length m"
    using len by (simp add: grown cpu_index)
qed

lemma cpu_map_ok_index:
  assumes "cpu_map_ok pdi" "cpu < cpu_map_max pdi"
  shows "\<exists>m. cpu_map pdi = Some m \<and> CPU_IDX cpu < length m"
  using assms by (auto simp: cpu_map_ok_def cpu_index word_less_nat_alt split: option.splits)

section \<open>Properties\<close>

text \<open>C20: the bitmap is a set of CPU numbers: \<open>cpu_mark_online\<close> adds its argument, growing the map when
  needed without losing a bit, and \<open>cpu_mark_offline\<close> and \<open>cpu_is_online\<close>, for a number below
  \<open>cpu_map_max\<close>, remove it and test it; no access is outside the map.\<close>

theorem cpu_map_is_set:
  assumes "cpu_map_ok pdi" "unat cpu < 2 ^ 31 - 64" "c < cpu_map_max pdi"
  shows "(\<exists>pdi'. cpu_mark_online pdi cpu = Some pdi' \<and> cpu_map_ok pdi' \<and> cpu < cpu_map_max pdi'
        \<and> online_set pdi' = insert (unat cpu) (online_set pdi))
    \<and> (\<exists>pdi'. cpu_mark_offline pdi c = Some pdi' \<and> cpu_map_ok pdi'
        \<and> online_set pdi' = online_set pdi - {unat c})
    \<and> cpu_is_online pdi c = Some (unat c \<in> online_set pdi)"
proof (intro conjI)
  define pdi1 where "pdi1 = (if cpu_map_max pdi \<le> cpu \<or> cpu_map pdi = None then grow_cpu_map pdi cpu else pdi)"
  have "cpu_map_ok pdi1" "online_set pdi1 = online_set pdi" "\<exists>m. cpu_map pdi1 = Some m \<and> CPU_IDX cpu < length m"
    using grow_cpu_map_ok [OF assms(1,2)] cpu_map_ok_index [OF assms(1), of cpu] assms(1)
    by (auto simp: pdi1_def)
  then obtain m where m: "cpu_map pdi1 = Some m" "CPU_IDX cpu < length m" "unat (cpu_map_max pdi1) = 64 * length m"
    by (auto simp: cpu_map_ok_def)
  then have "cpu < cpu_map_max pdi1"
    by (simp add: word_less_nat_alt cpu_index)
  with m show "\<exists>pdi'. cpu_mark_online pdi cpu = Some pdi' \<and> cpu_map_ok pdi' \<and> cpu < cpu_map_max pdi'
        \<and> online_set pdi' = insert (unat cpu) (online_set pdi)"
    using \<open>online_set pdi1 = online_set pdi\<close>
    by (simp add: cpu_mark_online_def pdi1_def [symmetric] map_update_online online_set_update cpu_map_ok_def
        del: push_bit_of_1)
next
  obtain m where m: "cpu_map pdi = Some m" "CPU_IDX c < length m"
    using cpu_map_ok_index [OF assms(1,3)] by blast
  then show "\<exists>pdi'. cpu_mark_offline pdi c = Some pdi' \<and> cpu_map_ok pdi' \<and> online_set pdi' = online_set pdi - {unat c}"
    using assms(1)
    by (simp add: cpu_mark_offline_def map_update_online online_set_update cpu_map_ok_def del: push_bit_of_1)
  show "cpu_is_online pdi c = Some (unat c \<in> online_set pdi)"
    using m by (simp add: cpu_is_online_def and_bit_nonzero online_set_def word_bits_def cpu_index del: push_bit_of_1)
qed

theorem cpu_map_is_set_witness:
  "(\<exists>pdi'. cpu_mark_online (zero_dev_info\<lparr>cpu_map := Some [5], cpu_map_max := 64\<rparr>) 70 = Some pdi'
        \<and> cpu_map_ok pdi' \<and> 70 < cpu_map_max pdi'
        \<and> online_set pdi' = insert (unat (70 :: u32)) (online_set (zero_dev_info\<lparr>cpu_map := Some [5], cpu_map_max := 64\<rparr>)))
    \<and> (\<exists>pdi'. cpu_mark_offline (zero_dev_info\<lparr>cpu_map := Some [5], cpu_map_max := 64\<rparr>) 2 = Some pdi' \<and> cpu_map_ok pdi'
        \<and> online_set pdi' = online_set (zero_dev_info\<lparr>cpu_map := Some [5], cpu_map_max := 64\<rparr>) - {unat (2 :: u32)})
    \<and> cpu_is_online (zero_dev_info\<lparr>cpu_map := Some [5], cpu_map_max := 64\<rparr>) 2
      = Some (unat (2 :: u32) \<in> online_set (zero_dev_info\<lparr>cpu_map := Some [5], cpu_map_max := 64\<rparr>))"
  by (rule cpu_map_is_set) (simp_all add: cpu_map_ok_def)

end
