(* ===== verification/Keyed_Tree.thy ===== *)
theory Keyed_Tree
  imports Rbtree
begin

text \<open>
  Red-black trees searched by a key, as the clients write the searches: the descent that looks a key up
  and the descent for an insertion that refuses a key that is present. The tree is a finite map from
  keys to the elements that carry them.
\<close>

section \<open>Descents\<close>

fun rb_find :: "('a \<Rightarrow> 'k :: linorder) \<Rightarrow> 'k \<Rightarrow> 'a rb \<Rightarrow> 'a path \<Rightarrow> ('a rb \<times> 'a path) option" where
  "rb_find key k Null p = None"
| "rb_find key k (Nd c l y r) p =
     (if k < key y then rb_find key k l (InLeft c y r # p)
      else if key y < k then rb_find key k r (InRight c l y # p)
      else Some (Nd c l y r, p))"

fun rb_place :: "('a \<Rightarrow> 'k :: linorder) \<Rightarrow> 'k \<Rightarrow> 'a rb \<Rightarrow> 'a path \<Rightarrow> 'a path option" where
  "rb_place key k Null p = Some p"
| "rb_place key k (Nd c l y r) p =
     (if k < key y then rb_place key k l (InLeft c y r # p)
      else if key y < k then rb_place key k r (InRight c l y # p)
      else None)"

text \<open>The element at a position, and the tree after an update of the element in place.\<close>

fun elem_at :: "'a rb \<times> 'a path \<Rightarrow> 'a option" where
  "elem_at (Null, p) = None"
| "elem_at (Nd c l x r, p) = Some x"

fun modify_at :: "('a \<Rightarrow> 'a) \<Rightarrow> 'a rb \<times> 'a path \<Rightarrow> 'a rb" where
  "modify_at f (Null, p) = plug Null p"
| "modify_at f (Nd c l x r, p) = plug (Nd c l (f x) r) p"

section \<open>The map a tree stands for\<close>

lemma rb_inv_element: "rb_inv (plug (Nd c l x r) p) \<longleftrightarrow> rb_inv (plug (Nd c l y r) p)"
  unfolding balanced_plug by simp

definition keyed_inv :: "('a \<Rightarrow> 'k :: linorder) \<Rightarrow> 'a rb \<Rightarrow> bool" where
  "keyed_inv key t \<longleftrightarrow> rb_inv t \<and> sorted_wrt (<) (map key (inorder t))"

definition tree_map :: "('a \<Rightarrow> 'k :: linorder) \<Rightarrow> 'a rb \<Rightarrow> 'k \<Rightarrow> 'a option" where
  "tree_map key t = map_of (map (\<lambda>x. (key x, x)) (inorder t))"

lemma tree_map_Null [simp]: "tree_map key Null k = None"
  by (simp add: tree_map_def)

lemma keyed_inv_Null [simp]: "keyed_inv key Null"
  by (simp add: keyed_inv_def rb_inv_def)

lemma tree_map_split:
  assumes "inorder t = xs @ x # ys" "sorted_wrt (<) (map key (inorder t))"
  shows "tree_map key t = (map_of (map (\<lambda>x. (key x, x)) (xs @ ys)))(key x \<mapsto> x)"
    and "map_of (map (\<lambda>x. (key x, x)) (xs @ ys)) (key x) = None"
proof -
  have "key x \<notin> key ` set xs" "key x \<notin> key ` set ys"
    using assms by (auto simp: sorted_wrt_append)
  then have none: "map_of (map (\<lambda>x. (key x, x)) xs) (key x) = None" "map_of (map (\<lambda>x. (key x, x)) ys) (key x) = None"
    by (auto simp: map_of_eq_None_iff)
  then show "tree_map key t = (map_of (map (\<lambda>x. (key x, x)) (xs @ ys)))(key x \<mapsto> x)"
    by (auto simp: tree_map_def assms(1) map_add_def fun_eq_iff split: option.splits)
  show "map_of (map (\<lambda>x. (key x, x)) (xs @ ys)) (key x) = None"
    using none by (simp add: map_add_None)
qed

lemma tree_map_Some:
  assumes "keyed_inv key t"
  shows "tree_map key t k = Some x \<longleftrightarrow> x \<in> set (inorder t) \<and> key x = k"
proof -
  have "distinct (map key (inorder t))"
    using assms by (simp add: keyed_inv_def strict_sorted_iff)
  then have "distinct (map fst (map (\<lambda>x. (key x, x)) (inorder t)))"
    by (simp add: comp_def)
  then show ?thesis
    unfolding tree_map_def by (auto simp: map_of_eq_Some_iff)
qed

lemma tree_map_None: "tree_map key t k = None \<longleftrightarrow> k \<notin> key ` set (inorder t)"
  by (auto simp: tree_map_def map_of_eq_None_iff image_image)

lemma rb_find_Some:
  "rb_find key k t p = Some (u, q) \<Longrightarrow> \<exists>c l x r. u = Nd c l x r \<and> key x = k \<and> plug u q = plug t p"
  by (induction key k t p rule: rb_find.induct) (auto split: if_splits)

lemma rb_find_None:
  "rb_find key k t p = None \<Longrightarrow> sorted_wrt (<) (map key (inorder t)) \<Longrightarrow> k \<notin> key ` set (inorder t)"
proof (induction key k t p rule: rb_find.induct)
  case (2 key k c l y r p)
  then have "\<forall>x \<in> set (inorder l). key x < key y" "\<forall>x \<in> set (inorder r). key y < key x"
    "sorted_wrt (<) (map key (inorder l))" "sorted_wrt (<) (map key (inorder r))"
    by (auto simp: sorted_wrt_append)
  then show ?case
    using 2 by (cases "k < key y"; cases "key y < k") force+
qed simp

lemma find_refines:
  assumes "keyed_inv key t"
  shows "tree_map key t k = Option.bind (rb_find key k t []) elem_at"
proof (cases "rb_find key k t []")
  case None
  then show ?thesis
    using rb_find_None [OF None] assms tree_map_None [of key t k] by (simp add: keyed_inv_def)
next
  case (Some uq)
  obtain u q where uq: "uq = (u, q)"
    by (cases uq)
  then obtain c l x r where "u = Nd c l x r" "key x = k" "plug u q = t"
    using rb_find_Some [of key k t "[]" u q] Some by auto
  moreover from this have "x \<in> set (inorder t)"
    using inorder_plug [of u q] by auto
  then have "tree_map key t k = Some x"
    using tree_map_Some [OF assms] \<open>key x = k\<close> by blast
  ultimately show ?thesis
    using Some uq by simp
qed

lemma erase_refines:
  assumes "keyed_inv key t" "rb_find key k t [] = Some (u, q)"
  shows "\<exists>t'. rb_erase u q = Some t' \<and> keyed_inv key t' \<and> tree_map key t' = (tree_map key t)(k := None)"
proof -
  obtain c l x r where u: "u = Nd c l x r" "key x = k" "plug u q = t"
    using rb_find_Some [OF assms(2)] by auto
  then obtain t' where t': "rb_erase u q = Some t'" "rb_inv t'"
    "inorder t' = (lctx q @ inorder l) @ (inorder r @ rctx q)"
    using rb_erase_balanced [of c l x r q] assms(1) by (auto simp: keyed_inv_def)
  have t: "inorder t = (lctx q @ inorder l) @ x # (inorder r @ rctx q)"
    unfolding u(3) [symmetric] u(1) by simp
  have sorted: "sorted_wrt (<) (map key (inorder t))"
    using assms(1) by (simp add: keyed_inv_def)
  note split = tree_map_split [OF t sorted]
  have "sorted_wrt (<) (map key (inorder t'))"
    using sorted unfolding t t'(3) by (simp add: sorted_wrt_append)
  moreover have "tree_map key t' = (tree_map key t)(k := None)"
    unfolding split(1) using split(2) u(2) by (auto simp: tree_map_def t'(3))
  ultimately show ?thesis
    using t' by (simp add: keyed_inv_def)
qed

lemma modify_refines:
  assumes "keyed_inv key t" "rb_find key k t [] = Some (u, q)" "\<And>x. key (f x) = key x"
  shows "keyed_inv key (modify_at f (u, q)) \<and> tree_map key (modify_at f (u, q)) = (tree_map key t)(k := map_option f (tree_map key t k))"
proof -
  obtain c l x r where u: "u = Nd c l x r" "key x = k" "plug u q = t"
    using rb_find_Some [OF assms(2)] by auto
  have t: "inorder t = (lctx q @ inorder l) @ x # (inorder r @ rctx q)"
    unfolding u(3) [symmetric] u(1) by simp
  have t': "inorder (modify_at f (u, q)) = (lctx q @ inorder l) @ f x # (inorder r @ rctx q)"
    by (simp add: u(1))
  have inv: "rb_inv t" "sorted_wrt (<) (map key (inorder t))"
    using assms(1) by (simp_all add: keyed_inv_def)
  then have sorted': "sorted_wrt (<) (map key (inorder (modify_at f (u, q))))"
    unfolding t t' by (simp add: assms(3))
  have "rb_inv (modify_at f (u, q))"
    using inv(1) rb_inv_element [of c l "f x" r q x] unfolding u(3) [symmetric] u(1) modify_at.simps by simp
  moreover have "tree_map key (modify_at f (u, q)) = (tree_map key t)(k := map_option f (tree_map key t k))"
    unfolding tree_map_split(1) [OF t' sorted'] tree_map_split(1) [OF t inv(2)]
    by (simp add: assms(3) u(2))
  ultimately show ?thesis
    using sorted' by (simp add: keyed_inv_def)
qed

lemma rb_place_slot: "rb_place key k t p = Some q \<Longrightarrow> q = rb_slot (\<lambda>y. k < key y) t p"
  by (induction key k t p rule: rb_place.induct) (auto split: if_splits)

lemma rb_place_find: "rb_place key k t p = None \<longleftrightarrow> rb_find key k t p \<noteq> None"
  by (induction key k t p rule: rb_place.induct) auto

lemma insert_refines:
  assumes "keyed_inv key t" "rb_place key (key x) t [] = Some q"
  shows "\<exists>t'. rb_link_insert x q = Some t' \<and> keyed_inv key t' \<and> tree_map key t' = (tree_map key t)(key x \<mapsto> x)"
proof -
  define f where "f = (\<lambda>y. key x < key y)"
  have q: "q = rb_slot f t []"
    using rb_place_slot [OF assms(2)] by (simp add: f_def)
  have inv: "rb_inv t" "sorted_wrt (<) (map key (inorder t))"
    using assms(1) by (simp_all add: keyed_inv_def)
  then have "sorted_wrt (\<lambda>x y. key x < key y) (inorder t)"
    by (simp add: sorted_wrt_map)
  then have mono: "sorted_wrt (\<lambda>x y. f x \<longrightarrow> f y) (inorder t)"
    by (rule sorted_wrt_mono_rel [rotated]) (auto simp: f_def)
  obtain t' where t': "rb_link_insert x q = Some t'" "rb_inv t'" "inorder t' = lctx q @ x # rctx q"
    using rb_link_insert_ok [OF inv(1), of x f] q by blast
  have t: "lctx q @ rctx q = inorder t"
    unfolding q by (rule slot_contents)
  have "rb_find key (key x) t [] = None"
    using assms(2) rb_place_find [of key "key x" t "[]"] by (metis option.distinct(1))
  then have absent: "key x \<notin> key ` set (inorder t)"
    using rb_find_None inv(2) by blast
  have "key y < key x" if "y \<in> set (lctx q)" for y
  proof -
    have "\<not> f y"
      using rb_slot_split(1) [OF mono] that unfolding q by blast
    moreover have "key y \<in> key ` set (inorder t)"
      using that unfolding t [symmetric] by simp
    ultimately show ?thesis
      using absent by (metis f_def not_less_iff_gr_or_eq)
  qed
  moreover have "key x < key y" if "y \<in> set (rctx q)" for y
    using rb_slot_split(2) [OF mono] that unfolding q by (simp add: f_def)
  ultimately have sorted': "sorted_wrt (<) (map key (inorder t'))"
    using inv(2) unfolding t'(3) t [symmetric] by (auto simp: sorted_wrt_append)
  then have "tree_map key t' = (tree_map key t)(key x \<mapsto> x)"
    unfolding tree_map_split(1) [OF t'(3) sorted'] by (simp add: tree_map_def t)
  then show ?thesis
    using t' sorted' by (simp add: keyed_inv_def)
qed

end
