(* ===== verification/Trace_Queue.thy ===== *)
theory Trace_Queue
  imports Blkparse_State Keyed_Tree "HOL-Library.Product_Lexorder"
begin

text \<open>
  The two kinds of trees of traces in \<open>blkparse.c\<close>: the insertion that orders traces by time, device and
  sequence number, the removal of the first one, and the search for a sequence number. The trees
  are priority queues; what their clients rely on is stated as two locales.
\<close>

section \<open>Priority queues\<close>

locale priority_queue =
  fixes key :: "'a \<Rightarrow> 'k :: linorder"
    and enq :: "'a \<Rightarrow> 'q \<Rightarrow> 'q option"
    and deq :: "'q \<Rightarrow> ('a \<times> 'q) option"
    and inv :: "'q \<Rightarrow> bool"
    and contents :: "'q \<Rightarrow> 'a list"
  assumes sorted_contents: "inv q \<Longrightarrow> sorted (map key (contents q))"
    and enq_adds: "inv q \<Longrightarrow> \<exists>q'. enq x q = Some q' \<and> inv q' \<and> mset (contents q') = add_mset x (mset (contents q))"
    and deq_empty: "inv q \<Longrightarrow> contents q = [] \<Longrightarrow> deq q = None"
    and deq_first: "inv q \<Longrightarrow> contents q = x # xs \<Longrightarrow> \<exists>q'. deq q = Some (x, q') \<and> inv q' \<and> contents q' = xs"
begin

fun enq_all :: "'a list \<Rightarrow> 'q \<Rightarrow> 'q option" where
  "enq_all [] q = Some q"
| "enq_all (x # xs) q = do { q \<leftarrow> enq x q; enq_all xs q }"

text \<open>Removing up to \<open>n\<close> elements.\<close>

fun drain :: "nat \<Rightarrow> 'q \<Rightarrow> 'a list \<times> 'q" where
  "drain 0 q = ([], q)"
| "drain (Suc n) q = (case deq q of
     None \<Rightarrow> ([], q) | Some (x, q) \<Rightarrow> let (xs, q) = drain n q in (x # xs, q))"

lemma enq_all_ok:
  "inv q \<Longrightarrow> \<exists>q'. enq_all xs q = Some q' \<and> inv q' \<and> mset (contents q') = mset (contents q) + mset xs"
proof (induction xs arbitrary: q)
  case (Cons x xs)
  obtain q1 where q1: "enq x q = Some q1" "inv q1" "mset (contents q1) = add_mset x (mset (contents q))"
    using enq_adds [OF Cons.prems] by blast
  then show ?case
    using Cons.IH [of q1] by auto
qed auto

lemma drain_ok:
  "inv q \<Longrightarrow> length (contents q) \<le> n \<Longrightarrow> \<exists>q'. drain n q = (contents q, q') \<and> inv q' \<and> contents q' = []"
proof (induction n arbitrary: q)
  case (Suc n)
  show ?case
  proof (cases "contents q")
    case Nil
    then show ?thesis
      using Suc.prems deq_empty by simp
  next
    case (Cons x xs)
    then obtain q1 where "deq q = Some (x, q1)" "inv q1" "contents q1 = xs"
      using deq_first Suc.prems by blast
    then show ?thesis
      using Suc.IH [of q1] Suc.prems Cons by auto
  qed
qed simp

lemma enq_drain_sorted:
  assumes "inv q" "contents q = []"
  shows "\<exists>q' ys q''. enq_all xs q = Some q' \<and> drain (length xs) q' = (ys, q'') \<and> sorted (map key ys) \<and> mset ys = mset xs"
proof -
  obtain q' where q': "enq_all xs q = Some q'" "inv q'" "mset (contents q') = mset xs"
    using enq_all_ok [OF assms(1), of xs] assms(2) by auto
  then have "length (contents q') \<le> length xs"
    using mset_eq_length [OF q'(3)] by simp
  then show ?thesis
    using drain_ok [OF q'(2)] q' sorted_contents [OF q'(2)] by blast
qed

end

text \<open>A queue that keeps elements of equal keys in the order of their arrival.\<close>

locale stable_priority_queue = priority_queue +
  assumes enq_stable: "inv q \<Longrightarrow> enq x q = Some q' \<Longrightarrow>
    \<exists>xs ys. contents q = xs @ ys \<and> contents q' = xs @ x # ys \<and> (\<forall>y \<in> set ys. key x < key y)"
begin

lemma enq_sort:
  assumes "inv q" "enq x q = Some q'" "contents q = sort_key key zs"
  shows "contents q' = sort_key key (zs @ [x])"
proof -
  obtain xs ys where s: "contents q = xs @ ys" "contents q' = xs @ x # ys" "\<forall>y \<in> set ys. key x < key y"
    using enq_stable [OF assms(1,2)] by blast
  have inv: "inv q'"
    using enq_adds [OF assms(1), of x] assms(2) by auto
  have late: "filter (\<lambda>y. key k = key y) ys = []" if "key k = key x" for k
    using s(3) that by (auto simp: filter_empty_conv)
  have "filter (\<lambda>y. key k = key y) zs = filter (\<lambda>y. key k = key y) (contents q)" for k
    using sort_key_stable [of key "key k" zs] assms(3) by (simp add: eq_commute)
  then have "filter (\<lambda>y. key k = key y) (contents q') = filter (\<lambda>y. key k = key y) (zs @ [x])" for k
    using late [of k] by (simp add: s(1,2))
  moreover have "mset (zs @ [x]) = mset (contents q')"
    using arg_cong [OF assms(3), of mset] s(1,2) by simp
  ultimately show ?thesis
    using properties_for_sort_key [of "contents q'" "zs @ [x]" key] sorted_contents [OF inv] by simp
qed

lemma enq_all_sort:
  "inv q \<Longrightarrow> contents q = sort_key key zs \<Longrightarrow>
     \<exists>q'. enq_all xs q = Some q' \<and> inv q' \<and> contents q' = sort_key key (zs @ xs)"
proof (induction xs arbitrary: q zs)
  case (Cons x xs)
  obtain q1 where q1: "enq x q = Some q1" "inv q1"
    using enq_adds [OF Cons.prems(1)] by blast
  then show ?case
    using Cons.IH [of q1 "zs @ [x]"] enq_sort [OF Cons.prems(1) q1(1) Cons.prems(2)] by simp
qed auto

end

section \<open>Insertion and removal\<close>

text \<open>The test of the descent in \<open>trace_rb_insert\<close>: equal traces go to the right.\<close>

definition trace_goes_left :: "trace \<Rightarrow> trace \<Rightarrow> bool" where
  "trace_goes_left t u =
     (let a = t_bit t; b = t_bit u
      in if tr_time a < tr_time b then True
         else if tr_time a > tr_time b then False
         else if tr_device a < tr_device b then True
         else if tr_device a > tr_device b then False
         else if tr_sequence a < tr_sequence b then True
         else False)"

definition trace_rb_insert :: "trace \<Rightarrow> trace rb \<Rightarrow> trace rb option" where
  "trace_rb_insert t root = rb_link_insert t (rb_slot (trace_goes_left t) root [])"

text \<open>\<open>rb_first\<close>, \<open>rb_entry\<close> and \<open>rb_erase\<close>, as the loops that empty a tree use them.\<close>

definition trace_rb_take :: "trace rb \<Rightarrow> (trace \<times> trace rb) option" where
  "trace_rb_take root = do {
     n \<leftarrow> rb_first root;
     t \<leftarrow> elem_at n;
     root \<leftarrow> rb_erase (fst n) (snd n);
     Some (t, root) }"

definition trace_key :: "trace \<Rightarrow> u64 \<times> u32 \<times> u32" where
  "trace_key t = (tr_time (t_bit t), tr_device (t_bit t), tr_sequence (t_bit t))"

definition queue_inv :: "trace rb \<Rightarrow> bool" where
  "queue_inv root \<longleftrightarrow> rb_inv root \<and> sorted (map trace_key (inorder root))"

lemma queue_inv_Null [simp]: "queue_inv Null"
  by (simp add: queue_inv_def rb_inv_def)

lemma trace_goes_left_key: "trace_goes_left t u \<longleftrightarrow> trace_key t < trace_key u"
  by (auto simp: trace_goes_left_def trace_key_def less_prod_def Let_def)

lemma trace_rb_insert_ok:
  assumes "queue_inv root"
  shows "\<exists>r xs ys. trace_rb_insert t root = Some r \<and> queue_inv r \<and> inorder root = xs @ ys \<and> inorder r = xs @ t # ys
    \<and> (\<forall>y \<in> set ys. trace_key t < trace_key y)"
proof -
  let ?p = "rb_slot (trace_goes_left t) root []"
  have inv: "rb_inv root" and sorted: "sorted (map trace_key (inorder root))"
    using assms by (simp_all add: queue_inv_def)
  obtain r where r: "rb_link_insert t ?p = Some r" "rb_inv r" "inorder r = lctx ?p @ t # rctx ?p"
    using rb_link_insert_ok [OF inv] by blast
  have "sorted_wrt (\<lambda>x y. trace_goes_left t x \<longrightarrow> trace_goes_left t y) (inorder root)"
    using sorted unfolding sorted_map by (rule sorted_wrt_mono_rel [rotated]) (auto simp: trace_goes_left_key)
  note split = rb_slot_split [OF this]
  have "sorted_wrt (\<lambda>x y. trace_key x \<le> trace_key y) (lctx ?p @ t # rctx ?p)"
  proof (rule sorted_wrt_insert_between)
    show "sorted_wrt (\<lambda>x y. trace_key x \<le> trace_key y) (lctx ?p @ rctx ?p)"
      using sorted by (simp add: slot_contents sorted_map)
    show "trace_key x \<le> trace_key t" if "x \<in> set (lctx ?p)" for x
      using split(1) [OF that] by (simp add: trace_goes_left_key)
    show "trace_key t \<le> trace_key y" if "y \<in> set (rctx ?p)" for y
      using split(2) [OF that] by (simp add: trace_goes_left_key)
  qed
  then have "queue_inv r"
    unfolding queue_inv_def r(3) sorted_map using r(2) by simp
  moreover have "\<forall>y \<in> set (rctx ?p). trace_key t < trace_key y"
    using split(2) unfolding trace_goes_left_key by blast
  ultimately show ?thesis
    unfolding trace_rb_insert_def using r slot_contents [of "trace_goes_left t" root] by metis
qed

lemma elem_at_pos: "u \<noteq> Null \<Longrightarrow> at_pos (u, q) = (xs, ys) \<Longrightarrow> \<exists>x zs. elem_at (u, q) = Some x \<and> ys = x # zs"
  by (cases u) auto

lemma queue_erase:
  assumes "queue_inv (plug u q)" "u \<noteq> Null" "at_pos (u, q) = (xs, x # ys)"
  shows "\<exists>r. rb_erase u q = Some r \<and> queue_inv r \<and> inorder r = xs @ ys"
proof -
  obtain c l y r where u: "u = Nd c l y r"
    using assms(2) by (cases u) auto
  then obtain r' where "rb_erase u q = Some r'" "rb_inv r'" "inorder r' = xs @ ys"
    using rb_erase_balanced [of c l y r q] assms by (auto simp: queue_inv_def)
  moreover have "inorder (plug u q) = xs @ x # ys"
    using at_pos_plug [of u q] assms(3) by simp
  ultimately show ?thesis
    using assms(1) sorted_wrt_remove_middle unfolding queue_inv_def sorted_map by fastforce
qed

lemma rb_first_ok:
  assumes "queue_inv root" "inorder root = t # ts"
  shows "\<exists>u q. rb_first root = Some (u, q) \<and> elem_at (u, q) = Some t \<and> u \<noteq> Null \<and> plug u q = root
    \<and> (\<exists>r. rb_erase u q = Some r \<and> queue_inv r \<and> inorder r = ts)"
proof -
  have "root \<noteq> Null"
    using assms(2) by auto
  then obtain u q where uq: "rb_first root = Some (u, q)"
    by (cases "rb_first root") auto
  note pos = rb_first_pos [OF uq]
  then show ?thesis
    using elem_at_pos [of u q "[]" "t # ts"] queue_erase [of u q "[]" t ts] assms uq by auto
qed

lemma trace_rb_take_ok:
  assumes "queue_inv root" "inorder root = t # ts"
  shows "\<exists>r. trace_rb_take root = Some (t, r) \<and> queue_inv r \<and> inorder r = ts"
  using rb_first_ok [OF assms] by (auto simp: trace_rb_take_def)

interpretation trq: stable_priority_queue trace_key trace_rb_insert trace_rb_take queue_inv inorder
proof unfold_locales
  fix q :: "trace rb" and x xs
  assume inv: "queue_inv q"
  then show "sorted (map trace_key (inorder q))"
    by (simp add: queue_inv_def)
  show "\<exists>q'. trace_rb_insert x q = Some q' \<and> queue_inv q' \<and> mset (inorder q') = add_mset x (mset (inorder q))"
    using trace_rb_insert_ok [OF inv, of x] by fastforce
  show "trace_rb_take q = None" if "inorder q = []"
    using that by (simp add: trace_rb_take_def rb_first_def)
  show "\<exists>q'. trace_rb_take q = Some (x, q') \<and> queue_inv q' \<and> inorder q' = xs" if "inorder q = x # xs"
    using trace_rb_take_ok [OF inv that] .
  show "\<exists>xs ys. inorder q = xs @ ys \<and> inorder q' = xs @ x # ys \<and> (\<forall>y \<in> set ys. trace_key x < trace_key y)"
    if "trace_rb_insert x q = Some q'" for q'
    using trace_rb_insert_ok [OF inv, of x] that by auto
qed

section \<open>Search\<close>

text \<open>The descent of \<open>trace_rb_find\<close>: the node that matches (\<open>Inl\<close>), or the last one visited.\<close>

fun trace_find_from ::
    "u32 \<Rightarrow> u64 \<Rightarrow> trace rb \<Rightarrow> trace path \<Rightarrow> (trace rb \<times> trace path) option
     \<Rightarrow> (trace rb \<times> trace path) + (trace rb \<times> trace path) option" where
  "trace_find_from device sequence Null p prev = Inr prev"
| "trace_find_from device sequence (Nd c l t r) p prev =
     (let n = Some (Nd c l t r, p); b = t_bit t
      in if device < tr_device b then trace_find_from device sequence l (InLeft c t r # p) n
         else if device > tr_device b then trace_find_from device sequence r (InRight c l t # p) n
         else if sequence < ucast (tr_sequence b) then trace_find_from device sequence l (InLeft c t r # p) n
         else if sequence > ucast (tr_sequence b) then trace_find_from device sequence r (InRight c l t # p) n
         else Inl (Nd c l t r, p))"

definition trace_matches :: "u32 \<Rightarrow> u64 \<Rightarrow> trace \<Rightarrow> bool" where
  "trace_matches device sequence t \<longleftrightarrow> tr_device (t_bit t) = device \<and> ucast (tr_sequence (t_bit t)) = sequence"

text \<open>The loop that browses ahead; the counter \<open>max\<close> is the number of nodes left.\<close>

fun browse :: "u32 \<Rightarrow> u64 \<Rightarrow> nat \<Rightarrow> trace rb \<times> trace path \<Rightarrow> (trace rb \<times> trace path) option" where
  "browse device sequence 0 prev = None"
| "browse device sequence (Suc left) prev =
     (case rb_next (fst prev) (snd prev) of
        None \<Rightarrow> None
      | Some n \<Rightarrow>
          (case elem_at n of
             None \<Rightarrow> None
           | Some t \<Rightarrow> if trace_matches device sequence t then Some n else browse device sequence left n))"

definition trace_rb_find :: "u32 \<Rightarrow> u64 \<Rightarrow> trace rb \<Rightarrow> bool \<Rightarrow> (trace rb \<times> trace path) option" where
  "trace_rb_find device sequence root order =
     (case trace_find_from device sequence root [] None of
        Inl n \<Rightarrow> Some n
      | Inr None \<Rightarrow> None
      | Inr (Some prev) \<Rightarrow> if order then browse device sequence 5 prev else None)"

definition trace_rb_find_last :: "per_dev_info \<Rightarrow> per_cpu_info \<Rightarrow> u64 \<Rightarrow> (trace rb \<times> trace path) option" where
  "trace_rb_find_last pdi pci seq = trace_rb_find (pdi_dev pdi) seq (rb_last_root pci) False"

text \<open>A position that a search may return: a node of the tree that matches.\<close>

definition found_at :: "u32 \<Rightarrow> u64 \<Rightarrow> trace rb \<Rightarrow> trace rb \<times> trace path \<Rightarrow> bool" where
  "found_at device sequence root n \<longleftrightarrow> fst n \<noteq> Null \<and> plug (fst n) (snd n) = root
     \<and> (\<exists>t. elem_at n = Some t \<and> t \<in> set (inorder root) \<and> trace_matches device sequence t)"

definition node_of :: "trace rb \<Rightarrow> trace rb \<times> trace path \<Rightarrow> bool" where
  "node_of root n \<longleftrightarrow> fst n \<noteq> Null \<and> plug (fst n) (snd n) = root"

fun find_ok where
  "find_ok device sequence root (Inl n) = found_at device sequence root n"
| "find_ok device sequence root (Inr q) = (\<forall>n. q = Some n \<longrightarrow> node_of root n)"

lemma trace_find_from_ok:
  "(\<forall>n. prev = Some n \<longrightarrow> node_of (plug t p) n) \<Longrightarrow>
   find_ok device sequence (plug t p) (trace_find_from device sequence t p prev)"
proof (induction t arbitrary: p prev)
  case (Nd c l x r)
  have n: "\<forall>n. Some (Nd c l x r, p) = Some n \<longrightarrow> node_of (plug (Nd c l x r) p) n"
    by (simp add: node_of_def)
  show ?case
    using Nd.IH(1) [of "Some (Nd c l x r, p)" "InLeft c x r # p"] n
      Nd.IH(2) [of "Some (Nd c l x r, p)" "InRight c l x # p"]
    by (auto simp: Let_def found_at_def trace_matches_def not_less_iff_gr_or_eq)
qed simp

lemma browse_ok:
  "node_of root n \<Longrightarrow> browse device sequence k n = Some m \<Longrightarrow> found_at device sequence root m"
proof (induction k arbitrary: n)
  case (Suc k)
  obtain t p where n: "n = (t, p)"
    by (cases n)
  obtain u q where uq: "rb_next t p = Some (u, q)"
    using Suc.prems(2) n by (auto split: option.splits)
  obtain x where x: "elem_at (u, q) = Some x"
    using Suc.prems(2) n uq by (auto split: option.splits)
  have "t \<noteq> Null" "plug t p = root"
    using Suc.prems(1) by (simp_all add: n node_of_def)
  moreover obtain xs y ys where "at_pos (t, p) = (xs, y # ys)"
    using \<open>t \<noteq> Null\<close> by (cases t) auto
  ultimately have step: "at_pos (u, q) = (xs @ [y], ys)" "plug u q = root" "u \<noteq> Null"
    using rb_next_cases [of t p xs y ys] uq by simp_all
  moreover have "x \<in> set (inorder root)"
    using x step(2,3) by (cases u) auto
  ultimately show ?case
    using Suc.IH [of "(u, q)"] Suc.prems(2) uq x
    by (auto simp: n found_at_def node_of_def split: if_splits)
qed simp

lemma trace_rb_find_ok:
  assumes "trace_rb_find device sequence root order = Some n"
  shows "found_at device sequence root n"
proof -
  have start: "find_ok device sequence root (trace_find_from device sequence root [] None)"
    using trace_find_from_ok [of None root "[]" device sequence] by simp
  then show ?thesis
    using assms
    by (cases "trace_find_from device sequence root [] None")
      (auto simp: trace_rb_find_def split: option.splits if_splits intro: browse_ok)
qed

text \<open>The descent finds a trace when the tree is also ordered by device and sequence number.\<close>

definition seq_key :: "trace \<Rightarrow> u32 \<times> u32" where
  "seq_key t = (tr_device (t_bit t), tr_sequence (t_bit t))"

lemma trace_find_from_complete:
  assumes "sorted_wrt (\<lambda>t u. seq_key t < seq_key u) (inorder root)" "t \<in> set (inorder root)"
    and "trace_matches device sequence t"
  shows "\<exists>n. trace_find_from device sequence root p prev = Inl n \<and> elem_at n = Some t"
  using assms
proof (induction root arbitrary: p prev)
  case (Nd c l x r)
  have order: "\<forall>y \<in> set (inorder l). seq_key y < seq_key x" "\<forall>y \<in> set (inorder r). seq_key x < seq_key y"
    using Nd.prems(1) by (auto simp: sorted_wrt_append)
  have eq: "device = tr_device (t_bit t)" "sequence = ucast (tr_sequence (t_bit t))"
    using Nd.prems(3) by (auto simp: trace_matches_def)
  have less: "(ucast (a :: u32) :: u64) < ucast b \<longleftrightarrow> a < b" for a b
    by (simp add: word_less_nat_alt unsigned_ucast_eq take_bit_nat_eq_self unsigned_less [THEN less_le_trans])
  consider "t \<in> set (inorder l)" | "t = x" | "t \<in> set (inorder r)"
    using Nd.prems(2) by auto
  then show ?case
  proof cases
    case 1
    then have "seq_key t < seq_key x"
      using order by blast
    then show ?thesis
      using 1 Nd.IH(1) Nd.prems by (auto simp: eq less seq_key_def less_prod_def Let_def sorted_wrt_append)
  next
    case 2
    then show ?thesis
      by (simp add: eq)
  next
    case 3
    then have "seq_key x < seq_key t"
      using order by blast
    then show ?thesis
      using 3 Nd.IH(2) Nd.prems by (auto simp: eq less seq_key_def less_prod_def Let_def sorted_wrt_append)
  qed
qed simp

end
