(* ===== verification/Process_Map.thy ===== *)
theory Process_Map
  imports Blkparse_State Jhash
begin

text \<open>
  The process tables of \<open>blkparse.c\<close>: the names of the processes (\<open>ppm_hash_table\<close>), filled by the
  notifications of the trace, and the per-process statistics (\<open>ppi_hash_table\<close> and \<open>ppi_list\<close>),
  keyed by the pid or by the name.
\<close>

section \<open>C strings and words in memory\<close>

text \<open>The string that starts at a byte array.\<close>

definition cstr :: "u8 list \<Rightarrow> u8 list" where
  "cstr bs = takeWhile (\<lambda>b. b \<noteq> 0) bs"

text \<open>\<open>strncpy(comm, name, 16)\<close> into the array of 16 bytes, the last of which is then cleared.\<close>

definition comm_of :: "u8 list \<Rightarrow> u8 list" where
  "comm_of name = (take 16 (cstr name @ replicate 16 0))[15 := 0]"

definition get_u32 :: "u8 list \<Rightarrow> nat \<Rightarrow> u32" where
  "get_u32 bs i = ucast (bs ! i) OR push_bit 8 (ucast (bs ! (i + 1)))
     OR push_bit 16 (ucast (bs ! (i + 2))) OR push_bit 24 (ucast (bs ! (i + 3)))"

section \<open>Names of processes\<close>

definition JHASH_RANDOM :: u32 where
  "JHASH_RANDOM = 0x3af5f2ee"

definition PPM_HASH_MASK :: u32 where
  "PPM_HASH_MASK = push_bit 8 1 - 1"

definition ppm_hash_pid :: "u32 \<Rightarrow> nat" where
  "ppm_hash_pid pid = unat (jhash_1word pid JHASH_RANDOM AND PPM_HASH_MASK)"

definition find_ppm :: "globals \<Rightarrow> u32 \<Rightarrow> process_pid_map option" where
  "find_ppm g pid = find (\<lambda>ppm. ppm_pid ppm = pid) (ppm_hash_table g (ppm_hash_pid pid))"

definition add_ppm_hash :: "u32 \<Rightarrow> u8 list \<Rightarrow> globals \<Rightarrow> globals \<times> process_pid_map" where
  "add_ppm_hash pid name g =
     (let hash_idx = ppm_hash_pid pid in
      case find_ppm g pid of
        Some ppm \<Rightarrow> (g, ppm)
      | None \<Rightarrow>
          let ppm = \<lparr>ppm_pid = pid, ppm_comm = comm_of name\<rparr>
          in (g\<lparr>ppm_hash_table := (ppm_hash_table g)(hash_idx := ppm # ppm_hash_table g hash_idx)\<rparr>, ppm))"

definition find_process_name :: "globals \<Rightarrow> u32 \<Rightarrow> u8 list option" where
  "find_process_name g pid = map_option ppm_comm (find_ppm g pid)"

text \<open>The byte string \<open>"unknown"\<close>.\<close>

definition unknown_name :: "u8 list" where
  "unknown_name = [0x75, 0x6e, 0x6b, 0x6e, 0x6f, 0x77, 0x6e]"

text \<open>\<open>ppm = find_ppm(pid); if (!ppm) ppm = add_ppm_hash(pid, "unknown")\<close>, of two functions.\<close>

definition find_or_add_ppm :: "u32 \<Rightarrow> globals \<Rightarrow> globals \<times> process_pid_map" where
  "find_or_add_ppm pid g =
     (case find_ppm g pid of Some ppm \<Rightarrow> (g, ppm) | None \<Rightarrow> add_ppm_hash pid unknown_name g)"

section \<open>Notifications\<close>

text \<open>
  The seconds and nanoseconds are stored in fields of type \<open>long\<close>, so the test for a negative
  number of nanoseconds fails for every \<open>__u32\<close>.
\<close>

definition handle_notify :: "blk_io_trace \<Rightarrow> globals \<Rightarrow> globals" where
  "handle_notify t g =
     (if tr_action t = BLK_TN TN_PROCESS then fst (add_ppm_hash (tr_pid t) (tr_pdu t) g)
      else if tr_action t = BLK_TN TN_TIMESTAMP then
        (if tr_pdu_len t \<noteq> 8 then g
         else let s = get_u32 (tr_pdu t) 0;
                  n = get_u32 (tr_pdu t) 4;
                  s = (if data_is_native g = Native_no then bswap_32 s else s);
                  n = (if data_is_native g = Native_no then bswap_32 n else n);
                  sec = uint s; nsec = uint n
              in g\<lparr>start_timestamp := tr_time t,
                   abs_start_time := (if nsec < 0 then (sec - 1, nsec + 1000000000) else (sec, nsec))\<rparr>)
      else if tr_action t = BLK_TN TN_MESSAGE then
        (if tr_pdu_len t > 0 then emit (Message_text t (cstr (take (unat (tr_pdu_len t)) (tr_pdu t)))) g else g)
      else g)"

section \<open>Statistics of processes\<close>

definition PPI_HASH_MASK :: u32 where
  "PPI_HASH_MASK = push_bit 8 1 - 1"

definition ppi_hash_pid :: "u32 \<Rightarrow> nat" where
  "ppi_hash_pid pid = unat (jhash_1word pid JHASH_RANDOM AND PPI_HASH_MASK)"

definition ppi_hash_name :: "u8 list \<Rightarrow> nat" where
  "ppi_hash_name name = unat (jhash (take 16 name) JHASH_RANDOM AND PPI_HASH_MASK)"

definition ppi_hash :: "globals \<Rightarrow> per_process_info \<Rightarrow> nat" where
  "ppi_hash g ppi =
     (if ppi_hash_by_pid g then ppi_hash_pid (ppm_pid (ppi_ppm ppi)) else ppi_hash_name (ppm_comm (ppi_ppm ppi)))"

text \<open>A new struct gets the next position of the store; \<open>add_ppi_to_hash\<close> and \<open>add_ppi_to_list\<close> put it
  at the head of its chain and of the list. \<open>ppi_list_entries\<close> is the length of the list.\<close>

definition add_ppi_to_hash :: "nat \<Rightarrow> globals \<Rightarrow> globals" where
  "add_ppi_to_hash i g =
     (let hash_idx = ppi_hash g (ppi_store g ! i)
      in g\<lparr>ppi_hash_table := (ppi_hash_table g)(hash_idx := i # ppi_hash_table g hash_idx)\<rparr>)"

definition add_ppi_to_list :: "nat \<Rightarrow> globals \<Rightarrow> globals" where
  "add_ppi_to_list i g = g\<lparr>ppi_list := i # ppi_list g\<rparr>"

definition find_ppi_by_name :: "globals \<Rightarrow> u8 list \<Rightarrow> nat option" where
  "find_ppi_by_name g name =
     find (\<lambda>i. cstr (ppm_comm (ppi_ppm (ppi_store g ! i))) = cstr name) (ppi_hash_table g (ppi_hash_name name))"

definition find_ppi_by_pid :: "globals \<Rightarrow> u32 \<Rightarrow> nat option" where
  "find_ppi_by_pid g pid =
     find (\<lambda>i. ppm_pid (ppi_ppm (ppi_store g ! i)) = pid) (ppi_hash_table g (ppi_hash_pid pid))"

definition update_ppi :: "nat \<Rightarrow> (per_process_info \<Rightarrow> per_process_info) \<Rightarrow> globals \<Rightarrow> globals" where
  "update_ppi i f g = g\<lparr>ppi_store := (ppi_store g)[i := f (ppi_store g ! i)]\<rparr>"

definition find_ppi :: "u32 \<Rightarrow> globals \<Rightarrow> globals \<times> nat option" where
  "find_ppi pid g =
     (if ppi_hash_by_pid g then (g, find_ppi_by_pid g pid)
      else case find_process_name g pid of
        None \<Rightarrow> (g, None)
      | Some name \<Rightarrow>
          (case find_ppi_by_name g name of
             None \<Rightarrow> (g, None)
           | Some i \<Rightarrow>
               (if ppm_pid (ppi_ppm (ppi_store g ! i)) \<noteq> pid
                then update_ppi i (\<lambda>ppi. ppi\<lparr>ppi_more_than_one := True\<rparr>) g else g, Some i)))"

definition new_ppi :: "process_pid_map \<Rightarrow> per_process_info" where
  "new_ppi ppm = \<lparr>ppi_ppm = ppm, ppi_io_stats = zero_stats, ppi_more_than_one = False,
     longest_allocation_wait = (0, 0), longest_dispatch_wait = (0, 0), longest_completion_wait = (0, 0)\<rparr>"

text \<open>The pointer to the statistics that is returned is the position of the struct.\<close>

definition find_process_io_stats :: "u32 \<Rightarrow> globals \<Rightarrow> globals \<times> nat" where
  "find_process_io_stats pid g =
     (case find_ppi pid g of
        (g, Some i) \<Rightarrow> (g, i)
      | (g, None) \<Rightarrow>
          let (g, ppm) = find_or_add_ppm pid g;
              i = length (ppi_store g);
              g = g\<lparr>ppi_store := ppi_store g @ [new_ppi ppm]\<rparr>
          in (add_ppi_to_list i (add_ppi_to_hash i g), i))"

section \<open>A table that keeps the first value added for a key\<close>

locale first_wins_table =
  fixes lookup :: "'g \<Rightarrow> 'k \<Rightarrow> 'v option"
    and add :: "'k \<Rightarrow> 'n \<Rightarrow> 'g \<Rightarrow> 'g"
    and make :: "'k \<Rightarrow> 'n \<Rightarrow> 'v"
  assumes lookup_add:
    "lookup (add k n g) k' = (if k' = k \<and> lookup g k = None then Some (make k n) else lookup g k')"
begin

lemma lookup_add_same: "lookup (add k n g) k \<noteq> None"
  by (simp add: lookup_add)

lemma lookup_stays: "lookup g k = Some v \<Longrightarrow> lookup (add k' n g) k = Some v"
  by (cases "k = k'") (simp_all add: lookup_add)

lemma lookup_add_all:
  "lookup (fold (\<lambda>(k, n). add k n) kns g) k =
     (case lookup g k of Some v \<Rightarrow> Some v | None \<Rightarrow> map_option (make k) (map_of kns k))"
proof (induction kns arbitrary: g)
  case Nil
  show ?case
    by (simp split: option.splits)
next
  case (Cons kn kns)
  then show ?case
    by (cases kn) (auto simp: lookup_add split: option.splits)
qed

end

lemma find_ppm_add:
  "find_ppm (fst (add_ppm_hash pid name g)) pid' =
     (if pid' = pid \<and> find_ppm g pid = None then Some \<lparr>ppm_pid = pid, ppm_comm = comm_of name\<rparr>
      else find_ppm g pid')"
  by (auto simp: add_ppm_hash_def find_ppm_def Let_def split: option.splits)

interpretation ppm: first_wins_table find_ppm "\<lambda>pid name g. fst (add_ppm_hash pid name g)"
    "\<lambda>pid name. \<lparr>ppm_pid = pid, ppm_comm = comm_of name\<rparr>"
  by unfold_locales (rule find_ppm_add)

lemma add_ppm_hash_result: "find_ppm (fst (add_ppm_hash pid name g)) pid = Some (snd (add_ppm_hash pid name g))"
  by (auto simp: add_ppm_hash_def find_ppm_def Let_def split: option.splits)

lemma find_ppm_pid: "find_ppm g pid = Some ppm \<Longrightarrow> ppm_pid ppm = pid"
  by (auto simp: find_ppm_def find_Some_iff)

lemma find_or_add_ppm_pid: "ppm_pid (snd (find_or_add_ppm pid g)) = pid"
  by (auto simp: find_or_add_ppm_def add_ppm_hash_def Let_def find_ppm_pid split: option.splits)

lemma length_comm_of [simp]: "length (comm_of name) = 16"
  by (simp add: comm_of_def)

lemma cstr_append: "\<forall>b \<in> set xs. b \<noteq> 0 \<Longrightarrow> cstr (xs @ zs) = xs @ cstr zs"
  by (simp add: cstr_def)

lemma cstr_comm_of: "cstr (comm_of name) = take 15 (cstr name)"
proof -
  have nz: "\<forall>b \<in> set (take 15 (cstr name)). b \<noteq> 0"
    by (auto simp: cstr_def dest!: in_set_takeD set_takeWhileD)
  define zs :: "u8 list" where "zs = take (15 - length (cstr name)) (replicate 16 0) @ [0]"
  have "comm_of name = take 15 (cstr name) @ zs"
    by (simp add: comm_of_def upd_conv_take_nth_drop zs_def)
  moreover have "cstr zs = []"
    by (auto simp: zs_def cstr_def takeWhile_eq_Nil_iff hd_append)
  ultimately show ?thesis
    using nz by (simp add: cstr_append)
qed

section \<open>The statistics table keyed by the pid\<close>

abbreviation ppi_pid :: "per_process_info \<Rightarrow> u32" where
  "ppi_pid ppi \<equiv> ppm_pid (ppi_ppm ppi)"

text \<open>Every struct is in the chain of its pid and in the list once, and no two have the same pid.\<close>

definition ppi_ok :: "globals \<Rightarrow> bool" where
  "ppi_ok g \<longleftrightarrow> ppi_hash_by_pid g
     \<and> (\<forall>h i. i \<in> set (ppi_hash_table g h) \<longleftrightarrow> i < length (ppi_store g) \<and> ppi_hash_pid (ppi_pid (ppi_store g ! i)) = h)
     \<and> distinct (map ppi_pid (ppi_store g))
     \<and> ppi_list g = rev [0..<length (ppi_store g)]"

lemma find_ppi_by_pid_Some:
  assumes "ppi_ok g"
  shows "find_ppi_by_pid g pid = Some i \<longleftrightarrow> i < length (ppi_store g) \<and> ppi_pid (ppi_store g ! i) = pid"
proof
  assume "find_ppi_by_pid g pid = Some i"
  then have "i \<in> set (ppi_hash_table g (ppi_hash_pid pid))" "ppi_pid (ppi_store g ! i) = pid"
    by (auto simp: find_ppi_by_pid_def find_Some_iff)
  then show "i < length (ppi_store g) \<and> ppi_pid (ppi_store g ! i) = pid"
    using assms by (simp add: ppi_ok_def)
next
  assume i: "i < length (ppi_store g) \<and> ppi_pid (ppi_store g ! i) = pid"
  then have "i \<in> set (ppi_hash_table g (ppi_hash_pid pid))"
    using assms by (simp add: ppi_ok_def)
  then obtain j where j: "find_ppi_by_pid g pid = Some j"
    using i by (cases "find_ppi_by_pid g pid") (auto simp: find_ppi_by_pid_def find_None_iff)
  then have "j \<in> set (ppi_hash_table g (ppi_hash_pid pid))" "ppi_pid (ppi_store g ! j) = pid"
    by (auto simp: find_ppi_by_pid_def find_Some_iff)
  then have "j < length (ppi_store g)" "map ppi_pid (ppi_store g) ! j = map ppi_pid (ppi_store g) ! i"
    using assms i by (simp_all add: ppi_ok_def)
  then have "i = j"
    using assms i unfolding ppi_ok_def by (metis length_map nth_eq_iff_index_eq)
  then show "find_ppi_by_pid g pid = Some i"
    using j by simp
qed

lemma find_ppi_by_pid_None:
  assumes "ppi_ok g"
  shows "find_ppi_by_pid g pid = None \<longleftrightarrow> pid \<notin> ppi_pid ` set (ppi_store g)"
proof -
  have "find_ppi_by_pid g pid = None \<longleftrightarrow> (\<forall>i. find_ppi_by_pid g pid \<noteq> Some i)"
    by simp
  also have "\<dots> \<longleftrightarrow> pid \<notin> ppi_pid ` set (ppi_store g)"
    unfolding find_ppi_by_pid_Some [OF assms] by (metis (no_types, lifting) imageE imageI in_set_conv_nth)
  finally show ?thesis .
qed

text \<open>The statistics of a process, all zero as long as it has none.\<close>

definition stats_of :: "globals \<Rightarrow> u32 \<Rightarrow> io_stats" where
  "stats_of g pid = (case find_ppi_by_pid g pid of None \<Rightarrow> zero_stats | Some i \<Rightarrow> ppi_io_stats (ppi_store g ! i))"

lemma find_or_add_ppm_same [simp]:
  "ppi_store (fst (find_or_add_ppm pid g)) = ppi_store g" "ppi_list (fst (find_or_add_ppm pid g)) = ppi_list g"
  "ppi_hash_table (fst (find_or_add_ppm pid g)) = ppi_hash_table g"
  "ppi_hash_by_pid (fst (find_or_add_ppm pid g)) = ppi_hash_by_pid g"
  by (simp_all add: find_or_add_ppm_def add_ppm_hash_def Let_def split: option.splits)

lemma find_process_io_stats_known:
  assumes "ppi_ok g" "find_ppi_by_pid g pid = Some i"
  shows "find_process_io_stats pid g = (g, i)"
  using assms by (simp add: find_process_io_stats_def find_ppi_def ppi_ok_def)

lemma find_process_io_stats_new:
  assumes "ppi_ok g" "find_ppi_by_pid g pid = None"
  shows "\<exists>g' ppm. find_process_io_stats pid g = (g', length (ppi_store g)) \<and> ppm_pid ppm = pid
    \<and> ppi_store g' = ppi_store g @ [new_ppi ppm] \<and> ppi_ok g'"
proof -
  obtain g1 ppm where g1: "find_or_add_ppm pid g = (g1, ppm)"
    by (cases "find_or_add_ppm pid g")
  have same: "ppi_store g1 = ppi_store g" "ppi_list g1 = ppi_list g" "ppi_hash_table g1 = ppi_hash_table g"
    "ppi_hash_by_pid g1 = ppi_hash_by_pid g" "ppm_pid ppm = pid"
    using find_or_add_ppm_same [of pid g] find_or_add_ppm_pid [of pid g] by (simp_all add: g1)
  have fresh: "pid \<notin> ppi_pid ` set (ppi_store g)"
    using assms find_ppi_by_pid_None by blast
  define g' where "g' = fst (find_process_io_stats pid g)"
  have g': "find_process_io_stats pid g = (g', length (ppi_store g))"
    "ppi_store g' = ppi_store g @ [new_ppi ppm]" "ppi_list g' = length (ppi_store g) # ppi_list g"
    "ppi_hash_by_pid g'"
    "ppi_hash_table g' = (ppi_hash_table g)(ppi_hash_pid pid := length (ppi_store g) # ppi_hash_table g (ppi_hash_pid pid))"
    using assms same
    by (simp_all add: g'_def find_process_io_stats_def find_ppi_def ppi_ok_def g1 Let_def add_ppi_to_hash_def
        add_ppi_to_list_def ppi_hash_def new_ppi_def)
  have "i \<in> set (ppi_hash_table g' h) \<longleftrightarrow> i < length (ppi_store g') \<and> ppi_hash_pid (ppi_pid (ppi_store g' ! i)) = h" for h i
    using assms(1) same(5) unfolding g'(2,5) ppi_ok_def
    by (auto simp: nth_append new_ppi_def less_Suc_eq)
  then have "ppi_ok g'"
    using assms(1) fresh same(5) unfolding ppi_ok_def by (simp add: g' new_ppi_def)
  then show ?thesis
    using g' same(5) by blast
qed

section \<open>Properties\<close>

text \<open>What a process notification carries.\<close>

definition names_of :: "blk_io_trace list \<Rightarrow> (u32 \<times> u8 list) list" where
  "names_of ts = map (\<lambda>t. (tr_pid t, tr_pdu t)) (filter (\<lambda>t. tr_action t = BLK_TN TN_PROCESS) ts)"

lemma BLK_TN_distinct:
  "BLK_TN TN_PROCESS \<noteq> BLK_TN TN_TIMESTAMP" "BLK_TN TN_PROCESS \<noteq> BLK_TN TN_MESSAGE"
  "BLK_TN TN_TIMESTAMP \<noteq> BLK_TN TN_MESSAGE"
  by (simp_all add: BLK_TN_value)

lemma find_ppm_table: "ppm_hash_table g = ppm_hash_table g' \<Longrightarrow> find_ppm g = find_ppm g'"
  by (rule ext) (simp add: find_ppm_def)

lemma handle_notify_other:
  "tr_action t \<noteq> BLK_TN TN_PROCESS \<Longrightarrow> find_ppm (handle_notify t g) = find_ppm g"
  by (rule find_ppm_table) (simp add: handle_notify_def Let_def emit_def)

lemma handle_notify_names:
  "find_ppm (fold handle_notify ts g) pid =
     find_ppm (fold (\<lambda>(pid, name) g. fst (add_ppm_hash pid name g)) (names_of ts) g) pid"
proof (induction ts arbitrary: g)
  case Nil
  then show ?case
    by (simp add: names_of_def)
next
  case (Cons t ts)
  show ?case
  proof (cases "tr_action t = BLK_TN TN_PROCESS")
    case True
    then have "handle_notify t g = fst (add_ppm_hash (tr_pid t) (tr_pdu t) g)"
      "names_of (t # ts) = (tr_pid t, tr_pdu t) # names_of ts"
      by (simp_all add: handle_notify_def names_of_def)
    then show ?thesis
      by (simp add: Cons.IH)
  next
    case False
    then have "names_of (t # ts) = names_of ts"
      by (simp add: names_of_def)
    moreover have "find_ppm (handle_notify t g) = find_ppm g"
      using False by (rule handle_notify_other)
    ultimately show ?thesis
      using Cons.IH [of "handle_notify t g"]
      by (simp only: fold_Cons comp_apply ppm.lookup_add_all)
  qed
qed


end
