(* ===== verification/Io_Track.thy ===== *)
theory Io_Track
  imports Process_Map Keyed_Tree
begin

text \<open>
  Tracking of requests in \<open>blkparse.c\<close>: a tree per device, keyed by the start sector, from which the times
  between allocation, insertion, dispatch and completion are taken. The functions work on the globals and
  the device; a null dereference in the tree is \<open>None\<close>.
\<close>

type_synonym dev_state = "globals \<times> per_dev_info"

section \<open>The tree of a device\<close>

text \<open>When the sector is taken already, the new struct is dropped with a warning.\<close>

definition track_rb_insert :: "io_track \<Rightarrow> dev_state \<Rightarrow> dev_state option" where
  "track_rb_insert iot = (\<lambda>(g, pdi).
     case rb_place iot_sector (iot_sector iot) (rb_track pdi) [] of
       None \<Rightarrow> Some (warn (Sector_alias (iot_sector iot)) g, pdi)
     | Some q \<Rightarrow> do {
         t \<leftarrow> rb_link_insert iot q;
         Some (g, pdi\<lparr>rb_track := t\<rparr>) })"

definition find_track_node :: "u64 \<Rightarrow> per_dev_info \<Rightarrow> (io_track rb \<times> io_track path) option" where
  "find_track_node sector pdi = rb_find iot_sector sector (rb_track pdi) []"

text \<open>The struct from \<open>malloc\<close> is filled in only partly: its times are what the memory held. The pointer to
  the new node is the position of its sector after the insertion.\<close>

definition find_track :: "u32 \<Rightarrow> u64 \<Rightarrow> dev_state \<Rightarrow> (dev_state \<times> (io_track rb \<times> io_track path)) option" where
  "find_track pid sector = (\<lambda>(g, pdi).
     case find_track_node sector pdi of
       Some n \<Rightarrow> Some ((g, pdi), n)
     | None \<Rightarrow>
         let (g, ppm) = find_or_add_ppm pid g;
             iot = (malloc_iot g (iot_allocated g))\<lparr>iot_ppm := ppm, iot_sector := sector\<rparr>;
             g = g\<lparr>iot_allocated := iot_allocated g + 1\<rparr>
         in do {
           (g, pdi) \<leftarrow> track_rb_insert iot (g, pdi);
           n \<leftarrow> find_track_node sector pdi;
           Some ((g, pdi), n) })"

definition set_track :: "(io_track \<Rightarrow> io_track) \<Rightarrow> io_track rb \<times> io_track path \<Rightarrow> per_dev_info \<Rightarrow> per_dev_info" where
  "set_track f n pdi = pdi\<lparr>rb_track := modify_at f n\<rparr>"

section \<open>Events\<close>

definition log_track_frontmerge :: "blk_io_trace \<Rightarrow> dev_state \<Rightarrow> dev_state option" where
  "log_track_frontmerge t = (\<lambda>(g, pdi).
     if \<not> track_ios g then Some (g, pdi)
     else let sector = tr_sector t + ucast (t_sec t) in
       case find_track_node sector pdi of
         None \<Rightarrow> Some (if verbose g then warn (Merge_not_found sector) g else g, pdi)
       | Some (u, q) \<Rightarrow> do {
           iot \<leftarrow> elem_at (u, q);
           tree \<leftarrow> rb_erase u q;
           track_rb_insert (iot\<lparr>iot_sector := iot_sector iot - ucast (t_sec t)\<rparr>) (g, pdi\<lparr>rb_track := tree\<rparr>) })"

definition log_track_getrq :: "blk_io_trace \<Rightarrow> dev_state \<Rightarrow> dev_state option" where
  "log_track_getrq t = (\<lambda>(g, pdi).
     if \<not> track_ios g then Some (g, pdi)
     else do {
       ((g, pdi), n) \<leftarrow> find_track (tr_pid t) (tr_sector t) (g, pdi);
       Some (g, set_track (\<lambda>iot. iot\<lparr>allocation_time := tr_time t\<rparr>) n pdi) })"

definition is_remapper :: "per_dev_info \<Rightarrow> bool" where
  "is_remapper pdi \<longleftrightarrow> MAJOR (pdi_dev pdi) = 253 \<or> MAJOR (pdi_dev pdi) = 9"

definition log_track_queue :: "blk_io_trace \<Rightarrow> dev_state \<Rightarrow> dev_state option" where
  "log_track_queue t = (\<lambda>(g, pdi).
     if \<not> track_ios g then Some (g, pdi)
     else if \<not> is_remapper pdi then Some (g, pdi)
     else do {
       ((g, pdi), n) \<leftarrow> find_track (tr_pid t) (tr_sector t) (g, pdi);
       Some (g, set_track (\<lambda>iot. iot\<lparr>dispatch_time := tr_time t\<rparr>) n pdi) })"

text \<open>Raise a process's longest wait, for the process of the tracked request and the direction of the trace.\<close>

definition raise_wait ::
    "(per_process_info \<Rightarrow> u64 \<times> u64) \<Rightarrow> (u64 \<times> u64 \<Rightarrow> per_process_info \<Rightarrow> per_process_info) \<Rightarrow>
     blk_io_trace \<Rightarrow> io_track \<Rightarrow> u64 \<Rightarrow> globals \<Rightarrow> globals" where
  "raise_wait get put t iot elapsed g =
     (if per_process_stats g then
        let (g, ppi) = find_ppi (ppm_pid (iot_ppm iot)) g;
            w = has_tc (tr_action t) TC_WRITE
        in case ppi of
             None \<Rightarrow> g
           | Some i \<Rightarrow>
               if dir_get w (get (ppi_store g ! i)) < elapsed
               then update_ppi i (\<lambda>ppi. put (dir_set w elapsed (get ppi)) ppi) g
               else g
      else g)"

definition raise_allocation_wait where
  "raise_allocation_wait = raise_wait longest_allocation_wait (\<lambda>p ppi. ppi\<lparr>longest_allocation_wait := p\<rparr>)"

definition raise_dispatch_wait where
  "raise_dispatch_wait = raise_wait longest_dispatch_wait (\<lambda>p ppi. ppi\<lparr>longest_dispatch_wait := p\<rparr>)"

definition raise_completion_wait where
  "raise_completion_wait = raise_wait longest_completion_wait (\<lambda>p ppi. ppi\<lparr>longest_completion_wait := p\<rparr>)"

text \<open>Time between the allocation of the request and its insertion.\<close>

definition log_track_insert :: "blk_io_trace \<Rightarrow> dev_state \<Rightarrow> (dev_state \<times> u64) option" where
  "log_track_insert t = (\<lambda>(g, pdi).
     if \<not> track_ios g then Some ((g, pdi), - 1)
     else do {
       ((g, pdi), n) \<leftarrow> find_track (tr_pid t) (tr_sector t) (g, pdi);
       iot \<leftarrow> elem_at n;
       let iot = iot\<lparr>queue_time := tr_time t\<rparr>;
           pdi = set_track (\<lambda>iot. iot\<lparr>queue_time := tr_time t\<rparr>) n pdi
       in if allocation_time iot = 0 then Some ((g, pdi), - 1)
          else let elapsed = queue_time iot - allocation_time iot
               in Some ((raise_allocation_wait t iot elapsed g, pdi), elapsed) })"

text \<open>Time between the insertion and the dispatch.\<close>

definition log_track_issue :: "blk_io_trace \<Rightarrow> dev_state \<Rightarrow> (dev_state \<times> u64) option" where
  "log_track_issue t = (\<lambda>(g, pdi).
     if \<not> track_ios g then Some ((g, pdi), - 1)
     else if \<not> has_tc (tr_action t) TC_FS then Some ((g, pdi), - 1)
     else case find_track_node (tr_sector t) pdi of
       None \<Rightarrow> Some ((if verbose g then warn (Issue_not_found (tr_sector t)) g else g, pdi), - 1)
     | Some n \<Rightarrow> do {
         iot \<leftarrow> elem_at n;
         let iot = iot\<lparr>dispatch_time := tr_time t\<rparr>;
             pdi = set_track (\<lambda>iot. iot\<lparr>dispatch_time := tr_time t\<rparr>) n pdi;
             elapsed = dispatch_time iot - queue_time iot
         in Some ((raise_dispatch_wait t iot elapsed g, pdi), elapsed) })"

text \<open>Time between the dispatch and the completion; the request is forgotten.\<close>

definition log_track_complete :: "blk_io_trace \<Rightarrow> dev_state \<Rightarrow> (dev_state \<times> u64) option" where
  "log_track_complete t = (\<lambda>(g, pdi).
     if \<not> track_ios g then Some ((g, pdi), - 1)
     else case find_track_node (tr_sector t) pdi of
       None \<Rightarrow> Some ((if verbose g then warn (Complete_not_found (tr_sector t)) g else g, pdi), - 1)
     | Some (u, q) \<Rightarrow> do {
         iot \<leftarrow> elem_at (u, q);
         let iot = iot\<lparr>completion_time := tr_time t\<rparr>;
             elapsed = completion_time iot - dispatch_time iot;
             g = raise_completion_wait t iot elapsed g
         in do {
           tree \<leftarrow> rb_erase u q;
           Some ((g, pdi\<lparr>rb_track := tree\<rparr>), elapsed) } })"

section \<open>The tracked requests as a map from sectors\<close>

definition track_inv :: "per_dev_info \<Rightarrow> bool" where
  "track_inv pdi \<longleftrightarrow> keyed_inv iot_sector (rb_track pdi)"

definition tracks :: "per_dev_info \<Rightarrow> u64 \<Rightarrow> io_track option" where
  "tracks pdi = tree_map iot_sector (rb_track pdi)"

text \<open>The options, which no handler changes, and the binary output, which tracking does not touch.\<close>

definition options ::
    "globals \<Rightarrow> bool \<times> bool \<times> bool \<times> bool \<times> bool \<times> bool \<times> bool \<times> native \<times> (char \<Rightarrow> string option) \<times> blk_io_trace list" where
  "options g = (per_process_stats g, track_ios g, ppi_hash_by_pid g, verbose g, text_output g,
     bin_output_msgs g, dump_binary g, data_is_native g, override_format g, binary_out g)"

lemma options_track_ios: "options g' = options g \<Longrightarrow> track_ios g' = track_ios g"
  by (simp add: options_def)

lemma options_emit [simp]: "options (emit x g) = options g" "options (warn w g) = options g"
  by (simp_all add: options_def emit_def warn_def)

lemma options_find_or_add_ppm [simp]: "options (fst (find_or_add_ppm pid g)) = options g"
  by (simp add: options_def find_or_add_ppm_def add_ppm_hash_def Let_def split: option.splits)

lemma options_update_ppi [simp]: "options (update_ppi i f g) = options g"
  by (simp add: options_def update_ppi_def)

lemma options_find_ppi [simp]: "options (fst (find_ppi pid g)) = options g"
  by (simp add: find_ppi_def split: option.splits)

lemma options_raise_wait [simp]: "options (raise_wait get put t iot e g) = options g"
  by (simp add: raise_wait_def Let_def case_prod_beta split: option.splits)

lemma options_raise [simp]:
  "options (raise_allocation_wait t iot e g) = options g"
  "options (raise_dispatch_wait t iot e g) = options g"
  "options (raise_completion_wait t iot e g) = options g"
  by (simp_all add: raise_allocation_wait_def raise_dispatch_wait_def raise_completion_wait_def)

lemma find_track_node_None: "track_inv pdi \<Longrightarrow> find_track_node s pdi = None \<longleftrightarrow> tracks pdi s = None"
  using find_refines [of iot_sector "rb_track pdi" s] rb_find_Some [of iot_sector s "rb_track pdi" "[]"]
  by (cases "find_track_node s pdi") (auto simp: find_track_node_def track_inv_def tracks_def)

lemma find_track_node_Some:
  "track_inv pdi \<Longrightarrow> find_track_node s pdi = Some n \<Longrightarrow> elem_at n = tracks pdi s \<and> tracks pdi s \<noteq> None"
  using find_refines [of iot_sector "rb_track pdi" s] rb_find_Some [of iot_sector s "rb_track pdi" "[]"]
  by (cases n) (auto simp: find_track_node_def track_inv_def tracks_def)

lemma find_track_node_ex:
  assumes "track_inv pdi" "tracks pdi s = Some iot"
  obtains u q where "find_track_node s pdi = Some (u, q)" "elem_at (u, q) = Some iot"
proof (cases "find_track_node s pdi")
  case None
  then show ?thesis
    using find_track_node_None [OF assms(1)] assms(2) by simp
next
  case (Some n)
  then show ?thesis
    using find_track_node_Some [OF assms(1) Some] assms(2) that by (cases n) auto
qed

lemma tracks_sector: "track_inv pdi \<Longrightarrow> tracks pdi s = Some iot \<Longrightarrow> iot_sector iot = s"
  by (simp add: tracks_def track_inv_def tree_map_Some)

lemma track_rb_insert_new:
  assumes "track_inv pdi" "tracks pdi (iot_sector iot) = None"
  shows "\<exists>t. track_rb_insert iot (g, pdi) = Some (g, pdi\<lparr>rb_track := t\<rparr>)
    \<and> track_inv (pdi\<lparr>rb_track := t\<rparr>) \<and> tracks (pdi\<lparr>rb_track := t\<rparr>) = (tracks pdi)(iot_sector iot \<mapsto> iot)"
proof -
  have "rb_find iot_sector (iot_sector iot) (rb_track pdi) [] = None"
    using find_track_node_None [OF assms(1)] assms(2) by (simp add: find_track_node_def)
  then obtain q where q: "rb_place iot_sector (iot_sector iot) (rb_track pdi) [] = Some q"
    using rb_place_find [of iot_sector "iot_sector iot" "rb_track pdi" "[]"] by auto
  then show ?thesis
    using insert_refines [of iot_sector "rb_track pdi" iot q] assms(1)
    by (auto simp: track_inv_def tracks_def track_rb_insert_def)
qed

lemma track_rb_insert_alias:
  assumes "track_inv pdi" "tracks pdi (iot_sector iot) \<noteq> None"
  shows "track_rb_insert iot (g, pdi) = Some (warn (Sector_alias (iot_sector iot)) g, pdi)"
proof -
  have "rb_find iot_sector (iot_sector iot) (rb_track pdi) [] \<noteq> None"
    using find_track_node_None [OF assms(1)] assms(2) by (simp add: find_track_node_def)
  then have "rb_place iot_sector (iot_sector iot) (rb_track pdi) [] = None"
    using rb_place_find by blast
  then show ?thesis
    by (simp add: track_rb_insert_def)
qed

text \<open>The request that \<open>find_track\<close> finds or creates.\<close>

definition track_or_fresh :: "u32 \<Rightarrow> u64 \<Rightarrow> globals \<Rightarrow> per_dev_info \<Rightarrow> io_track" where
  "track_or_fresh pid s g pdi =
     (case tracks pdi s of
        Some iot \<Rightarrow> iot
      | None \<Rightarrow> (malloc_iot g (iot_allocated g))\<lparr>iot_ppm := snd (find_or_add_ppm pid g), iot_sector := s\<rparr>)"

lemma find_or_add_ppm_malloc [simp]:
  "malloc_iot (fst (find_or_add_ppm pid g)) = malloc_iot g" "iot_allocated (fst (find_or_add_ppm pid g)) = iot_allocated g"
  by (simp_all add: find_or_add_ppm_def add_ppm_hash_def Let_def split: option.splits)

lemma find_track_ok:
  assumes "track_inv pdi"
  shows "\<exists>g' t n. find_track pid s (g, pdi) = Some ((g', pdi\<lparr>rb_track := t\<rparr>), n)
    \<and> options g' = options g \<and> find_track_node s (pdi\<lparr>rb_track := t\<rparr>) = Some n
    \<and> track_inv (pdi\<lparr>rb_track := t\<rparr>) \<and> elem_at n = Some (track_or_fresh pid s g pdi)
    \<and> tracks (pdi\<lparr>rb_track := t\<rparr>) = (tracks pdi)(s \<mapsto> track_or_fresh pid s g pdi)"
proof (cases "find_track_node s pdi")
  case None
  define iot where "iot = (malloc_iot g (iot_allocated g))\<lparr>iot_ppm := snd (find_or_add_ppm pid g), iot_sector := s\<rparr>"
  have none: "tracks pdi s = None"
    using None find_track_node_None [OF assms] by simp
  then have iot: "track_or_fresh pid s g pdi = iot" "tracks pdi (iot_sector iot) = None" "iot_sector iot = s"
    by (simp_all add: track_or_fresh_def iot_def)
  obtain g1 ppm where g1: "find_or_add_ppm pid g = (g1, ppm)"
    by (cases "find_or_add_ppm pid g")
  have g1_eq: "malloc_iot g1 = malloc_iot g" "iot_allocated g1 = iot_allocated g" "options g1 = options g"
    using find_or_add_ppm_malloc [of pid g] options_find_or_add_ppm [of pid g] by (simp_all add: g1)
  define g2 where "g2 = g1\<lparr>iot_allocated := iot_allocated g1 + 1\<rparr>"
  obtain t where t: "track_rb_insert iot (g2, pdi) = Some (g2, pdi\<lparr>rb_track := t\<rparr>)"
    "track_inv (pdi\<lparr>rb_track := t\<rparr>)" "tracks (pdi\<lparr>rb_track := t\<rparr>) = (tracks pdi)(s \<mapsto> iot)"
    using track_rb_insert_new [OF assms iot(2)] iot(3) by auto
  then obtain n where n: "find_track_node s (pdi\<lparr>rb_track := t\<rparr>) = Some n"
    using find_track_node_None [OF t(2)] by (cases "find_track_node s (pdi\<lparr>rb_track := t\<rparr>)") auto
  have elem: "elem_at n = Some iot"
    using find_track_node_Some [OF t(2) n] t(3) by simp
  have "find_track pid s (g, pdi) = Some ((g2, pdi\<lparr>rb_track := t\<rparr>), n)"
    using None t(1) n by (simp add: find_track_def g1 g1_eq Let_def iot_def g2_def)
  moreover have "options g2 = options g"
    using g1_eq(3) by (simp add: g2_def options_def)
  ultimately show ?thesis
    using t(2,3) n elem unfolding iot(1) by blast
next
  case (Some n)
  then obtain iot where iot: "tracks pdi s = Some iot" "elem_at n = Some iot"
    using find_track_node_Some [OF assms Some] by auto
  have "find_track pid s (g, pdi) = Some ((g, pdi\<lparr>rb_track := rb_track pdi\<rparr>), n)"
    using Some by (simp add: find_track_def)
  moreover have "track_or_fresh pid s g pdi = iot" "(tracks pdi)(s \<mapsto> iot) = tracks pdi"
    using iot(1) by (auto simp: track_or_fresh_def)
  ultimately show ?thesis
    using assms Some iot by (intro exI [of _ g] exI [of _ "rb_track pdi"] exI [of _ n]) simp
qed

lemma set_track_ok:
  assumes "track_inv pdi" "find_track_node s pdi = Some n" "\<And>iot. iot_sector (f iot) = iot_sector iot"
  shows "track_inv (set_track f n pdi) \<and> tracks (set_track f n pdi) = (tracks pdi)(s := map_option f (tracks pdi s))"
  using modify_refines [of iot_sector "rb_track pdi" s "fst n" "snd n" f] assms
  by (simp add: track_inv_def tracks_def set_track_def find_track_node_def)

lemma erase_track_ok:
  assumes "track_inv pdi" "find_track_node s pdi = Some (u, q)"
  shows "\<exists>t. rb_erase u q = Some t \<and> track_inv (pdi\<lparr>rb_track := t\<rparr>)
    \<and> tracks (pdi\<lparr>rb_track := t\<rparr>) = (tracks pdi)(s := None)"
  using erase_refines [of iot_sector "rb_track pdi" s u q] assms
  by (simp add: track_inv_def tracks_def find_track_node_def)

lemma set_track_rb [simp]: "set_track f n (pdi\<lparr>rb_track := t\<rparr>) = pdi\<lparr>rb_track := modify_at f n\<rparr>"
  by (simp add: set_track_def)

text \<open>\<open>find_track\<close> followed by an update of the request it returns, as four of the events do.\<close>

lemma find_track_set:
  assumes "track_inv pdi" "\<And>iot. iot_sector (f iot) = iot_sector iot"
  shows "\<exists>g' t n. find_track pid s (g, pdi) = Some ((g', pdi\<lparr>rb_track := t\<rparr>), n)
    \<and> options g' = options g \<and> elem_at n = Some (track_or_fresh pid s g pdi)
    \<and> track_inv (pdi\<lparr>rb_track := modify_at f n\<rparr>)
    \<and> tracks (pdi\<lparr>rb_track := modify_at f n\<rparr>) = (tracks pdi)(s \<mapsto> f (track_or_fresh pid s g pdi))"
proof -
  obtain g' t n where n: "find_track pid s (g, pdi) = Some ((g', pdi\<lparr>rb_track := t\<rparr>), n)"
    "options g' = options g" "find_track_node s (pdi\<lparr>rb_track := t\<rparr>) = Some n"
    "track_inv (pdi\<lparr>rb_track := t\<rparr>)" "elem_at n = Some (track_or_fresh pid s g pdi)"
    "tracks (pdi\<lparr>rb_track := t\<rparr>) = (tracks pdi)(s \<mapsto> track_or_fresh pid s g pdi)"
    using find_track_ok [OF assms(1)] by blast
  then show ?thesis
    using set_track_ok [OF n(4,3) assms(2)] by (intro exI [of _ g'] exI [of _ t] exI [of _ n]) simp
qed

lemma log_track_getrq_ok:
  assumes "track_inv pdi" "track_ios g"
  shows "\<exists>g' t'. log_track_getrq t (g, pdi) = Some (g', pdi\<lparr>rb_track := t'\<rparr>) \<and> options g' = options g
    \<and> track_inv (pdi\<lparr>rb_track := t'\<rparr>)
    \<and> tracks (pdi\<lparr>rb_track := t'\<rparr>) =
      (tracks pdi)(tr_sector t \<mapsto> (track_or_fresh (tr_pid t) (tr_sector t) g pdi)\<lparr>allocation_time := tr_time t\<rparr>)"
proof -
  obtain g' t' n where n: "find_track (tr_pid t) (tr_sector t) (g, pdi) = Some ((g', pdi\<lparr>rb_track := t'\<rparr>), n)"
    "options g' = options g" "track_inv (pdi\<lparr>rb_track := modify_at (\<lambda>iot. iot\<lparr>allocation_time := tr_time t\<rparr>) n\<rparr>)"
    "tracks (pdi\<lparr>rb_track := modify_at (\<lambda>iot. iot\<lparr>allocation_time := tr_time t\<rparr>) n\<rparr>) =
      (tracks pdi)(tr_sector t \<mapsto> (track_or_fresh (tr_pid t) (tr_sector t) g pdi)\<lparr>allocation_time := tr_time t\<rparr>)"
    using find_track_set [OF assms(1), of "\<lambda>iot. iot\<lparr>allocation_time := tr_time t\<rparr>"] by fastforce
  have "log_track_getrq t (g, pdi) = Some (g', pdi\<lparr>rb_track := modify_at (\<lambda>iot. iot\<lparr>allocation_time := tr_time t\<rparr>) n\<rparr>)"
    using assms(2) n(1) by (simp add: log_track_getrq_def)
  then show ?thesis
    using n(2-4) by blast
qed

lemma log_track_insert_ok:
  fixes t g pdi
  defines "iot \<equiv> (track_or_fresh (tr_pid t) (tr_sector t) g pdi)\<lparr>queue_time := tr_time t\<rparr>"
  assumes "track_inv pdi" "track_ios g"
  shows "\<exists>g' t'. log_track_insert t (g, pdi) = Some ((g', pdi\<lparr>rb_track := t'\<rparr>),
      if allocation_time iot = 0 then - 1 else tr_time t - allocation_time iot) \<and> options g' = options g
    \<and> track_inv (pdi\<lparr>rb_track := t'\<rparr>) \<and> tracks (pdi\<lparr>rb_track := t'\<rparr>) = (tracks pdi)(tr_sector t \<mapsto> iot)"
proof -
  obtain g' t' n where n: "find_track (tr_pid t) (tr_sector t) (g, pdi) = Some ((g', pdi\<lparr>rb_track := t'\<rparr>), n)"
    "options g' = options g" "elem_at n = Some (track_or_fresh (tr_pid t) (tr_sector t) g pdi)"
    "track_inv (pdi\<lparr>rb_track := modify_at (\<lambda>iot. iot\<lparr>queue_time := tr_time t\<rparr>) n\<rparr>)"
    "tracks (pdi\<lparr>rb_track := modify_at (\<lambda>iot. iot\<lparr>queue_time := tr_time t\<rparr>) n\<rparr>) = (tracks pdi)(tr_sector t \<mapsto> iot)"
    using find_track_set [OF assms(2), of "\<lambda>iot. iot\<lparr>queue_time := tr_time t\<rparr>"] unfolding iot_def by fastforce
  define g2 where "g2 = (if allocation_time iot = 0 then g' else raise_allocation_wait t iot (tr_time t - allocation_time iot) g')"
  have "log_track_insert t (g, pdi) = Some ((g2, pdi\<lparr>rb_track := modify_at (\<lambda>iot. iot\<lparr>queue_time := tr_time t\<rparr>) n\<rparr>),
      if allocation_time iot = 0 then - 1 else tr_time t - allocation_time iot)"
    using assms(3) n(1,3) by (simp add: log_track_insert_def Let_def g2_def iot_def)
  moreover have "options g2 = options g"
    using n(2) by (simp add: g2_def)
  ultimately show ?thesis
    using n(4,5) by blast
qed

lemma log_track_issue_ok:
  assumes "track_inv pdi" "track_ios g" "has_tc (tr_action t) TC_FS" "tracks pdi (tr_sector t) = Some iot"
  shows "\<exists>g' t'. log_track_issue t (g, pdi) = Some ((g', pdi\<lparr>rb_track := t'\<rparr>), tr_time t - queue_time iot)
    \<and> options g' = options g \<and> track_inv (pdi\<lparr>rb_track := t'\<rparr>)
    \<and> tracks (pdi\<lparr>rb_track := t'\<rparr>) = (tracks pdi)(tr_sector t \<mapsto> iot\<lparr>dispatch_time := tr_time t\<rparr>)"
proof -
  obtain u q where "find_track_node (tr_sector t) pdi = Some (u, q)" "elem_at (u, q) = Some iot"
    using find_track_node_ex [OF assms(1,4)] .
  then obtain n where n: "find_track_node (tr_sector t) pdi = Some n" and elem: "elem_at n = Some iot"
    by blast
  have pdi': "track_inv (pdi\<lparr>rb_track := modify_at (\<lambda>iot. iot\<lparr>dispatch_time := tr_time t\<rparr>) n\<rparr>)"
    "tracks (pdi\<lparr>rb_track := modify_at (\<lambda>iot. iot\<lparr>dispatch_time := tr_time t\<rparr>) n\<rparr>) =
      (tracks pdi)(tr_sector t \<mapsto> iot\<lparr>dispatch_time := tr_time t\<rparr>)"
    using set_track_ok [OF assms(1) n, of "\<lambda>iot. iot\<lparr>dispatch_time := tr_time t\<rparr>"] assms(4)
    by (simp_all add: set_track_def)
  have "log_track_issue t (g, pdi) =
      Some ((raise_dispatch_wait t (iot\<lparr>dispatch_time := tr_time t\<rparr>) (tr_time t - queue_time iot) g,
        pdi\<lparr>rb_track := modify_at (\<lambda>iot. iot\<lparr>dispatch_time := tr_time t\<rparr>) n\<rparr>), tr_time t - queue_time iot)"
    using assms(2,3) n elem by (simp add: log_track_issue_def Let_def set_track_def)
  then show ?thesis
    using pdi' options_raise(2) by blast
qed

lemma log_track_complete_ok:
  assumes "track_inv pdi" "track_ios g" "tracks pdi (tr_sector t) = Some iot"
  shows "\<exists>g' t'. log_track_complete t (g, pdi) = Some ((g', pdi\<lparr>rb_track := t'\<rparr>), tr_time t - dispatch_time iot)
    \<and> options g' = options g \<and> track_inv (pdi\<lparr>rb_track := t'\<rparr>)
    \<and> tracks (pdi\<lparr>rb_track := t'\<rparr>) = (tracks pdi)(tr_sector t := None)"
proof -
  obtain u q where n: "find_track_node (tr_sector t) pdi = Some (u, q)" and "elem_at (u, q) = Some iot"
    using find_track_node_ex [OF assms(1,3)] .
  moreover obtain t' where t': "rb_erase u q = Some t'" "track_inv (pdi\<lparr>rb_track := t'\<rparr>)"
    "tracks (pdi\<lparr>rb_track := t'\<rparr>) = (tracks pdi)(tr_sector t := None)"
    using erase_track_ok [OF assms(1) n] by blast
  ultimately have "log_track_complete t (g, pdi) =
      Some ((raise_completion_wait t (iot\<lparr>completion_time := tr_time t\<rparr>) (tr_time t - dispatch_time iot) g,
        pdi\<lparr>rb_track := t'\<rparr>), tr_time t - dispatch_time iot)"
    using assms(2) n by (simp add: log_track_complete_def Let_def)
  then show ?thesis
    using t'(2,3) options_raise(3) by blast
qed

lemma log_track_frontmerge_ok:
  assumes "track_inv pdi" "track_ios g" "tracks pdi (tr_sector t + ucast (t_sec t)) = Some iot"
    and "ucast (t_sec t) \<noteq> (0 :: u64)" "tracks pdi (tr_sector t) = None"
  shows "\<exists>t'. log_track_frontmerge t (g, pdi) = Some (g, pdi\<lparr>rb_track := t'\<rparr>) \<and> track_inv (pdi\<lparr>rb_track := t'\<rparr>)
    \<and> tracks (pdi\<lparr>rb_track := t'\<rparr>) =
      (tracks pdi)(tr_sector t + ucast (t_sec t) := None, tr_sector t \<mapsto> iot\<lparr>iot_sector := tr_sector t\<rparr>)"
proof -
  obtain u q where n: "find_track_node (tr_sector t + ucast (t_sec t)) pdi = Some (u, q)"
    and elem: "elem_at (u, q) = Some iot"
    using find_track_node_ex [OF assms(1,3)] .
  have sector: "iot_sector iot = tr_sector t + ucast (t_sec t)"
    using tracks_sector assms(1,3) by blast
  obtain t' where t': "rb_erase u q = Some t'" "track_inv (pdi\<lparr>rb_track := t'\<rparr>)"
    "tracks (pdi\<lparr>rb_track := t'\<rparr>) = (tracks pdi)(tr_sector t + ucast (t_sec t) := None)"
    using erase_track_ok [OF assms(1) n] by blast
  have "tracks (pdi\<lparr>rb_track := t'\<rparr>) (iot_sector (iot\<lparr>iot_sector := tr_sector t\<rparr>)) = None"
    using t'(3) assms(5) by simp
  then show ?thesis
    using track_rb_insert_new [OF t'(2), of "iot\<lparr>iot_sector := tr_sector t\<rparr>"] t' n elem sector assms(2)
    by (auto simp: log_track_frontmerge_def Let_def)
qed

section \<open>No event dereferences a null pointer\<close>

text \<open>The outcome of an event: it returns, and changes no option, and of the device only the tree.\<close>

definition tracked :: "globals \<Rightarrow> per_dev_info \<Rightarrow> dev_state option \<Rightarrow> bool" where
  "tracked g pdi r \<longleftrightarrow> (\<exists>g' t'. r = Some (g', pdi\<lparr>rb_track := t'\<rparr>) \<and> options g' = options g
     \<and> track_inv (pdi\<lparr>rb_track := t'\<rparr>))"

lemma trackedI:
  "r = Some (g', pdi\<lparr>rb_track := t'\<rparr>) \<Longrightarrow> options g' = options g \<Longrightarrow> track_inv (pdi\<lparr>rb_track := t'\<rparr>) \<Longrightarrow> tracked g pdi r"
  by (auto simp: tracked_def)

lemma tracked_same: "track_inv pdi \<Longrightarrow> options g' = options g \<Longrightarrow> tracked g pdi (Some (g', pdi))"
  by (rule trackedI [where g' = g' and t' = "rb_track pdi"]) simp_all

lemma tracked_queue:
  assumes "track_inv pdi"
  shows "tracked g pdi (log_track_queue t (g, pdi))"
proof (cases "track_ios g \<and> is_remapper pdi")
  case True
  obtain g' t' n where n: "find_track (tr_pid t) (tr_sector t) (g, pdi) = Some ((g', pdi\<lparr>rb_track := t'\<rparr>), n)"
    "options g' = options g" "track_inv (pdi\<lparr>rb_track := modify_at (\<lambda>iot. iot\<lparr>dispatch_time := tr_time t\<rparr>) n\<rparr>)"
    using find_track_set [OF assms, of "\<lambda>iot. iot\<lparr>dispatch_time := tr_time t\<rparr>"] by fastforce
  show ?thesis
    by (rule trackedI [OF _ n(2,3)]) (use True n(1) in \<open>simp add: log_track_queue_def\<close>)
next
  case False
  then show ?thesis
    using tracked_same [OF assms] by (auto simp: log_track_queue_def)
qed

lemma tracked_getrq:
  assumes "track_inv pdi"
  shows "tracked g pdi (log_track_getrq t (g, pdi))"
  using log_track_getrq_ok [OF assms, of g t] tracked_same [OF assms]
  by (cases "track_ios g") (auto intro: trackedI simp: log_track_getrq_def)

lemma tracked_frontmerge:
  assumes "track_inv pdi"
  shows "tracked g pdi (log_track_frontmerge t (g, pdi))"
proof (cases "track_ios g \<and> tracks pdi (tr_sector t + ucast (t_sec t)) \<noteq> None")
  case True
  then obtain iot u q where n: "find_track_node (tr_sector t + ucast (t_sec t)) pdi = Some (u, q)" "elem_at (u, q) = Some iot"
    using find_track_node_ex [OF assms] by blast
  obtain t1 where t1: "rb_erase u q = Some t1" "track_inv (pdi\<lparr>rb_track := t1\<rparr>)"
    using erase_track_ok [OF assms n(1)] by blast
  define iot' where "iot' = iot\<lparr>iot_sector := iot_sector iot - ucast (t_sec t)\<rparr>"
  have merge: "log_track_frontmerge t (g, pdi) = track_rb_insert iot' (g, pdi\<lparr>rb_track := t1\<rparr>)"
    using True n t1 by (simp add: log_track_frontmerge_def Let_def iot'_def)
  show ?thesis
  proof (cases "tracks (pdi\<lparr>rb_track := t1\<rparr>) (iot_sector iot') = None")
    case True
    then show ?thesis
      unfolding merge using track_rb_insert_new [OF t1(2) True, of g] by (auto intro: trackedI)
  next
    case False
    show ?thesis
      unfolding merge track_rb_insert_alias [OF t1(2) False] by (rule trackedI [OF refl _ t1(2)]) simp
  qed
next
  case False
  then have "track_ios g \<Longrightarrow> find_track_node (tr_sector t + ucast (t_sec t)) pdi = None"
    using find_track_node_None [OF assms, of "tr_sector t + ucast (t_sec t)"] by simp
  then show ?thesis
    using tracked_same [OF assms] by (simp add: log_track_frontmerge_def Let_def)
qed

lemma tracked_insert:
  assumes "track_inv pdi"
  shows "tracked g pdi (map_option fst (log_track_insert t (g, pdi)))"
  using log_track_insert_ok [OF assms, of g t] tracked_same [OF assms]
  by (cases "track_ios g") (auto intro: trackedI simp: log_track_insert_def)

lemma tracked_issue:
  assumes "track_inv pdi"
  shows "tracked g pdi (map_option fst (log_track_issue t (g, pdi)))"
proof (cases "track_ios g \<and> has_tc (tr_action t) TC_FS \<and> tracks pdi (tr_sector t) \<noteq> None")
  case True
  then obtain iot where "tracks pdi (tr_sector t) = Some iot"
    by auto
  then show ?thesis
    using log_track_issue_ok [OF assms, of g t iot] True by (auto intro: trackedI)
next
  case False
  then have "track_ios g \<Longrightarrow> has_tc (tr_action t) TC_FS \<Longrightarrow> find_track_node (tr_sector t) pdi = None"
    using find_track_node_None [OF assms, of "tr_sector t"] by simp
  then show ?thesis
    using tracked_same [OF assms] by (simp add: log_track_issue_def)
qed

lemma tracked_complete:
  assumes "track_inv pdi"
  shows "tracked g pdi (map_option fst (log_track_complete t (g, pdi)))"
proof (cases "track_ios g \<and> tracks pdi (tr_sector t) \<noteq> None")
  case True
  then obtain iot where "tracks pdi (tr_sector t) = Some iot"
    by auto
  then show ?thesis
    using log_track_complete_ok [OF assms, of g t iot] True by (auto intro: trackedI)
next
  case False
  then have "track_ios g \<Longrightarrow> find_track_node (tr_sector t) pdi = None"
    using find_track_node_None [OF assms, of "tr_sector t"] by simp
  then show ?thesis
    using tracked_same [OF assms] by (simp add: log_track_complete_def)
qed

lemmas tracked_events =
  tracked_queue tracked_getrq tracked_frontmerge tracked_insert tracked_issue tracked_complete

section \<open>Properties\<close>

text \<open>C12: the life of a tracked request: whatever else is tracked, the allocation, insertion, dispatch and
  completion of a request return, report the times from allocation to insertion, from insertion to dispatch
  and from dispatch to completion, and leave the other requests of the device as they were.\<close>

theorem request_lifecycle:
  assumes "track_inv pdi" "track_ios g"
    and "tr_sector tG = s" "tr_sector tI = s" "tr_sector tD = s" "tr_sector tC = s"
    and "tr_time tG \<noteq> 0" "has_tc (tr_action tD) TC_FS"
  shows "\<exists>g' pdi'.
    do { st \<leftarrow> log_track_getrq tG (g, pdi);
         (st, g2i) \<leftarrow> log_track_insert tI st;
         (st, i2d) \<leftarrow> log_track_issue tD st;
         (st, d2c) \<leftarrow> log_track_complete tC st;
         Some (st, g2i, i2d, d2c) }
    = Some ((g', pdi'), tr_time tI - tr_time tG, tr_time tD - tr_time tI, tr_time tC - tr_time tD)
    \<and> track_inv pdi' \<and> tracks pdi' = (tracks pdi)(s := None)"
proof -
  define i0 where "i0 = (track_or_fresh (tr_pid tG) s g pdi)\<lparr>allocation_time := tr_time tG\<rparr>"
  obtain g1 p1 where 1: "log_track_getrq tG (g, pdi) = Some (g1, p1)" "options g1 = options g" "track_inv p1"
    "tracks p1 = (tracks pdi)(s \<mapsto> i0)"
    using log_track_getrq_ok [OF assms(1,2), of tG] assms(3) unfolding i0_def by auto
  have i1: "track_or_fresh (tr_pid tI) (tr_sector tI) g1 p1 = i0"
    using 1(4) assms(4) by (simp add: track_or_fresh_def)
  define i1 where "i1 = i0\<lparr>queue_time := tr_time tI\<rparr>"
  have "allocation_time i0 = tr_time tG"
    by (simp add: i0_def)
  then obtain g2 p2 where 2: "log_track_insert tI (g1, p1) = Some ((g2, p2), tr_time tI - tr_time tG)"
    "options g2 = options g1" "track_inv p2" "tracks p2 = (tracks p1)(s \<mapsto> i1)"
    using log_track_insert_ok [OF 1(3), of g1 tI] options_track_ios [OF 1(2)] assms(2,4,7)
    unfolding i1 i1_def by auto
  have tracked2: "tracks p2 (tr_sector tD) = Some i1" "track_ios g2" "queue_time i1 = tr_time tI"
    using 2(4) assms(2,5) options_track_ios [OF 2(2)] options_track_ios [OF 1(2)] by (simp_all add: i1_def)
  obtain g3 p3 where 3: "log_track_issue tD (g2, p2) = Some ((g3, p3), tr_time tD - tr_time tI)"
    "options g3 = options g2" "track_inv p3" "tracks p3 = (tracks p2)(s \<mapsto> i1\<lparr>dispatch_time := tr_time tD\<rparr>)"
    using log_track_issue_ok [OF 2(3) tracked2(2) assms(8) tracked2(1)] tracked2(3) assms(5) by auto
  have tracked3: "tracks p3 (tr_sector tC) = Some (i1\<lparr>dispatch_time := tr_time tD\<rparr>)" "track_ios g3"
    using 3(4) assms(6) tracked2(2) options_track_ios [OF 3(2)] by simp_all
  obtain g4 p4 where 4: "log_track_complete tC (g3, p3) = Some ((g4, p4), tr_time tC - tr_time tD)"
    "track_inv p4" "tracks p4 = (tracks p3)(s := None)"
    using log_track_complete_ok [OF 3(3) tracked3(2,1)] assms(6) by auto
  show ?thesis
    by (intro exI [of _ g4] exI [of _ p4]) (simp add: 1 2 3 4)
qed

theorem request_lifecycle_witness:
  "\<exists>g' pdi'.
    do { st \<leftarrow> log_track_getrq (zero_trace\<lparr>tr_time := 5\<rparr>) ((init_globals (\<lambda>_. zero_iot))\<lparr>track_ios := True\<rparr>, zero_dev_info);
         (st, g2i) \<leftarrow> log_track_insert (zero_trace\<lparr>tr_time := 7\<rparr>) st;
         (st, i2d) \<leftarrow> log_track_issue (zero_trace\<lparr>tr_time := 10, tr_action := 0x1000000\<rparr>) st;
         (st, d2c) \<leftarrow> log_track_complete (zero_trace\<lparr>tr_time := 20\<rparr>) st;
         Some (st, g2i, i2d, d2c) }
    = Some ((g', pdi'), tr_time (zero_trace\<lparr>tr_time := 7\<rparr>) - tr_time (zero_trace\<lparr>tr_time := 5\<rparr>),
        tr_time (zero_trace\<lparr>tr_time := 10, tr_action := 0x1000000\<rparr>) - tr_time (zero_trace\<lparr>tr_time := 7\<rparr>),
        tr_time (zero_trace\<lparr>tr_time := 20\<rparr>) - tr_time (zero_trace\<lparr>tr_time := 10, tr_action := 0x1000000\<rparr>))
    \<and> track_inv pdi' \<and> tracks pdi' = (tracks zero_dev_info)(0 := None)"
  by (rule request_lifecycle)
    (simp_all add: track_inv_def zero_dev_info_def zero_trace_def has_tc_def BLK_TC_ACT_bit init_globals_def)

text \<open>An insertion of a request whose allocation was not seen compares and subtracts a field of the struct
  that nobody has written: the reported time depends on what \<open>malloc\<close> returned.\<close>

theorem untracked_insert_reads_malloc:
  assumes "track_inv pdi" "track_ios g" "tracks pdi (tr_sector t) = None"
  shows "\<exists>st. log_track_insert t (g, pdi) = Some (st,
    let junk = allocation_time (malloc_iot g (iot_allocated g)) in if junk = 0 then - 1 else tr_time t - junk)"
  using log_track_insert_ok [OF assms(1,2), of t] assms(3) by (auto simp: track_or_fresh_def Let_def)

theorem untracked_insert_reads_malloc_witness:
  "\<exists>st. log_track_insert (zero_trace\<lparr>tr_time := 9\<rparr>) ((init_globals (\<lambda>_. zero_iot\<lparr>allocation_time := 3\<rparr>))\<lparr>track_ios := True\<rparr>, zero_dev_info)
    = Some (st,
    let junk = allocation_time (malloc_iot ((init_globals (\<lambda>_. zero_iot\<lparr>allocation_time := 3\<rparr>))\<lparr>track_ios := True\<rparr>)
        (iot_allocated ((init_globals (\<lambda>_. zero_iot\<lparr>allocation_time := 3\<rparr>))\<lparr>track_ios := True\<rparr>)))
    in if junk = 0 then - 1 else tr_time (zero_trace\<lparr>tr_time := 9\<rparr>) - junk)"
  by (rule untracked_insert_reads_malloc)
    (simp_all add: track_inv_def tracks_def zero_dev_info_def zero_trace_def init_globals_def)

end
