(* ===== verification/Io_Stats.thy ===== *)
theory Io_Stats
  imports Process_Map Cpu_Map
begin

text \<open>
  The accounting functions of \<open>blkparse.c\<close>. Each updates the statistics of the CPU and, with per-process
  statistics, those of the process of the trace. A C function \<open>__account_x\<close> is \<open>acct_x\<close> here. Sizes are
  kept as kilobytes and remaining bytes in two 64-bit counters.
\<close>

section \<open>Updates of one set of statistics\<close>

definition acct_m :: "blk_io_trace \<Rightarrow> bool \<Rightarrow> io_stats \<Rightarrow> io_stats" where
  "acct_m t rw ios =
     (if rw then ios\<lparr>mwrites := mwrites ios + 1, mwrite_kb := mwrite_kb ios + ucast (t_kb t),
                     mwrite_b := mwrite_b ios + ucast (t_b t)\<rparr>
      else ios\<lparr>mreads := mreads ios + 1, mread_kb := mread_kb ios + ucast (t_kb t),
               mread_b := mread_b ios + ucast (t_b t)\<rparr>)"

text \<open>A queued read of a packet command is added to \<open>qread_kb\<close>, not to \<open>qread_kb_pc\<close>.\<close>

definition acct_pc_queue :: "blk_io_trace \<Rightarrow> bool \<Rightarrow> io_stats \<Rightarrow> io_stats" where
  "acct_pc_queue t rw ios =
     (if rw then ios\<lparr>qwrites_pc := qwrites_pc ios + 1, qwrite_kb_pc := qwrite_kb_pc ios + ucast (t_kb t),
                     qwrite_b_pc := qwrite_b_pc ios + ucast (t_b t)\<rparr>
      else ios\<lparr>qreads_pc := qreads_pc ios + 1, qread_kb := qread_kb ios + ucast (t_kb t),
               qread_b_pc := qread_b_pc ios + ucast (t_b t)\<rparr>)"

definition acct_pc_issue :: "bool \<Rightarrow> u32 \<Rightarrow> io_stats \<Rightarrow> io_stats" where
  "acct_pc_issue rw bytes ios =
     (if rw then ios\<lparr>iwrites_pc := iwrites_pc ios + 1, iwrite_kb_pc := iwrite_kb_pc ios + ucast (drop_bit 10 bytes),
                     iwrite_b_pc := iwrite_b_pc ios + ucast (bytes AND 1023)\<rparr>
      else ios\<lparr>ireads_pc := ireads_pc ios + 1, iread_kb_pc := iread_kb_pc ios + ucast (drop_bit 10 bytes),
               iread_b_pc := iread_b_pc ios + ucast (bytes AND 1023)\<rparr>)"

definition acct_pc_requeue :: "blk_io_trace \<Rightarrow> bool \<Rightarrow> io_stats \<Rightarrow> io_stats" where
  "acct_pc_requeue t rw ios =
     (if rw then ios\<lparr>wrqueue_pc := wrqueue_pc ios + 1, iwrite_kb_pc := iwrite_kb_pc ios - ucast (t_kb t),
                     iwrite_b_pc := iwrite_b_pc ios - ucast (t_b t)\<rparr>
      else ios\<lparr>rrqueue_pc := rrqueue_pc ios + 1, iread_kb_pc := iread_kb_pc ios - ucast (t_kb t),
               iread_b_pc := iread_b_pc ios - ucast (t_b t)\<rparr>)"

definition acct_pc_c :: "bool \<Rightarrow> io_stats \<Rightarrow> io_stats" where
  "acct_pc_c rw ios =
     (if rw then ios\<lparr>cwrites_pc := cwrites_pc ios + 1\<rparr> else ios\<lparr>creads_pc := creads_pc ios + 1\<rparr>)"

definition acct_queue :: "blk_io_trace \<Rightarrow> bool \<Rightarrow> io_stats \<Rightarrow> io_stats" where
  "acct_queue t rw ios =
     (if rw then ios\<lparr>qwrites := qwrites ios + 1, qwrite_kb := qwrite_kb ios + ucast (t_kb t),
                     qwrite_b := qwrite_b ios + ucast (t_b t)\<rparr>
      else ios\<lparr>qreads := qreads ios + 1, qread_kb := qread_kb ios + ucast (t_kb t),
               qread_b := qread_b ios + ucast (t_b t)\<rparr>)"

text \<open>The parameter is an \<open>int\<close>: the shift keeps its sign, and so does the conversion to 64 bits.\<close>

definition acct_c :: "bool \<Rightarrow> u32 \<Rightarrow> io_stats \<Rightarrow> io_stats" where
  "acct_c rw bytes ios =
     (if rw then ios\<lparr>cwrites := cwrites ios + 1, cwrite_kb := cwrite_kb ios + scast (signed_drop_bit 10 bytes),
                     cwrite_b := cwrite_b ios + scast (bytes AND 1023)\<rparr>
      else ios\<lparr>creads := creads ios + 1, cread_kb := cread_kb ios + scast (signed_drop_bit 10 bytes),
               cread_b := cread_b ios + scast (bytes AND 1023)\<rparr>)"

definition acct_issue :: "bool \<Rightarrow> u32 \<Rightarrow> io_stats \<Rightarrow> io_stats" where
  "acct_issue rw bytes ios =
     (if rw then ios\<lparr>iwrites := iwrites ios + 1, iwrite_kb := iwrite_kb ios + ucast (drop_bit 10 bytes),
                     iwrite_b := iwrite_b ios + ucast (bytes AND 1023)\<rparr>
      else ios\<lparr>ireads := ireads ios + 1, iread_kb := iread_kb ios + ucast (drop_bit 10 bytes),
               iread_b := iread_b ios + ucast (bytes AND 1023)\<rparr>)"

definition acct_unplug :: "bool \<Rightarrow> io_stats \<Rightarrow> io_stats" where
  "acct_unplug timer ios =
     (if timer then ios\<lparr>timer_unplugs := timer_unplugs ios + 1\<rparr> else ios\<lparr>io_unplugs := io_unplugs ios + 1\<rparr>)"

definition acct_requeue :: "blk_io_trace \<Rightarrow> bool \<Rightarrow> io_stats \<Rightarrow> io_stats" where
  "acct_requeue t rw ios =
     (if rw then ios\<lparr>wrqueue := wrqueue ios + 1, iwrite_kb := iwrite_kb ios - ucast (t_kb t),
                     iwrite_b := iwrite_b ios - ucast (t_b t)\<rparr>
      else ios\<lparr>rrqueue := rrqueue ios + 1, iread_kb := iread_kb ios - ucast (t_kb t),
               iread_b := iread_b ios - ucast (t_b t)\<rparr>)"

section \<open>Accounting for the CPU and the process\<close>

text \<open>The common shape of the functions \<open>account_x(t, pci, ..)\<close>.\<close>

definition account_process :: "(io_stats \<Rightarrow> io_stats) \<Rightarrow> u32 \<Rightarrow> globals \<Rightarrow> globals" where
  "account_process f pid g =
     (if per_process_stats g then
        let (g, i) = find_process_io_stats pid g
        in update_ppi i (\<lambda>ppi. ppi\<lparr>ppi_io_stats := f (ppi_io_stats ppi)\<rparr>) g
      else g)"

definition account :: "(io_stats \<Rightarrow> io_stats) \<Rightarrow> blk_io_trace \<Rightarrow> globals \<times> per_cpu_info \<Rightarrow> globals \<times> per_cpu_info" where
  "account f t = (\<lambda>(g, pci). (account_process f (tr_pid t) g, pci\<lparr>pci_io_stats := f (pci_io_stats pci)\<rparr>))"

definition account_m where
  "account_m t rw = account (acct_m t rw) t"

definition account_pc_queue where
  "account_pc_queue t rw = account (acct_pc_queue t rw) t"

definition account_pc_issue where
  "account_pc_issue t rw = account (acct_pc_issue rw (tr_bytes t)) t"

definition account_pc_requeue where
  "account_pc_requeue t rw = account (acct_pc_requeue t rw) t"

definition account_pc_c where
  "account_pc_c t rw = account (acct_pc_c rw) t"

definition account_queue where
  "account_queue t rw = account (acct_queue t rw) t"

definition account_c where
  "account_c t rw bytes = account (acct_c rw bytes) t"

definition account_issue where
  "account_issue t rw = account (acct_issue rw (tr_bytes t)) t"

definition account_unplug where
  "account_unplug t timer = account (acct_unplug timer) t"

definition account_requeue where
  "account_requeue t rw = account (acct_requeue t rw) t"

lemmas account_defs =
  account_m_def account_pc_queue_def account_pc_issue_def account_pc_requeue_def account_pc_c_def
  account_queue_def account_c_def account_issue_def account_unplug_def account_requeue_def

section \<open>Kilobytes and bytes\<close>

text \<open>The size that a pair of counters stands for, modulo \<open>2 ^ 64\<close>.\<close>

definition size_of :: "u64 \<Rightarrow> u64 \<Rightarrow> u64" where
  "size_of kb b = 1024 * kb + b"

lemma unat_1023: "unat ((w :: u32) AND 1023) = unat w mod 1024"
proof -
  have "w AND 1023 = take_bit 10 w"
    by (simp add: take_bit_eq_mask mask_eq_exp_minus_1)
  then show ?thesis
    by (simp add: unsigned_take_bit_eq) (simp add: take_bit_nat_def)
qed

lemma unat_shift_10: "unat (drop_bit 10 (w :: u32)) = unat w div 1024"
  by (simp add: drop_bit_eq_div unat_div)

lemma size_of_split: "size_of (ucast (drop_bit 10 w)) (ucast (w AND 1023)) = ucast (w :: u32)"
proof -
  have "of_nat (1024 * (unat w div 1024) + unat w mod 1024) = (of_nat (unat w) :: u64)"
    by (simp only: mult_div_mod_eq)
  then have "1024 * of_nat (unat w div 1024) + of_nat (unat w mod 1024) = (ucast w :: u64)"
    by (simp only: of_nat_add of_nat_mult of_nat_numeral of_nat_unat)
  moreover have "(ucast (drop_bit 10 w) :: u64) = of_nat (unat w div 1024)"
    unfolding unat_shift_10 [symmetric] by simp
  moreover have "(ucast (w AND 1023) :: u64) = of_nat (unat w mod 1024)"
    unfolding unat_1023 [symmetric] by simp
  ultimately show ?thesis
    by (simp add: size_of_def)
qed

lemma size_of_split_signed: "size_of (scast (signed_drop_bit 10 w)) (scast (w AND 1023)) = scast (w :: u32)"
proof -
  have "sint (signed_drop_bit 10 w) = sint w div 1024"
    by (simp add: sint_signed_drop_bit_eq drop_bit_eq_div)
  moreover have "sint (w AND 1023) = sint w mod 1024"
  proof -
    have "sint w mod 1024 = take_bit 10 (signed_take_bit 31 (uint w))"
      by (simp add: sint_uint take_bit_eq_mod)
    also have "\<dots> = take_bit 10 (uint w)"
      by (simp add: take_bit_signed_take_bit)
    finally have *: "sint w mod 1024 = take_bit 10 (uint w)" .
    have "w AND 1023 = take_bit 10 w"
      by (simp add: take_bit_eq_mask mask_eq_exp_minus_1)
    then have "uint (w AND 1023) = take_bit 10 (uint w)"
      by (simp add: unsigned_take_bit_eq)
    moreover have "take_bit 10 (uint w) < 2 ^ 31" "- (2 ^ 31) \<le> take_bit 10 (uint w)"
      using take_bit_int_less_exp [of 10 "uint w"] order_trans [OF _ take_bit_nonnegative, of "- (2 ^ 31)" 10 "uint w"]
      by simp_all
    ultimately show ?thesis
      by (simp add: * sint_uint [of "w AND 1023"] signed_take_bit_int_eq_self)
  qed
  moreover have "(of_int (1024 * (sint w div 1024) + sint w mod 1024) :: u64) = of_int (sint w)"
    by (simp only: mult_div_mod_eq)
  then have "1024 * of_int (sint w div 1024) + of_int (sint w mod 1024) = (of_int (sint w) :: u64)"
    by (simp only: of_int_add of_int_mult of_int_numeral)
  ultimately show ?thesis
    unfolding size_of_def scast_eq by (simp only:)
qed

section \<open>Statistics per process\<close>

lemma stats_of_known: "find_ppi_by_pid g pid = Some i \<Longrightarrow> stats_of g pid = ppi_io_stats (ppi_store g ! i)"
  by (simp add: stats_of_def)

lemma update_ppi_ok:
  assumes "ppi_ok g" and "\<And>ppi. ppi_ppm (f ppi) = ppi_ppm ppi"
  shows "ppi_ok (update_ppi i f g)"
proof -
  have pid: "ppi_pid ((ppi_store g)[i := f (ppi_store g ! i)] ! j) = ppi_pid (ppi_store g ! j)" for j
    using assms(2) by (cases "i < length (ppi_store g)"; cases "i = j") (simp_all add: list_update_beyond)
  then have "map ppi_pid ((ppi_store g)[i := f (ppi_store g ! i)]) = map ppi_pid (ppi_store g)"
    by (intro nth_equalityI) simp_all
  then show ?thesis
    using assms(1) by (simp add: ppi_ok_def update_ppi_def pid)
qed

lemma stats_of_new:
  assumes "ppi_ok g" "ppi_ok g'" "ppi_store g' = ppi_store g @ [new_ppi ppm]"
  shows "stats_of g' p = stats_of g p"
proof (cases "find_ppi_by_pid g p")
  case (Some j)
  then have "find_ppi_by_pid g' p = Some j" "j < length (ppi_store g)"
    using find_ppi_by_pid_Some [OF assms(1)] find_ppi_by_pid_Some [OF assms(2)]
    by (auto simp: assms(3) nth_append)
  then show ?thesis
    using Some by (simp add: stats_of_def assms(3) nth_append)
next
  case none: None
  show ?thesis
  proof (cases "p = ppm_pid ppm")
    case True
    then have "find_ppi_by_pid g' p = Some (length (ppi_store g))"
      using find_ppi_by_pid_Some [OF assms(2)] by (simp add: assms(3) new_ppi_def)
    then show ?thesis
      using none by (simp add: stats_of_def assms(3) new_ppi_def)
  next
    case False
    then have "find_ppi_by_pid g' p = None"
      using none find_ppi_by_pid_None [OF assms(1)] find_ppi_by_pid_None [OF assms(2)]
      by (auto simp: assms(3) new_ppi_def)
    then show ?thesis
      using none by (simp add: stats_of_def)
  qed
qed

lemma find_process_io_stats_ok:
  assumes "ppi_ok g" "find_process_io_stats pid g = (g', i)"
  shows "ppi_ok g'" "i < length (ppi_store g')" "ppi_pid (ppi_store g' ! i) = pid"
    "stats_of g' p = stats_of g p"
proof -
  have "ppi_ok g' \<and> i < length (ppi_store g') \<and> ppi_pid (ppi_store g' ! i) = pid \<and> stats_of g' p = stats_of g p"
  proof (cases "find_ppi_by_pid g pid")
    case (Some j)
    then have "g' = g" "i = j"
      using find_process_io_stats_known [OF assms(1) Some] assms(2) by simp_all
    then show ?thesis
      using assms(1) Some find_ppi_by_pid_Some [OF assms(1)] by simp
  next
    case None
    then obtain ppm where new: "i = length (ppi_store g)" "ppm_pid ppm = pid"
      "ppi_store g' = ppi_store g @ [new_ppi ppm]" "ppi_ok g'"
      using find_process_io_stats_new [OF assms(1) None] assms(2) by auto
    then show ?thesis
      using stats_of_new [OF assms(1) new(4,3)] by (simp add: new_ppi_def)
  qed
  then show "ppi_ok g'" "i < length (ppi_store g')" "ppi_pid (ppi_store g' ! i) = pid" "stats_of g' p = stats_of g p"
    by blast+
qed

lemma stats_of_update:
  assumes "ppi_ok g" "i < length (ppi_store g)"
  shows "stats_of (update_ppi i (\<lambda>ppi. ppi\<lparr>ppi_io_stats := f (ppi_io_stats ppi)\<rparr>) g) p =
    (if p = ppi_pid (ppi_store g ! i) then f (stats_of g p) else stats_of g p)"
proof -
  define g2 where "g2 = update_ppi i (\<lambda>ppi. ppi\<lparr>ppi_io_stats := f (ppi_io_stats ppi)\<rparr>) g"
  have g2_ok: "ppi_ok g2"
    unfolding g2_def using assms(1) by (rule update_ppi_ok) simp
  have store: "ppi_store g2 = (ppi_store g)[i := (ppi_store g ! i)\<lparr>ppi_io_stats := f (ppi_io_stats (ppi_store g ! i))\<rparr>]"
    by (simp add: g2_def update_ppi_def)
  have "find_ppi_by_pid g2 p = Some j \<longleftrightarrow> find_ppi_by_pid g p = Some j" for j
    unfolding find_ppi_by_pid_Some [OF g2_ok] find_ppi_by_pid_Some [OF assms(1)] store
    using assms(2) by (cases "i = j") simp_all
  then have find: "find_ppi_by_pid g2 p = find_ppi_by_pid g p"
    by (metis not_Some_eq)
  have "find_ppi_by_pid g p = Some i \<longleftrightarrow> p = ppi_pid (ppi_store g ! i)"
    using find_ppi_by_pid_Some [OF assms(1)] assms(2) by auto
  then show ?thesis
    using assms(2) unfolding g2_def [symmetric]
    by (cases "find_ppi_by_pid g p") (auto simp: stats_of_def find store nth_list_update)
qed

lemma account_process_stats:
  assumes "ppi_ok g" "per_process_stats g"
  shows "ppi_ok (account_process f pid g)"
    and "stats_of (account_process f pid g) p = (if p = pid then f (stats_of g p) else stats_of g p)"
proof -
  obtain g' i where g': "find_process_io_stats pid g = (g', i)"
    by (cases "find_process_io_stats pid g")
  note ok = find_process_io_stats_ok [OF assms(1) g']
  have acc: "account_process f pid g = update_ppi i (\<lambda>ppi. ppi\<lparr>ppi_io_stats := f (ppi_io_stats ppi)\<rparr>) g'"
    using assms(2) by (simp add: account_process_def g')
  show "ppi_ok (account_process f pid g)"
    unfolding acc using ok(1) by (rule update_ppi_ok) simp
  show "stats_of (account_process f pid g) p = (if p = pid then f (stats_of g p) else stats_of g p)"
    unfolding acc stats_of_update [OF ok(1,2)] ok(3) ok(4) ..
qed

lemma find_ppm_options [simp]:
  "per_process_stats (fst (find_or_add_ppm pid g)) = per_process_stats g"
  by (simp add: find_or_add_ppm_def add_ppm_hash_def Let_def split: option.splits)

lemma account_process_options [simp]:
  "per_process_stats (account_process f pid g) = per_process_stats g"
  by (simp add: account_process_def find_process_io_stats_def find_ppi_def update_ppi_def add_ppi_to_hash_def
      add_ppi_to_list_def Let_def case_prod_beta split: option.splits)

section \<open>Properties\<close>


text \<open>A queued read of a packet command does not reach the kilobyte counter of packet reads: it stays as
  it is, and the kilobytes go to the counter of the filesystem reads, while the remaining bytes and the
  number of requests are counted as packet reads.\<close>

theorem pc_queue_read_misplaced:
  "qread_kb_pc (acct_pc_queue t False ios) = qread_kb_pc ios
   \<and> qread_kb (acct_pc_queue t False ios) = qread_kb ios + ucast (t_kb t)
   \<and> qread_b_pc (acct_pc_queue t False ios) = qread_b_pc ios + ucast (t_b t)
   \<and> qreads_pc (acct_pc_queue t False ios) = qreads_pc ios + 1
   \<and> size_of (qwrite_kb_pc (acct_pc_queue t True ios)) (qwrite_b_pc (acct_pc_queue t True ios))
     = size_of (qwrite_kb_pc ios) (qwrite_b_pc ios) + ucast (tr_bytes t)"
proof -
  have "size_of (a + ucast (t_kb t)) (b + ucast (t_b t)) = size_of a b + ucast (tr_bytes t)" for a b
    using size_of_split [of "tr_bytes t"] by (simp add: size_of_def t_kb_def t_b_def algebra_simps)
  then show ?thesis
    by (simp add: acct_pc_queue_def)
qed

text \<open>C19: with per-process statistics keyed by the pid, any sequence of accounting calls leaves the CPU with
  all updates, and each process with exactly the updates of the traces that carry its pid, in their order,
  whichever hash chains they share.\<close>

theorem accounting_by_process:
  assumes "ppi_ok g" and "per_process_stats g"
  shows "stats_of (fst (fold (\<lambda>(f, t). account f t) fts (g, pci))) pid
      = fold (\<lambda>(f, t). f) (filter (\<lambda>(f, t). tr_pid t = pid) fts) (stats_of g pid)
    \<and> pci_io_stats (snd (fold (\<lambda>(f, t). account f t) fts (g, pci))) = fold (\<lambda>(f, t). f) fts (pci_io_stats pci)
    \<and> ppi_ok (fst (fold (\<lambda>(f, t). account f t) fts (g, pci)))"
  using assms
proof (induction fts arbitrary: g pci)
  case (Cons ft fts)
  obtain f t where ft: "ft = (f, t)"
    by (cases ft)
  show ?case
    using Cons.IH [of "account_process f (tr_pid t) g" "pci\<lparr>pci_io_stats := f (pci_io_stats pci)\<rparr>"]
      account_process_stats [OF Cons.prems, of f "tr_pid t"] Cons.prems(2)
    by (simp add: ft account_def)
qed simp

definition stats_globals :: globals where
  "stats_globals = (init_globals (\<lambda>_. zero_iot))\<lparr>per_process_stats := True\<rparr>"

theorem accounting_by_process_witness:
  "stats_of (fst (fold (\<lambda>(f, t). account f t) [(acct_unplug True, zero_trace)] (stats_globals, zero_cpu_info))) 0
      = fold (\<lambda>(f, t). f) (filter (\<lambda>(f, t). tr_pid t = 0) [(acct_unplug True, zero_trace)]) (stats_of stats_globals 0)
    \<and> pci_io_stats (snd (fold (\<lambda>(f, t). account f t) [(acct_unplug True, zero_trace)] (stats_globals, zero_cpu_info)))
      = fold (\<lambda>(f, t). f) [(acct_unplug True, zero_trace)] (pci_io_stats zero_cpu_info)
    \<and> ppi_ok (fst (fold (\<lambda>(f, t). account f t) [(acct_unplug True, zero_trace)] (stats_globals, zero_cpu_info)))"
  by (rule accounting_by_process) (simp_all add: ppi_ok_def stats_globals_def init_globals_def)

end
