(* ===== verification/Dump.thy ===== *)
theory Dump
  imports Io_Track Io_Stats
begin

text \<open>
  What \<open>blkparse.c\<close> does with a trace once its turn has come: the switch over the action in
  \<open>dump_trace_fs\<close> and \<open>dump_trace_pc\<close>, which accounts the trace, keeps the queue depths and prints a line,
  and \<open>dump_trace\<close>, which selects between them, counts the event and writes the binary copy. The state is
  that of the program, of the device and of the CPU.
\<close>

type_synonym dump_state = "globals \<times> per_dev_info \<times> per_cpu_info"

section \<open>Lines of output\<close>

definition process_fmt :: "string \<Rightarrow> blk_io_trace \<Rightarrow> u64 \<Rightarrow> u8 list \<Rightarrow> dump_state \<Rightarrow> dump_state" where
  "process_fmt act t elapsed pdu = (\<lambda>(g, pdi, pci). (emit (Process_fmt act t elapsed pdu) g, pdi, pci))"

text \<open>The line of a remap in the default format is for the device that the payload names: \<open>process_default\<close> stores its
  number in the record, which is the copy that is written and kept afterwards. A payload that is too short
  is read past its end.\<close>

definition get_pdu_remap :: "blk_io_trace \<Rightarrow> blk_io_trace_remap option" where
  "get_pdu_remap t =
     (let word = (\<lambda>n bs. fold (\<lambda>b w. push_bit 8 w OR ucast b) (take n bs) 0); pdu = tr_pdu t
      in if length pdu < 16 then None
         else Some \<lparr>r_device_from = word 4 pdu, r_device_to = word 4 (drop 4 pdu), r_sector_from = fold (\<lambda>b w. push_bit 8 w OR ucast b) (take 8 (drop 8 pdu)) 0\<rparr>)"

definition process_fmt_record :: "string \<Rightarrow> blk_io_trace \<Rightarrow> globals \<Rightarrow> blk_io_trace option" where
  "process_fmt_record act t g =
     (if hd act = CHR ''A'' \<and> override_format g (hd act) = None
      then map_option (\<lambda>r. t\<lparr>tr_device := r_device_to r\<rparr>) (get_pdu_remap t) else Some t)"

text \<open>\<open>log_queue\<close>, \<open>log_action\<close>, \<open>log_generic\<close>, \<open>log_unplug\<close> and \<open>log_split\<close> have the same body.\<close>

definition log_generic :: "blk_io_trace \<Rightarrow> string \<Rightarrow> dump_state \<Rightarrow> dump_state" where
  "log_generic t act = process_fmt act t (- 1) []"

definition log_queue :: "blk_io_trace \<Rightarrow> string \<Rightarrow> dump_state \<Rightarrow> dump_state" where
  "log_queue t act = process_fmt act t (- 1) []"

definition log_action :: "blk_io_trace \<Rightarrow> string \<Rightarrow> dump_state \<Rightarrow> dump_state" where
  "log_action t act = process_fmt act t (- 1) []"

definition log_unplug :: "blk_io_trace \<Rightarrow> string \<Rightarrow> dump_state \<Rightarrow> dump_state" where
  "log_unplug t act = process_fmt act t (- 1) []"

definition log_split :: "blk_io_trace \<Rightarrow> string \<Rightarrow> dump_state \<Rightarrow> dump_state" where
  "log_split t act = process_fmt act t (- 1) []"

definition log_pc :: "blk_io_trace \<Rightarrow> string \<Rightarrow> dump_state \<Rightarrow> dump_state" where
  "log_pc t act = process_fmt act t (- 1) (take (unat (tr_pdu_len t)) (tr_pdu t))"

text \<open>A function of \<open>Io_Track\<close> that returns the elapsed time, and the line with that time.\<close>

definition log_elapsed ::
    "(dev_state \<Rightarrow> (dev_state \<times> u64) option) \<Rightarrow> blk_io_trace \<Rightarrow> string \<Rightarrow> dump_state \<Rightarrow> dump_state option" where
  "log_elapsed track t act = (\<lambda>(g, pdi, pci). do {
     ((g, pdi), elapsed) \<leftarrow> track (g, pdi);
     Some (process_fmt act t elapsed [] (g, pdi, pci)) })"

definition log_complete where
  "log_complete t act = log_elapsed (log_track_complete t) t act"

definition log_insert where
  "log_insert t act = log_elapsed (log_track_insert t) t act"

definition log_issue where
  "log_issue t act = log_elapsed (log_track_issue t) t act"

definition track_only :: "(dev_state \<Rightarrow> dev_state option) \<Rightarrow> dump_state \<Rightarrow> dump_state option" where
  "track_only track = (\<lambda>(g, pdi, pci). do {
     (g, pdi) \<leftarrow> track (g, pdi);
     Some (g, pdi, pci) })"

definition log_merge :: "blk_io_trace \<Rightarrow> string \<Rightarrow> dump_state \<Rightarrow> dump_state option" where
  "log_merge t act st = do {
     st \<leftarrow> (if hd act = CHR ''F'' then track_only (log_track_frontmerge t) st else Some st);
     Some (process_fmt act t (- 1) [] st) }"

section \<open>Queue depths\<close>

text \<open>\<open>if (pdi->cur_depth[w]) pdi->cur_depth[w]--\<close> and the increment with its maximum.\<close>

definition depth_dec :: "bool \<Rightarrow> per_dev_info \<Rightarrow> per_dev_info" where
  "depth_dec w pdi =
     (if dir_get w (cur_depth pdi) \<noteq> 0
      then pdi\<lparr>cur_depth := dir_set w (dir_get w (cur_depth pdi) - 1) (cur_depth pdi)\<rparr> else pdi)"

definition depth_inc :: "bool \<Rightarrow> per_dev_info \<Rightarrow> per_dev_info" where
  "depth_inc w pdi =
     (let pdi = pdi\<lparr>cur_depth := dir_set w (dir_get w (cur_depth pdi) + 1) (cur_depth pdi)\<rparr>
      in if dir_get w (max_depth pdi) < dir_get w (cur_depth pdi)
         then pdi\<lparr>max_depth := dir_set w (dir_get w (cur_depth pdi)) (max_depth pdi)\<rparr> else pdi)"

definition on_dev :: "(per_dev_info \<Rightarrow> per_dev_info) \<Rightarrow> dump_state \<Rightarrow> dump_state" where
  "on_dev f = (\<lambda>(g, pdi, pci). (g, f pdi, pci))"

definition on_cpu :: "(globals \<times> per_cpu_info \<Rightarrow> globals \<times> per_cpu_info) \<Rightarrow> dump_state \<Rightarrow> dump_state" where
  "on_cpu f = (\<lambda>(g, pdi, pci). let (g, pci) = f (g, pci) in (g, pdi, pci))"

definition on_globals :: "(globals \<Rightarrow> globals) \<Rightarrow> dump_state \<Rightarrow> dump_state" where
  "on_globals f = (\<lambda>(g, pdi, pci). (f g, pdi, pci))"

section \<open>The switches\<close>

definition dump_trace_pc :: "blk_io_trace \<Rightarrow> dump_state \<Rightarrow> dump_state" where
  "dump_trace_pc t st =
     (let w = has_tc (tr_action t) TC_WRITE;
          act = tr_action t AND 0xffff
      in if act = ta_code TA_QUEUE then on_cpu (account_pc_queue t w) (log_generic t ''Q'' st)
         else if act = ta_code TA_GETRQ then log_generic t ''G'' st
         else if act = ta_code TA_SLEEPRQ then log_generic t ''S'' st
         else if act = ta_code TA_REQUEUE then
           log_generic t ''R'' (on_cpu (account_pc_requeue t w) (on_dev (depth_dec w) st))
         else if act = ta_code TA_ISSUE then
           log_pc t ''D'' (on_dev (depth_inc w) (on_cpu (account_pc_issue t w) st))
         else if act = ta_code TA_COMPLETE then
           on_cpu (account_pc_c t w) (log_pc t ''C'' (on_dev (depth_dec w) st))
         else if act = ta_code TA_INSERT then log_pc t ''I'' st
         else on_globals (warn (Bad_pc_action act)) st)"

definition dump_trace_fs :: "blk_io_trace \<Rightarrow> dump_state \<Rightarrow> dump_state option" where
  "dump_trace_fs t st =
     (let w = has_tc (tr_action t) TC_WRITE;
          act = tr_action t AND 0xffff
      in if act = ta_code TA_QUEUE then do {
           st \<leftarrow> track_only (log_track_queue t) st;
           Some (log_queue t ''Q'' (on_cpu (account_queue t w) st)) }
         else if act = ta_code TA_INSERT then log_insert t ''I'' st
         else if act = ta_code TA_BACKMERGE then log_merge t ''M'' (on_cpu (account_m t w) st)
         else if act = ta_code TA_FRONTMERGE then log_merge t ''F'' (on_cpu (account_m t w) st)
         else if act = ta_code TA_GETRQ then do {
           st \<leftarrow> track_only (log_track_getrq t) st;
           Some (log_generic t ''G'' st) }
         else if act = ta_code TA_SLEEPRQ then Some (log_generic t ''S'' st)
         else if act = ta_code TA_REQUEUE then
           Some (log_queue t ''R'' (on_cpu (account_requeue t w) (on_dev (depth_dec w) st)))
         else if act = ta_code TA_ISSUE then
           log_issue t ''D'' (on_dev (depth_inc w) (on_cpu (account_issue t w) st))
         else if act = ta_code TA_COMPLETE then
           log_complete t ''C'' (on_cpu (account_c t w (tr_bytes t)) (on_dev (depth_dec w) st))
         else if act = ta_code TA_PLUG then Some (log_action t ''P'' st)
         else if act = ta_code TA_UNPLUG_IO then Some (log_unplug t ''U'' (on_cpu (account_unplug t False) st))
         else if act = ta_code TA_UNPLUG_TIMER then Some (log_unplug t ''UT'' (on_cpu (account_unplug t True) st))
         else if act = ta_code TA_SPLIT then Some (log_split t ''X'' st)
         else if act = ta_code TA_BOUNCE then Some (log_generic t ''B'' st)
         else if act = ta_code TA_REMAP then Some (log_generic t ''A'' st)
         else if act = ta_code TA_DRV_DATA then Some (on_globals (\<lambda>g. g\<lparr>have_drv_data := True\<rparr>) st)
         else Some (on_globals (warn (Bad_fs_action (tr_action t))) st))"

text \<open>The copy of the record in the binary output, when there is one; its write succeeds.\<close>

definition output_binary :: "blk_io_trace \<Rightarrow> globals \<Rightarrow> globals" where
  "output_binary t g = (if dump_binary g then g\<lparr>binary_out := binary_out g @ [t]\<rparr> else g)"

definition count_event :: "blk_io_trace \<Rightarrow> per_dev_info \<Rightarrow> per_dev_info" where
  "count_event t pdi =
     (let pdi = (if pdi_events pdi = 0 then pdi\<lparr>first_reported_time := tr_time t\<rparr> else pdi)
      in pdi\<lparr>pdi_events := pdi_events pdi + 1\<rparr>)"

text \<open>What the line of a trace leaves in the record: only that of a remap, which goes through \<open>log_generic\<close>, may change it.\<close>

definition line_record :: "blk_io_trace \<Rightarrow> globals \<Rightarrow> blk_io_trace option" where
  "line_record t g =
     (if text_output g \<and> tr_action t \<noteq> BLK_TN TN_MESSAGE \<and> \<not> has_tc (tr_action t) TC_PC
         \<and> tr_action t AND 0xffff = ta_code TA_REMAP
      then process_fmt_record ''A'' t g else Some t)"

definition dump_trace :: "blk_io_trace \<Rightarrow> dump_state \<Rightarrow> (blk_io_trace \<times> dump_state) option" where
  "dump_trace t st = do {
     t' \<leftarrow> line_record t (fst st);
     st \<leftarrow> (if text_output (fst st) then
              (if tr_action t = BLK_TN TN_MESSAGE then Some (on_globals (handle_notify t) st)
               else if has_tc (tr_action t) TC_PC then Some (dump_trace_pc t st)
               else dump_trace_fs t st)
            else Some st);
     let st = on_dev (count_event t) st
     in Some (t', if bin_output_msgs (fst st) \<or> \<not> (has_tc (tr_action t) TC_NOTIFY \<and> tr_action t = BLK_TN TN_MESSAGE)
                  then on_globals (output_binary t') st else st) }"

section \<open>What a trace may change\<close>

text \<open>Reflexive and transitive; all parts of the switches satisfy it.\<close>

definition dump_rel :: "dump_state \<Rightarrow> dump_state \<Rightarrow> bool" where
  "dump_rel = (\<lambda>(g, pdi, pci) (g', pdi', pci').
     options g' = options g \<and> (track_inv pdi \<longrightarrow> track_inv pdi')
     \<and> (\<exists>t c m. pdi' = pdi\<lparr>rb_track := t, cur_depth := c, max_depth := m\<rparr>)
     \<and> (\<exists>s. pci' = pci\<lparr>pci_io_stats := s\<rparr>))"

lemma dump_relI:
  assumes "options g' = options g" "track_inv pdi \<Longrightarrow> track_inv pdi'"
    and "pdi' = pdi\<lparr>rb_track := t, cur_depth := c, max_depth := m\<rparr>" "pci' = pci\<lparr>pci_io_stats := s\<rparr>"
  shows "dump_rel (g, pdi, pci) (g', pdi', pci')"
  using assms unfolding dump_rel_def by blast

lemma dump_rel_refl: "dump_rel st st"
  by (cases st) (auto intro!: dump_relI [where t = "rb_track (fst (snd st))" and c = "cur_depth (fst (snd st))"
    and m = "max_depth (fst (snd st))" and s = "pci_io_stats (snd (snd st))"])

lemma dump_rel_trans:
  assumes "dump_rel a b" "dump_rel b c"
  shows "dump_rel a c"
proof -
  obtain g pdi pci g' pdi' pci' g'' pdi'' pci'' where st: "a = (g, pdi, pci)" "b = (g', pdi', pci')" "c = (g'', pdi'', pci'')"
    by (cases a; cases b; cases c)
  obtain t d m s t' d' m' s' where
    "pdi' = pdi\<lparr>rb_track := t, cur_depth := d, max_depth := m\<rparr>" "pci' = pci\<lparr>pci_io_stats := s\<rparr>"
    "pdi'' = pdi'\<lparr>rb_track := t', cur_depth := d', max_depth := m'\<rparr>" "pci'' = pci'\<lparr>pci_io_stats := s'\<rparr>"
    using assms unfolding dump_rel_def st by auto
  then show ?thesis
    using assms unfolding st
    by (intro dump_relI [where t = t' and c = d' and m = m' and s = s']) (auto simp: dump_rel_def)
qed

text \<open>A function of the state, possibly partial, that stays within the relation and is total on states
  with a proper tree.\<close>

definition within :: "(dump_state \<Rightarrow> dump_state option) \<Rightarrow> bool" where
  "within f \<longleftrightarrow> (\<forall>g pdi pci. track_inv pdi \<longrightarrow> (\<exists>st'. f (g, pdi, pci) = Some st' \<and> dump_rel (g, pdi, pci) st'))"

lemma withinI: "(\<And>g pdi pci. track_inv pdi \<Longrightarrow> \<exists>st'. f (g, pdi, pci) = Some st' \<and> dump_rel (g, pdi, pci) st') \<Longrightarrow> within f"
  by (simp add: within_def)

lemma within_compose:
  assumes "within f" "\<And>st. dump_rel st (h st)"
  shows "within (\<lambda>st. f (h st))" "within (\<lambda>st. do { st \<leftarrow> f st; Some (h st) })"
proof -
  show "within (\<lambda>st. f (h st))"
  proof (rule withinI)
    fix g pdi pci
    assume inv: "track_inv pdi"
    obtain g' pdi' pci' where h: "h (g, pdi, pci) = (g', pdi', pci')"
      by (cases "h (g, pdi, pci)")
    then have rel: "dump_rel (g, pdi, pci) (g', pdi', pci')"
      using assms(2) [of "(g, pdi, pci)"] by simp
    then have "track_inv pdi'"
      using inv by (simp add: dump_rel_def)
    then show "\<exists>st'. f (h (g, pdi, pci)) = Some st' \<and> dump_rel (g, pdi, pci) st'"
      using assms(1) rel dump_rel_trans unfolding within_def h by blast
  qed
  show "within (\<lambda>st. do { st \<leftarrow> f st; Some (h st) })"
  proof (rule withinI)
    fix g pdi pci
    assume "track_inv pdi"
    then obtain st' where "f (g, pdi, pci) = Some st'" "dump_rel (g, pdi, pci) st'"
      using assms(1) unfolding within_def by blast
    then show "\<exists>st''. do { st \<leftarrow> f (g, pdi, pci); Some (h st) } = Some st'' \<and> dump_rel (g, pdi, pci) st''"
      using assms(2) [of st'] dump_rel_trans by auto
  qed
qed

lemma within_Some: "(\<And>st. dump_rel st (h st)) \<Longrightarrow> within (\<lambda>st. Some (h st))"
  by (rule withinI) auto

lemma rel_process_fmt: "dump_rel st (process_fmt act t e pdu st)"
  using dump_rel_refl [of st] by (cases st) (simp add: process_fmt_def dump_rel_def)

lemma rel_log_simple:
  "dump_rel st (log_generic t act st)" "dump_rel st (log_queue t act st)" "dump_rel st (log_action t act st)"
  "dump_rel st (log_unplug t act st)" "dump_rel st (log_split t act st)" "dump_rel st (log_pc t act st)"
  by (simp_all add: log_generic_def log_queue_def log_action_def log_unplug_def log_split_def log_pc_def rel_process_fmt)

lemma rel_depth: "dump_rel st (on_dev (depth_dec w) st)" "dump_rel st (on_dev (depth_inc w) st)"
proof -
  obtain g pdi pci where st: "st = (g, pdi, pci)"
    by (cases st)
  have dec: "depth_dec w pdi = pdi\<lparr>rb_track := rb_track pdi, cur_depth := cur_depth (depth_dec w pdi), max_depth := max_depth pdi\<rparr>"
    by (simp add: depth_dec_def)
  have inc: "depth_inc w pdi = pdi\<lparr>rb_track := rb_track pdi, cur_depth := cur_depth (depth_inc w pdi), max_depth := max_depth (depth_inc w pdi)\<rparr>"
    by (simp add: depth_inc_def Let_def)
  have tree: "rb_track (depth_dec w pdi) = rb_track pdi" "rb_track (depth_inc w pdi) = rb_track pdi"
    by (simp_all add: depth_dec_def depth_inc_def Let_def)
  show "dump_rel st (on_dev (depth_dec w) st)"
    unfolding st on_dev_def prod.case
    by (rule dump_relI [OF refl _ dec, where s = "pci_io_stats pci"]) (simp_all add: track_inv_def tree)
  show "dump_rel st (on_dev (depth_inc w) st)"
    unfolding st on_dev_def prod.case
    by (rule dump_relI [OF refl _ inc, where s = "pci_io_stats pci"]) (simp_all add: track_inv_def tree)
qed

lemma options_ppi [simp]:
  "options (g\<lparr>ppi_store := x\<rparr>) = options g" "options (g\<lparr>ppi_hash_table := y\<rparr>) = options g"
  "options (g\<lparr>ppi_list := z\<rparr>) = options g"
  by (simp_all add: options_def)

lemma options_account_process [simp]: "options (account_process f pid g) = options g"
proof -
  have "options (fst (find_process_io_stats pid g)) = options g"
  proof -
    have "options (fst (find_or_add_ppm pid (fst (find_ppi pid g)))) = options g"
      by simp
    then show ?thesis
      by (simp add: find_process_io_stats_def add_ppi_to_hash_def add_ppi_to_list_def Let_def case_prod_beta
          split: option.splits)
  qed
  then show ?thesis
    by (simp add: account_process_def case_prod_beta)
qed

lemma rel_account: "dump_rel st (on_cpu (account f t) st)"
proof -
  obtain g pdi pci where st: "st = (g, pdi, pci)"
    by (cases st)
  show ?thesis
    unfolding st on_cpu_def account_def
    by (simp, rule dump_relI [where t = "rb_track pdi" and c = "cur_depth pdi" and m = "max_depth pdi"
      and s = "f (pci_io_stats pci)"]) simp_all
qed

lemma rel_globals: "(\<And>g. options (f g) = options g) \<Longrightarrow> dump_rel st (on_globals f st)"
  using dump_rel_refl [of st] by (cases st) (simp add: on_globals_def dump_rel_def)

lemma within_track_only:
  assumes "\<And>g pdi. track_inv pdi \<Longrightarrow> tracked g pdi (track (g, pdi))"
  shows "within (track_only track)"
proof (rule withinI)
  fix g pdi pci
  assume "track_inv pdi"
  then obtain g' t' where r: "track (g, pdi) = Some (g', pdi\<lparr>rb_track := t'\<rparr>)" "options g' = options g"
    "track_inv (pdi\<lparr>rb_track := t'\<rparr>)"
    using assms [of pdi g] unfolding tracked_def by blast
  then have "dump_rel (g, pdi, pci) (g', pdi\<lparr>rb_track := t'\<rparr>, pci)"
    by (intro dump_relI [where t = t' and c = "cur_depth pdi" and m = "max_depth pdi" and s = "pci_io_stats pci"]) simp_all
  then show "\<exists>st'. track_only track (g, pdi, pci) = Some st' \<and> dump_rel (g, pdi, pci) st'"
    using r(1) by (simp add: track_only_def)
qed

lemma within_log_elapsed:
  assumes "\<And>g pdi. track_inv pdi \<Longrightarrow> tracked g pdi (map_option fst (track (g, pdi)))"
  shows "within (log_elapsed track t act)"
proof (rule withinI)
  fix g pdi pci
  assume "track_inv pdi"
  then obtain g' t' e where r: "track (g, pdi) = Some ((g', pdi\<lparr>rb_track := t'\<rparr>), e)" "options g' = options g"
    "track_inv (pdi\<lparr>rb_track := t'\<rparr>)"
    using assms [of pdi g] unfolding tracked_def by auto
  then have "dump_rel (g, pdi, pci) (process_fmt act t e [] (g', pdi\<lparr>rb_track := t'\<rparr>, pci))"
    unfolding process_fmt_def prod.case
    by (intro dump_relI [where t = t' and c = "cur_depth pdi" and m = "max_depth pdi" and s = "pci_io_stats pci"]) simp_all
  then show "\<exists>st'. log_elapsed track t act (g, pdi, pci) = Some st' \<and> dump_rel (g, pdi, pci) st'"
    using r(1) by (simp add: log_elapsed_def)
qed

lemma within_log_merge: "within (log_merge t act)"
proof (cases "hd act = CHR ''F''")
  case True
  have "within (track_only (log_track_frontmerge t))"
    by (rule within_track_only) (rule tracked_frontmerge)
  then have "within (\<lambda>st. do { st \<leftarrow> track_only (log_track_frontmerge t) st; Some (process_fmt act t (- 1) [] st) })"
    by (rule within_compose) (rule rel_process_fmt)
  moreover have "log_merge t act = (\<lambda>st. do { st \<leftarrow> track_only (log_track_frontmerge t) st; Some (process_fmt act t (- 1) [] st) })"
    using True by (intro ext) (simp add: log_merge_def)
  ultimately show ?thesis
    by simp
next
  case False
  have "within (\<lambda>st. Some (process_fmt act t (- 1) [] st))"
    by (rule within_Some) (rule rel_process_fmt)
  moreover have "log_merge t act = (\<lambda>st. Some (process_fmt act t (- 1) [] st))"
    using False by (intro ext) (simp add: log_merge_def)
  ultimately show ?thesis
    by simp
qed

text \<open>The same facts as steps of a chain.\<close>

lemmas rel_steps =
  dump_rel_trans [OF _ rel_account] dump_rel_trans [OF _ rel_depth(1)] dump_rel_trans [OF _ rel_depth(2)]
  dump_rel_trans [OF _ rel_log_simple(1)] dump_rel_trans [OF _ rel_log_simple(2)] dump_rel_trans [OF _ rel_log_simple(3)]
  dump_rel_trans [OF _ rel_log_simple(4)] dump_rel_trans [OF _ rel_log_simple(5)] dump_rel_trans [OF _ rel_log_simple(6)]
  dump_rel_refl

lemma rel_if: "dump_rel st a \<Longrightarrow> dump_rel st b \<Longrightarrow> dump_rel st (if c then a else b)"
  by simp

lemma options_have_drv_data [simp]: "options (g\<lparr>have_drv_data := b\<rparr>) = options g"
  by (simp add: options_def)

lemma dump_trace_pc_rel: "dump_rel st (dump_trace_pc t st)"
  unfolding dump_trace_pc_def Let_def account_defs
  by (intro rel_if rel_steps rel_globals) simp

lemma within_if: "within f \<Longrightarrow> within h \<Longrightarrow> within (\<lambda>st. if b then f st else h st)"
  by (cases b) simp_all

lemma within_fs:
  "within (\<lambda>st. do { st \<leftarrow> track_only (log_track_queue t) st; Some (log_queue t ''Q'' (on_cpu (account f t) st)) })"
  "within (\<lambda>st. do { st \<leftarrow> track_only (log_track_getrq t) st; Some (log_generic t ''G'' st) })"
  "within (log_insert t act)"
  "within (\<lambda>st. log_merge t act (on_cpu (account f t) st))"
  "within (\<lambda>st. log_issue t act (on_dev (depth_inc w) (on_cpu (account f t) st)))"
  "within (\<lambda>st. log_complete t act (on_cpu (account f t) (on_dev (depth_dec w) st)))"
proof -
  show "within (\<lambda>st. do { st \<leftarrow> track_only (log_track_queue t) st; Some (log_queue t ''Q'' (on_cpu (account f t) st)) })"
    by (rule within_compose(2) [OF within_track_only]) (auto intro: tracked_queue rel_steps)
  show "within (\<lambda>st. do { st \<leftarrow> track_only (log_track_getrq t) st; Some (log_generic t ''G'' st) })"
    by (rule within_compose(2) [OF within_track_only]) (auto intro: tracked_getrq rel_steps)
  show "within (log_insert t act)"
    unfolding log_insert_def by (rule within_log_elapsed) (rule tracked_insert)
  show "within (\<lambda>st. log_merge t act (on_cpu (account f t) st))"
    by (rule within_compose(1) [OF within_log_merge]) (rule rel_account)
  show "within (\<lambda>st. log_issue t act (on_dev (depth_inc w) (on_cpu (account f t) st)))"
    unfolding log_issue_def
    by (rule within_compose(1) [OF within_log_elapsed]) (auto intro: tracked_issue rel_steps)
  show "within (\<lambda>st. log_complete t act (on_cpu (account f t) (on_dev (depth_dec w) st)))"
    unfolding log_complete_def
    by (rule within_compose(1) [OF within_log_elapsed]) (auto intro: tracked_complete rel_steps)
qed

lemma dump_trace_fs_within: "within (dump_trace_fs t)"
proof -
  have "within (\<lambda>st. dump_trace_fs t st)"
    unfolding dump_trace_fs_def Let_def account_defs
    by (intro within_if within_fs within_Some rel_steps rel_globals) simp_all
  then show ?thesis
    by simp
qed

lemma options_handle_message: "tr_action t = BLK_TN TN_MESSAGE \<Longrightarrow> options (handle_notify t g) = options g"
  by (simp add: handle_notify_def BLK_TN_value)

lemma message_is_notify: "has_tc (BLK_TN TN_MESSAGE) TC_NOTIFY"
  by (simp add: has_tc_def BLK_TN_value BLK_TC_ACT_bit)

text \<open>The part of \<open>dump_trace\<close> that depends on the action.\<close>

definition dump_text :: "blk_io_trace \<Rightarrow> dump_state \<Rightarrow> dump_state option" where
  "dump_text t st =
     (if text_output (fst st) then
        (if tr_action t = BLK_TN TN_MESSAGE then Some (on_globals (handle_notify t) st)
         else if has_tc (tr_action t) TC_PC then Some (dump_trace_pc t st)
         else dump_trace_fs t st)
      else Some st)"

lemma within_dump_text: "within (dump_text t)"
proof (rule withinI)
  fix g pdi pci
  assume inv: "track_inv pdi"
  have "dump_rel (g, pdi, pci) (on_globals (handle_notify t) (g, pdi, pci))" if "tr_action t = BLK_TN TN_MESSAGE"
    using that by (intro rel_globals) (rule options_handle_message)
  moreover have "\<exists>st'. dump_trace_fs t (g, pdi, pci) = Some st' \<and> dump_rel (g, pdi, pci) st'"
    using dump_trace_fs_within inv unfolding within_def by blast
  ultimately show "\<exists>st'. dump_text t (g, pdi, pci) = Some st' \<and> dump_rel (g, pdi, pci) st'"
    using dump_trace_pc_rel [of "(g, pdi, pci)" t] dump_rel_refl [of "(g, pdi, pci)"]
    unfolding dump_text_def by (simp del: split_paired_Ex)
qed

lemma dump_trace_eq:
  "dump_trace t st = do {
     t' \<leftarrow> line_record t (fst st);
     (g, pdi, pci) \<leftarrow> dump_text t st;
     Some (t', if bin_output_msgs g \<or> tr_action t \<noteq> BLK_TN TN_MESSAGE then output_binary t' g else g,
       count_event t pdi, pci) }"
proof -
  have "has_tc (tr_action t) TC_NOTIFY \<and> tr_action t = BLK_TN TN_MESSAGE \<longleftrightarrow> tr_action t = BLK_TN TN_MESSAGE"
    using message_is_notify by auto
  then show ?thesis
    unfolding dump_trace_def dump_text_def [symmetric]
    by (cases "line_record t (fst st)"; cases "dump_text t st") (auto simp: on_dev_def on_globals_def Let_def)
qed

text \<open>The record after \<open>dump_trace\<close>, for payloads that are long enough.\<close>

definition payload_ok :: "blk_io_trace \<Rightarrow> bool" where
  "payload_ok t \<longleftrightarrow> tr_action t AND 0xffff \<noteq> ta_code TA_REMAP \<or> 16 \<le> length (tr_pdu t)"

definition remap_shown :: "globals \<Rightarrow> blk_io_trace \<Rightarrow> bool" where
  "remap_shown g t \<longleftrightarrow> text_output g \<and> tr_action t \<noteq> BLK_TN TN_MESSAGE \<and> \<not> has_tc (tr_action t) TC_PC
     \<and> tr_action t AND 0xffff = ta_code TA_REMAP \<and> override_format g CHR ''A'' = None"

definition dumped :: "globals \<Rightarrow> blk_io_trace \<Rightarrow> blk_io_trace" where
  "dumped g t = (if remap_shown g t then t\<lparr>tr_device := r_device_to (the (get_pdu_remap t))\<rparr> else t)"

lemma remap_some: "16 \<le> length (tr_pdu t) \<Longrightarrow> \<exists>r. get_pdu_remap t = Some r"
  by (simp add: get_pdu_remap_def Let_def)

lemma line_record_ok:
  assumes "payload_ok t"
  shows "line_record t g = Some (dumped g t)"
proof (cases "remap_shown g t")
  case True
  then have "16 \<le> length (tr_pdu t)"
    using assms by (simp add: payload_ok_def remap_shown_def)
  then obtain r where "get_pdu_remap t = Some r"
    using remap_some by blast
  then show ?thesis
    using True by (simp add: line_record_def process_fmt_record_def dumped_def) (simp add: remap_shown_def)
next
  case False
  then have "dumped g t = t"
    by (simp add: dumped_def)
  then show ?thesis
    using False by (auto simp: line_record_def process_fmt_record_def remap_shown_def)
qed

lemma dumped_id: "tr_action t AND 0xffff \<noteq> ta_code TA_REMAP \<or> \<not> text_output g \<Longrightarrow> dumped g t = t"
  by (auto simp: dumped_def remap_shown_def)

lemma dumped_frame [simp]:
  "tr_action (dumped g t) = tr_action t" "tr_cpu (dumped g t) = tr_cpu t" "tr_time (dumped g t) = tr_time t"
  "tr_sequence (dumped g t) = tr_sequence t"
  by (simp_all add: dumped_def)

section \<open>The effect on the queue depths\<close>

definition depths :: "dump_state \<Rightarrow> (u32 \<times> u32) \<times> (u32 \<times> u32)" where
  "depths = (\<lambda>(g, pdi, pci). (cur_depth pdi, max_depth pdi))"

text \<open>Requests in flight: a dispatch adds one, a completion or a requeue takes one away.\<close>

definition depth_effect :: "blk_io_trace \<Rightarrow> per_dev_info \<Rightarrow> per_dev_info" where
  "depth_effect t =
     (let act = tr_action t AND 0xffff; w = has_tc (tr_action t) TC_WRITE
      in if act = ta_code TA_ISSUE then depth_inc w
         else if act = ta_code TA_COMPLETE \<or> act = ta_code TA_REQUEUE then depth_dec w else id)"

lemma depths_simps [simp]:
  "depths (process_fmt act t e pdu st) = depths st" "depths (on_cpu f st) = depths st"
  "depths (on_globals h st) = depths st" "depths (log_generic t act st) = depths st"
  "depths (log_queue t act st) = depths st" "depths (log_action t act st) = depths st"
  "depths (log_unplug t act st) = depths st" "depths (log_split t act st) = depths st"
  "depths (log_pc t act st) = depths st"
  by (simp_all add: depths_def process_fmt_def on_cpu_def on_globals_def log_generic_def log_queue_def
      log_action_def log_unplug_def log_split_def log_pc_def case_prod_beta)

lemma depths_dev: "depths (on_dev f (g, pdi, pci)) = (cur_depth (f pdi), max_depth (f pdi))"
  by (simp add: depths_def on_dev_def)

lemma depth_dev_cong:
  "depths st = depths st' \<Longrightarrow> depths (on_dev (depth_dec w) st) = depths (on_dev (depth_dec w) st')"
  "depths st = depths st' \<Longrightarrow> depths (on_dev (depth_inc w) st) = depths (on_dev (depth_inc w) st')"
  by (cases st; cases st'; simp add: depths_def on_dev_def depth_dec_def depth_inc_def Let_def)+

lemma depths_dev_cpu [simp]:
  "depths (on_dev (depth_inc w) (on_cpu f st)) = depths (on_dev (depth_inc w) st)"
  by (rule depth_dev_cong) simp

text \<open>A partial step that leaves the depths alone when the tree is proper.\<close>

definition keeps_depths :: "(dump_state \<Rightarrow> dump_state option) \<Rightarrow> bool" where
  "keeps_depths f \<longleftrightarrow> (\<forall>st st'. track_inv (fst (snd st)) \<longrightarrow> f st = Some st' \<longrightarrow> depths st' = depths st)"

lemma keeps_depthsD:
  "keeps_depths f \<Longrightarrow> f st = Some st' \<Longrightarrow> track_inv (fst (snd st)) \<Longrightarrow> depths st' = depths st"
  unfolding keeps_depths_def by blast

lemma keeps_depthsI:
  "(\<And>g pdi pci st'. track_inv pdi \<Longrightarrow> f (g, pdi, pci) = Some st' \<Longrightarrow> depths st' = depths (g, pdi, pci)) \<Longrightarrow> keeps_depths f"
  unfolding keeps_depths_def by auto

lemma keeps_track_only:
  assumes "\<And>g pdi. track_inv pdi \<Longrightarrow> tracked g pdi (track (g, pdi))"
  shows "keeps_depths (track_only track)"
proof (rule keeps_depthsI)
  fix g pdi pci st'
  assume "track_inv pdi" and st': "track_only track (g, pdi, pci) = Some st'"
  then obtain g' t' where "track (g, pdi) = Some (g', pdi\<lparr>rb_track := t'\<rparr>)"
    using assms [of pdi g] unfolding tracked_def by blast
  then show "depths st' = depths (g, pdi, pci)"
    using st' by (auto simp: track_only_def depths_def)
qed

lemma keeps_log_elapsed:
  assumes "\<And>g pdi. track_inv pdi \<Longrightarrow> tracked g pdi (map_option fst (track (g, pdi)))"
  shows "keeps_depths (log_elapsed track t act)"
proof (rule keeps_depthsI)
  fix g pdi pci st'
  assume "track_inv pdi" and st': "log_elapsed track t act (g, pdi, pci) = Some st'"
  then obtain g' t' e where "track (g, pdi) = Some ((g', pdi\<lparr>rb_track := t'\<rparr>), e)"
    using assms [of pdi g] unfolding tracked_def by auto
  then show "depths st' = depths (g, pdi, pci)"
    using st' by (auto simp: log_elapsed_def depths_def process_fmt_def)
qed

lemma keeps_events:
  "keeps_depths (track_only (log_track_queue t))" "keeps_depths (track_only (log_track_getrq t))"
  "keeps_depths (track_only (log_track_frontmerge t))" "keeps_depths (log_elapsed (log_track_insert t) t act)"
  "keeps_depths (log_elapsed (log_track_issue t) t act)" "keeps_depths (log_elapsed (log_track_complete t) t act)"
  by (rule keeps_track_only keeps_log_elapsed, rule tracked_events, assumption)+

lemma track_inv_on [simp]:
  "track_inv (fst (snd (on_cpu f st))) \<longleftrightarrow> track_inv (fst (snd st))"
  "track_inv (fst (snd (on_dev (depth_dec w) st))) \<longleftrightarrow> track_inv (fst (snd st))"
  "track_inv (fst (snd (on_dev (depth_inc w) st))) \<longleftrightarrow> track_inv (fst (snd st))"
  by (cases st; simp add: on_cpu_def on_dev_def track_inv_def depth_dec_def depth_inc_def Let_def case_prod_beta)+

lemma keeps_log_merge: "keeps_depths (log_merge t act)"
proof (rule keeps_depthsI)
  fix g pdi pci st'
  assume "track_inv pdi" and st': "log_merge t act (g, pdi, pci) = Some st'"
  then show "depths st' = depths (g, pdi, pci)"
    using keeps_depthsD [OF keeps_events(3) [of t], where st = "(g, pdi, pci)"]
    by (auto simp: log_merge_def split: if_splits bind_splits)
qed

lemma dump_trace_fs_depths:
  assumes "track_inv pdi" "dump_trace_fs t (g, pdi, pci) = Some st'"
  shows "depths st' = depths (on_dev (depth_effect t) (g, pdi, pci))"
proof -
  note keeps = keeps_events(1,2,4-6) [THEN keeps_depthsD] keeps_log_merge [THEN keeps_depthsD]
  have id: "depths (on_dev id st) = depths st" for st
    by (cases st) (simp add: depths_def on_dev_def)
  show ?thesis
    using assms(2)
    unfolding dump_trace_fs_def depth_effect_def Let_def log_insert_def log_issue_def log_complete_def
    by (auto simp: assms(1) id split: if_splits bind_splits dest!: keeps)
qed

lemma dump_trace_pc_depths: "depths (dump_trace_pc t (g, pdi, pci)) = depths (on_dev (depth_effect t) (g, pdi, pci))"
proof -
  have "depths (on_dev id st) = depths st" for st
    by (cases st) (simp add: depths_def on_dev_def)
  then show ?thesis
    unfolding dump_trace_pc_def depth_effect_def Let_def by simp
qed

text \<open>Neither direction has more requests in flight than its maximum.\<close>

definition depth_ok :: "per_dev_info \<Rightarrow> bool" where
  "depth_ok pdi \<longleftrightarrow> (\<forall>w. dir_get w (cur_depth pdi) \<le> dir_get w (max_depth pdi))"

lemma depth_dec_word: "(x::u32) \<noteq> 0 \<Longrightarrow> x - 1 \<le> x"
  by (simp add: word_le_nat_alt unat_minus_one)

lemma depth_dec_max:
  assumes "depth_ok pdi"
  shows "dir_get v (max_depth (depth_dec w pdi)) = max (dir_get v (max_depth pdi)) (dir_get v (cur_depth (depth_dec w pdi)))"
proof -
  have ok: "dir_get v (cur_depth pdi) \<le> dir_get v (max_depth pdi)"
    using assms by (simp add: depth_ok_def)
  moreover have "dir_get v (cur_depth pdi) - 1 \<le> dir_get v (max_depth pdi)" if "dir_get v (cur_depth pdi) \<noteq> 0"
    using order_trans [OF depth_dec_word [OF that] ok] .
  ultimately show ?thesis
    by (cases v; cases w) (simp_all add: depth_dec_def max_absorb1)
qed

lemma depth_inc_max:
  assumes "depth_ok pdi"
  shows "dir_get v (max_depth (depth_inc w pdi)) = max (dir_get v (max_depth pdi)) (dir_get v (cur_depth (depth_inc w pdi)))"
proof -
  have "dir_get v (cur_depth pdi) \<le> dir_get v (max_depth pdi)"
    using assms by (simp add: depth_ok_def)
  then show ?thesis
    by (cases v; cases w) (auto simp: depth_inc_def Let_def max_def)
qed

lemma depth_effect_max:
  assumes "depth_ok pdi"
  shows "dir_get v (max_depth (depth_effect t pdi)) = max (dir_get v (max_depth pdi)) (dir_get v (cur_depth (depth_effect t pdi)))"
  using assms depth_dec_max depth_inc_max by (simp add: depth_effect_def Let_def max_absorb1 depth_ok_def)

lemma depth_effect_cur:
  "dir_get v (cur_depth (depth_effect t pdi)) =
     (let act = tr_action t AND 0xffff; d = dir_get v (cur_depth pdi)
      in if v \<noteq> has_tc (tr_action t) TC_WRITE then d
         else if act = ta_code TA_ISSUE then d + 1
         else if act = ta_code TA_COMPLETE \<or> act = ta_code TA_REQUEUE then (if d = 0 then 0 else d - 1)
         else d)"
  by (simp add: depth_effect_def depth_inc_def depth_dec_def Let_def)

lemma dump_text_returns:
  assumes "track_inv pdi"
  obtains g1 pdi1 pci1 where "dump_text t (g, pdi, pci) = Some (g1, pdi1, pci1)" "dump_rel (g, pdi, pci) (g1, pdi1, pci1)"
  using within_dump_text assms unfolding within_def by (metis prod_cases3)

lemma dump_trace_total:
  assumes "track_inv pdi" "payload_ok t"
  shows "\<exists>g' pdi' pci'. dump_trace t (g, pdi, pci) = Some (dumped g t, g', pdi', pci')"
proof -
  obtain g1 pdi1 pci1 where "dump_text t (g, pdi, pci) = Some (g1, pdi1, pci1)"
    using dump_text_returns [OF assms(1)] .
  then show ?thesis
    by (simp add: dump_trace_eq line_record_ok [OF assms(2)])
qed

lemma dump_trace_returns:
  assumes "track_inv pdi" "payload_ok t"
  obtains g' pdi' pci' t' c m s where "dump_trace t (g, pdi, pci) = Some (dumped g t, g', pdi', pci')"
    "track_inv pdi'" "pci' = pci\<lparr>pci_io_stats := s\<rparr>"
    "pdi' = pdi\<lparr>rb_track := t', cur_depth := c, max_depth := m, pdi_events := pdi_events pdi + 1,
        first_reported_time := (if pdi_events pdi = 0 then tr_time t else first_reported_time pdi)\<rparr>"
    "options (g'\<lparr>binary_out := binary_out g\<rparr>) = options g"
    "binary_out g' = binary_out g @
      (if dump_binary g \<and> (bin_output_msgs g \<or> tr_action t \<noteq> BLK_TN TN_MESSAGE) then [dumped g t] else [])"
proof -
  obtain g1 pdi1 pci1 where 1: "dump_text t (g, pdi, pci) = Some (g1, pdi1, pci1)" "dump_rel (g, pdi, pci) (g1, pdi1, pci1)"
    using dump_text_returns [OF assms(1)] .
  then obtain t' c m s where rel: "pdi1 = pdi\<lparr>rb_track := t', cur_depth := c, max_depth := m\<rparr>"
    "pci1 = pci\<lparr>pci_io_stats := s\<rparr>" "track_inv pdi1" "options g1 = options g"
    using assms unfolding dump_rel_def by auto
  define g2 where "g2 = (if bin_output_msgs g1 \<or> tr_action t \<noteq> BLK_TN TN_MESSAGE then output_binary (dumped g t) g1 else g1)"
  have "dump_trace t (g, pdi, pci) = Some (dumped g t, g2, count_event t pdi1, pci1)"
    by (simp add: dump_trace_eq 1(1) g2_def line_record_ok [OF assms(2)])
  moreover have "track_inv (count_event t pdi1)"
    using rel(3) by (simp add: track_inv_def count_event_def Let_def)
  moreover have "count_event t pdi1 = pdi\<lparr>rb_track := t', cur_depth := c, max_depth := m, pdi_events := pdi_events pdi + 1,
        first_reported_time := (if pdi_events pdi = 0 then tr_time t else first_reported_time pdi)\<rparr>"
    by (simp add: rel(1) count_event_def Let_def)
  moreover have "options (g2\<lparr>binary_out := binary_out g\<rparr>) = options g"
    using rel(4) by (simp add: g2_def output_binary_def options_def)
  moreover have "binary_out g2 = binary_out g @
      (if dump_binary g \<and> (bin_output_msgs g \<or> tr_action t \<noteq> BLK_TN TN_MESSAGE) then [dumped g t] else [])"
    using rel(4) by (simp add: g2_def output_binary_def options_def)
  ultimately show ?thesis
    using rel(2) that by blast
qed

section \<open>Properties\<close>



text \<open>C8: printing a trace moves the queue depths exactly as its action says: a dispatch adds one request in
  flight of its direction, a completion or a requeue takes one away unless none is left, any other action
  leaves the depths; the maximum becomes the larger of itself and the new depth, so that a depth never
  exceeds its maximum.\<close>

theorem dump_trace_depths:
  assumes "track_inv pdi" "depth_ok pdi" "text_output g" "tr_action t \<noteq> BLK_TN TN_MESSAGE"
    and "dump_trace t (g, pdi, pci) = Some (t', g', pdi', pci')"
  shows "dir_get v (cur_depth pdi') =
     (let act = tr_action t AND 0xffff; d = dir_get v (cur_depth pdi)
      in if v \<noteq> has_tc (tr_action t) TC_WRITE then d
         else if act = ta_code TA_ISSUE then d + 1
         else if act = ta_code TA_COMPLETE \<or> act = ta_code TA_REQUEUE then (if d = 0 then 0 else d - 1)
         else d)
    \<and> dir_get v (max_depth pdi') = max (dir_get v (max_depth pdi)) (dir_get v (cur_depth pdi'))
    \<and> depth_ok pdi'"
proof -
  obtain g1 pdi1 pci1 where 1: "dump_text t (g, pdi, pci) = Some (g1, pdi1, pci1)" "pdi' = count_event t pdi1"
    using assms(5) by (auto simp: dump_trace_eq split: bind_splits)
  have "depths (g1, pdi1, pci1) = depths (on_dev (depth_effect t) (g, pdi, pci))"
    using 1(1) assms(3,4) dump_trace_pc_depths [of t g pdi pci] dump_trace_fs_depths [OF assms(1), of t g pci]
    by (auto simp: dump_text_def split: if_splits)
  then have "cur_depth pdi' = cur_depth (depth_effect t pdi)" "max_depth pdi' = max_depth (depth_effect t pdi)"
    by (simp_all add: 1(2) depths_def on_dev_def count_event_def Let_def)
  then show ?thesis
    using depth_effect_max [OF assms(2), of _ t] depth_effect_cur [of v t pdi] by (simp only: depth_ok_def) auto
qed

text \<open>A read request that is dispatched on an idle device.\<close>

theorem dump_trace_depths_witness:
  "\<exists>t' g' pdi' pci'. dump_trace (zero_trace\<lparr>tr_action := 7\<rparr>) (stats_globals, zero_dev_info, zero_cpu_info) = Some (t', g', pdi', pci')
    \<and> dir_get False (cur_depth pdi') = 1 \<and> dir_get True (cur_depth pdi') = 0"
proof -
  let ?t = "zero_trace\<lparr>tr_action := 7\<rparr>"
  have inv: "track_inv zero_dev_info" "depth_ok zero_dev_info" "text_output stats_globals" "tr_action ?t \<noteq> BLK_TN TN_MESSAGE"
    by (simp_all add: track_inv_def zero_dev_info_def depth_ok_def dir_get_def stats_globals_def init_globals_def
        zero_trace_def BLK_TN_value)
  moreover have "payload_ok ?t"
    by (simp add: payload_ok_def zero_trace_def)
  ultimately obtain g' pdi' pci' where
    d: "dump_trace ?t (stats_globals, zero_dev_info, zero_cpu_info) = Some (dumped stats_globals ?t, g', pdi', pci')"
    using dump_trace_total by blast
  show ?thesis
    using d dump_trace_depths [OF inv d, of False] dump_trace_depths [OF inv d, of True]
    by (simp add: has_tc_def BLK_TC_ACT_bit zero_trace_def zero_dev_info_def dir_get_def)
qed

text \<open>C29: the binary output gets every trace that is dumped, messages excepted when the user excluded them, and
  no other record; the record is the one that was read, except that a remap that has been printed in the
  default format has the device that it was remapped to.\<close>

theorem dump_trace_binary:
  assumes "track_inv pdi" "payload_ok t" and "dump_trace t (g, pdi, pci) = Some (t', g', pdi', pci')"
  shows "binary_out g' = binary_out g @
      (if dump_binary g \<and> (bin_output_msgs g \<or> tr_action t \<noteq> BLK_TN TN_MESSAGE) then [t'] else [])
    \<and> t' = (if remap_shown g t then t\<lparr>tr_device := r_device_to (the (get_pdu_remap t))\<rparr> else t)"
proof -
  obtain g1 pdi1 pci1 where "dump_trace t (g, pdi, pci) = Some (dumped g t, g1, pdi1, pci1)"
    and out: "binary_out g1 = binary_out g @
      (if dump_binary g \<and> (bin_output_msgs g \<or> tr_action t \<noteq> BLK_TN TN_MESSAGE) then [dumped g t] else [])"
    by (rule dump_trace_returns [OF assms(1,2), of g pci])
  then have "t' = dumped g t" "g' = g1"
    using assms(3) by simp_all
  with out show ?thesis
    by (simp add: dumped_def)
qed

theorem dump_trace_binary_witness:
  "\<exists>g' pdi' pci'. dump_trace zero_trace (stats_globals\<lparr>dump_binary := True\<rparr>, zero_dev_info, zero_cpu_info) = Some (zero_trace, g', pdi', pci')
    \<and> binary_out g' = [zero_trace]"
proof -
  have inv: "track_inv zero_dev_info"
    by (simp add: track_inv_def zero_dev_info_def)
  have p: "payload_ok zero_trace" "dumped g zero_trace = zero_trace" for g
    by (simp_all add: payload_ok_def dumped_id zero_trace_def)
  obtain g' pdi' pci' where
    d: "dump_trace zero_trace (stats_globals\<lparr>dump_binary := True\<rparr>, zero_dev_info, zero_cpu_info) = Some (zero_trace, g', pdi', pci')"
    using dump_trace_total [OF inv p(1), of "stats_globals\<lparr>dump_binary := True\<rparr>" zero_cpu_info] unfolding p(2)
    by blast
  show ?thesis
    using d dump_trace_binary [OF inv p(1) d] by (simp add: stats_globals_def init_globals_def)
qed

end
