(* ===== verification/Sort_Pipeline.thy ===== *)
theory Sort_Pipeline
  imports Trace_Queue Skip_List Cpu_Map Dump
begin

text \<open>
  The sorting stage of \<open>blkparse.c\<close> for piped input: \<open>sort_entries\<close> moves a batch of traces into the
  sort tree, \<open>show_entries_rb\<close> takes them out in order, checks the sequence numbers of each CPU, and
  passes them to \<open>dump_trace\<close>; shown traces go to the tree of recent traces of their CPU. The allocation
  caches are not modelled: memory is neither exhausted nor reused. \<open>is_done ()\<close> is the value the signal
  handler has left in \<open>done\<close>; it is the same for the whole call of a function.
\<close>

record sorter =
  globs :: globals
  devices :: "per_dev_info list"
  rb_sort_root :: "trace rb"
  rb_sort_entries :: u64
  trace_list :: "trace list"
  genesis_time :: u64
  last_allowed_time :: u64
  stopwatch_start :: u64
  stopwatch_end :: u64
  read_sequence :: u64
  act_mask :: u32
  rb_batch :: u32
  pipeline :: bool
  is_done :: bool
  malloc_map :: "nat \<Rightarrow> u64"

text \<open>The initialisers of the variables, given what \<open>malloc\<close> returns.\<close>

definition init_sorter :: "(nat \<Rightarrow> io_track) \<Rightarrow> (nat \<Rightarrow> u64) \<Rightarrow> sorter" where
  "init_sorter junk junk_map =
     \<lparr>globs = init_globals junk, devices = [], rb_sort_root = Null, rb_sort_entries = 0, trace_list = [],
      genesis_time = 0, last_allowed_time = 0, stopwatch_start = 0, stopwatch_end = - 1, read_sequence = 0,
      act_mask = - 1, rb_batch = 512, pipeline = False, is_done = False, malloc_map = junk_map\<rparr>"

text \<open>Access through the pointers \<open>pdi\<close> and \<open>pci\<close>, which are indices here.\<close>

definition set_dev :: "nat \<Rightarrow> per_dev_info \<Rightarrow> sorter \<Rightarrow> sorter" where
  "set_dev d pdi s = s\<lparr>devices := (devices s)[d := pdi]\<rparr>"

definition set_cpu :: "nat \<Rightarrow> (per_cpu_info \<Rightarrow> per_cpu_info) \<Rightarrow> per_dev_info \<Rightarrow> per_dev_info" where
  "set_cpu c f pdi = pdi\<lparr>pdi_cpus := (pdi_cpus pdi)[c := f (pdi_cpus pdi ! c)]\<rparr>"

section \<open>Devices\<close>

text \<open>The loop of \<open>get_dev_info\<close>: an entry without a number takes the one that is looked for.\<close>

fun find_dev :: "u32 \<Rightarrow> per_dev_info list \<Rightarrow> (per_dev_info list \<times> nat) option" where
  "find_dev dev [] = None"
| "find_dev dev (pdi # pdis) =
     (let pdi = (if pdi_dev pdi = 0 then pdi\<lparr>pdi_dev := dev\<rparr> else pdi)
      in if pdi_dev pdi = dev then Some (pdi # pdis, 0)
         else map_option (\<lambda>(pdis, d). (pdi # pdis, Suc d)) (find_dev dev pdis))"

definition resize_devices :: "per_dev_info list \<Rightarrow> per_dev_info list" where
  "resize_devices pdis = pdis @ [zero_dev_info]"

definition get_dev_info :: "u32 \<Rightarrow> sorter \<Rightarrow> sorter \<times> nat" where
  "get_dev_info dev s =
     (case find_dev dev (devices s) of
        Some (pdis, d) \<Rightarrow> (s\<lparr>devices := pdis\<rparr>, d)
      | None \<Rightarrow>
          let pdis = resize_devices (devices s); d = length pdis - 1
          in (s\<lparr>devices := pdis[d := (pdis ! d)\<lparr>pdi_dev := dev, first_reported_time := 0, last_read_time := 0\<rparr>]\<rparr>, d))"

section \<open>The trees of recent traces\<close>

definition put_trace_last :: "trace rb \<times> trace path \<Rightarrow> per_dev_info \<Rightarrow> per_dev_info option" where
  "put_trace_last n pdi = do {
     t \<leftarrow> elem_at n;
     (pdi, c) \<leftarrow> get_cpu_info pdi (tr_cpu (t_bit t));
     root \<leftarrow> rb_erase (fst n) (snd n);
     Some (set_cpu c (\<lambda>pci. pci\<lparr>rb_last_root := root, rb_last_entries := rb_last_entries pci - 1\<rparr>) pdi) }"

text \<open>The bound \<open>rb_batch * pdi->nfiles\<close> is computed in 32 bits.\<close>

definition trace_rb_insert_last :: "u32 \<Rightarrow> per_dev_info \<Rightarrow> trace \<Rightarrow> per_dev_info option" where
  "trace_rb_insert_last batch pdi t = do {
     (pdi, c) \<leftarrow> get_cpu_info pdi (tr_cpu (t_bit t));
     root \<leftarrow> trace_rb_insert t (rb_last_root (pdi_cpus pdi ! c));
     let pdi = set_cpu c (\<lambda>pci. pci\<lparr>rb_last_root := root, rb_last_entries := rb_last_entries pci + 1\<rparr>) pdi
     in if rb_last_entries (pdi_cpus pdi ! c) > ucast (batch * pdi_nfiles pdi) then do {
          n \<leftarrow> rb_first (rb_last_root (pdi_cpus pdi ! c));
          put_trace_last n pdi }
        else Some pdi }"

section \<open>The sort tree\<close>

definition trace_rb_insert_sort :: "trace \<Rightarrow> sorter \<Rightarrow> sorter option" where
  "trace_rb_insert_sort t s = do {
     root \<leftarrow> trace_rb_insert t (rb_sort_root s);
     Some (s\<lparr>rb_sort_root := root, rb_sort_entries := rb_sort_entries s + 1\<rparr>) }"

definition put_trace :: "nat \<Rightarrow> trace rb \<times> trace path \<Rightarrow> sorter \<Rightarrow> sorter option" where
  "put_trace d n s = do {
     t \<leftarrow> elem_at n;
     root \<leftarrow> rb_erase (fst n) (snd n);
     let s = s\<lparr>rb_sort_root := root, rb_sort_entries := rb_sort_entries s - 1\<rparr>;
     pdi \<leftarrow> trace_rb_insert_last (rb_batch s) (devices s ! d) t;
     Some (set_dev d pdi s) }"

section \<open>Times\<close>

definition check_time :: "blk_io_trace \<Rightarrow> per_dev_info \<Rightarrow> per_dev_info" where
  "check_time b pdi =
     pdi\<lparr>pdi_backwards := tr_time b < last_reported_time pdi, last_reported_time := tr_time b\<rparr>"

text \<open>\<open>SECONDS\<close> and \<open>NANO_SECONDS\<close> cast \<open>delta\<close>, a \<open>long\<close>, to an unsigned type; the sums do not overflow.\<close>

definition adjust_start :: "u64 \<Rightarrow> int \<times> int \<Rightarrow> int \<times> int" where
  "adjust_start delta = (\<lambda>(sec, nsec).
     let sec = sec + uint (SECONDS delta); nsec = nsec + uint (NANO_SECONDS delta)
     in if nsec < 0 then (sec - 1, nsec + 1000000000)
        else if nsec > 1000000000 then (sec + 1, nsec - 1000000000)
        else (sec, nsec))"

definition find_genesis :: "sorter \<Rightarrow> sorter" where
  "find_genesis s =
     (let gt = fold (\<lambda>t g. if tr_time (t_bit t) < g then tr_time (t_bit t) else g) (trace_list s) (- 1);
          s = s\<lparr>genesis_time := gt\<rparr>; g = globs s
      in if start_timestamp g \<noteq> 0 \<and> start_timestamp g \<noteq> gt
         then s\<lparr>globs := g\<lparr>abs_start_time := adjust_start (gt - start_timestamp g) (abs_start_time g)\<rparr>\<rparr>
         else s)"

definition check_stopwatch :: "sorter \<Rightarrow> blk_io_trace \<Rightarrow> bool" where
  "check_stopwatch s b \<longleftrightarrow> \<not> (tr_time b < stopwatch_end s \<and> tr_time b \<ge> stopwatch_start s)"

section \<open>Sorting a batch\<close>

text \<open>The device and the CPU of a trace, kept from one iteration of a loop to the next while they match.\<close>

definition find_pdi :: "nat option \<Rightarrow> nat option \<Rightarrow> u32 \<Rightarrow> sorter \<Rightarrow> sorter \<times> nat \<times> nat option" where
  "find_pdi pdi pci device s =
     (case pdi of
        Some d \<Rightarrow> if pdi_dev (devices s ! d) \<noteq> device
                  then let (s, d) = get_dev_info device s in (s, d, None) else (s, d, pci)
      | None \<Rightarrow> let (s, d) = get_dev_info device s in (s, d, None))"

definition find_pci :: "nat \<Rightarrow> nat option \<Rightarrow> u32 \<Rightarrow> sorter \<Rightarrow> (sorter \<times> nat) option" where
  "find_pci d pci cpu s =
     (if pci = None \<or> pci_cpu (pdi_cpus (devices s ! d) ! the pci) \<noteq> cpu then do {
        (pdi, c) \<leftarrow> get_cpu_info (devices s ! d) cpu;
        Some (set_dev d pdi s, c) }
      else Some (s, the pci))"

text \<open>The time since the first trace.\<close>

definition shifted :: "u64 \<Rightarrow> trace \<Rightarrow> trace" where
  "shifted gt t = t\<lparr>t_bit := (t_bit t)\<lparr>tr_time := tr_time (t_bit t) - gt\<rparr>\<rparr>"

definition note_smallest :: "nat \<Rightarrow> nat \<Rightarrow> u32 \<Rightarrow> sorter \<Rightarrow> sorter" where
  "note_smallest d c q s =
     (if ucast q < smallest_seq_read (pdi_cpus (devices s ! d) ! c)
      then set_dev d (set_cpu c (\<lambda>pci. pci\<lparr>smallest_seq_read := ucast q\<rparr>) (devices s ! d)) s else s)"

text \<open>The loop of \<open>sort_entries\<close> over the list.\<close>

fun sort_loop :: "trace list \<Rightarrow> nat option \<Rightarrow> nat option \<Rightarrow> u64 \<Rightarrow> sorter \<Rightarrow> (sorter \<times> u64) option" where
  "sort_loop [] pdi pci youngest s = Some (s\<lparr>trace_list := []\<rparr>, youngest)"
| "sort_loop (t # ts) pdi pci youngest s = do {
     let t = shifted (genesis_time s) t;
     let b = t_bit t;
     let youngest = (if tr_time b < youngest \<or> youngest = 0 then tr_time b else youngest);
     let (s, d, pci) = find_pdi pdi pci (tr_device b) s;
     (s, c) \<leftarrow> find_pci d pci (tr_cpu b) s;
     let s = note_smallest d c (tr_sequence b) s;
     s \<leftarrow> (if check_stopwatch s b then Some s else trace_rb_insert_sort t s);
     sort_loop ts (Some d) (Some c) youngest s }"

definition sort_entries :: "sorter \<Rightarrow> (sorter \<times> u64) option" where
  "sort_entries s =
     (let s = (if genesis_time s = 0 then find_genesis s else s)
      in sort_loop (trace_list s) None None 0 s)"

section \<open>Sequence numbers\<close>

text \<open>The map of the CPUs with traces in the sort tree. The block that \<open>malloc\<close> returns has
  \<open>pdi->cpu_map_max / sizeof(long)\<close> bytes with unknown contents, the \<open>memset\<close> clears the first word, and an
  access outside the block is \<open>None\<close>. The walk visits the traces in the order of the tree.\<close>

fun mark_cpus :: "trace list \<Rightarrow> u64 list \<Rightarrow> u64 list option" where
  "mark_cpus [] m = Some m"
| "mark_cpus (t # ts) m =
     (let cpu = tr_cpu (t_bit t)
      in if CPU_IDX cpu < length m then mark_cpus ts (m[CPU_IDX cpu := m ! CPU_IDX cpu OR push_bit (CPU_BIT cpu) 1])
         else None)"

definition check_cpu_map :: "(nat \<Rightarrow> u64) \<Rightarrow> trace rb \<Rightarrow> per_dev_info \<Rightarrow> bool option" where
  "check_cpu_map malloc root pdi =
     (case map malloc [0..<unat (cpu_map_max pdi) div 8 div 8] of
        [] \<Rightarrow> None
      | _ # m \<Rightarrow> do {
          m \<leftarrow> mark_cpus (inorder root) (0 # m);
          online \<leftarrow> cpu_map pdi;
          Some (\<exists>i \<in> {0..<unat (cpu_map_max pdi) div CPUS_PER_LONG}. online ! i AND NOT (m ! i) \<noteq> 0) })"

definition skip_sequence :: "u64 \<Rightarrow> u32 \<Rightarrow> per_cpu_info \<Rightarrow> per_cpu_info" where
  "skip_sequence expected sequence pci =
     (let (sips, found) = check_current_skips (ucast sequence) (pci_skips pci);
          pci = pci\<lparr>pci_skips := sips\<rparr>
      in if found then pci
         else if expected < ucast sequence
         then pci\<lparr>pci_skips := insert_skip expected (ucast (sequence - 1)) (pci_skips pci)\<rparr>
         else pci)"

text \<open>\<open>True\<close> stands for the return code \<open>1\<close>: stop showing traces.\<close>

definition check_sequence ::
    "(nat \<Rightarrow> u64) \<Rightarrow> trace rb \<Rightarrow> trace \<Rightarrow> bool \<Rightarrow> per_dev_info \<Rightarrow> (per_dev_info \<times> bool) option" where
  "check_sequence malloc root t force pdi = do {
     let b = t_bit t;
     (pdi, c) \<leftarrow> get_cpu_info pdi (tr_cpu b);
     let pci = pdi_cpus pdi ! c;
     let expected_sequence = last_sequence pci + 1;
     if expected_sequence = 0 then
       if tr_sequence b = 1 then Some (pdi, False)
       else if ucast (tr_sequence b) = smallest_seq_read pci then Some (pdi, False)
       else do { ret \<leftarrow> check_cpu_map malloc root pdi; Some (pdi, ret) }
     else if ucast (tr_sequence b) = expected_sequence then Some (pdi, False)
     else if expected_sequence < smallest_seq_read pci then
       case trace_rb_find_last pdi pci expected_sequence of
         None \<Rightarrow> Some (set_cpu c (skip_sequence expected_sequence (tr_sequence b)) pdi, False)
       | Some n \<Rightarrow> do { pdi \<leftarrow> put_trace_last n pdi; Some (pdi, False) }
     else if \<not> force then Some (pdi, True)
     else Some (set_cpu c (skip_sequence expected_sequence (tr_sequence b)) pdi, False) }"

section \<open>Showing the traces\<close>

definition dump_at :: "nat \<Rightarrow> nat \<Rightarrow> blk_io_trace \<Rightarrow> sorter \<Rightarrow> (blk_io_trace \<times> sorter) option" where
  "dump_at d c b s = do {
     let pdi = devices s ! d;
     (b, g, pdi, pci) \<leftarrow> dump_trace b (globs s, pdi, pdi_cpus pdi ! c);
     Some (b, set_dev d (set_cpu c (\<lambda>_. pci) pdi) (s\<lparr>globs := g\<rparr>)) }"

text \<open>The dump may have changed the record that the node of the sort tree points to.\<close>

fun store_bit :: "blk_io_trace \<Rightarrow> trace rb \<times> trace path \<Rightarrow> trace rb \<times> trace path" where
  "store_bit b (Null, p) = (Null, p)"
| "store_bit b (Nd c l t r, p) = (Nd c l (t\<lparr>t_bit := b\<rparr>) r, p)"

definition selected :: "u32 \<Rightarrow> blk_io_trace \<Rightarrow> bool" where
  "selected amask b \<longleftrightarrow> tr_action b AND push_bit BLK_TC_SHIFT amask \<noteq> 0"

text \<open>The part of the loop body from \<open>check_time\<close> to \<open>pci->nelems++\<close>, and from there to its end.\<close>

definition count_trace :: "nat \<Rightarrow> nat option \<Rightarrow> blk_io_trace \<Rightarrow> sorter \<Rightarrow> (sorter \<times> nat) option" where
  "count_trace d pci b s = do {
     let s = set_dev d (check_time b (devices s ! d)) s;
     (s, c) \<leftarrow> find_pci d pci (tr_cpu b) s;
     Some (set_dev d (set_cpu c (\<lambda>pci.
         (if tr_action b \<noteq> BLK_TN TN_MESSAGE then pci\<lparr>last_sequence := ucast (tr_sequence b)\<rparr> else pci)
           \<lparr>pci_nelems := pci_nelems pci + 1\<rparr>) (devices s ! d)) s, c) }"

definition show_trace ::
    "nat \<Rightarrow> nat option \<Rightarrow> trace rb \<times> trace path \<Rightarrow> blk_io_trace \<Rightarrow> sorter \<Rightarrow> (nat \<times> sorter) option" where
  "show_trace d pci n b s = do {
     (s, c) \<leftarrow> count_trace d pci b s;
     (b, s) \<leftarrow> (if selected (act_mask s) b then dump_at d c b s else Some (b, s));
     s \<leftarrow> put_trace d (store_bit b n) s;
     Some (c, s) }"

text \<open>One iteration, for the first node \<open>n\<close> of the sort tree: the device and CPU for the next one, or
  \<open>None\<close> after a \<open>break\<close>.\<close>

definition show_step ::
    "bool \<Rightarrow> nat option \<Rightarrow> nat option \<Rightarrow> trace rb \<times> trace path \<Rightarrow> sorter \<Rightarrow> ((nat \<times> nat) option \<times> sorter) option" where
  "show_step force pdi pci n s =
     (if is_done s \<and> \<not> force \<and> \<not> pipeline s then Some (None, s)
      else do {
        t \<leftarrow> elem_at n;
        let b = t_bit t;
        if read_sequence s - t_read_sequence t < 1 \<and> \<not> force then Some (None, s)
        else do {
          let (s, d, pci) = find_pdi pdi pci (tr_device b) s;
          (pdi, stop) \<leftarrow> (if tr_action b \<noteq> BLK_TN TN_MESSAGE
             then check_sequence (malloc_map s) (rb_sort_root s) t force (devices s ! d)
             else Some (devices s ! d, False));
          let s = set_dev d pdi s;
          if stop \<or> (\<not> force \<and> tr_time b > last_allowed_time s) then Some (None, s)
          else do {
            (c, s) \<leftarrow> show_trace d pci n b s;
            Some (Some (d, c), s) } } })"

partial_function (option) show_loop :: "bool \<Rightarrow> nat option \<Rightarrow> nat option \<Rightarrow> sorter \<Rightarrow> sorter option" where
  "show_loop force pdi pci s =
     (case rb_first (rb_sort_root s) of
        None \<Rightarrow> Some s
      | Some n \<Rightarrow> do {
          (next, s) \<leftarrow> show_step force pdi pci n s;
          case next of
            None \<Rightarrow> Some s
          | Some (d, c) \<Rightarrow> show_loop force (Some d) (Some c) s })"

definition show_entries_rb :: "bool \<Rightarrow> sorter \<Rightarrow> sorter option" where
  "show_entries_rb force s = show_loop force None None s"

section \<open>Invariants\<close>

text \<open>The tree of recent traces of CPU \<open>c\<close> is a proper queue of traces of that CPU.\<close>

definition cpu_ok :: "nat \<Rightarrow> per_cpu_info \<Rightarrow> bool" where
  "cpu_ok c pci \<longleftrightarrow> pci_fd pci \<noteq> 0 \<and> queue_inv (rb_last_root pci)
     \<and> (\<forall>t \<in> set (inorder (rb_last_root pci)). 0 \<le> sint (tr_cpu (t_bit t)) \<and> unat (tr_cpu (t_bit t)) = c)"

definition dev_ok :: "per_dev_info \<Rightarrow> bool" where
  "dev_ok pdi \<longleftrightarrow> track_inv pdi \<and> (\<forall>c < length (pdi_cpus pdi). cpu_ok c (pdi_cpus pdi ! c))"

definition cpu_seen :: "per_dev_info \<Rightarrow> nat \<Rightarrow> bool" where
  "cpu_seen pdi c \<longleftrightarrow> c < length (pdi_cpus pdi) \<and> last_sequence (pdi_cpus pdi ! c) \<noteq> - 1"

text \<open>The entry has been returned by \<open>get_cpu_info\<close>.\<close>

definition cpu_named :: "per_dev_info \<Rightarrow> nat \<Rightarrow> bool" where
  "cpu_named pdi c \<longleftrightarrow> c < length (pdi_cpus pdi) \<and> unat (pci_cpu (pdi_cpus pdi ! c)) = c"

text \<open>The file of the CPU is closed.\<close>

definition cpu_closed :: "per_dev_info \<Rightarrow> nat \<Rightarrow> bool" where
  "cpu_closed pdi c \<longleftrightarrow> c < length (pdi_cpus pdi) \<and> pci_fd (pdi_cpus pdi ! c) < 0"

text \<open>What every operation on a device keeps.\<close>

definition dev_step :: "per_dev_info \<Rightarrow> per_dev_info \<Rightarrow> bool" where
  "dev_step pdi pdi' \<longleftrightarrow> dev_ok pdi' \<and> pdi_dev pdi' = pdi_dev pdi
     \<and> (\<forall>c. cpu_seen pdi c \<longrightarrow> cpu_seen pdi' c) \<and> (\<forall>c. cpu_named pdi c \<longrightarrow> cpu_named pdi' c)
     \<and> (\<forall>c. cpu_closed pdi c \<longrightarrow> cpu_closed pdi' c)"

lemma dev_step_refl: "dev_ok pdi \<Longrightarrow> dev_step pdi pdi"
  by (simp add: dev_step_def)

lemma dev_step_trans: "dev_step a b \<Longrightarrow> dev_step b c \<Longrightarrow> dev_step a c"
  by (auto simp: dev_step_def)

lemma length_set_cpu [simp]: "length (pdi_cpus (set_cpu c f pdi)) = length (pdi_cpus pdi)"
  by (simp add: set_cpu_def)

lemma set_cpu_step:
  assumes "dev_ok pdi" "c < length (pdi_cpus pdi)" "cpu_ok c (f (pdi_cpus pdi ! c))"
    and "last_sequence (pdi_cpus pdi ! c) \<noteq> - 1 \<Longrightarrow> last_sequence (f (pdi_cpus pdi ! c)) \<noteq> - 1"
    and "unat (pci_cpu (pdi_cpus pdi ! c)) = c \<Longrightarrow> unat (pci_cpu (f (pdi_cpus pdi ! c))) = c"
    and "pci_fd (pdi_cpus pdi ! c) < 0 \<Longrightarrow> pci_fd (f (pdi_cpus pdi ! c)) < 0"
  shows "dev_step pdi (set_cpu c f pdi)"
  using assms
  by (auto simp: dev_step_def dev_ok_def set_cpu_def track_inv_def cpu_seen_def cpu_named_def cpu_closed_def nth_list_update)

lemma init_cpu_ok: "pci_fd pci \<noteq> 0 \<Longrightarrow> init_cpu_info pci = pci"
  by (simp add: init_cpu_info_def)

lemma init_zero_cpu: "cpu_ok c (init_cpu_info zero_cpu_info)" "last_sequence (init_cpu_info zero_cpu_info) = - 1"
  by (simp_all add: cpu_ok_def init_cpu_info_def zero_cpu_info_def)

lemma resize_cpu_info_nth:
  assumes "dev_ok pdi" "length (pdi_cpus pdi) \<le> n" "c \<le> n"
  shows "pdi_cpus (resize_cpu_info pdi n) ! c
    = (if c < length (pdi_cpus pdi) then pdi_cpus pdi ! c else init_cpu_info zero_cpu_info)"
  using assms by (auto simp: resize_cpu_info_def Let_def nth_append dev_ok_def cpu_ok_def init_cpu_ok)

lemma resize_cpu_info_step:
  assumes "dev_ok pdi" "length (pdi_cpus pdi) \<le> n"
  shows "dev_step pdi (resize_cpu_info pdi n)" "length (pdi_cpus (resize_cpu_info pdi n)) = Suc n"
    proof -
  show len: "length (pdi_cpus (resize_cpu_info pdi n)) = Suc n"
    using assms(2) by (simp add: resize_cpu_info_def Let_def)
  have "cpu_ok c (pdi_cpus (resize_cpu_info pdi n) ! c)" if "c < Suc n" for c
    using resize_cpu_info_nth [OF assms, of c] assms(1) that init_zero_cpu(1) by (auto simp: dev_ok_def)
  then have "dev_ok (resize_cpu_info pdi n)"
    using assms(1) len by (simp add: dev_ok_def track_inv_def) (simp add: resize_cpu_info_def Let_def)
  moreover have "pdi_dev (resize_cpu_info pdi n) = pdi_dev pdi"
    by (simp add: resize_cpu_info_def Let_def)
  moreover have "cpu_seen (resize_cpu_info pdi n) c" if "cpu_seen pdi c" for c
    using that assms(2) resize_cpu_info_nth [OF assms, of c] len by (simp add: cpu_seen_def)
  moreover have "cpu_named (resize_cpu_info pdi n) c" if "cpu_named pdi c" for c
    using that assms(2) resize_cpu_info_nth [OF assms, of c] len by (simp add: cpu_named_def)
  moreover have "cpu_closed (resize_cpu_info pdi n) c" if "cpu_closed pdi c" for c
    using that assms(2) resize_cpu_info_nth [OF assms, of c] len by (simp add: cpu_closed_def)
  ultimately show "dev_step pdi (resize_cpu_info pdi n)"
    by (simp add: dev_step_def)
qed

lemma get_cpu_info_ok:
  assumes "dev_ok pdi" "0 \<le> sint cpu"
  shows "\<exists>pdi'. get_cpu_info pdi cpu = Some (pdi', unat cpu) \<and> dev_step pdi pdi' \<and> cpu_named pdi' (unat cpu)
    \<and> pci_cpu (pdi_cpus pdi' ! unat cpu) = cpu"
proof -
  define pdi1 where "pdi1 = (if length (pdi_cpus pdi) \<le> unat cpu then resize_cpu_info pdi (unat cpu) else pdi)"
  define f :: "per_cpu_info \<Rightarrow> per_cpu_info" where "f = pci_cpu_update (\<lambda>_. cpu)"
  have 1: "dev_step pdi pdi1" "unat cpu < length (pdi_cpus pdi1)"
    using resize_cpu_info_step [OF assms(1)] dev_step_refl [OF assms(1)] by (auto simp: pdi1_def not_le)
  then have "cpu_ok (unat cpu) (f (pdi_cpus pdi1 ! unat cpu))"
    by (simp add: dev_step_def dev_ok_def cpu_ok_def f_def)
  then have "dev_step pdi1 (set_cpu (unat cpu) f pdi1)"
    using 1 by (intro set_cpu_step) (auto simp: dev_step_def f_def)
  then have "dev_step pdi (set_cpu (unat cpu) f pdi1)"
    by (rule dev_step_trans [OF 1(1)])
  moreover have "get_cpu_info pdi cpu = Some (set_cpu (unat cpu) f pdi1, unat cpu)"
    using assms(2) by (simp add: get_cpu_info_def set_cpu_def pdi1_def f_def Let_def)
  moreover have "pdi_cpus (set_cpu (unat cpu) f pdi1) ! unat cpu = f (pdi_cpus pdi1 ! unat cpu)"
    using 1(2) by (simp add: set_cpu_def)
  ultimately show ?thesis
    using 1(2) by (simp add: cpu_named_def f_def)
qed

section \<open>The trees of recent traces\<close>

lemma put_trace_last_ok:
  assumes "dev_ok pdi" "c < length (pdi_cpus pdi)" "node_of (rb_last_root (pdi_cpus pdi ! c)) n"
  shows "\<exists>pdi'. put_trace_last n pdi = Some pdi' \<and> dev_step pdi pdi'"
proof -
  let ?root = "rb_last_root (pdi_cpus pdi ! c)"
  obtain u q where n: "n = (u, q)" "u \<noteq> Null" "plug u q = ?root"
    using assms(3) by (cases n) (auto simp: node_of_def)
  obtain xs ys where pos: "at_pos (u, q) = (xs, ys)"
    by (cases "at_pos (u, q)")
  obtain t ts where t: "elem_at (u, q) = Some t" "ys = t # ts"
    using elem_at_pos [OF n(2) pos] by blast
  have root: "inorder ?root = xs @ t # ts"
    using at_pos_plug [of u q] pos t n by simp
  have cpu: "cpu_ok c (pdi_cpus pdi ! c)"
    using assms by (simp add: dev_ok_def)
  then obtain r where r: "rb_erase u q = Some r" "queue_inv r" "inorder r = xs @ ts"
    using queue_erase [of u q xs t ts] n pos t by (auto simp: cpu_ok_def)
  have tc: "0 \<le> sint (tr_cpu (t_bit t))" "unat (tr_cpu (t_bit t)) = c"
    using cpu root by (auto simp: cpu_ok_def)
  obtain pdi1 where g: "get_cpu_info pdi (tr_cpu (t_bit t)) = Some (pdi1, c)" "dev_step pdi pdi1" "c < length (pdi_cpus pdi1)"
    using get_cpu_info_ok [OF assms(1) tc(1)] tc(2) by (auto simp: cpu_named_def)
  have c1: "pci_fd (pdi_cpus pdi1 ! c) \<noteq> 0"
    using g by (simp add: dev_step_def dev_ok_def cpu_ok_def)
  have "dev_step pdi1 (set_cpu c (\<lambda>pci. pci\<lparr>rb_last_root := r, rb_last_entries := rb_last_entries pci - 1\<rparr>) pdi1)"
    using g cpu c1 r root by (intro set_cpu_step) (auto simp: dev_step_def cpu_ok_def)
  then show ?thesis
    using dev_step_trans [OF g(2)] g(1) r(1) t(1) by (simp add: put_trace_last_def n(1))
qed

lemma trace_rb_insert_last_ok:
  assumes "dev_ok pdi" "0 \<le> sint (tr_cpu (t_bit t))"
  shows "\<exists>pdi'. trace_rb_insert_last batch pdi t = Some pdi' \<and> dev_step pdi pdi'"
proof -
  let ?c = "unat (tr_cpu (t_bit t))"
  obtain pdi1 where g: "get_cpu_info pdi (tr_cpu (t_bit t)) = Some (pdi1, ?c)" "dev_step pdi pdi1" "?c < length (pdi_cpus pdi1)"
    using get_cpu_info_ok [OF assms] by (auto simp: cpu_named_def)
  let ?pci = "pdi_cpus pdi1 ! ?c"
  have cpu: "cpu_ok ?c ?pci"
    using g by (simp add: dev_step_def dev_ok_def)
  obtain r xs ys where r: "trace_rb_insert t (rb_last_root ?pci) = Some r" "queue_inv r" "inorder (rb_last_root ?pci) = xs @ ys"
    "inorder r = xs @ t # ys"
    using trace_rb_insert_ok [of "rb_last_root ?pci" t] cpu by (auto simp: cpu_ok_def)
  define pdi2 where "pdi2 = set_cpu ?c (\<lambda>pci. pci\<lparr>rb_last_root := r, rb_last_entries := rb_last_entries pci + 1\<rparr>) pdi1"
  have step: "dev_step pdi1 pdi2"
    unfolding pdi2_def using g cpu r assms(2) by (intro set_cpu_step) (auto simp: dev_step_def cpu_ok_def)
  have root: "rb_last_root (pdi_cpus pdi2 ! ?c) = r" "?c < length (pdi_cpus pdi2)"
    using g(3) by (simp_all add: pdi2_def set_cpu_def)
  have "inorder r \<noteq> []"
    by (simp add: r(4))
  then obtain u q where uq: "rb_first r = Some (u, q)"
    by (cases "rb_first r") auto
  then obtain pdi3 where pdi3: "put_trace_last (u, q) pdi2 = Some pdi3" "dev_step pdi2 pdi3"
    using put_trace_last_ok [of pdi2 ?c "(u, q)"] rb_first_pos [OF uq] step root by (auto simp: dev_step_def node_of_def)
  have "trace_rb_insert_last batch pdi t
      = (if rb_last_entries (pdi_cpus pdi2 ! ?c) > ucast (batch * pdi_nfiles pdi2) then Some pdi3 else Some pdi2)"
    by (simp add: trace_rb_insert_last_def g(1) r(1) Let_def pdi2_def [symmetric] root(1) uq pdi3(1))
  then show ?thesis
    using dev_step_trans [OF g(2) step] dev_step_trans [OF _ pdi3(2)] by auto
qed

section \<open>Sequence numbers and the dump\<close>

lemma skip_sequence_fields [simp]:
  "pci_fd (skip_sequence e q pci) = pci_fd pci" "rb_last_root (skip_sequence e q pci) = rb_last_root pci"
  "last_sequence (skip_sequence e q pci) = last_sequence pci" "pci_cpu (skip_sequence e q pci) = pci_cpu pci"
  by (simp_all add: skip_sequence_def Let_def case_prod_beta)

lemma skip_sequence_step:
  assumes "dev_ok pdi" "c < length (pdi_cpus pdi)"
  shows "dev_step pdi (set_cpu c (skip_sequence e q) pdi)"
  using assms by (intro set_cpu_step) (auto simp: dev_ok_def cpu_ok_def)

text \<open>The first trace of a CPU has sequence number 1, so that the map of CPUs is not consulted.\<close>

lemma check_sequence_ok:
  assumes "dev_ok pdi" "0 \<le> sint (tr_cpu (t_bit t))"
    and "cpu_seen pdi (unat (tr_cpu (t_bit t))) \<or> tr_sequence (t_bit t) = 1"
  shows "\<exists>pdi' r. check_sequence malloc root t force pdi = Some (pdi', r) \<and> dev_step pdi pdi' \<and> (force \<longrightarrow> \<not> r)"
proof -
  let ?c = "unat (tr_cpu (t_bit t))"
  let ?q = "tr_sequence (t_bit t)"
  obtain pdi1 where g: "get_cpu_info pdi (tr_cpu (t_bit t)) = Some (pdi1, ?c)" "dev_step pdi pdi1" "?c < length (pdi_cpus pdi1)"
    using get_cpu_info_ok [OF assms(1,2)] by (auto simp: cpu_named_def)
  let ?pci = "pdi_cpus pdi1 ! ?c"
  let ?e = "last_sequence ?pci + 1"
  have "?e = 0 \<Longrightarrow> last_sequence ?pci = - 1"
    using eq_neg_iff_add_eq_0 [of "last_sequence ?pci" 1] by blast
  then have fresh: "?e = 0 \<Longrightarrow> ?q = 1"
    using assms(3) g(2) by (auto simp: dev_step_def cpu_seen_def)
  have skip: "dev_step pdi (set_cpu ?c (skip_sequence ?e ?q) pdi1)"
    using skip_sequence_step [of pdi1 ?c] g(2,3) dev_step_trans [OF g(2)] by (simp add: dev_step_def)
  have eq: "check_sequence malloc root t force pdi =
      (if ?e = 0 \<or> ucast ?q = ?e then Some (pdi1, False)
       else if ?e < smallest_seq_read ?pci then
         case trace_rb_find_last pdi1 ?pci ?e of
           None \<Rightarrow> Some (set_cpu ?c (skip_sequence ?e ?q) pdi1, False)
         | Some n \<Rightarrow> do { pdi \<leftarrow> put_trace_last n pdi1; Some (pdi, False) }
       else if \<not> force then Some (pdi1, True)
       else Some (set_cpu ?c (skip_sequence ?e ?q) pdi1, False))"
    using fresh by (simp add: check_sequence_def g(1) Let_def)
  have put: "\<exists>pdi'. put_trace_last n pdi1 = Some pdi' \<and> dev_step pdi pdi'"
    if "trace_rb_find_last pdi1 ?pci ?e = Some n" for n
  proof -
    have "node_of (rb_last_root ?pci) n"
      using trace_rb_find_ok [OF that [unfolded trace_rb_find_last_def]] by (simp add: found_at_def node_of_def)
    then show ?thesis
      using put_trace_last_ok [of pdi1 ?c n] g(2,3) dev_step_trans [OF g(2)] by (auto simp: dev_step_def)
  qed
  show ?thesis
  proof (cases "?e = 0 \<or> ucast ?q = ?e")
    case False
    then show ?thesis
      using g(2) skip put by (auto simp: eq split: option.splits dest!: put)
  qed (use g(2) in \<open>auto simp: eq\<close>)
qed

lemma check_time_step: "dev_ok pdi \<Longrightarrow> dev_step pdi (check_time b pdi)"
  by (simp add: dev_step_def dev_ok_def check_time_def track_inv_def cpu_seen_def cpu_named_def cpu_closed_def)

text \<open>The traces that the binary output receives.\<close>

definition recorded :: "globals \<Rightarrow> blk_io_trace \<Rightarrow> bool" where
  "recorded g b \<longleftrightarrow> dump_binary g \<and> (bin_output_msgs g \<or> tr_action b \<noteq> BLK_TN TN_MESSAGE)"

definition same_options :: "globals \<Rightarrow> globals \<Rightarrow> bool" where
  "same_options g g' \<longleftrightarrow> options (g'\<lparr>binary_out := binary_out g\<rparr>) = options g"

lemma same_options_refl [simp]: "same_options g g"
  by (simp add: same_options_def)

lemma same_options_trans: "same_options a b \<Longrightarrow> same_options b c \<Longrightarrow> same_options a c"
  by (simp add: same_options_def options_def)

lemma same_options_recorded: "same_options g g' \<Longrightarrow> recorded g' b = recorded g b"
  by (simp add: same_options_def options_def recorded_def)

lemma same_options_dumped: "same_options g g' \<Longrightarrow> dumped g' = dumped g"
  by (simp add: fun_eq_iff dumped_def remap_shown_def same_options_def options_def)

lemma dump_at_ok:
  assumes "dev_ok (devices s ! d)" "c < length (pdi_cpus (devices s ! d))" "payload_ok b"
  shows "\<exists>pdi g. dump_at d c b s = Some (dumped (globs s) b, set_dev d pdi (s\<lparr>globs := g\<rparr>))
    \<and> dev_step (devices s ! d) pdi \<and> same_options (globs s) g
    \<and> binary_out g = binary_out (globs s) @ (if recorded (globs s) b then [dumped (globs s) b] else [])"
proof -
  let ?pdi = "devices s ! d"
  let ?pci = "pdi_cpus ?pdi ! c"
  have "track_inv ?pdi"
    using assms(1) by (simp add: dev_ok_def)
  then obtain g' pdi' pci' t' e m st where r: "dump_trace b (globs s, ?pdi, ?pci) = Some (dumped (globs s) b, g', pdi', pci')"
    "track_inv pdi'" "pci' = ?pci\<lparr>pci_io_stats := st\<rparr>"
    "pdi' = ?pdi\<lparr>rb_track := t', cur_depth := e, max_depth := m, pdi_events := pdi_events ?pdi + 1,
        first_reported_time := (if pdi_events ?pdi = 0 then tr_time b else first_reported_time ?pdi)\<rparr>"
    "options (g'\<lparr>binary_out := binary_out (globs s)\<rparr>) = options (globs s)"
    "binary_out g' = binary_out (globs s) @
      (if dump_binary (globs s) \<and> (bin_output_msgs (globs s) \<or> tr_action b \<noteq> BLK_TN TN_MESSAGE) then [dumped (globs s) b] else [])"
    using dump_trace_returns [of ?pdi b "globs s" ?pci] assms(3) by metis
  have cpus: "pdi_cpus pdi' = pdi_cpus ?pdi" "pdi_dev pdi' = pdi_dev ?pdi"
    by (simp_all add: r(4))
  have "dev_step ?pdi pdi'"
    using assms(1) r(2) cpus by (simp add: dev_step_def dev_ok_def cpu_seen_def cpu_named_def cpu_closed_def)
  moreover have "dev_step pdi' (set_cpu c (\<lambda>_. pci') pdi')"
    using assms r(2,3) cpus by (intro set_cpu_step) (auto simp: dev_ok_def cpu_ok_def)
  ultimately have "dev_step ?pdi (set_cpu c (\<lambda>_. pci') pdi')"
    by (rule dev_step_trans)
  moreover have "dump_at d c b s = Some (dumped (globs s) b, set_dev d (set_cpu c (\<lambda>_. pci') pdi') (s\<lparr>globs := g'\<rparr>))"
    by (simp add: dump_at_def r(1))
  ultimately show ?thesis
    using r(5,6) unfolding same_options_def recorded_def by blast
qed

section \<open>The devices\<close>

definition devs_ok :: "per_dev_info list \<Rightarrow> bool" where
  "devs_ok pdis \<longleftrightarrow> (\<forall>pdi \<in> set pdis. dev_ok pdi \<and> pdi_dev pdi \<noteq> 0) \<and> distinct (map pdi_dev pdis)"

definition devs_step :: "per_dev_info list \<Rightarrow> per_dev_info list \<Rightarrow> bool" where
  "devs_step pdis pdis' \<longleftrightarrow> devs_ok pdis' \<and> length pdis \<le> length pdis'
     \<and> (\<forall>d < length pdis. dev_step (pdis ! d) (pdis' ! d))"

definition seen :: "per_dev_info list \<Rightarrow> u32 \<Rightarrow> nat \<Rightarrow> bool" where
  "seen pdis dev c \<longleftrightarrow> (\<exists>pdi \<in> set pdis. pdi_dev pdi = dev \<and> cpu_seen pdi c)"

lemma devs_step_refl: "devs_ok pdis \<Longrightarrow> devs_step pdis pdis"
  by (simp add: devs_step_def devs_ok_def dev_step_refl)

lemma devs_stepD:
  "devs_step a b \<Longrightarrow> d < length a \<Longrightarrow> d < length b \<and> dev_step (a ! d) (b ! d)"
  by (simp add: devs_step_def)

lemma devs_step_trans:
  assumes "devs_step a b" "devs_step b c"
  shows "devs_step a c"
proof -
  have "dev_step (a ! d) (c ! d)" if "d < length a" for d
    using devs_stepD [OF assms(1) that] devs_stepD [OF assms(2), of d] dev_step_trans by blast
  then show ?thesis
    using assms by (simp add: devs_step_def)
qed

lemma devs_step_seen:
  assumes "devs_step a b" "seen a dev c"
  shows "seen b dev c"
proof -
  obtain d where d: "d < length a" "pdi_dev (a ! d) = dev" "cpu_seen (a ! d) c"
    using assms(2) by (auto simp: seen_def in_set_conv_nth)
  then have "d < length b" "dev_step (a ! d) (b ! d)"
    using devs_stepD [OF assms(1)] by blast+
  then show ?thesis
    using d unfolding seen_def dev_step_def by (intro bexI [of _ "b ! d"]) auto
qed

lemma seen_at:
  assumes "devs_ok pdis" "d < length pdis" "seen pdis (pdi_dev (pdis ! d)) c"
  shows "cpu_seen (pdis ! d) c"
proof -
  obtain d' where "d' < length pdis" "pdi_dev (pdis ! d') = pdi_dev (pdis ! d)" "cpu_seen (pdis ! d') c"
    using assms(3) by (auto simp: seen_def in_set_conv_nth)
  moreover from this have "d' = d"
    using assms(1,2) by (auto simp: devs_ok_def distinct_conv_nth)
  ultimately show ?thesis
    by simp
qed

lemma devs_step_update:
  assumes "devs_ok pdis" "d < length pdis" "dev_step (pdis ! d) pdi"
  shows "devs_step pdis (pdis[d := pdi])"
proof -
  have "pdi_dev pdi = map pdi_dev pdis ! d"
    using assms(2,3) by (simp add: dev_step_def)
  then have "map pdi_dev (pdis[d := pdi]) = map pdi_dev pdis"
    by (simp only: map_update list_update_id)
  moreover have "\<forall>p \<in> set (pdis[d := pdi]). dev_ok p \<and> pdi_dev p \<noteq> 0"
    using assms set_update_subset_insert [of pdis d pdi] by (auto simp: devs_ok_def dev_step_def)
  ultimately show ?thesis
    using assms by (simp add: devs_step_def devs_ok_def nth_list_update dev_step_refl)
qed

lemma find_dev_ok:
  assumes "devs_ok pdis" "dev \<noteq> 0"
  shows "find_dev dev pdis = None \<Longrightarrow> dev \<notin> pdi_dev ` set pdis"
    and "find_dev dev pdis = Some (pdis', d) \<Longrightarrow> pdis' = pdis \<and> d < length pdis \<and> pdi_dev (pdis ! d) = dev"
proof -
  have "\<forall>pdi \<in> set pdis. pdi_dev pdi \<noteq> 0"
    using assms(1) by (simp add: devs_ok_def)
  then have "(find_dev dev pdis = None \<longrightarrow> dev \<notin> pdi_dev ` set pdis)
      \<and> (\<forall>pdis' d. find_dev dev pdis = Some (pdis', d) \<longrightarrow> pdis' = pdis \<and> d < length pdis \<and> pdi_dev (pdis ! d) = dev)"
  proof (induction pdis)
    case (Cons pdi pdis)
    then show ?case
      by (auto simp: Let_def split: if_splits)
  qed simp
  then show "find_dev dev pdis = None \<Longrightarrow> dev \<notin> pdi_dev ` set pdis"
    and "find_dev dev pdis = Some (pdis', d) \<Longrightarrow> pdis' = pdis \<and> d < length pdis \<and> pdi_dev (pdis ! d) = dev"
    by simp_all
qed

lemma new_device_ok: "dev_ok (zero_dev_info\<lparr>pdi_dev := dev, first_reported_time := 0, last_read_time := 0\<rparr>)"
  by (simp add: dev_ok_def zero_dev_info_def track_inv_def)

lemma get_dev_info_ok:
  assumes "devs_ok (devices s)" "dev \<noteq> 0"
  shows "\<exists>pdis d. get_dev_info dev s = (s\<lparr>devices := pdis\<rparr>, d) \<and> devs_step (devices s) pdis
    \<and> d < length pdis \<and> pdi_dev (pdis ! d) = dev"
proof (cases "find_dev dev (devices s)")
  case None
  let ?new = "zero_dev_info\<lparr>pdi_dev := dev, first_reported_time := 0, last_read_time := 0\<rparr>"
  have "devs_step (devices s) (devices s @ [?new])"
    using assms find_dev_ok(1) [OF assms None] new_device_ok
    by (auto simp: devs_step_def devs_ok_def nth_append dev_step_refl image_iff)
  moreover have "get_dev_info dev s = (s\<lparr>devices := devices s @ [?new]\<rparr>, length (devices s))"
    by (simp add: get_dev_info_def None resize_devices_def Let_def)
  ultimately show ?thesis
    by (intro exI [of _ "devices s @ [?new]"]) simp
next
  case (Some r)
  then obtain pdis d where r: "find_dev dev (devices s) = Some (pdis, d)"
    by (cases r) auto
  then show ?thesis
    using find_dev_ok(2) [OF assms r] devs_step_refl [OF assms(1)]
    by (intro exI [of _ "devices s"]) (simp add: get_dev_info_def)
qed

section \<open>One iteration of the loops\<close>

text \<open>The cached device and CPU.\<close>

definition cache_ok :: "per_dev_info list \<Rightarrow> nat option \<Rightarrow> nat option \<Rightarrow> bool" where
  "cache_ok pdis pdi pci \<longleftrightarrow>
     (\<forall>d. pdi = Some d \<longrightarrow> d < length pdis \<and> (\<forall>c. pci = Some c \<longrightarrow> cpu_named (pdis ! d) c))"

lemma cache_ok_None [simp]: "cache_ok pdis None pci"
  by (simp add: cache_ok_def)

lemma cache_step: "cache_ok a (Some d) pci \<Longrightarrow> devs_step a b \<Longrightarrow> cache_ok b (Some d) pci"
  using devs_stepD [of a b d] by (auto simp: cache_ok_def dev_step_def)

lemma find_pdi_ok:
  assumes "devs_ok (devices s)" "device \<noteq> 0" "cache_ok (devices s) pdi pci"
  shows "\<exists>pdis d pci'. find_pdi pdi pci device s = (s\<lparr>devices := pdis\<rparr>, d, pci')
    \<and> devs_step (devices s) pdis \<and> d < length pdis \<and> pdi_dev (pdis ! d) = device \<and> cache_ok pdis (Some d) pci'"
proof (cases "\<exists>d. pdi = Some d \<and> pdi_dev (devices s ! d) = device")
  case True
  then show ?thesis
    using assms devs_step_refl by (intro exI [of _ "devices s"]) (auto simp: find_pdi_def cache_ok_def)
next
  case False
  then have "find_pdi pdi pci device s = (let (s, d) = get_dev_info device s in (s, d, None))"
    by (auto simp: find_pdi_def split: option.splits)
  then show ?thesis
    using get_dev_info_ok [OF assms(1,2)] by (auto simp: cache_ok_def)
qed

lemma find_pci_ok:
  assumes "devs_ok (devices s)" "d < length (devices s)" "0 \<le> sint cpu" "cache_ok (devices s) (Some d) pci"
  shows "\<exists>pdis. find_pci d pci cpu s = Some (s\<lparr>devices := pdis\<rparr>, unat cpu)
    \<and> devs_step (devices s) pdis \<and> cpu_named (pdis ! d) (unat cpu)"
proof (cases "pci = None \<or> pci_cpu (pdi_cpus (devices s ! d) ! the pci) \<noteq> cpu")
  case True
  have "dev_ok (devices s ! d)"
    using assms(1,2) by (simp add: devs_ok_def)
  then obtain pdi' where "get_cpu_info (devices s ! d) cpu = Some (pdi', unat cpu)" "dev_step (devices s ! d) pdi'"
    "cpu_named pdi' (unat cpu)"
    using get_cpu_info_ok assms(3) by blast
  then show ?thesis
    using True devs_step_update [OF assms(1,2)] assms(2)
    by (intro exI [of _ "(devices s)[d := pdi']"]) (simp add: find_pci_def set_dev_def)
next
  case False
  then obtain c where c: "pci = Some c" "pci_cpu (pdi_cpus (devices s ! d) ! c) = cpu"
    by auto
  then have "cpu_named (devices s ! d) c" "c = unat cpu"
    using assms(4) by (auto simp: cache_ok_def cpu_named_def)
  then show ?thesis
    using c devs_step_refl [OF assms(1)] by (intro exI [of _ "devices s"]) (simp add: find_pci_def)
qed

section \<open>The state of the sorter\<close>

definition trace_ok :: "trace \<Rightarrow> bool" where
  "trace_ok t \<longleftrightarrow> 0 \<le> sint (tr_cpu (t_bit t)) \<and> tr_device (t_bit t) \<noteq> 0 \<and> payload_ok (t_bit t)"

definition sorter_ok :: "sorter \<Rightarrow> bool" where
  "sorter_ok s \<longleftrightarrow> devs_ok (devices s) \<and> queue_inv (rb_sort_root s) \<and> (\<forall>t \<in> set (inorder (rb_sort_root s)). trace_ok t)"

text \<open>Going from one state to another changes the devices, the process tables and the output only; the binary
  output grows by \<open>bs\<close>.\<close>

definition moves :: "blk_io_trace list \<Rightarrow> sorter \<Rightarrow> sorter \<Rightarrow> bool" where
  "moves bs s s' \<longleftrightarrow> (\<exists>pdis g. s' = s\<lparr>devices := pdis, globs := g\<rparr> \<and> devs_step (devices s) pdis
     \<and> same_options (globs s) g \<and> binary_out g = binary_out (globs s) @ bs)"

lemma moves_devices: "devs_step (devices s) pdis \<Longrightarrow> moves [] s (s\<lparr>devices := pdis\<rparr>)"
  unfolding moves_def by (intro exI [of _ pdis] exI [of _ "globs s"]) simp

lemma moves_trans:
  assumes "moves as s1 s2" "moves bs s2 s3"
  shows "moves (as @ bs) s1 s3"
proof -
  obtain p2 g2 where 2: "s2 = s1\<lparr>devices := p2, globs := g2\<rparr>" "devs_step (devices s1) p2"
    "same_options (globs s1) g2" "binary_out g2 = binary_out (globs s1) @ as"
    using assms(1) by (auto simp: moves_def)
  obtain p3 g3 where 3: "s3 = s2\<lparr>devices := p3, globs := g3\<rparr>" "devs_step (devices s2) p3"
    "same_options (globs s2) g3" "binary_out g3 = binary_out (globs s2) @ bs"
    using assms(2) by (auto simp: moves_def)
  show ?thesis
    unfolding moves_def
  proof (intro exI conjI)
    show "s3 = s1\<lparr>devices := p3, globs := g3\<rparr>" "binary_out g3 = binary_out (globs s1) @ as @ bs"
      by (simp_all add: 2(1,4) 3(1,4))
    show "devs_step (devices s1) p3" "same_options (globs s1) g3"
      using 2 3 devs_step_trans same_options_trans by auto
  qed
qed

lemma moves_nil_trans: "moves [] s1 s2 \<Longrightarrow> moves bs s2 s3 \<Longrightarrow> moves bs s1 s3"
  using moves_trans [of "[]" s1 s2 bs s3] by simp

lemma moves_ok: "moves bs s s' \<Longrightarrow> sorter_ok s \<Longrightarrow> sorter_ok s'"
  by (auto simp: moves_def sorter_ok_def devs_step_def)

lemma moves_root [simp]: "moves bs s s' \<Longrightarrow> rb_sort_root s' = rb_sort_root s"
  by (auto simp: moves_def)

lemma moves_devs: "moves bs s s' \<Longrightarrow> devs_step (devices s) (devices s')"
  by (auto simp: moves_def)

text \<open>What is written for a trace that is shown.\<close>

definition written :: "sorter \<Rightarrow> blk_io_trace \<Rightarrow> bool" where
  "written s b \<longleftrightarrow> selected (act_mask s) b \<and> recorded (globs s) b"

lemma moves_written: "moves bs s s' \<Longrightarrow> written s' = written s"
  by (auto simp: moves_def written_def same_options_recorded)

text \<open>The records that the binary output receives for a list of traces.\<close>

definition wrote :: "sorter \<Rightarrow> blk_io_trace list \<Rightarrow> blk_io_trace list" where
  "wrote s bs = map (dumped (globs s)) (filter (written s) bs)"

lemma wrote_simps [simp]:
  "wrote s [] = []" "wrote s (b # bs) = (if written s b then [dumped (globs s) b] else []) @ wrote s bs"
  by (simp_all add: wrote_def)

lemma moves_dumped: "moves bs s s' \<Longrightarrow> dumped (globs s') = dumped (globs s)"
  by (auto simp: moves_def same_options_dumped)

lemma wrote_resort [simp]: "wrote (s\<lparr>rb_sort_root := r, rb_sort_entries := e\<rparr>) = wrote s"
  by (simp add: fun_eq_iff wrote_def written_def cong: filter_cong)

lemma moves_wrote: "moves bs s s' \<Longrightarrow> wrote s' = wrote s"
  by (simp add: fun_eq_iff wrote_def moves_written moves_dumped)

text \<open>The first trace of a CPU that is not a message has sequence number 1.\<close>

fun starts_at_one :: "(u32 \<times> nat) set \<Rightarrow> trace list \<Rightarrow> bool" where
  "starts_at_one known [] = True"
| "starts_at_one known (t # ts) =
     (let b = t_bit t; dc = (tr_device b, unat (tr_cpu b))
      in if tr_action b = BLK_TN TN_MESSAGE then starts_at_one known ts
         else (dc \<in> known \<or> tr_sequence b = 1) \<and> starts_at_one (insert dc known) ts)"

definition seen_cpus :: "per_dev_info list \<Rightarrow> (u32 \<times> nat) set" where
  "seen_cpus pdis = {(dev, c). seen pdis dev c}"

lemma starts_at_one_mono: "starts_at_one known ts \<Longrightarrow> known \<subseteq> known' \<Longrightarrow> starts_at_one known' ts"
proof (induction ts arbitrary: known known')
  case (Cons t ts)
  have "starts_at_one (insert dc known') ts" if "starts_at_one (insert dc known) ts" for dc
    using Cons.IH [OF that] Cons.prems(2) by blast
  then show ?case
    using Cons.prems Cons.IH [of known known'] by (auto simp: Let_def)
qed simp

lemma moves_seen: "moves bs s s' \<Longrightarrow> seen_cpus (devices s) \<subseteq> seen_cpus (devices s')"
  using devs_step_seen [OF moves_devs] by (auto simp: seen_cpus_def)

lemma update_dev_moves:
  assumes "devs_ok (devices s)" "d < length (devices s)" "dev_step (devices s ! d) pdi"
  shows "moves [] s (set_dev d pdi s)"
  using moves_devices [OF devs_step_update [OF assms]] by (simp add: set_dev_def)

lemma moves_devs_ok: "moves bs s s' \<Longrightarrow> devs_ok (devices s')"
  by (auto simp: moves_def devs_step_def)

lemma rb_erase_elem: "rb_erase (Nd c l x r) p = rb_erase (Nd c l y r) p"
  by simp

lemma store_bit_ok:
  assumes "elem_at (u, q) = Some t"
  shows "elem_at (store_bit b (u, q)) = Some (t\<lparr>t_bit := b\<rparr>)"
    "rb_erase (fst (store_bit b (u, q))) (snd (store_bit b (u, q))) = rb_erase u q"
  using assms by (cases u; simp)+

lemma put_trace_ok:
  assumes "sorter_ok s" "inorder (rb_sort_root s) = t # ts" "rb_first (rb_sort_root s) = Some n" "d < length (devices s)"
    and "tr_cpu b = tr_cpu (t_bit t)"
  shows "\<exists>r s'. put_trace d (store_bit b n) s = Some s' \<and> queue_inv r \<and> inorder r = ts
    \<and> moves [] (s\<lparr>rb_sort_root := r, rb_sort_entries := rb_sort_entries s - 1\<rparr>) s'"
proof -
  obtain u q r where n: "n = (u, q)" "elem_at (u, q) = Some t" "rb_erase u q = Some r" "queue_inv r" "inorder r = ts"
    using rb_first_ok [of "rb_sort_root s" t ts] assms by (auto simp: sorter_ok_def)
  have "dev_ok (devices s ! d)" "0 \<le> sint (tr_cpu (t_bit t))"
    using assms by (auto simp: sorter_ok_def devs_ok_def trace_ok_def)
  then obtain pdi where pdi: "trace_rb_insert_last (rb_batch s) (devices s ! d) (t\<lparr>t_bit := b\<rparr>) = Some pdi"
    "dev_step (devices s ! d) pdi"
    using trace_rb_insert_last_ok [of "devices s ! d" "t\<lparr>t_bit := b\<rparr>" "rb_batch s"] assms(5) by auto
  let ?s = "s\<lparr>rb_sort_root := r, rb_sort_entries := rb_sort_entries s - 1\<rparr>"
  have "moves [] ?s (set_dev d pdi ?s)"
    using assms pdi(2) by (intro update_dev_moves) (auto simp: sorter_ok_def)
  moreover have "put_trace d (store_bit b n) s = Some (set_dev d pdi ?s)"
    using n(1,3) store_bit_ok [OF n(2), of b] pdi(1) by (simp add: put_trace_def Let_def)
  ultimately show ?thesis
    using n by blast
qed

lemma moves_resort:
  assumes "moves bs s s'"
  shows "moves bs (s\<lparr>rb_sort_root := r, rb_sort_entries := e\<rparr>) (s'\<lparr>rb_sort_root := r, rb_sort_entries := e\<rparr>)"
proof -
  obtain pdis g where "s' = s\<lparr>devices := pdis, globs := g\<rparr>" "devs_step (devices s) pdis" "same_options (globs s) g"
    "binary_out g = binary_out (globs s) @ bs"
    using assms unfolding moves_def by blast
  then show ?thesis
    unfolding moves_def by (intro exI [of _ pdis] exI [of _ g]) simp
qed

lemma moves_entries: "moves bs s s' \<Longrightarrow> rb_sort_entries s' = rb_sort_entries s"
  by (auto simp: moves_def)

lemma named_step: "devs_step a b \<Longrightarrow> d < length a \<Longrightarrow> cpu_named (a ! d) c \<Longrightarrow> cpu_named (b ! d) c"
  using devs_stepD [of a b d] by (auto simp: dev_step_def)

lemma ucast_not_minus_1: "(ucast (q :: u32) :: u64) \<noteq> - 1"
proof
  assume "(ucast q :: u64) = - 1"
  then have "unat (ucast q :: u64) = unat (- 1 :: u64)"
    by simp
  moreover have "unat q < 2 ^ 32"
    using unsigned_less [of q] by simp
  ultimately show False
    by (simp add: unsigned_ucast_eq take_bit_nat_eq_self unsigned_minus_1_eq_mask mask_eq_exp_minus_1)
qed

lemma last_sequence_step:
  assumes "dev_ok pdi" "c < length (pdi_cpus pdi)"
  shows "dev_step pdi (set_cpu c (\<lambda>pci. (if m then pci\<lparr>last_sequence := ucast (q :: u32)\<rparr> else pci)\<lparr>pci_nelems := k pci\<rparr>) pdi)"
  using assms ucast_not_minus_1 [of q] by (intro set_cpu_step) (auto simp: dev_ok_def cpu_ok_def)

lemma last_sequence_seen:
  assumes "c < length (pdi_cpus pdi)" "m"
  shows "cpu_seen (set_cpu c (\<lambda>pci. (if m then pci\<lparr>last_sequence := ucast (q :: u32)\<rparr> else pci)\<lparr>pci_nelems := k pci\<rparr>) pdi) c"
  using assms ucast_not_minus_1 [of q] by (simp add: cpu_seen_def set_cpu_def)

text \<open>Updating the time and the counters before the dump.\<close>

lemma count_trace_ok:
  assumes "devs_ok (devices s)" "d < length (devices s)" "0 \<le> sint (tr_cpu b)" "cache_ok (devices s) (Some d) pci"
  shows "\<exists>s'. count_trace d pci b s = Some (s', unat (tr_cpu b))
    \<and> moves [] s s' \<and> cpu_named (devices s' ! d) (unat (tr_cpu b))
    \<and> (tr_action b \<noteq> BLK_TN TN_MESSAGE \<longrightarrow> cpu_seen (devices s' ! d) (unat (tr_cpu b)))"
proof -
  let ?c = "unat (tr_cpu b)"
  define s1 where "s1 = set_dev d (check_time b (devices s ! d)) s"
  have m1: "moves [] s s1"
    unfolding s1_def using assms(1,2) by (intro update_dev_moves check_time_step) (auto simp: devs_ok_def)
  have d1: "d < length (devices s1)"
    using devs_stepD [OF moves_devs [OF m1] assms(2)] by simp
  obtain pdis where p: "find_pci d pci (tr_cpu b) s1 = Some (s1\<lparr>devices := pdis\<rparr>, ?c)"
    "devs_step (devices s1) pdis" "cpu_named (pdis ! d) ?c"
    using find_pci_ok [OF moves_devs_ok [OF m1] d1 assms(3) cache_step [OF assms(4) moves_devs [OF m1]]] by blast
  define s2 where "s2 = s1\<lparr>devices := pdis\<rparr>"
  have m2: "moves [] s s2"
    unfolding s2_def by (rule moves_nil_trans [OF m1 moves_devices [OF p(2)]])
  have d2: "d < length (devices s2)" "dev_ok (devices s2 ! d)" "?c < length (pdi_cpus (devices s2 ! d))"
    using devs_stepD [OF p(2) d1] p(3) by (simp_all add: s2_def dev_step_def cpu_named_def)
  let ?m = "tr_action b \<noteq> BLK_TN TN_MESSAGE"
  define pdi where "pdi = set_cpu ?c (\<lambda>pci. (if ?m then pci\<lparr>last_sequence := ucast (tr_sequence b)\<rparr> else pci)
           \<lparr>pci_nelems := pci_nelems pci + 1\<rparr>) (devices s2 ! d)"
  note step = last_sequence_step [OF d2(2,3), where m = ?m and q = "tr_sequence b" and k = "\<lambda>pci. pci_nelems pci + 1"]
  have step_pdi: "dev_step (devices s2 ! d) pdi"
    unfolding pdi_def by (rule step)
  have "count_trace d pci b s = Some (set_dev d pdi s2, ?c)"
    by (simp add: count_trace_def Let_def s1_def [symmetric] p(1) s2_def pdi_def)
  moreover have "moves [] s (set_dev d pdi s2)"
    using moves_nil_trans [OF m2 update_dev_moves [OF moves_devs_ok [OF m2] d2(1) step_pdi]] .
  moreover have "devices (set_dev d pdi s2) ! d = pdi"
    using d2(1) by (simp add: set_dev_def)
  moreover have "cpu_named pdi ?c"
    using step_pdi p(3) by (simp add: dev_step_def s2_def)
  moreover have "?m \<longrightarrow> cpu_seen pdi ?c"
    unfolding pdi_def using last_sequence_seen [OF d2(3), of ?m "\<lambda>pci. pci_nelems pci + 1" "tr_sequence b"] by simp
  ultimately show ?thesis
    by (intro exI [of _ "set_dev d pdi s2"]) simp
qed

lemma show_trace_ok:
  assumes "sorter_ok s" "inorder (rb_sort_root s) = t # ts" "rb_first (rb_sort_root s) = Some n"
    and "d < length (devices s)" "cache_ok (devices s) (Some d) pci" "b = t_bit t"
  shows "\<exists>r s'. show_trace d pci n b s = Some (unat (tr_cpu b), s') \<and> queue_inv r \<and> inorder r = ts
    \<and> moves (wrote s [b]) (s\<lparr>rb_sort_root := r, rb_sort_entries := rb_sort_entries s - 1\<rparr>) s'
    \<and> cpu_named (devices s' ! d) (unat (tr_cpu b))
    \<and> (tr_action b \<noteq> BLK_TN TN_MESSAGE \<longrightarrow> cpu_seen (devices s' ! d) (unat (tr_cpu b)))"
proof -
  let ?c = "unat (tr_cpu b)"
  have ok: "devs_ok (devices s)" "0 \<le> sint (tr_cpu b)" "payload_ok b"
    using assms by (auto simp: sorter_ok_def trace_ok_def)
  obtain s1 where 1: "count_trace d pci b s = Some (s1, ?c)" "moves [] s s1" "cpu_named (devices s1 ! d) ?c"
    "tr_action b \<noteq> BLK_TN TN_MESSAGE \<longrightarrow> cpu_seen (devices s1 ! d) ?c"
    using count_trace_ok [of s d b pci] assms(4,5) ok(1,2) by blast
  have d1: "d < length (devices s1)" "dev_ok (devices s1 ! d)"
    using devs_stepD [OF moves_devs [OF 1(2)] assms(4)] by (simp_all add: dev_step_def)
  have w: "wrote s = wrote s1"
    by (rule moves_wrote [OF 1(2), symmetric])
  obtain b' s2 where 2: "(if selected (act_mask s1) b then dump_at d ?c b s1 else Some (b, s1)) = Some (b', s2)"
    "tr_cpu b' = tr_cpu b"
    "moves (wrote s [b]) s1 s2"
  proof (cases "selected (act_mask s1) b")
    case False
    then show ?thesis
      using that [of b s1] moves_devices [OF devs_step_refl [OF moves_devs_ok [OF 1(2)]]]
      by (simp add: w) (simp add: written_def)
  next
    case True
    obtain pdi g where dump: "dump_at d ?c b s1 = Some (dumped (globs s1) b, set_dev d pdi (s1\<lparr>globs := g\<rparr>))"
      "dev_step (devices s1 ! d) pdi" "same_options (globs s1) g"
      "binary_out g = binary_out (globs s1) @ (if recorded (globs s1) b then [dumped (globs s1) b] else [])"
      using dump_at_ok [OF d1(2), of ?c b] 1(3) ok(3) by (auto simp: cpu_named_def)
    then have "moves (wrote s [b]) s1 (set_dev d pdi (s1\<lparr>globs := g\<rparr>))"
      using devs_step_update [OF moves_devs_ok [OF 1(2)] d1(1) dump(2)] True
      unfolding moves_def w by (intro exI [of _ "(devices s1)[d := pdi]"] exI [of _ g]) (auto simp: set_dev_def written_def)
    then show ?thesis
      using that [of "dumped (globs s1) b"] dump(1) True by simp
  qed
  have m2: "moves (wrote s [b]) s s2"
    by (rule moves_nil_trans [OF 1(2) 2(3)])
  have d2: "d < length (devices s2)" "dev_step (devices s1 ! d) (devices s2 ! d)"
    using devs_stepD [OF moves_devs [OF 2(3)] d1(1)] by simp_all
  have root: "rb_sort_root s2 = rb_sort_root s" "rb_sort_entries s2 = rb_sort_entries s"
    using m2 moves_entries by auto
  obtain r s3 where 3: "put_trace d (store_bit b' n) s2 = Some s3" "queue_inv r" "inorder r = ts"
    "moves [] (s2\<lparr>rb_sort_root := r, rb_sort_entries := rb_sort_entries s2 - 1\<rparr>) s3"
    using put_trace_ok [OF moves_ok [OF m2 assms(1)], of t ts n d b'] assms(2,3,6) d2(1) root 2(2) by auto
  have d3: "dev_step (devices s2 ! d) (devices s3 ! d)"
    using devs_stepD [OF moves_devs [OF 3(4)], of d] d2(1) by simp
  have "moves (wrote s [b]) (s\<lparr>rb_sort_root := r, rb_sort_entries := rb_sort_entries s - 1\<rparr>) s3"
    using moves_trans [OF moves_resort [OF m2] 3(4) [unfolded root(2)]] by simp
  moreover have "dev_step (devices s1 ! d) (devices s3 ! d)"
    by (rule dev_step_trans [OF d2(2) d3])
  ultimately show ?thesis
    using 1 2(1) 3 by (intro exI [of _ r] exI [of _ s3]) (auto simp: show_trace_def dev_step_def)
qed

lemma show_step_ok:
  assumes "sorter_ok s" "inorder (rb_sort_root s) = t # ts" "rb_first (rb_sort_root s) = Some n"
    and "cache_ok (devices s) pdi pci" "starts_at_one (seen_cpus (devices s)) (t # ts)"
  shows "(\<exists>s'. show_step force pdi pci n s = Some (None, s') \<and> \<not> force \<and> moves [] s s')
    \<or> (\<exists>d c r s'. show_step force pdi pci n s = Some (Some (d, c), s') \<and> cache_ok (devices s') (Some d) (Some c)
        \<and> queue_inv r \<and> inorder r = ts \<and> starts_at_one (seen_cpus (devices s')) ts
        \<and> moves (wrote s [t_bit t])
            (s\<lparr>rb_sort_root := r, rb_sort_entries := rb_sort_entries s - 1\<rparr>) s')"
proof -
  let ?b = "t_bit t"
  let ?c = "unat (tr_cpu ?b)"
  let ?msg = "tr_action ?b = BLK_TN TN_MESSAGE"
  have ok: "devs_ok (devices s)" "0 \<le> sint (tr_cpu ?b)" "tr_device ?b \<noteq> 0"
    using assms(1,2) by (auto simp: sorter_ok_def trace_ok_def)
  have n: "elem_at n = Some t"
    using rb_first_ok [of "rb_sort_root s" t ts] assms(1-3) by (auto simp: sorter_ok_def)
  have same: "moves [] s s"
    using moves_devices [OF devs_step_refl [OF ok(1)]] by simp
  show ?thesis
  proof (cases "(is_done s \<and> \<not> force \<and> \<not> pipeline s) \<or> (read_sequence s - t_read_sequence t < 1 \<and> \<not> force)")
    case True
    then show ?thesis
      using same n by (auto simp: show_step_def Let_def)
  next
    case False
    obtain pdis d pci' where f: "find_pdi pdi pci (tr_device ?b) s = (s\<lparr>devices := pdis\<rparr>, d, pci')"
      "devs_step (devices s) pdis" "d < length pdis" "pdi_dev (pdis ! d) = tr_device ?b" "cache_ok pdis (Some d) pci'"
      using find_pdi_ok [OF ok(1,3) assms(4)] by blast
    define s1 where "s1 = s\<lparr>devices := pdis\<rparr>"
    have m1: "moves [] s s1"
      unfolding s1_def by (rule moves_devices [OF f(2)])
    have pdis: "devs_ok pdis" "dev_ok (pdis ! d)"
      using f(2,3) by (auto simp: devs_step_def devs_ok_def)
    have fresh: "cpu_seen (pdis ! d) ?c \<or> tr_sequence ?b = 1" if "\<not> ?msg"
    proof (cases "tr_sequence ?b = 1")
      case False
      then have "(tr_device ?b, ?c) \<in> seen_cpus (devices s)"
        using assms(5) that by (simp add: Let_def)
      then have "seen pdis (pdi_dev (pdis ! d)) ?c"
        using devs_step_seen [OF f(2)] f(4) by (simp add: seen_cpus_def)
      then show ?thesis
        using seen_at [OF pdis(1) f(3)] by simp
    qed simp
    obtain pdi2 stop where q: "(if \<not> ?msg then check_sequence (malloc_map s1) (rb_sort_root s1) t force (pdis ! d)
        else Some (pdis ! d, False)) = Some (pdi2, stop)" "dev_step (pdis ! d) pdi2" "force \<longrightarrow> \<not> stop"
      using check_sequence_ok [OF pdis(2) ok(2) fresh, of "malloc_map s1" "rb_sort_root s1" force] dev_step_refl [OF pdis(2)]
      by (cases ?msg) auto
    define s2 where "s2 = set_dev d pdi2 s1"
    have m2: "moves [] s s2"
      unfolding s2_def using moves_nil_trans [OF m1 update_dev_moves [of s1 d pdi2]] pdis f(3) q(2) by (simp add: s1_def)
    have step: "show_step force pdi pci n s =
        (if stop \<or> (\<not> force \<and> tr_time ?b > last_allowed_time s2) then Some (None, s2)
         else do { (c, s) \<leftarrow> show_trace d pci' n ?b s2; Some (Some (d, c), s) })"
      using False n f(1) q(1) by (auto simp: show_step_def Let_def s1_def s2_def set_dev_def)
    show ?thesis
    proof (cases "stop \<or> (\<not> force \<and> tr_time ?b > last_allowed_time s2)")
      case True
      then show ?thesis
        using step m2 q(3) by auto
    next
      case False
      have s2: "sorter_ok s2" "rb_sort_root s2 = rb_sort_root s" "rb_sort_entries s2 = rb_sort_entries s" "wrote s2 = wrote s"
        using moves_ok [OF m2 assms(1)] moves_root [OF m2] moves_entries [OF m2] moves_wrote [OF m2] by simp_all
      have d2: "d < length (devices s2)" "devs_step pdis (devices s2)"
        using devs_step_update [OF pdis(1) f(3) q(2)] f(3) by (simp_all add: s2_def s1_def set_dev_def)
      obtain r s3 where t: "show_trace d pci' n ?b s2 = Some (?c, s3)" "queue_inv r" "inorder r = ts"
        "moves (wrote s [?b]) (s2\<lparr>rb_sort_root := r, rb_sort_entries := rb_sort_entries s - 1\<rparr>) s3"
        "cpu_named (devices s3 ! d) ?c" "\<not> ?msg \<longrightarrow> cpu_seen (devices s3 ! d) ?c"
        using show_trace_ok [OF s2(1), of t ts n d pci' ?b] assms(2,3) cache_step [OF f(5) d2(2)] d2(1) s2 by auto
      have m3: "moves (wrote s [?b]) (s\<lparr>rb_sort_root := r, rb_sort_entries := rb_sort_entries s - 1\<rparr>) s3"
        by (rule moves_nil_trans [OF moves_resort [OF m2] t(4)])
      have "devs_step (devices s2) (devices s3)"
        using moves_devs [OF t(4)] by simp
      then have d3: "d < length (devices s3)" "pdi_dev (devices s3 ! d) = tr_device ?b"
        using devs_stepD [OF _ d2(1)] devs_stepD [OF d2(2) f(3)] f(4) by (auto simp: dev_step_def)
      have known: "seen_cpus (devices s) \<subseteq> seen_cpus (devices s3)"
        using moves_seen [OF m3] by simp
      have "starts_at_one (seen_cpus (devices s3)) ts"
      proof (cases ?msg)
        case True
        then show ?thesis
          using assms(5) starts_at_one_mono [OF _ known] by simp
      next
        case False
        then have "(tr_device ?b, ?c) \<in> seen_cpus (devices s3)"
          using t(6) d3 nth_mem [OF d3(1)] by (auto simp: seen_cpus_def seen_def)
        then show ?thesis
          using assms(5) False known starts_at_one_mono [of "insert (tr_device ?b, ?c) (seen_cpus (devices s))"]
          by (simp add: Let_def)
      qed
      moreover have "cache_ok (devices s3) (Some d) (Some ?c)"
        using d3(1) t(5) by (simp add: cache_ok_def)
      moreover have "show_step force pdi pci n s = Some (Some (d, ?c), s3)"
        using False step t(1) by simp
      ultimately show ?thesis
        using t(2,3) m3 by blast
    qed
  qed
qed

lemma moves_self: "devs_ok (devices s) \<Longrightarrow> moves [] s s"
  using moves_devices [of s "devices s"] devs_step_refl by simp

lemma resort_self: "rb_sort_root s = r \<Longrightarrow> s\<lparr>rb_sort_root := r, rb_sort_entries := rb_sort_entries s\<rparr> = s"
  by (cases s) auto

lemma show_loop_ok:
  assumes "sorter_ok s" "inorder (rb_sort_root s) = ts" "cache_ok (devices s) pdi pci"
    and "starts_at_one (seen_cpus (devices s)) ts"
  shows "\<exists>k r s'. show_loop force pdi pci s = Some s' \<and> k \<le> length ts \<and> (force \<longrightarrow> k = length ts)
    \<and> queue_inv r \<and> inorder r = drop k ts \<and> starts_at_one (seen_cpus (devices s')) (drop k ts)
    \<and> moves (wrote s (map t_bit (take k ts)))
        (s\<lparr>rb_sort_root := r, rb_sort_entries := rb_sort_entries s - of_nat k\<rparr>) s'"
  using assms
proof (induction ts arbitrary: s pdi pci)
  case Nil
  have root: "rb_sort_root s = Null"
    using Nil.prems(2) by simp
  have "devs_ok (devices s)"
    using Nil.prems(1) by (simp add: sorter_ok_def)
  then have m: "moves [] (s\<lparr>rb_sort_root := Null, rb_sort_entries := rb_sort_entries s\<rparr>) s"
    unfolding resort_self [OF root] by (rule moves_self)
  have "show_loop force pdi pci s = Some s"
    by (subst show_loop.simps) (simp add: root rb_first_def)
  with m show ?case
    by (intro exI [of _ 0] exI [of _ Null] exI [of _ s]) simp
next
  case (Cons t ts)
  obtain n where n: "rb_first (rb_sort_root s) = Some n"
    using rb_first_ok [of "rb_sort_root s" t ts] Cons.prems(1,2) by (auto simp: sorter_ok_def)
  note loop = show_loop.simps [of force pdi pci s]
  from show_step_ok [OF Cons.prems(1,2) n Cons.prems(3,4), of force] show ?case
  proof (elim disjE exE conjE)
    fix s'
    assume stop: "show_step force pdi pci n s = Some (None, s')" "\<not> force" "moves [] s s'"
    then have "show_loop force pdi pci s = Some s'"
      unfolding loop by (simp add: n)
    with stop(2,3) show ?thesis
      using Cons.prems(1,2) starts_at_one_mono [OF Cons.prems(4) moves_seen [OF stop(3)]]
      by (intro exI [of _ 0] exI [of _ "rb_sort_root s"] exI [of _ s'])
        (simp add: sorter_ok_def resort_self [OF refl])
  next
    fix d c r s1
    assume step: "show_step force pdi pci n s = Some (Some (d, c), s1)" and cache: "cache_ok (devices s1) (Some d) (Some c)"
      and r: "queue_inv r" "inorder r = ts" and starts: "starts_at_one (seen_cpus (devices s1)) ts"
      and m: "moves (wrote s [t_bit t])
        (s\<lparr>rb_sort_root := r, rb_sort_entries := rb_sort_entries s - 1\<rparr>) s1"
    have "sorter_ok (s\<lparr>rb_sort_root := r, rb_sort_entries := rb_sort_entries s - 1\<rparr>)"
      using Cons.prems(1,2) r by (auto simp: sorter_ok_def)
    from moves_ok [OF m this] have ok: "sorter_ok s1" .
    have s1: "inorder (rb_sort_root s1) = ts" "rb_sort_entries s1 = rb_sort_entries s - 1" "wrote s1 = wrote s"
      using moves_root [OF m] moves_entries [OF m] moves_wrote [OF m] r(2) by (simp_all add: wrote_resort)
    obtain k r' s' where IH: "show_loop force (Some d) (Some c) s1 = Some s'" "k \<le> length ts" "force \<longrightarrow> k = length ts"
      "queue_inv r'" "inorder r' = drop k ts" "starts_at_one (seen_cpus (devices s')) (drop k ts)"
      "moves (wrote s1 (map t_bit (take k ts)))
        (s1\<lparr>rb_sort_root := r', rb_sort_entries := rb_sort_entries s1 - of_nat k\<rparr>) s'"
      using Cons.IH [OF ok s1(1) cache starts] by blast
    have e: "rb_sort_entries s - 1 - of_nat k = rb_sort_entries s - of_nat (Suc k)"
      by (simp add: algebra_simps)
    have "moves (wrote s [t_bit t] @ wrote s (map t_bit (take k ts)))
        (s\<lparr>rb_sort_root := r', rb_sort_entries := rb_sort_entries s - of_nat (Suc k)\<rparr>) s'"
      using moves_trans [OF moves_resort [OF m] IH(7) [unfolded s1(2,3)]] unfolding e by simp
    then show ?thesis
      using step IH(1-6) n by (intro exI [of _ "Suc k"] exI [of _ r'] exI [of _ s']) (auto simp: loop)
  qed
qed

section \<open>A batch in the sort tree\<close>

text \<open>The traces of the list that are inserted.\<close>

definition kept :: "sorter \<Rightarrow> trace list \<Rightarrow> trace list" where
  "kept s ts = filter (\<lambda>t. \<not> check_stopwatch s (t_bit t)) (map (shifted (genesis_time s)) ts)"

lemma smallest_step:
  assumes "dev_ok pdi" "c < length (pdi_cpus pdi)"
  shows "dev_step pdi (set_cpu c (\<lambda>pci. pci\<lparr>smallest_seq_read := q\<rparr>) pdi)"
  using assms by (intro set_cpu_step) (auto simp: dev_ok_def cpu_ok_def)

lemma note_smallest_ok:
  assumes "devs_ok (devices s)" "d < length (devices s)" "cpu_named (devices s ! d) c"
  shows "moves [] s (note_smallest d c q s)" "cache_ok (devices (note_smallest d c q s)) (Some d) (Some c)"
proof -
  have "dev_ok (devices s ! d)"
    using assms(1,2) by (simp add: devs_ok_def)
  then have "dev_step (devices s ! d) (set_cpu c (\<lambda>pci. pci\<lparr>smallest_seq_read := ucast q\<rparr>) (devices s ! d))"
    using smallest_step assms(3) by (simp add: cpu_named_def)
  from update_dev_moves [OF assms(1,2) this] show m: "moves [] s (note_smallest d c q s)"
    using moves_self [OF assms(1)] by (simp add: note_smallest_def)
  have "cache_ok (devices s) (Some d) (Some c)"
    using assms by (simp add: cache_ok_def)
  from cache_step [OF this moves_devs [OF m]] show "cache_ok (devices (note_smallest d c q s)) (Some d) (Some c)" .
qed

lemma insert_sort_ok:
  assumes "sorter_ok s" "trace_ok t"
  shows "\<exists>r. trace_rb_insert_sort t s = Some (s\<lparr>rb_sort_root := r, rb_sort_entries := rb_sort_entries s + 1\<rparr>)
    \<and> queue_inv r \<and> (\<forall>u \<in> set (inorder r). trace_ok u)
    \<and> inorder r = sort_key trace_key (inorder (rb_sort_root s) @ [t])"
proof -
  have inv: "queue_inv (rb_sort_root s)"
    using assms(1) by (simp add: sorter_ok_def)
  then obtain r where r: "trace_rb_insert t (rb_sort_root s) = Some r" "queue_inv r"
    using trace_rb_insert_ok by blast
  have "inorder (rb_sort_root s) = sort_key trace_key (inorder (rb_sort_root s))"
    using inv by (simp add: queue_inv_def sort_key_id_if_sorted)
  from trq.enq_sort [OF inv r(1) this] show ?thesis
    using assms r by (intro exI [of _ r]) (auto simp: trace_rb_insert_sort_def sorter_ok_def)
qed

text \<open>One iteration of \<open>sort_loop\<close> before the insertion.\<close>

lemma sort_lookup_ok:
  assumes "devs_ok (devices s)" "0 \<le> sint (tr_cpu b)" "tr_device b \<noteq> 0" "cache_ok (devices s) pdi pci"
  shows "\<exists>d pci' s1 s2. find_pdi pdi pci (tr_device b) s = (s1, d, pci')
    \<and> find_pci d pci' (tr_cpu b) s1 = Some (s2, unat (tr_cpu b))
    \<and> moves [] s (note_smallest d (unat (tr_cpu b)) q s2)
    \<and> cache_ok (devices (note_smallest d (unat (tr_cpu b)) q s2)) (Some d) (Some (unat (tr_cpu b)))"
proof -
  let ?c = "unat (tr_cpu b)"
  obtain pdis d pci' where f: "find_pdi pdi pci (tr_device b) s = (s\<lparr>devices := pdis\<rparr>, d, pci')"
    "devs_step (devices s) pdis" "d < length pdis" "cache_ok pdis (Some d) pci'"
    using find_pdi_ok [OF assms(1,3,4)] by blast
  define s1 where "s1 = s\<lparr>devices := pdis\<rparr>"
  have m1: "moves [] s s1"
    unfolding s1_def by (rule moves_devices [OF f(2)])
  obtain pdis2 where p: "find_pci d pci' (tr_cpu b) s1 = Some (s1\<lparr>devices := pdis2\<rparr>, ?c)"
    "devs_step (devices s1) pdis2" "cpu_named (pdis2 ! d) ?c"
    using find_pci_ok [OF moves_devs_ok [OF m1], of d "tr_cpu b" pci'] f(3,4) assms(2) by (auto simp: s1_def)
  define s2 where "s2 = s1\<lparr>devices := pdis2\<rparr>"
  have m2: "moves [] s s2"
    unfolding s2_def by (rule moves_nil_trans [OF m1 moves_devices [OF p(2)]])
  have "d < length (devices s2)" "cpu_named (devices s2 ! d) ?c"
    using devs_stepD [OF p(2), of d] f(3) p(3) by (simp_all add: s1_def s2_def)
  note n = note_smallest_ok [OF moves_devs_ok [OF m2] this]
  show ?thesis
    using f(1) p(1) moves_nil_trans [OF m2 n(1)] n(2) unfolding s1_def [symmetric] s2_def [symmetric] by blast
qed

lemma sort_key_twice: "sort_key f (sort_key f xs @ ys) = sort_key f (xs @ ys)"
proof (rule properties_for_sort_key)
  show "filter (\<lambda>x. f k = f x) (sort_key f (xs @ ys)) = filter (\<lambda>x. f k = f x) (sort_key f xs @ ys)" for k
    using sort_key_stable [of f "f k"] by (simp add: eq_commute)
qed simp_all

lemma moves_relist:
  assumes "moves bs s s'"
  shows "moves bs (s\<lparr>rb_sort_root := r, rb_sort_entries := e, trace_list := ts\<rparr>)
    (s'\<lparr>rb_sort_root := r, rb_sort_entries := e, trace_list := ts\<rparr>)"
proof -
  obtain pdis g where "s' = s\<lparr>devices := pdis, globs := g\<rparr>" "devs_step (devices s) pdis" "same_options (globs s) g"
    "binary_out g = binary_out (globs s) @ bs"
    using assms unfolding moves_def by blast
  then show ?thesis
    unfolding moves_def by (intro exI [of _ pdis] exI [of _ g]) simp
qed

lemma sort_loop_ok:
  assumes "sorter_ok s" "\<forall>t \<in> set ts. trace_ok t" "cache_ok (devices s) pdi pci"
  shows "\<exists>r s' y. sort_loop ts pdi pci youngest s = Some (s', y)
    \<and> queue_inv r \<and> (\<forall>t \<in> set (inorder r). trace_ok t)
    \<and> inorder r = sort_key trace_key (inorder (rb_sort_root s) @ kept s ts)
    \<and> moves [] (s\<lparr>rb_sort_root := r, rb_sort_entries := rb_sort_entries s + of_nat (length (kept s ts)), trace_list := []\<rparr>) s'"
  using assms
proof (induction ts arbitrary: s pdi pci youngest)
  case Nil
  let ?s = "s\<lparr>trace_list := []\<rparr>"
  have "moves [] ?s ?s"
    using Nil.prems(1) by (intro moves_self) (simp add: sorter_ok_def)
  moreover have "s\<lparr>rb_sort_root := rb_sort_root s, rb_sort_entries := rb_sort_entries s, trace_list := []\<rparr> = ?s"
    by (cases s) simp
  ultimately show ?case
    using Nil.prems(1)
    by (intro exI [of _ "rb_sort_root s"] exI [of _ ?s] exI [of _ youngest])
      (simp add: kept_def sorter_ok_def queue_inv_def sort_key_id_if_sorted)
next
  case (Cons t ts)
  let ?t = "shifted (genesis_time s) t"
  let ?b = "t_bit ?t"
  let ?c = "unat (tr_cpu ?b)"
  have t: "trace_ok ?t"
    using Cons.prems(2) by (simp add: trace_ok_def shifted_def payload_ok_def)
  obtain d pci' s1 s2 where l: "find_pdi pdi pci (tr_device ?b) s = (s1, d, pci')"
    "find_pci d pci' (tr_cpu ?b) s1 = Some (s2, ?c)" "moves [] s (note_smallest d ?c (tr_sequence ?b) s2)"
    "cache_ok (devices (note_smallest d ?c (tr_sequence ?b) s2)) (Some d) (Some ?c)"
    using sort_lookup_ok [of s ?b pdi pci "tr_sequence ?b"] Cons.prems(1,3) t
    by (auto simp: sorter_ok_def trace_ok_def)
  define s3 where "s3 = note_smallest d ?c (tr_sequence ?b) s2"
  define y where "y = (if tr_time ?b < youngest \<or> youngest = 0 then tr_time ?b else youngest)"
  have step: "sort_loop (t # ts) pdi pci youngest s =
      (if check_stopwatch s3 ?b then Some s3 else trace_rb_insert_sort ?t s3) \<bind> (\<lambda>s. sort_loop ts (Some d) (Some ?c) y s)"
    by (simp add: l(1,2) Let_def s3_def y_def)
  have s3: "sorter_ok s3" "rb_sort_root s3 = rb_sort_root s" "rb_sort_entries s3 = rb_sort_entries s"
    "\<And>ts. kept s3 ts = kept s ts" "check_stopwatch s3 = check_stopwatch s" "moves [] s s3"
    using moves_ok [OF l(3) Cons.prems(1)] moves_root [OF l(3)] moves_entries [OF l(3)] l(3)
    by (auto simp: s3_def moves_def kept_def check_stopwatch_def)
  note cache = l(4) [folded s3_def]
  show ?case
  proof (cases "check_stopwatch s ?b")
    case True
    then have k: "kept s (t # ts) = kept s ts"
      by (simp add: kept_def)
    obtain r s' y' where "sort_loop ts (Some d) (Some ?c) y s3 = Some (s', y')" "queue_inv r"
      "\<forall>t \<in> set (inorder r). trace_ok t" "inorder r = sort_key trace_key (inorder (rb_sort_root s3) @ kept s3 ts)"
      "moves [] (s3\<lparr>rb_sort_root := r, rb_sort_entries := rb_sort_entries s3 + of_nat (length (kept s3 ts)), trace_list := []\<rparr>) s'"
      using Cons.IH [OF s3(1) _ cache, of y] Cons.prems(2) by auto
    then show ?thesis
      using True moves_nil_trans [OF moves_relist [OF s3(6)]] unfolding k step s3(2-4)
      by (intro exI [of _ r] exI [of _ s'] exI [of _ y']) (simp add: s3(5))
  next
    case False
    then have k: "kept s (t # ts) = ?t # kept s ts"
      by (simp add: kept_def)
    obtain r0 where r0: "trace_rb_insert_sort ?t s3 = Some (s3\<lparr>rb_sort_root := r0, rb_sort_entries := rb_sort_entries s3 + 1\<rparr>)"
      "queue_inv r0" "\<forall>u \<in> set (inorder r0). trace_ok u" "inorder r0 = sort_key trace_key (inorder (rb_sort_root s) @ [?t])"
      using insert_sort_ok [OF s3(1) t] s3(2) by auto
    define s4 where "s4 = s3\<lparr>rb_sort_root := r0, rb_sort_entries := rb_sort_entries s3 + 1\<rparr>"
    have s4: "sorter_ok s4" "kept s4 ts = kept s ts" "cache_ok (devices s4) (Some d) (Some ?c)"
      using s3(1) r0(2,3) s3(4) [of ts] cache by (simp_all add: s4_def sorter_ok_def kept_def check_stopwatch_def)
    obtain r s' y' where "sort_loop ts (Some d) (Some ?c) y s4 = Some (s', y')" "queue_inv r"
      "\<forall>t \<in> set (inorder r). trace_ok t" "inorder r = sort_key trace_key (inorder r0 @ kept s ts)"
      "moves [] (s4\<lparr>rb_sort_root := r, rb_sort_entries := rb_sort_entries s4 + of_nat (length (kept s ts)), trace_list := []\<rparr>) s'"
      using Cons.IH [OF s4(1) _ s4(3), of y] Cons.prems(2) s4(2) by (auto simp: s4_def)
    moreover have "moves [] (s\<lparr>rb_sort_root := r, rb_sort_entries := e, trace_list := []\<rparr>)
        (s4\<lparr>rb_sort_root := r, rb_sort_entries := e, trace_list := []\<rparr>)" for e
      using moves_relist [OF s3(6), where r = r and e = e and ts = "[]"] by (simp add: s4_def)
    ultimately show ?thesis
      using False moves_nil_trans r0(1,4) sort_key_twice [of trace_key "inorder (rb_sort_root s) @ [?t]" "kept s ts"]
      unfolding k step s3(5)
      by (intro exI [of _ r] exI [of _ s'] exI [of _ y']) (simp add: s4_def s3(3) add.assoc, blast)
  qed
qed

lemma find_genesis_moves: "devs_ok (devices s) \<Longrightarrow> moves [] (s\<lparr>genesis_time := genesis_time (find_genesis s)\<rparr>) (find_genesis s)"
  unfolding moves_def
  by (intro exI [of _ "devices s"] exI [of _ "globs (find_genesis s)"])
    (auto simp: find_genesis_def Let_def devs_step_refl same_options_def options_def)

text \<open>The state after \<open>sort_entries\<close> has looked for the time of the first trace.\<close>

definition with_genesis :: "sorter \<Rightarrow> sorter" where
  "with_genesis s = (if genesis_time s = 0 then find_genesis s else s)"

lemma with_genesis_fields [simp]:
  "devices (with_genesis s) = devices s" "rb_sort_root (with_genesis s) = rb_sort_root s"
  "rb_sort_entries (with_genesis s) = rb_sort_entries s" "trace_list (with_genesis s) = trace_list s"
  "act_mask (with_genesis s) = act_mask s" "read_sequence (with_genesis s) = read_sequence s"
  by (simp_all add: with_genesis_def find_genesis_def Let_def)

lemma with_genesis_globs:
  "same_options (globs s) (globs (with_genesis s))" "binary_out (globs (with_genesis s)) = binary_out (globs s)"
  by (simp_all add: with_genesis_def find_genesis_def Let_def same_options_def options_def)

lemma sort_entries_ok:
  assumes "sorter_ok s" "\<forall>t \<in> set (trace_list s). trace_ok t"
  shows "\<exists>r s' y. sort_entries s = Some (s', y) \<and> sorter_ok s'
    \<and> inorder r = sort_key trace_key (inorder (rb_sort_root s) @ kept (with_genesis s) (trace_list s))
    \<and> moves [] ((with_genesis s)\<lparr>rb_sort_root := r,
        rb_sort_entries := rb_sort_entries s + of_nat (length (kept (with_genesis s) (trace_list s))), trace_list := []\<rparr>) s'"
proof -
  let ?s = "with_genesis s"
  have ok: "sorter_ok ?s"
    using assms(1) by (simp add: sorter_ok_def)
  obtain r s' y where r: "sort_loop (trace_list s) None None 0 ?s = Some (s', y)" "queue_inv r" "\<forall>t \<in> set (inorder r). trace_ok t"
    "inorder r = sort_key trace_key (inorder (rb_sort_root s) @ kept ?s (trace_list s))"
    "moves [] (?s\<lparr>rb_sort_root := r, rb_sort_entries := rb_sort_entries s + of_nat (length (kept ?s (trace_list s))), trace_list := []\<rparr>) s'"
    using sort_loop_ok [OF ok assms(2), of None None 0] by auto
  have "sorter_ok (?s\<lparr>rb_sort_root := r, rb_sort_entries := rb_sort_entries s + of_nat (length (kept ?s (trace_list s))), trace_list := []\<rparr>)"
    using ok r(2,3) by (simp add: sorter_ok_def)
  from moves_ok [OF r(5) this] show ?thesis
    using r(1,4,5) by (auto simp: sort_entries_def with_genesis_def [symmetric] Let_def)
qed

lemma show_entries_ok:
  assumes "sorter_ok s" "starts_at_one (seen_cpus (devices s)) (inorder (rb_sort_root s))"
  shows "\<exists>k r s'. show_entries_rb force s = Some s' \<and> k \<le> length (inorder (rb_sort_root s))
    \<and> (force \<longrightarrow> k = length (inorder (rb_sort_root s)))
    \<and> inorder r = drop k (inorder (rb_sort_root s)) \<and> sorter_ok s'
    \<and> starts_at_one (seen_cpus (devices s')) (drop k (inorder (rb_sort_root s)))
    \<and> moves (wrote s (map t_bit (take k (inorder (rb_sort_root s)))))
        (s\<lparr>rb_sort_root := r, rb_sort_entries := rb_sort_entries s - of_nat k\<rparr>) s'"
proof -
  obtain k r s' where k: "show_loop force None None s = Some s'" "k \<le> length (inorder (rb_sort_root s))"
    "force \<longrightarrow> k = length (inorder (rb_sort_root s))" "queue_inv r" "inorder r = drop k (inorder (rb_sort_root s))"
    "starts_at_one (seen_cpus (devices s')) (drop k (inorder (rb_sort_root s)))"
    "moves (wrote s (map t_bit (take k (inorder (rb_sort_root s)))))
        (s\<lparr>rb_sort_root := r, rb_sort_entries := rb_sort_entries s - of_nat k\<rparr>) s'"
    using show_loop_ok [OF assms(1) refl cache_ok_None assms(2), of force] by blast
  have "sorter_ok (s\<lparr>rb_sort_root := r, rb_sort_entries := rb_sort_entries s - of_nat k\<rparr>)"
    using assms(1) k(4,5) by (auto simp: sorter_ok_def dest: in_set_dropD)
  from moves_ok [OF k(7) this] show ?thesis
    using k by (auto simp: show_entries_rb_def)
qed

section \<open>Properties\<close>

text \<open>C1: \<open>sort_entries\<close> always returns; it empties the list of traces that were read and leaves in the sort tree
  what was there and the traces within the stopwatch interval, with times relative to the first trace, in
  the stable order of time, device and sequence number.\<close>

theorem sort_entries_sorts:
  assumes "sorter_ok s" "\<forall>t \<in> set (trace_list s). trace_ok t"
  shows "\<exists>s' y. sort_entries s = Some (s', y) \<and> sorter_ok s' \<and> trace_list s' = []
    \<and> inorder (rb_sort_root s') = sort_key trace_key (inorder (rb_sort_root s) @ kept (with_genesis s) (trace_list s))
    \<and> rb_sort_entries s' = rb_sort_entries s + of_nat (length (kept (with_genesis s) (trace_list s)))
    \<and> binary_out (globs s') = binary_out (globs s)"
proof -
  obtain r s' y where s': "sort_entries s = Some (s', y)" "sorter_ok s'"
    "inorder r = sort_key trace_key (inorder (rb_sort_root s) @ kept (with_genesis s) (trace_list s))"
    "moves [] ((with_genesis s)\<lparr>rb_sort_root := r,
        rb_sort_entries := rb_sort_entries s + of_nat (length (kept (with_genesis s) (trace_list s))), trace_list := []\<rparr>) s'"
    using sort_entries_ok [OF assms] by blast
  then show ?thesis
    using with_genesis_globs(2) [of s] by (intro exI [of _ s'] exI [of _ y]) (auto simp: moves_def)
qed

text \<open>Two traces of one CPU, the later one first in the list.\<close>

definition example_trace :: "u64 \<Rightarrow> u32 \<Rightarrow> trace" where
  "example_trace time sequence =
     \<lparr>t_bit = zero_trace\<lparr>tr_time := time, tr_sequence := sequence, tr_device := 8, tr_action := 0x10001\<rparr>, t_read_sequence = 0\<rparr>"

definition example_sorter :: sorter where
  "example_sorter = (init_sorter (\<lambda>_. zero_iot) (\<lambda>_. 0))\<lparr>trace_list := [example_trace 9 2, example_trace 5 1]\<rparr>"

theorem sort_entries_sorts_witness:
  "\<exists>s' y. sort_entries example_sorter = Some (s', y)
    \<and> inorder (rb_sort_root s') = [example_trace 0 1, example_trace 4 2]"
proof -
  have ok: "sorter_ok example_sorter"
    by (simp add: sorter_ok_def example_sorter_def init_sorter_def devs_ok_def)
  have traces: "\<forall>t \<in> set (trace_list example_sorter). trace_ok t"
    by (simp add: example_sorter_def trace_ok_def payload_ok_def example_trace_def zero_trace_def)
  have "kept (with_genesis example_sorter) (trace_list example_sorter) = [example_trace 4 2, example_trace 0 1]"
    by (simp add: kept_def with_genesis_def find_genesis_def example_sorter_def init_sorter_def init_globals_def
        shifted_def example_trace_def zero_trace_def check_stopwatch_def word_gt_0)
  moreover have "sort_key trace_key [example_trace 4 2, example_trace 0 1] = [example_trace 0 1, example_trace 4 2]"
    by (simp add: trace_key_def example_trace_def zero_trace_def less_eq_prod_def)
  moreover have "rb_sort_root example_sorter = Null"
    by (simp add: example_sorter_def init_sorter_def)
  ultimately show ?thesis
    using sort_entries_sorts [OF ok traces] by auto
qed



text \<open>C38: the first trace of a device that is read from a pipe makes \<open>check_sequence\<close> access memory outside the
  block it allocates, unless its sequence number is 0 or 1: \<open>cpu_map_max\<close> is 0 then, and so is the size of
  the block.\<close>

theorem pipe_cpu_map_overflow:
  assumes "0 \<le> sint (tr_cpu (t_bit t))" "tr_sequence (t_bit t) \<notin> {0, 1}"
  shows "check_sequence malloc root t force (zero_dev_info\<lparr>pdi_dev := dev\<rparr>) = None"
proof -
  let ?n = "unat (tr_cpu (t_bit t))"
  have "check_cpu_map malloc root pdi = None" if "cpu_map_max pdi = 0" for pdi
    using that by (simp add: check_cpu_map_def)
  moreover have "replicate (Suc ?n) x ! ?n = x" for x :: per_cpu_info
    by (simp only: nth_replicate lessI)
  moreover have "(ucast (tr_sequence (t_bit t)) :: u64) \<noteq> 0"
    using assms(2) by (simp add: unat_eq_0 [symmetric] unsigned_ucast_eq take_bit_nat_eq_self
      order_less_trans [OF unsigned_less] del: unat_eq_0)
  ultimately show ?thesis
    using assms by (simp add: check_sequence_def get_cpu_info_def resize_cpu_info_def zero_dev_info_def Let_def
        init_cpu_info_def zero_cpu_info_def del: replicate.simps)
qed

theorem pipe_cpu_map_overflow_witness:
  "check_sequence (\<lambda>_. 0) Null \<lparr>t_bit = zero_trace\<lparr>tr_sequence := 2\<rparr>, t_read_sequence = 0\<rparr> False
     (zero_dev_info\<lparr>pdi_dev := 8\<rparr>) = None"
  by (rule pipe_cpu_map_overflow) (simp_all add: zero_trace_def)

end
