(* ===== verification/Trace_Input.thy ===== *)
theory Trace_Input
  imports Sort_Pipeline
begin

text \<open>
  Reading traces from a pipe in \<open>blkparse.c\<close>: \<open>read_data\<close>, \<open>read_events\<close> and the loop \<open>do_pipe\<close> that reads
  batches, sorts them and shows them. The file descriptor is the list of what its \<open>read\<close> calls give; the bytes of a
  \<open>struct blk_io_trace\<close> are laid out as the compiler does on a 64-bit little-endian host.
\<close>

section \<open>Layout of the record\<close>

text \<open>Little-endian numbers.\<close>

primrec word_of_bytes :: "u8 list \<Rightarrow> 'a :: len word" where
  "word_of_bytes [] = 0"
| "word_of_bytes (b # bs) = ucast b OR push_bit 8 (word_of_bytes bs)"

primrec bytes_of_word :: "nat \<Rightarrow> 'a :: len word \<Rightarrow> u8 list" where
  "bytes_of_word 0 w = []"
| "bytes_of_word (Suc n) w = ucast w # bytes_of_word n (drop_bit 8 w)"

definition field :: "nat \<Rightarrow> nat \<Rightarrow> u8 list \<Rightarrow> 'a :: len word" where
  "field offset n bs = word_of_bytes (take n (drop offset bs))"

text \<open>The size of the struct, with two bytes of padding at the end.\<close>

definition sizeof_trace :: nat where
  "sizeof_trace = 56"

definition trace_of_bytes :: "u8 list \<Rightarrow> blk_io_trace" where
  "trace_of_bytes bs =
     \<lparr>tr_magic = field 0 4 bs, tr_sequence = field 4 4 bs, tr_time = field 8 8 bs, tr_sector = field 16 8 bs,
      tr_bytes = field 24 4 bs, tr_action = field 28 4 bs, tr_pid = field 32 4 bs, tr_device = field 36 4 bs,
      tr_cpu = field 40 4 bs, tr_error = field 44 2 bs, tr_vec_count = field 46 2 bs, tr_seq = field 48 4 bs,
      tr_pdu_len = field 52 2 bs, tr_pdu = []\<rparr>"

text \<open>The bytes of a record and its payload, as a tracer writes them.\<close>

definition header_bytes :: "blk_io_trace \<Rightarrow> u8 list" where
  "header_bytes t = bytes_of_word 4 (tr_magic t) @ bytes_of_word 4 (tr_sequence t) @ bytes_of_word 8 (tr_time t)
     @ bytes_of_word 8 (tr_sector t) @ bytes_of_word 4 (tr_bytes t) @ bytes_of_word 4 (tr_action t)
     @ bytes_of_word 4 (tr_pid t) @ bytes_of_word 4 (tr_device t) @ bytes_of_word 4 (tr_cpu t)
     @ bytes_of_word 2 (tr_error t) @ bytes_of_word 2 (tr_vec_count t) @ bytes_of_word 4 (tr_seq t)
     @ bytes_of_word 2 (tr_pdu_len t) @ [0, 0]"

definition trace_bytes :: "blk_io_trace \<Rightarrow> u8 list" where
  "trace_bytes t = header_bytes t @ tr_pdu t"

lemma length_bytes_of_word [simp]: "length (bytes_of_word n w) = n"
  by (induction n arbitrary: w) simp_all

lemma word_of_bytes_of_word: "word_of_bytes (bytes_of_word n (w :: 'a :: len word)) = take_bit (8 * n) w"
proof (induction n arbitrary: w)
  case (Suc n)
  show ?case
    by (rule bit_word_eqI) (auto simp: Suc.IH bit_simps)
qed simp

lemma word_of_bytes_of_word_full:
  "LENGTH('a) \<le> 8 * n \<Longrightarrow> word_of_bytes (bytes_of_word n (w :: 'a :: len word)) = w"
  by (simp add: word_of_bytes_of_word take_bit_word_eq_self)

lemma length_header [simp]: "length (header_bytes t) = sizeof_trace"
  by (simp add: header_bytes_def sizeof_trace_def)

lemma trace_bytes_nonempty: "trace_bytes t \<noteq> []"
proof
  assume "trace_bytes t = []"
  then have "length (header_bytes t) = 0"
    by (simp add: trace_bytes_def)
  then show False
    unfolding length_header by (simp add: sizeof_trace_def)
qed

lemma trace_of_header: "trace_of_bytes (header_bytes t) = t\<lparr>tr_pdu := []\<rparr>"
  unfolding trace_of_bytes_def field_def header_bytes_def
  by (simp add: word_of_bytes_of_word_full take_bit_word_eq_self)

section \<open>Reading\<close>

text \<open>The outcomes of \<open>read\<close>, in order; past the end of the list it returns 0. It returns at most the number of
  bytes that it is asked for, and the rest of the chunk stays.\<close>

datatype read_event = Bytes "u8 list" | Again | Failed

datatype read_result = Got "u8 list" | Eagain | Error

fun sys_read :: "nat \<Rightarrow> read_event list \<Rightarrow> read_result \<times> read_event list" where
  "sys_read n [] = (Got [], [])"
| "sys_read n (Again # es) = (Eagain, es)"
| "sys_read n (Failed # es) = (Error, es)"
| "sys_read n (Bytes bs # es) = (if length bs \<le> n then (Got bs, es) else (Got (take n bs), Bytes (drop n bs) # es))"

text \<open>The return codes 0, 1 and -1 of \<open>read_data\<close>; the buffer after a complete read.\<close>

datatype read_code = Read_ok "u8 list" | Read_eof | Read_error

function read_loop :: "nat \<Rightarrow> bool \<Rightarrow> u8 list \<Rightarrow> read_event list \<Rightarrow> read_code \<times> read_event list" where
  "read_loop bytes block p es =
     (if length p \<ge> bytes then (Read_ok p, es)
      else case sys_read (bytes - length p) es of
        (Got bs, es') \<Rightarrow> if bs = [] then (Read_eof, es') else read_loop bytes block (p @ bs) es'
      | (Error, es') \<Rightarrow> (Read_error, es')
      | (Eagain, es') \<Rightarrow> if p = [] \<and> \<not> block then (Read_eof, es') else read_loop bytes block p es')"
  by pat_completeness auto

lemma sys_read_smaller:
  assumes "sys_read n es = (r, es')" "n > 0" "r \<noteq> Error" "r \<noteq> Got []"
  shows "length es' + (n - (case r of Got bs \<Rightarrow> length bs | _ \<Rightarrow> 0)) < length es + n"
  using assms by (cases "(n, es)" rule: sys_read.cases) (auto split: if_splits)

termination read_loop
proof (relation "measure (\<lambda>(bytes, block, p, es). length es + (bytes - length p))")
  fix bytes :: nat and block :: bool and p :: "u8 list" and es x y bs
  assume "\<not> bytes \<le> length p" "(x, y) = sys_read (bytes - length p) es" "x = Got bs" "bs \<noteq> []"
  then show "((bytes, block, p @ bs, y), bytes, block, p, es) \<in> measure (\<lambda>(bytes, block, p, es). length es + (bytes - length p))"
    using sys_read_smaller [of "bytes - length p" es x y] by auto
next
  fix bytes :: nat and block :: bool and p :: "u8 list" and es x y
  assume "\<not> bytes \<le> length p" "(x, y) = sys_read (bytes - length p) es" "x = Eagain"
  then show "((bytes, block, p, y), bytes, block, p, es) \<in> measure (\<lambda>(bytes, block, p, es). length es + (bytes - length p))"
    using sys_read_smaller [of "bytes - length p" es x y] by auto
qed simp

declare read_loop.simps [simp del]

record input =
  in_events :: "read_event list"
  in_fdblock :: int

definition read_data :: "nat \<Rightarrow> bool \<Rightarrow> input \<Rightarrow> read_code \<times> input" where
  "read_data bytes block inp =
     (let fdblock = (if (if block then 1 else 0) \<noteq> in_fdblock inp then (if block then 1 else 0) else in_fdblock inp);
          (code, es) = read_loop bytes block [] (in_events inp)
      in (code, inp\<lparr>in_events := es, in_fdblock := fdblock\<rparr>))"

section \<open>Batches\<close>

text \<open>One iteration of the loop of \<open>read_events\<close>: its return value after a \<open>break\<close>, or the cached device and the
  number of events for the next iteration.\<close>

definition add_trace :: "nat option \<Rightarrow> blk_io_trace \<Rightarrow> sorter \<Rightarrow> nat \<times> sorter" where
  "add_trace pdi b s =
     (let s = s\<lparr>trace_list := \<lparr>t_bit = b, t_read_sequence = read_sequence s\<rparr> # trace_list s\<rparr>;
          (s, d, _) = find_pdi pdi None (tr_device b) s;
          pdi = devices s ! d
      in (d, if tr_time b > last_read_time pdi then set_dev d (pdi\<lparr>last_read_time := tr_time b\<rparr>) s else s))"

definition take_trace ::
    "nat option \<Rightarrow> u32 \<Rightarrow> blk_io_trace \<Rightarrow> sorter \<Rightarrow> (nat option \<times> u32) \<times> sorter" where
  "take_trace pdi events b s =
     (if verify_trace b \<noteq> None then ((pdi, events), s)
      else if has_tc (tr_action b) TC_NOTIFY \<and> tr_action b \<noteq> BLK_TN TN_MESSAGE then
        ((pdi, events), s\<lparr>globs := output_binary b (handle_notify b (globs s))\<rparr>)
      else let (d, s) = add_trace pdi b s in ((Some d, events + 1), s))"

definition learn_endianness :: "blk_io_trace \<Rightarrow> sorter \<Rightarrow> sorter option" where
  "learn_endianness b s =
     (if data_is_native (globs s) = Native_unknown then
        let (native, ok) = check_data_endianness (data_is_native (globs s)) (tr_magic b)
        in if ok then Some (s\<lparr>globs := (globs s)\<lparr>data_is_native := native\<rparr>\<rparr>) else None
      else Some s)"

definition read_pdu :: "nat \<Rightarrow> input \<Rightarrow> read_code \<times> input" where
  "read_pdu pdu_len inp = (if pdu_len = 0 then (Read_ok [], inp) else read_data pdu_len True inp)"

definition read_step ::
    "bool \<Rightarrow> nat option \<Rightarrow> u32 \<Rightarrow> sorter \<times> input \<Rightarrow> (int + (nat option \<times> u32)) \<times> sorter \<times> input" where
  "read_step always_block pdi events = (\<lambda>(s, inp).
     (let should_block = (events = 0 \<or> always_block);
          (ret, inp) = read_data sizeof_trace should_block inp
      in case ret of
           Read_eof \<Rightarrow> (Inl (uint events), s, inp)
         | Read_error \<Rightarrow> (Inl (if events = 0 then - 1 else uint events), s, inp)
         | Read_ok bs \<Rightarrow>
             let b = trace_of_bytes bs
             in case learn_endianness b s of
                  None \<Rightarrow> (Inl (uint events), s, inp)
                | Some s \<Rightarrow>
                    let native = data_is_native (globs s); pdu_len = unat (get_pdulen native b)
                    in if get_magic native b AND 0xffffff00 \<noteq> BLK_IO_TRACE_MAGIC then (Inl (uint events), s, inp)
                       else let (ret, inp) = read_pdu pdu_len inp
                            in case ret of
                                 Read_ok pdu \<Rightarrow>
                                   let (next, s) = take_trace pdi events (trace_to_cpu native (b\<lparr>tr_pdu := pdu\<rparr>)) s
                                   in (Inr next, s, inp)
                               | _ \<Rightarrow> (Inl (uint events), s, inp)))"

partial_function (option) read_events_loop ::
    "bool \<Rightarrow> nat option \<Rightarrow> u32 \<Rightarrow> sorter \<times> input \<Rightarrow> (int \<times> sorter \<times> input) option" where
  "read_events_loop always_block pdi events si =
     (if is_done (fst si) \<or> \<not> events < rb_batch (fst si) then Some (uint events, si)
      else case read_step always_block pdi events si of
        (Inl n, si) \<Rightarrow> Some (n, si)
      | (Inr (pdi, events), si) \<Rightarrow> read_events_loop always_block pdi events si)"

definition read_events :: "bool \<Rightarrow> sorter \<times> input \<Rightarrow> (int \<times> sorter \<times> input) option" where
  "read_events always_block si = read_events_loop always_block None 0 si"

section \<open>Piped input\<close>

partial_function (option) pipe_loop :: "sorter \<times> input \<Rightarrow> sorter option" where
  "pipe_loop si = do {
     (events, s, inp) \<leftarrow> read_events False si;
     if events > 0 then do {
       (s, youngest) \<leftarrow> sort_entries (s\<lparr>read_sequence := read_sequence s + 1\<rparr>);
       if youngest > stopwatch_end s then Some s
       else do {
         s \<leftarrow> show_entries_rb False s;
         pipe_loop (s, inp) } }
     else Some s }"

definition do_pipe :: "read_event list \<Rightarrow> sorter \<Rightarrow> sorter option" where
  "do_pipe es s = do {
     s \<leftarrow> pipe_loop (s\<lparr>last_allowed_time := - 1\<rparr>, \<lparr>in_events = es, in_fdblock = - 1\<rparr>);
     if rb_sort_entries s \<noteq> 0 then show_entries_rb True s else Some s }"

section \<open>Complete reads\<close>

text \<open>A descriptor that delivers only data, in chunks of any size.\<close>

definition flows :: "read_event list \<Rightarrow> bool" where
  "flows es \<longleftrightarrow> (\<forall>e \<in> set es. \<exists>bs. e = Bytes bs \<and> bs \<noteq> [])"

fun bytes_in :: "read_event list \<Rightarrow> u8 list" where
  "bytes_in [] = []"
| "bytes_in (Bytes bs # es) = bs @ bytes_in es"
| "bytes_in (_ # es) = bytes_in es"

lemma flows_Cons [simp]: "flows (e # es) \<longleftrightarrow> (\<exists>bs. e = Bytes bs \<and> bs \<noteq> []) \<and> flows es"
  by (simp add: flows_def)

lemma flows_empty: "flows es \<Longrightarrow> bytes_in es = [] \<longleftrightarrow> es = []"
  by (cases es) auto

lemma read_loop_ok:
  "flows es \<Longrightarrow> bytes \<le> length p + length (bytes_in es) \<Longrightarrow> length p \<le> bytes \<Longrightarrow>
     \<exists>es'. read_loop bytes block p es = (Read_ok (p @ take (bytes - length p) (bytes_in es)), es')
       \<and> flows es' \<and> bytes_in es' = drop (bytes - length p) (bytes_in es)"
proof (induction bytes block p es rule: read_loop.induct)
  case (1 bytes block p es)
  show ?case
  proof (cases "bytes \<le> length p")
    case True
    then show ?thesis
      using 1 by (subst read_loop.simps) auto
  next
    case False
    then have "bytes_in es \<noteq> []"
      using 1 by auto
    then obtain bs es' where es: "es = Bytes bs # es'" "bs \<noteq> []" "flows es'"
      using 1 by (cases es) auto
    show ?thesis
    proof (cases "length bs \<le> bytes - length p")
      case True
      then show ?thesis
        using False es 1
        by (subst read_loop.simps) auto
    next
      case more: False
      let ?n = "bytes - length p"
      have "read_loop bytes block p es = read_loop bytes block (p @ take ?n bs) (Bytes (drop ?n bs) # es')"
        using False more es by (subst read_loop.simps) auto
      also have "\<dots> = (Read_ok (p @ take ?n bs), Bytes (drop ?n bs) # es')"
        using more False by (subst read_loop.simps) auto
      finally show ?thesis
        using more False es by auto
    qed
  qed
qed

lemma read_loop_eof:
  "flows es \<Longrightarrow> length p + length (bytes_in es) < bytes \<Longrightarrow> read_loop bytes block p es = (Read_eof, [])"
proof (induction es arbitrary: p)
  case Nil
  then show ?case
    by (subst read_loop.simps) simp
next
  case (Cons e es)
  then obtain bs where e: "e = Bytes bs" "bs \<noteq> []" "flows es"
    by auto
  then have "read_loop bytes block p (e # es) = read_loop bytes block (p @ bs) es"
    using Cons.prems by (subst read_loop.simps) auto
  then show ?case
    using Cons.IH [of "p @ bs"] Cons.prems e by simp
qed

lemma read_data_ok:
  assumes "flows (in_events inp)" "n \<le> length (bytes_in (in_events inp))"
  shows "\<exists>inp'. read_data n block inp = (Read_ok (take n (bytes_in (in_events inp))), inp')
    \<and> flows (in_events inp') \<and> bytes_in (in_events inp') = drop n (bytes_in (in_events inp))"
  using read_loop_ok [OF assms(1), of n "[]" block] assms(2) by (auto simp: read_data_def Let_def)

lemma read_data_eof: "in_events inp = [] \<Longrightarrow> 0 < n \<Longrightarrow> \<exists>inp'. read_data n block inp = (Read_eof, inp')"
  by (subst read_data_def, subst read_loop.simps) (simp add: Let_def)

section \<open>Records on the wire\<close>

text \<open>What a big-endian machine writes, seen by this one: every field is swapped.\<close>

definition foreign :: "blk_io_trace \<Rightarrow> blk_io_trace" where
  "foreign t = (trace_to_cpu Native_no t)\<lparr>tr_vec_count := bswap_16 (tr_vec_count t), tr_seq := bswap_32 (tr_seq t)\<rparr>"

definition wire :: "native \<Rightarrow> blk_io_trace \<Rightarrow> blk_io_trace" where
  "wire native t = (if native = Native_no then foreign t else t)"

text \<open>What is read back: \<open>trace_to_cpu\<close> leaves two fields as they are.\<close>

definition decoded :: "native \<Rightarrow> blk_io_trace \<Rightarrow> blk_io_trace" where
  "decoded native t =
     (if native = Native_no then t\<lparr>tr_vec_count := bswap_16 (tr_vec_count t), tr_seq := bswap_32 (tr_seq t)\<rparr> else t)"

text \<open>A record that a tracer may write: supported, with its payload, and no notification other than a message.\<close>

definition record_ok :: "blk_io_trace \<Rightarrow> bool" where
  "record_ok t \<longleftrightarrow> verify_trace t = None \<and> length (tr_pdu t) = unat (tr_pdu_len t)
     \<and> \<not> (has_tc (tr_action t) TC_NOTIFY \<and> tr_action t \<noteq> BLK_TN TN_MESSAGE)
     \<and> 0 \<le> sint (tr_cpu t) \<and> tr_device t \<noteq> 0 \<and> payload_ok t"

lemma trace_to_cpu_wire: "trace_to_cpu native (wire native t) = decoded native t"
  by (simp add: wire_def decoded_def foreign_def trace_to_cpu_def)

lemma wire_pdu [simp]: "tr_pdu (wire native t) = tr_pdu t"
  by (simp add: wire_def foreign_def trace_to_cpu_def)

lemma trace_to_cpu_header: "trace_to_cpu native ((wire native t)\<lparr>tr_pdu := tr_pdu t\<rparr>) = decoded native t"
proof -
  have "(wire native t)\<lparr>tr_pdu := tr_pdu t\<rparr> = wire native t"
    using wire_pdu [of native t] by (cases "wire native t") simp
  then show ?thesis
    by (simp only: trace_to_cpu_wire)
qed

lemma bswap_magic: "bswap_32 0x65617407 = 0x07746165"
  by (simp add: bswap_32_def push_bit_eq_mult drop_bit_eq_div)

lemma bswap_magic_back: "bswap_32 0x07746165 = 0x65617407"
  by (simp only: bswap_magic [symmetric] bswap_32_bswap_32)

lemma learn_wire:
  assumes "record_ok t" "native \<noteq> Native_unknown" "data_is_native (globs s) \<in> {Native_unknown, native}"
  shows "learn_endianness ((wire native t)\<lparr>tr_pdu := []\<rparr>) s = Some (s\<lparr>globs := (globs s)\<lparr>data_is_native := native\<rparr>\<rparr>)"
proof -
  have magic: "tr_magic t = 0x65617407"
    using assms(1) verify_trace_magic by (simp add: record_ok_def)
  have "check_data_endianness Native_unknown (tr_magic (wire native t)) = (native, True)"
    using assms(2) by (cases native) (simp_all add: check_data_endianness_def wire_def foreign_def trace_to_cpu_def magic
        bswap_magic bswap_magic_back BLK_IO_TRACE_MAGIC_def Let_def)
  moreover have "s\<lparr>globs := (globs s)\<lparr>data_is_native := data_is_native (globs s)\<rparr>\<rparr> = s"
    by simp
  ultimately show ?thesis
    using assms(3) by (auto simp: learn_endianness_def Let_def)
qed

lemma header_fields:
  assumes "record_ok t" "native \<noteq> Native_unknown"
  shows "get_magic native ((wire native t)\<lparr>tr_pdu := []\<rparr>) AND 0xffffff00 = BLK_IO_TRACE_MAGIC"
    and "get_pdulen native ((wire native t)\<lparr>tr_pdu := []\<rparr>) = tr_pdu_len t"
proof -
  have magic: "tr_magic t = 0x65617407"
    using assms(1) verify_trace_magic by (simp add: record_ok_def)
  show "get_magic native ((wire native t)\<lparr>tr_pdu := []\<rparr>) AND 0xffffff00 = BLK_IO_TRACE_MAGIC"
    by (simp add: get_magic_def wire_def foreign_def trace_to_cpu_def magic
        BLK_IO_TRACE_MAGIC_def bswap_magic bswap_magic_back)
  show "get_pdulen native ((wire native t)\<lparr>tr_pdu := []\<rparr>) = tr_pdu_len t"
    by (simp add: get_pdulen_def wire_def foreign_def trace_to_cpu_def)
qed

lemma decoded_fields [simp]:
  "verify_trace (decoded native t) = verify_trace t" "tr_action (decoded native t) = tr_action t"
  "tr_device (decoded native t) = tr_device t" "tr_cpu (decoded native t) = tr_cpu t" "tr_time (decoded native t) = tr_time t"
  "tr_sequence (decoded native t) = tr_sequence t"
  by (simp_all add: decoded_def verify_trace_def CHECK_MAGIC_def)

lemma take_trace_record:
  "record_ok t \<Longrightarrow> take_trace pdi events (decoded native t) s
     = (let (d, s) = add_trace pdi (decoded native t) s in ((Some d, events + 1), s))"
  by (auto simp: take_trace_def record_ok_def)

definition learnt :: "native \<Rightarrow> sorter \<Rightarrow> sorter" where
  "learnt native s = s\<lparr>globs := (globs s)\<lparr>data_is_native := native\<rparr>\<rparr>"

lemma read_step_record:
  assumes "record_ok t" "native \<noteq> Native_unknown" "data_is_native (globs s) \<in> {Native_unknown, native}"
    and "flows (in_events inp)" "bytes_in (in_events inp) = trace_bytes (wire native t) @ rest"
  shows "\<exists>inp'. read_step ab pdi events (s, inp) =
      (let (d, s) = add_trace pdi (decoded native t) (learnt native s) in (Inr (Some d, events + 1), s, inp'))
    \<and> flows (in_events inp') \<and> bytes_in (in_events inp') = rest"
proof -
  have len: "sizeof_trace \<le> length (bytes_in (in_events inp))"
    by (simp add: assms(5) trace_bytes_def)
  obtain inp1 where 1: "read_data sizeof_trace (events = 0 \<or> ab) inp = (Read_ok (header_bytes (wire native t)), inp1)"
    "flows (in_events inp1)" "bytes_in (in_events inp1) = tr_pdu t @ rest"
    using read_data_ok [OF assms(4) len, of "events = 0 \<or> ab"] by (auto simp: assms(5) trace_bytes_def)
  have pdu: "length (tr_pdu t) = unat (tr_pdu_len t)"
    using assms(1) by (simp add: record_ok_def)
  obtain inp2 where 2: "read_pdu (unat (tr_pdu_len t)) inp1 = (Read_ok (tr_pdu t), inp2)" "flows (in_events inp2)" "bytes_in (in_events inp2) = rest"
  proof (cases "unat (tr_pdu_len t) = 0")
    case True
    then show ?thesis
      using that [of inp1] 1 pdu by (simp add: read_pdu_def)
  next
    case False
    then show ?thesis
      using read_data_ok [OF 1(2), of "unat (tr_pdu_len t)" True] that 1(3) pdu by (auto simp: read_pdu_def)
  qed
  show ?thesis
    using 1(1) 2 assms(1,2) header_fields [OF assms(1,2)]
    by (intro exI [of _ inp2])
      (simp add: read_step_def trace_of_header learn_wire [OF assms(1-3)] trace_to_cpu_header
        take_trace_record case_prod_beta learnt_def Let_def)
qed

section \<open>Reading a batch\<close>

lemma add_trace_ok:
  assumes "devs_ok (devices s)" "tr_device b \<noteq> 0" "cache_ok (devices s) pdi None"
  shows "\<exists>d s'. add_trace pdi b s = (d, s')
    \<and> moves [] (s\<lparr>trace_list := \<lparr>t_bit = b, t_read_sequence = read_sequence s\<rparr> # trace_list s\<rparr>) s'
    \<and> cache_ok (devices s') (Some d) None"
proof -
  define s1 where "s1 = s\<lparr>trace_list := \<lparr>t_bit = b, t_read_sequence = read_sequence s\<rparr> # trace_list s\<rparr>"
  obtain pdis d pci' where f: "find_pdi pdi None (tr_device b) s1 = (s1\<lparr>devices := pdis\<rparr>, d, pci')"
    "devs_step (devices s1) pdis" "d < length pdis"
    using find_pdi_ok [of s1 "tr_device b" pdi None] assms by (auto simp: s1_def)
  define s2 where "s2 = s1\<lparr>devices := pdis\<rparr>"
  have m: "moves [] s1 s2"
    unfolding s2_def by (rule moves_devices [OF f(2)])
  have d2: "d < length (devices s2)"
    by (simp add: s2_def f(3))
  let ?pdi = "(devices s2 ! d)\<lparr>last_read_time := tr_time b\<rparr>"
  have "dev_ok (devices s2 ! d)"
    using moves_devs_ok [OF m] d2 by (simp add: devs_ok_def)
  then have step: "dev_step (devices s2 ! d) ?pdi"
    by (simp add: dev_step_def dev_ok_def track_inv_def cpu_seen_def cpu_named_def cpu_closed_def)
  define s3 where "s3 = (if tr_time b > last_read_time (devices s2 ! d) then set_dev d ?pdi s2 else s2)"
  have "moves [] s1 s3"
    using m moves_nil_trans [OF m update_dev_moves [OF moves_devs_ok [OF m] d2 step]] by (simp add: s3_def)
  moreover have "cache_ok (devices s3) (Some d) None"
    using d2 by (simp add: s3_def cache_ok_def set_dev_def)
  moreover have "add_trace pdi b s = (d, s3)"
    using f(1) by (simp add: add_trace_def s1_def [symmetric] s2_def [symmetric] s3_def Let_def)
  ultimately show ?thesis
    by (simp add: s1_def)
qed

text \<open>The traces in the list after a batch, the last one first.\<close>

definition as_read :: "sorter \<Rightarrow> native \<Rightarrow> blk_io_trace list \<Rightarrow> trace list" where
  "as_read s native ts = map (\<lambda>t. \<lparr>t_bit = decoded native t, t_read_sequence = read_sequence s\<rparr>) (rev ts)"

definition stream_of :: "native \<Rightarrow> blk_io_trace list \<Rightarrow> u8 list" where
  "stream_of native ts = concat (map (\<lambda>t. trace_bytes (wire native t)) ts)"

definition read_state :: "native \<Rightarrow> blk_io_trace list \<Rightarrow> sorter \<Rightarrow> sorter" where
  "read_state native ts s =
     (if ts = [] then s else learnt native s)\<lparr>trace_list := as_read s native ts @ trace_list s\<rparr>"

lemma moves_trace_list:
  assumes "moves bs s s'"
  shows "moves bs (s\<lparr>trace_list := ts\<rparr>) (s'\<lparr>trace_list := ts\<rparr>)"
proof -
  obtain pdis g where "s' = s\<lparr>devices := pdis, globs := g\<rparr>" "devs_step (devices s) pdis" "same_options (globs s) g"
    "binary_out g = binary_out (globs s) @ bs"
    using assms unfolding moves_def by blast
  then show ?thesis
    unfolding moves_def by (intro exI [of _ pdis] exI [of _ g]) simp
qed

lemma moved_fields:
  assumes "moves bs s s'"
  shows "data_is_native (globs s') = data_is_native (globs s)" "is_done s' = is_done s" "rb_batch s' = rb_batch s"
    "read_sequence s' = read_sequence s" "trace_list s' = trace_list s" "genesis_time s' = genesis_time s"
    "binary_out (globs s') = binary_out (globs s) @ bs"
proof -
  obtain pdis g where "s' = s\<lparr>devices := pdis, globs := g\<rparr>" "same_options (globs s) g"
    "binary_out g = binary_out (globs s) @ bs"
    using assms unfolding moves_def by blast
  then show "data_is_native (globs s') = data_is_native (globs s)" "is_done s' = is_done s" "rb_batch s' = rb_batch s"
    "read_sequence s' = read_sequence s" "trace_list s' = trace_list s" "genesis_time s' = genesis_time s"
    "binary_out (globs s') = binary_out (globs s) @ bs"
    by (simp_all add: same_options_def options_def)
qed

lemma read_loop_batch:
  assumes "\<forall>t \<in> set ts. record_ok t" "native \<noteq> Native_unknown" "data_is_native (globs s) \<in> {Native_unknown, native}"
    and "flows (in_events inp)" "bytes_in (in_events inp) = stream_of native ts"
    and "devs_ok (devices s)" "cache_ok (devices s) pdi None" "\<not> is_done s"
    and "unat events + length ts \<le> unat (rb_batch s)"
  shows "\<exists>s' inp'. read_events_loop ab pdi events (s, inp) = Some (uint events + int (length ts), s', inp')
    \<and> in_events inp' = [] \<and> moves [] (read_state native ts s) s'"
  using assms
proof (induction ts arbitrary: s inp pdi events)
  case Nil
  have inp: "in_events inp = []"
    using flows_empty [OF Nil.prems(4)] Nil.prems(5) by (simp add: stream_of_def)
  obtain inp' where eof: "read_data sizeof_trace (events = 0 \<or> ab) inp = (Read_eof, inp')"
    using read_data_eof [OF inp, of sizeof_trace] that by (auto simp: sizeof_trace_def)
  have "in_events inp' = []"
    using eof inp by (simp add: read_data_def Let_def read_loop.simps sizeof_trace_def) auto
  moreover have "read_events_loop ab pdi events (s, inp) = Some (uint events, s, if events < rb_batch s then inp' else inp)"
    using Nil.prems(8) by (subst read_events_loop.simps) (simp add: read_step_def eof Let_def)
  moreover have "moves [] (read_state native [] s) s"
    using moves_self [OF Nil.prems(6)] by (simp add: read_state_def as_read_def)
  ultimately show ?case
    using inp by (intro exI [of _ s] exI [of _ "if events < rb_batch s then inp' else inp"]) simp
next
  case (Cons t ts)
  have t: "record_ok t"
    using Cons.prems(1) by simp
  have more: "events < rb_batch s"
    using Cons.prems(9) by (simp add: word_less_nat_alt)
  obtain inp1 where step: "read_step ab pdi events (s, inp) =
      (let (d, s) = add_trace pdi (decoded native t) (learnt native s) in (Inr (Some d, events + 1), s, inp1))"
    "flows (in_events inp1)" "bytes_in (in_events inp1) = stream_of native ts"
    using read_step_record [OF t Cons.prems(2-4), of "stream_of native ts" ab pdi events] Cons.prems(5)
    by (auto simp: stream_of_def)
  obtain d s1 where add: "add_trace pdi (decoded native t) (learnt native s) = (d, s1)"
    "moves [] ((learnt native s)\<lparr>trace_list := as_read s native [t] @ trace_list s\<rparr>) s1" "cache_ok (devices s1) (Some d) None"
    using add_trace_ok [of "learnt native s" "decoded native t" pdi] Cons.prems(6,7) t
    by (auto simp: learnt_def as_read_def record_ok_def)
  have "unat (rb_batch s) < 2 ^ 32"
    using unsigned_less [of "rb_batch s"] by simp
  then have unat1: "unat (events + 1) = unat events + 1"
    using more by (simp add: unat_plus_if' word_less_nat_alt)
  have s1: "data_is_native (globs s1) = native" "\<not> is_done s1" "rb_batch s1 = rb_batch s" "read_sequence s1 = read_sequence s"
    "trace_list s1 = as_read s native [t] @ trace_list s"
    using moved_fields [OF add(2)] Cons.prems(8) by (simp_all add: learnt_def)
  obtain s' inp' where IH: "read_events_loop ab (Some d) (events + 1) (s1, inp1) = Some (uint (events + 1) + int (length ts), s', inp')"
    "in_events inp' = []" "moves [] (read_state native ts s1) s'"
    using Cons.IH [of s1 inp1 "Some d" "events + 1"] Cons.prems(1,2,9) step(2,3) moves_devs_ok [OF add(2)] add(3) s1 unat1
    by auto
  have "learnt native s1 = s1"
    by (simp add: learnt_def s1(1) [symmetric])
  then have "read_state native ts s1 = s1\<lparr>trace_list := as_read s native (t # ts) @ trace_list s\<rparr>"
    using s1(4,5) by (simp add: read_state_def as_read_def)
  then have "moves [] (read_state native (t # ts) s) (read_state native ts s1)"
    using moves_trace_list [OF add(2), of "as_read s native (t # ts) @ trace_list s"] by (simp add: read_state_def)
  then have "moves [] (read_state native (t # ts) s) s'"
    using IH(3) by (rule moves_nil_trans)
  moreover have "uint (events + 1) = uint events + 1"
    using arg_cong [OF unat1, of int] by simp
  moreover have "read_events_loop ab pdi events (s, inp) = Some (uint (events + 1) + int (length ts), s', inp')"
    using IH(1) step(1) add(1) more Cons.prems(8) by (subst read_events_loop.simps) simp
  ultimately show ?case
    using IH(2) by (intro exI [of _ s'] exI [of _ inp']) simp
qed

section \<open>A whole session\<close>

text \<open>The time of the first trace, and the traces of a session in the order in which they are shown.\<close>

definition first_time :: "blk_io_trace list \<Rightarrow> u64" where
  "first_time ts = Min (insert (- 1) (tr_time ` set ts))"

definition session :: "sorter \<Rightarrow> native \<Rightarrow> blk_io_trace list \<Rightarrow> trace list" where
  "session s native ts = sort_key trace_key
     (filter (\<lambda>t. \<not> check_stopwatch s (t_bit t)) (map (shifted (first_time ts)) (as_read s native ts)))"

lemma fold_first: "fold (\<lambda>t g. if tr_time (t_bit t) < g then tr_time (t_bit t) else g) ts g
    = fold min (map (\<lambda>t. tr_time (t_bit t)) ts) g"
proof (induction ts arbitrary: g)
  case (Cons t ts)
  have "(if tr_time (t_bit t) < g then tr_time (t_bit t) else g) = min (tr_time (t_bit t)) g"
    by (auto simp: min_def)
  then show ?case
    using Cons.IH by simp
qed simp

lemma genesis_first_time:
  assumes "genesis_time s = 0" "trace_list s = as_read s0 native ts"
  shows "genesis_time (with_genesis s) = first_time ts"
proof -
  have "genesis_time (with_genesis s) = fold min (map (\<lambda>t. tr_time (t_bit t)) (trace_list s)) (- 1)"
    using assms(1) fold_first [of "trace_list s"] by (simp add: with_genesis_def find_genesis_def Let_def)
  also have "\<dots> = Min (set (- 1 # map (\<lambda>t. tr_time (t_bit t)) (trace_list s)))"
    by (rule Min.set_eq_fold [symmetric])
  also have "\<dots> = first_time ts"
    by (simp add: assms(2) as_read_def first_time_def image_image)
  finally show ?thesis .
qed

text \<open>Parts of the state that every step of a session keeps.\<close>

definition same_run :: "sorter \<Rightarrow> sorter \<Rightarrow> bool" where
  "same_run s s' \<longleftrightarrow> wrote s' = wrote s \<and> check_stopwatch s' = check_stopwatch s \<and> is_done s' = is_done s
     \<and> rb_batch s' = rb_batch s \<and> seen_cpus (devices s) \<subseteq> seen_cpus (devices s')"

lemma wrote_parts:
  "act_mask s' = act_mask s \<Longrightarrow> recorded (globs s') = recorded (globs s) \<Longrightarrow> dumped (globs s') = dumped (globs s)
     \<Longrightarrow> wrote s' = wrote s"
  by (simp add: fun_eq_iff wrote_def written_def cong: filter_cong)

lemma learnt_options [simp]:
  "recorded (g\<lparr>data_is_native := n\<rparr>) = recorded g" "dumped (g\<lparr>data_is_native := n\<rparr>) = dumped g"
  by (simp_all add: fun_eq_iff recorded_def dumped_def remap_shown_def)

lemma same_run_trans: "same_run a b \<Longrightarrow> same_run b c \<Longrightarrow> same_run a c"
  by (auto simp: same_run_def)

lemma moves_same_run: "moves bs s s' \<Longrightarrow> same_run s s'"
  using moves_wrote [of bs s s'] moves_seen [of bs s s'] by (auto simp: same_run_def moves_def check_stopwatch_def)

lemma read_state_run:
  "same_run s (read_state native ts s)" "sorter_ok s \<Longrightarrow> sorter_ok (read_state native ts s)"
  by (auto simp: read_state_def learnt_def same_run_def check_stopwatch_def sorter_ok_def intro!: wrote_parts)

lemma with_genesis_run: "same_run s (with_genesis s)"
proof -
  note same = with_genesis_globs(1) [of s]
  have "wrote (with_genesis s) = wrote s"
    using same_options_recorded [OF same] same_options_dumped [OF same]
    by (intro wrote_parts) (auto simp: with_genesis_def find_genesis_def Let_def)
  then show ?thesis
    by (auto simp: same_run_def check_stopwatch_def with_genesis_def find_genesis_def Let_def)
qed

lemma resorted_run:
  assumes "moves bs (s\<lparr>rb_sort_root := r, rb_sort_entries := e, trace_list := ts\<rparr>) s'"
  shows "same_run s s'"
proof -
  have "wrote (s\<lparr>rb_sort_root := r, rb_sort_entries := e, trace_list := ts\<rparr>) = wrote s"
    by (rule wrote_parts) simp_all
  then show ?thesis
    using moves_same_run [OF assms] by (auto simp: same_run_def check_stopwatch_def)
qed

lemma read_nothing:
  assumes "in_events inp = []" "\<not> is_done s"
  shows "\<exists>inp'. read_events False (s, inp) = Some (0, s, inp')"
proof -
  obtain inp' where "read_data sizeof_trace True inp = (Read_eof, inp')"
    using read_data_eof [OF assms(1), of sizeof_trace True] by (auto simp: sizeof_trace_def)
  then show ?thesis
    using assms(2) unfolding read_events_def by (subst read_events_loop.simps) (simp add: read_step_def Let_def)
qed

text \<open>The first batch of a session: it is read and sorted.\<close>

lemma first_batch:
  assumes "sorter_ok s" "rb_sort_root s = Null" "rb_sort_entries s = 0" "trace_list s = []" "genesis_time s = 0" "\<not> is_done s"
    and "\<forall>t \<in> set ts. record_ok t" "native \<noteq> Native_unknown" "data_is_native (globs s) \<in> {Native_unknown, native}"
    and "flows (in_events inp)" "bytes_in (in_events inp) = stream_of native ts" "length ts \<le> unat (rb_batch s)"
  shows "\<exists>s1 inp1 s2 y. read_events False (s, inp) = Some (int (length ts), s1, inp1) \<and> in_events inp1 = []
    \<and> sort_entries (s1\<lparr>read_sequence := read_sequence s1 + 1\<rparr>) = Some (s2, y)
    \<and> sorter_ok s1 \<and> rb_sort_root s1 = Null \<and> rb_sort_entries s1 = 0 \<and> same_run s s1 \<and> binary_out (globs s1) = binary_out (globs s)
    \<and> sorter_ok s2 \<and> same_run s s2 \<and> inorder (rb_sort_root s2) = session s native ts
    \<and> rb_sort_entries s2 = of_nat (length (session s native ts)) \<and> binary_out (globs s2) = binary_out (globs s)"
proof -
  have devs: "devs_ok (devices s)"
    using assms(1) by (simp add: sorter_ok_def)
  obtain s1 inp1 where 1: "read_events False (s, inp) = Some (int (length ts), s1, inp1)" "in_events inp1 = []"
    "moves [] (read_state native ts s) s1"
    using read_loop_batch [OF assms(7-11) devs cache_ok_None assms(6), of 0 False] assms(12) by (auto simp: read_events_def)
  have s1: "sorter_ok s1" "same_run s s1"
    using moves_ok [OF 1(3)] same_run_trans [OF _ moves_same_run [OF 1(3)]] read_state_run assms(1) by blast+
  have f1: "rb_sort_root s1 = Null" "rb_sort_entries s1 = 0" "trace_list s1 = as_read s native ts" "genesis_time s1 = 0"
    "binary_out (globs s1) = binary_out (globs s)"
    using 1(3) assms(2-5) by (auto simp: moves_def read_state_def learnt_def)
  define s1' where "s1' = s1\<lparr>read_sequence := read_sequence s1 + 1\<rparr>"
  have "same_run s1 s1'"
    by (auto simp: s1'_def same_run_def check_stopwatch_def intro!: wrote_parts)
  then have s1': "sorter_ok s1'" "same_run s s1'" "trace_list s1' = as_read s native ts" "genesis_time s1' = 0"
    "rb_sort_root s1' = Null" "rb_sort_entries s1' = 0"
    using s1 f1 same_run_trans by (auto simp: s1'_def sorter_ok_def)
  have ok: "\<forall>t \<in> set (trace_list s1'). trace_ok t"
    using assms(7) s1'(3) by (auto simp: as_read_def trace_ok_def record_ok_def payload_ok_def decoded_def)
  obtain r s2 y where 2: "sort_entries s1' = Some (s2, y)" "sorter_ok s2"
    "inorder r = sort_key trace_key (inorder (rb_sort_root s1') @ kept (with_genesis s1') (trace_list s1'))"
    "moves [] ((with_genesis s1')\<lparr>rb_sort_root := r,
        rb_sort_entries := rb_sort_entries s1' + of_nat (length (kept (with_genesis s1') (trace_list s1'))), trace_list := []\<rparr>) s2"
    using sort_entries_ok [OF s1'(1) ok] by blast
  have "genesis_time (with_genesis s1') = first_time ts"
    using genesis_first_time [of s1' s native ts] s1'(3,4) by blast
  moreover have "check_stopwatch (with_genesis s1') = check_stopwatch s"
    using with_genesis_run [of s1'] s1'(2) by (simp add: same_run_def)
  ultimately have k: "sort_key trace_key (kept (with_genesis s1') (trace_list s1')) = session s native ts"
    "length (kept (with_genesis s1') (trace_list s1')) = length (session s native ts)"
    by (simp_all add: kept_def session_def s1'(3))
  have L: "inorder r = session s native ts" "length (kept (with_genesis s1') (trace_list s1')) = length (session s native ts)"
    using 2(3) k s1'(5) by simp_all
  have s2: "same_run s s2"
    using same_run_trans [OF s1'(2) same_run_trans [OF with_genesis_run resorted_run [OF 2(4)]]] .
  have "binary_out (globs s1') = binary_out (globs s)"
    by (simp add: s1'_def f1(5))
  then have "rb_sort_root s2 = r" "rb_sort_entries s2 = of_nat (length (session s native ts))" "binary_out (globs s2) = binary_out (globs s)"
    using 2(4) s1'(6) L(2) with_genesis_globs(2) [of s1'] by (auto simp: moves_def)
  then show ?thesis
    using 1(1,2) 2(1,2) s1 f1(1,2,5) s2 L(1) s1'_def by auto
qed

lemma drain_rest:
  assumes "sorter_ok s" "starts_at_one (seen_cpus (devices s)) (inorder (rb_sort_root s))"
    and "rb_sort_entries s = of_nat (length (inorder (rb_sort_root s)))" "length (inorder (rb_sort_root s)) < 2 ^ 32"
  shows "\<exists>s'. (if rb_sort_entries s \<noteq> 0 then show_entries_rb True s else Some s) = Some s' \<and> rb_sort_root s' = Null
    \<and> binary_out (globs s') = binary_out (globs s) @ wrote s (map t_bit (inorder (rb_sort_root s)))"
proof (cases "inorder (rb_sort_root s) = []")
  case True
  then show ?thesis
    using assms(3) by simp
next
  case False
  have "unat (rb_sort_entries s) = length (inorder (rb_sort_root s))"
    using assms(3,4) by (simp add: unat_of_nat take_bit_nat_eq_self)
  then have "rb_sort_entries s \<noteq> 0"
    using False by auto
  moreover obtain k r s' where s': "show_entries_rb True s = Some s'" "k = length (inorder (rb_sort_root s))"
    "inorder r = drop k (inorder (rb_sort_root s))"
    "moves (wrote s (map t_bit (take k (inorder (rb_sort_root s)))))
        (s\<lparr>rb_sort_root := r, rb_sort_entries := rb_sort_entries s - of_nat k\<rparr>) s'"
    using show_entries_ok [OF assms(1,2), of True] by auto
  ultimately show ?thesis
    using moved_fields(7) [OF s'(4)] moves_root [OF s'(4)] by simp
qed

lemma pipe_loop_end:
  assumes "in_events inp = []" "\<not> is_done s"
  shows "pipe_loop (s, inp) = Some s"
proof -
  obtain inp' where "read_events False (s, inp) = Some (0, s, inp')"
    using read_nothing [OF assms] by blast
  then show ?thesis
    by (subst pipe_loop.simps) simp
qed

lemma pipe_session:
  assumes "sorter_ok s" "rb_sort_root s = Null" "rb_sort_entries s = 0" "trace_list s = []" "genesis_time s = 0" "\<not> is_done s"
    and "\<forall>t \<in> set ts. record_ok t" "native \<noteq> Native_unknown" "data_is_native (globs s) \<in> {Native_unknown, native}"
    and "flows (in_events inp)" "bytes_in (in_events inp) = stream_of native ts" "length ts \<le> unat (rb_batch s)"
    and "starts_at_one (seen_cpus (devices s)) (session s native ts)"
  shows "\<exists>k s'. pipe_loop (s, inp) = Some s' \<and> sorter_ok s' \<and> k \<le> length (session s native ts)
    \<and> inorder (rb_sort_root s') = drop k (session s native ts)
    \<and> starts_at_one (seen_cpus (devices s')) (drop k (session s native ts)) \<and> wrote s' = wrote s
    \<and> rb_sort_entries s' = of_nat (length (drop k (session s native ts)))
    \<and> binary_out (globs s') = binary_out (globs s) @ wrote s (map t_bit (take k (session s native ts)))"
proof -
  let ?L = "session s native ts"
  obtain s1 inp1 s2 y where 1: "read_events False (s, inp) = Some (int (length ts), s1, inp1)" "in_events inp1 = []"
    and 2: "sort_entries (s1\<lparr>read_sequence := read_sequence s1 + 1\<rparr>) = Some (s2, y)"
    and s1: "sorter_ok s1" "rb_sort_root s1 = Null" "rb_sort_entries s1 = 0" "same_run s s1" "binary_out (globs s1) = binary_out (globs s)"
    and s2: "sorter_ok s2" "same_run s s2" "inorder (rb_sort_root s2) = ?L" "rb_sort_entries s2 = of_nat (length ?L)"
      "binary_out (globs s2) = binary_out (globs s)"
    using first_batch [OF assms(1-12)] by blast
  have run2: "wrote s2 = wrote s" "\<not> is_done s2" "starts_at_one (seen_cpus (devices s2)) ?L"
    using s2(2) assms(6) starts_at_one_mono [OF assms(13)] by (auto simp: same_run_def)
  have loop: "pipe_loop (s, inp) = (if ts = [] then Some s1 else if y > stopwatch_end s2 then Some s2
      else do { s \<leftarrow> show_entries_rb False s2; pipe_loop (s, inp1) })"
    by (subst pipe_loop.simps) (simp add: 1(1) 2)
  consider "ts = []" | "ts \<noteq> []" "y > stopwatch_end s2" | "ts \<noteq> []" "\<not> y > stopwatch_end s2"
    by blast
  then show ?thesis
  proof cases
    case 1
    then show ?thesis
      using loop s1 by (intro exI [of _ 0] exI [of _ s1]) (simp add: session_def as_read_def same_run_def)
  next
    case 2
    then show ?thesis
      using loop s2 run2 by (intro exI [of _ 0] exI [of _ s2]) simp
  next
    case 3
    obtain k r s3 where s3: "show_entries_rb False s2 = Some s3" "k \<le> length ?L" "inorder r = drop k ?L" "sorter_ok s3"
      "starts_at_one (seen_cpus (devices s3)) (drop k ?L)"
      "moves (wrote s2 (map t_bit (take k ?L)))
        (s2\<lparr>rb_sort_root := r, rb_sort_entries := rb_sort_entries s2 - of_nat k\<rparr>) s3"
      using show_entries_ok [OF s2(1), of False] s2(3) run2(3) by auto
    note f = moved_fields [OF s3(6)]
    have "of_nat (length ?L) - of_nat k = (of_nat (length ?L - k) :: u64)"
      using s3(2) by (simp add: of_nat_diff)
    moreover have "wrote s3 = wrote s"
      using moves_wrote [OF s3(6)] run2(1) by (auto simp: wrote_def written_def fun_eq_iff)
    ultimately show ?thesis
      using loop 3 s3 f moves_root [OF s3(6)] moves_entries [OF s3(6)] pipe_loop_end [OF \<open>in_events inp1 = []\<close>, of s3] run2 s2(4,5)
      by (intro exI [of _ k] exI [of _ s3]) simp
  qed
qed

section \<open>Properties\<close>

text \<open>C24: \<open>read_data\<close> never returns part of the data: when the descriptor delivers enough bytes, in chunks of any
  size, it returns exactly the bytes that were asked for, in order, and leaves the rest; when the data ends
  before, it returns 1.\<close>

theorem read_data_complete:
  assumes "flows (in_events inp)"
  shows "\<exists>inp'. read_data n block inp =
      (if n \<le> length (bytes_in (in_events inp)) then Read_ok (take n (bytes_in (in_events inp))) else Read_eof, inp')
    \<and> flows (in_events inp') \<and> bytes_in (in_events inp') = drop n (bytes_in (in_events inp))"
proof (cases "n \<le> length (bytes_in (in_events inp))")
  case True
  then show ?thesis
    using read_data_ok [OF assms True, of block] by simp
next
  case False
  then have "read_loop n block [] (in_events inp) = (Read_eof, [])"
    using read_loop_eof [OF assms, of "[]" n block] by simp
  then show ?thesis
    using False by (simp add: read_data_def Let_def flows_def)
qed

theorem read_data_complete_witness:
  "\<exists>inp'. read_data 3 False \<lparr>in_events = [Bytes [1], Bytes [2, 3, 4]], in_fdblock = - 1\<rparr> = (Read_ok [1, 2, 3], inp')
    \<and> bytes_in (in_events inp') = [4]"
  using read_data_complete [of "\<lparr>in_events = [Bytes [1], Bytes [2, 3, 4]], in_fdblock = - 1\<rparr>" 3 False]
  by (auto simp: flows_def)

text \<open>C25: a record of a machine of either byte order is read back as it was written, whatever the chunks, except that
  for foreign data the fields \<open>vec_count\<close> and \<open>seq\<close> stay swapped.\<close>

theorem record_read_back:
  assumes "record_ok t" "native \<noteq> Native_unknown" "data_is_native (globs s) \<in> {Native_unknown, native}"
    and "flows (in_events inp)" "bytes_in (in_events inp) = trace_bytes (wire native t) @ rest"
    and "devs_ok (devices s)" "cache_ok (devices s) pdi None"
  shows "\<exists>d s' inp'. read_step always_block pdi events (s, inp) = (Inr (Some d, events + 1), s', inp')
    \<and> bytes_in (in_events inp') = rest \<and> data_is_native (globs s') = native
    \<and> map t_bit (trace_list s') =
        (if native = Native_no then t\<lparr>tr_vec_count := bswap_16 (tr_vec_count t), tr_seq := bswap_32 (tr_seq t)\<rparr> else t)
        # map t_bit (trace_list s)"
proof -
  obtain inp' where step: "read_step always_block pdi events (s, inp) =
      (let (d, s) = add_trace pdi (decoded native t) (learnt native s) in (Inr (Some d, events + 1), s, inp'))"
    "bytes_in (in_events inp') = rest"
    using read_step_record [OF assms(1-5), of always_block pdi events] by blast
  obtain d s' where add: "add_trace pdi (decoded native t) (learnt native s) = (d, s')"
    "moves [] ((learnt native s)\<lparr>trace_list := \<lparr>t_bit = decoded native t, t_read_sequence = read_sequence s\<rparr> # trace_list s\<rparr>) s'"
    using add_trace_ok [of "learnt native s" "decoded native t" pdi] assms(1,6,7) by (auto simp: learnt_def record_ok_def)
  have "map t_bit (trace_list s') = decoded native t # map t_bit (trace_list s)" "data_is_native (globs s') = native"
    using moved_fields(1,5) [OF add(2)] by (simp_all add: learnt_def)
  then show ?thesis
    using step add(1) by (auto simp: decoded_def)
qed

text \<open>A record of a big-endian machine, in two chunks.\<close>

definition example_record :: blk_io_trace where
  "example_record = zero_trace\<lparr>tr_magic := 0x65617407, tr_device := 8, tr_action := 0x10001, tr_sequence := 1, tr_seq := 1\<rparr>"

lemma example_record_ok: "record_ok example_record"
  by (simp add: record_ok_def payload_ok_def example_record_def zero_trace_def verify_trace_None_iff CHECK_MAGIC_def
      BLK_IO_TRACE_MAGIC_def SUPPORTED_VERSION_def has_tc_def BLK_TC_ACT_bit)

theorem record_read_back_witness:
  "\<exists>d s' inp'. read_step False None 0 (init_sorter (\<lambda>_. zero_iot) (\<lambda>_. 0),
      \<lparr>in_events = [Bytes (trace_bytes (wire Native_no example_record))], in_fdblock = - 1\<rparr>) = (Inr (Some d, 1), s', inp')
    \<and> map t_bit (trace_list s') = [example_record\<lparr>tr_seq := 0x1000000\<rparr>]"
proof -
  let ?s = "init_sorter (\<lambda>_. zero_iot) (\<lambda>_. 0)"
  let ?inp = "\<lparr>in_events = [Bytes (trace_bytes (wire Native_no example_record))], in_fdblock = - 1\<rparr>"
  have "trace_bytes (wire Native_no example_record) \<noteq> []"
    by (rule trace_bytes_nonempty)
  then have "flows (in_events ?inp)" "bytes_in (in_events ?inp) = trace_bytes (wire Native_no example_record) @ []"
    by (simp_all add: flows_def)
  moreover have "devs_ok (devices ?s)" "data_is_native (globs ?s) \<in> {Native_unknown, Native_no}" "trace_list ?s = []"
    by (simp_all add: init_sorter_def init_globals_def devs_ok_def)
  moreover have "bswap_16 (tr_vec_count example_record) = tr_vec_count example_record" "bswap_32 (tr_seq example_record) = 0x1000000"
    by (simp_all add: example_record_def zero_trace_def bswap_16_def bswap_32_def push_bit_eq_mult)
  moreover have "example_record\<lparr>tr_vec_count := tr_vec_count example_record, tr_seq := x\<rparr> = example_record\<lparr>tr_seq := x\<rparr>" for x
    by simp
  ultimately show ?thesis
    using record_read_back [OF example_record_ok, of Native_no ?s ?inp "[]" None False 0] by auto
qed



end
