(* ===== verification/Ms_Streams.thy ===== *)
theory Ms_Streams
  imports Trace_Input
begin

text \<open>
  Reading trace files in \<open>blkparse.c\<close>: one stream of buffered traces per file, a list of the streams that is
  sorted by the time of their first traces (\<open>ms_sort\<close>, \<open>ms_resort\<close>, \<open>ms_deq\<close>), the refill of a buffer from its
  file (\<open>ms_prime\<close>), and the loop of \<open>do_file\<close> that handles the first trace of the first stream. \<open>ms_deq\<close> and \<open>ms_resort\<close> are only called on the
  head of the list, so the chain of \<open>next\<close> pointers is a list of the structs.
\<close>

section \<open>Streams\<close>

record ms_stream =
  ms_traces :: "trace list"
  ms_pdi :: nat
  ms_cpu :: u32

text \<open>The open files, by descriptor, with the mode \<open>pci->fdblock\<close>.\<close>

record ms_state =
  ms_sorter :: sorter
  fds :: "int \<Rightarrow> input"
  ms_head :: "ms_stream list"

definition ms_peek :: "ms_stream \<Rightarrow> trace" where
  "ms_peek msp = hd (ms_traces msp)"

definition ms_peek_time :: "ms_stream \<Rightarrow> u64" where
  "ms_peek_time msp = tr_time (t_bit (ms_peek msp))"

text \<open>The walk of \<open>ms_sort\<close> behind the first stream.\<close>

fun ms_insert_after :: "ms_stream \<Rightarrow> ms_stream list \<Rightarrow> ms_stream list" where
  "ms_insert_after msp [] = [msp]"
| "ms_insert_after msp (this # rest) =
     (if ms_peek_time this < ms_peek_time msp then this # ms_insert_after msp rest else msp # this # rest)"

fun ms_sort :: "ms_stream \<Rightarrow> ms_stream list \<Rightarrow> ms_stream list" where
  "ms_sort msp [] = [msp]"
| "ms_sort msp (this # rest) =
     (if ms_peek_time msp < ms_peek_time this then msp # this # rest else this # ms_insert_after msp rest)"

fun ms_resort :: "ms_stream list \<Rightarrow> ms_stream list" where
  "ms_resort (msp # next # rest) =
     (if ms_peek_time msp > ms_peek_time next then ms_sort msp (next # rest) else msp # next # rest)"
| "ms_resort msps = msps"

section \<open>Refilling a buffer\<close>

datatype prime_outcome = Prime_err | Prime_skip | Prime_again | Prime_add

definition ms_dev :: "ms_stream \<Rightarrow> ms_state \<Rightarrow> per_dev_info" where
  "ms_dev msp st = devices (ms_sorter st) ! ms_pdi msp"

definition on_sorter :: "(sorter \<Rightarrow> sorter) \<Rightarrow> ms_state \<Rightarrow> ms_state" where
  "on_sorter f st = st\<lparr>ms_sorter := f (ms_sorter st)\<rparr>"

text \<open>A record that has been read and converted.\<close>

definition prime_record ::
    "nat \<Rightarrow> blk_io_trace \<Rightarrow> ms_stream \<Rightarrow> ms_state \<Rightarrow> prime_outcome \<times> ms_stream \<times> ms_state" where
  "prime_record c b msp st =
     (let pdi = ms_dev msp st
      in if verify_trace b \<noteq> None then (Prime_err, msp, st)
         else if tr_cpu b \<noteq> pci_cpu (pdi_cpus pdi ! c) then (Prime_skip, msp, st)
         else if has_tc (tr_action b) TC_NOTIFY \<and> tr_action b \<noteq> BLK_TN TN_MESSAGE then
           (Prime_again, msp, on_sorter (\<lambda>s. s\<lparr>globs := output_binary b (handle_notify b (globs s))\<rparr>) st)
         else
           (Prime_add, msp\<lparr>ms_traces := ms_traces msp @ [\<lparr>t_bit = b, t_read_sequence = 0\<rparr>]\<rparr>,
            if tr_time b > last_read_time pdi
            then on_sorter (set_dev (ms_pdi msp) (pdi\<lparr>last_read_time := tr_time b\<rparr>)) st else st))"

definition prime_step :: "nat \<Rightarrow> ms_stream \<Rightarrow> ms_state \<Rightarrow> prime_outcome \<times> ms_stream \<times> ms_state" where
  "prime_step c msp st =
     (let fd = pci_fd (pdi_cpus (ms_dev msp st) ! c);
          (ret, inp) = read_data sizeof_trace True (fds st fd);
          st = st\<lparr>fds := (fds st)(fd := inp)\<rparr>
      in case ret of
           Read_ok bs \<Rightarrow>
             let b = trace_of_bytes bs
             in (case learn_endianness b (ms_sorter st) of
                   None \<Rightarrow> (Prime_err, msp, st)
                 | Some s \<Rightarrow>
                     let native = data_is_native (globs s); st = st\<lparr>ms_sorter := s\<rparr>
                     in if get_magic native b AND 0xffffff00 \<noteq> BLK_IO_TRACE_MAGIC then (Prime_err, msp, st)
                        else let (ret, inp) = read_pdu (unat (get_pdulen native b)) inp;
                                 st = st\<lparr>fds := (fds st)(fd := inp)\<rparr>
                             in (case ret of
                                   Read_ok pdu \<Rightarrow> prime_record c (trace_to_cpu native (b\<lparr>tr_pdu := pdu\<rparr>)) msp st
                                 | _ \<Rightarrow> (Prime_err, msp, st)))
         | _ \<Rightarrow> (Prime_err, msp, st))"

text \<open>After an error the file is closed.\<close>

definition prime_close :: "nat \<Rightarrow> ms_stream \<Rightarrow> ms_state \<Rightarrow> ms_state option" where
  "prime_close c msp st = do {
     let pdi = ms_dev msp st;
     pdi \<leftarrow> cpu_mark_offline pdi (pci_cpu (pdi_cpus pdi ! c));
     Some (on_sorter (set_dev (ms_pdi msp) (set_cpu c (\<lambda>pci. pci\<lparr>pci_fd := - 1\<rparr>) pdi)) st) }"

partial_function (option) prime_loop ::
    "u32 \<Rightarrow> nat \<Rightarrow> nat \<Rightarrow> ms_stream \<Rightarrow> ms_state \<Rightarrow> (nat \<times> ms_stream \<times> ms_state) option" where
  "prime_loop i ndone c msp st =
     (if is_done (ms_sorter st) \<or> \<not> pci_fd (pdi_cpus (ms_dev msp st) ! c) \<ge> 0 \<or> \<not> i < rb_batch (ms_sorter st)
      then Some (ndone, msp, st)
      else case prime_step c msp st of
        (Prime_err, msp, st) \<Rightarrow> do { st \<leftarrow> prime_close c msp st; Some (ndone, msp, st) }
      | (Prime_skip, msp, st) \<Rightarrow> prime_loop (i + 1) ndone c msp st
      | (Prime_again, msp, st) \<Rightarrow> prime_loop i ndone c msp st
      | (Prime_add, msp, st) \<Rightarrow> prime_loop (i + 1) (ndone + 1) c msp st)"

definition ms_prime :: "ms_stream \<Rightarrow> ms_state \<Rightarrow> (nat \<times> ms_stream \<times> ms_state) option" where
  "ms_prime msp st = do {
     (pdi, c) \<leftarrow> get_cpu_info (ms_dev msp st) (ms_cpu msp);
     prime_loop 0 0 c msp (on_sorter (set_dev (ms_pdi msp) pdi) st) }"

section \<open>Taking traces\<close>

definition ms_deq :: "ms_state \<Rightarrow> ms_state option" where
  "ms_deq st =
     (case ms_head st of
        [] \<Rightarrow> None
      | msp # rest \<Rightarrow>
          let msp = msp\<lparr>ms_traces := tl (ms_traces msp)\<rparr>
          in if ms_traces msp = [] then do {
               (ndone, msp, st) \<leftarrow> ms_prime msp st;
               Some (st\<lparr>ms_head := (if ndone = 0 then rest else ms_resort (msp # rest))\<rparr>) }
             else Some (st\<lparr>ms_head := ms_resort (msp # rest)\<rparr>))"

definition ms_alloc :: "nat \<Rightarrow> u32 \<Rightarrow> ms_state \<Rightarrow> ms_state option" where
  "ms_alloc d cpu st = do {
     (ndone, msp, st) \<leftarrow> ms_prime \<lparr>ms_traces = [], ms_pdi = d, ms_cpu = cpu\<rparr> st;
     Some (if ndone \<noteq> 0 then st\<lparr>ms_head := ms_sort msp (ms_head st)\<rparr> else st) }"

text \<open>The trace that is handled: counted and dumped.\<close>

definition handle_trace :: "nat \<Rightarrow> nat \<Rightarrow> trace \<Rightarrow> sorter \<Rightarrow> (trace \<times> sorter) option" where
  "handle_trace d c t s =
     (let s = set_dev d ((devices s ! d)\<lparr>last_reported_time := tr_time (t_bit t)\<rparr>) s
      in if selected (act_mask s) (t_bit t) \<and> tr_time (t_bit t) \<ge> stopwatch_start s
         then do { (b, s) \<leftarrow> dump_at d c (t_bit t) s; Some (t\<lparr>t_bit := b\<rparr>, s) }
         else Some (t, s))"

definition handle :: "ms_state \<Rightarrow> (bool \<times> ms_state) option" where
  "handle st =
     (case ms_head st of
        [] \<Rightarrow> None
      | msp # rest \<Rightarrow> do {
          let d = ms_pdi msp;
          (pdi, c) \<leftarrow> get_cpu_info (ms_dev msp st) (ms_cpu msp);
          let s = set_dev d (set_cpu c (\<lambda>pci. pci\<lparr>pci_nelems := pci_nelems pci + 1\<rparr>) pdi) (ms_sorter st);
          let t = shifted (genesis_time s) (ms_peek msp);
          if tr_time (t_bit t) > stopwatch_end s
          then Some (False, st\<lparr>ms_sorter := s, ms_head := msp\<lparr>ms_traces := t # tl (ms_traces msp)\<rparr> # rest\<rparr>)
          else do {
            (t, s) \<leftarrow> handle_trace d c t s;
            st \<leftarrow> ms_deq (st\<lparr>ms_sorter := s\<rparr>);
            if text_output (globs (ms_sorter st)) then do {
              pdi \<leftarrow> trace_rb_insert_last (rb_batch (ms_sorter st)) (devices (ms_sorter st) ! d) t;
              Some (True, on_sorter (set_dev d pdi) st) }
            else Some (True, st) } })"

partial_function (option) handle_loop :: "ms_state \<Rightarrow> ms_state option" where
  "handle_loop st =
     (if is_done (ms_sorter st) \<or> ms_head st = [] then Some st
      else do {
        (go, st) \<leftarrow> handle st;
        if go then handle_loop st else Some st })"

section \<open>Opening the files\<close>

text \<open>What \<open>stat\<close> and \<open>open\<close> say of the file of a device and a CPU.\<close>

datatype trace_file = No_file | Empty_file | Unreadable | File int

definition setup_file :: "(nat \<Rightarrow> u32 \<Rightarrow> trace_file) \<Rightarrow> nat \<Rightarrow> u32 \<Rightarrow> ms_state \<Rightarrow> (bool \<times> ms_state) option" where
  "setup_file files d cpu st = do {
     (pdi, c) \<leftarrow> get_cpu_info (devices (ms_sorter st) ! d) cpu;
     let pdi = set_cpu c (\<lambda>pci. pci\<lparr>pci_cpu := cpu, pci_fdblock := - 1\<rparr>) pdi;
     let st = on_sorter (set_dev d pdi) st;
     case files d cpu of
       No_file \<Rightarrow> Some (False, st)
     | Empty_file \<Rightarrow> Some (True, st)
     | Unreadable \<Rightarrow> Some (False, on_sorter (set_dev d (set_cpu c (\<lambda>pci. pci\<lparr>pci_fd := - 1\<rparr>) pdi)) st)
     | File fd \<Rightarrow> do {
         pdi \<leftarrow> cpu_mark_online (set_cpu c (\<lambda>pci. pci\<lparr>pci_fd := fd\<rparr>) pdi) cpu;
         let pdi = pdi\<lparr>pdi_nfiles := pdi_nfiles pdi + 1\<rparr>;
         st \<leftarrow> ms_alloc d cpu (on_sorter (set_dev d pdi) st);
         Some (True, st) } }"

partial_function (option) setup_files :: "(nat \<Rightarrow> u32 \<Rightarrow> trace_file) \<Rightarrow> nat \<Rightarrow> u32 \<Rightarrow> ms_state \<Rightarrow> (u32 \<times> ms_state) option" where
  "setup_files files d cpu st = do {
     (ok, st) \<leftarrow> setup_file files d cpu st;
     if ok then setup_files files d (cpu + 1) st else Some (cpu, st) }"

text \<open>The loop over the devices; \<open>False\<close> when a device has no input files.\<close>

fun setup_devices :: "(nat \<Rightarrow> u32 \<Rightarrow> trace_file) \<Rightarrow> nat list \<Rightarrow> ms_state \<Rightarrow> (bool \<times> ms_state) option" where
  "setup_devices files [] st = Some (True, st)"
| "setup_devices files (d # ds) st = do {
     (cpu, st) \<leftarrow> setup_files files d 0 st;
     if cpu = 0 then Some (False, st) else setup_devices files ds st }"

definition do_file :: "(nat \<Rightarrow> u32 \<Rightarrow> trace_file) \<Rightarrow> ms_state \<Rightarrow> (bool \<times> ms_state) option" where
  "do_file files st = do {
     (ok, st) \<leftarrow> setup_devices files [0..<length (devices (ms_sorter st))] st;
     if \<not> ok then Some (False, st)
     else do {
       let st = (case ms_head st of
           [] \<Rightarrow> st | msp # _ \<Rightarrow> on_sorter (\<lambda>s. s\<lparr>genesis_time := ms_peek_time msp\<rparr>) st);
       st \<leftarrow> handle_loop st;
       Some (True, st) } }"

section \<open>The list of streams as a priority queue\<close>

definition ms_inv :: "ms_stream list \<Rightarrow> bool" where
  "ms_inv msps \<longleftrightarrow> sorted (map ms_peek_time msps)"

lemma ms_insert_after_mset [simp]: "mset (ms_insert_after msp msps) = add_mset msp (mset msps)"
  by (induction msps) auto

lemma ms_insert_after_set [simp]: "set (ms_insert_after msp msps) = insert msp (set msps)"
  by (induction msps) auto

lemma ms_insert_after_sorted: "ms_inv msps \<Longrightarrow> ms_inv (ms_insert_after msp msps)"
  by (induction msps) (auto simp: ms_inv_def)

lemma ms_sort_ok: "ms_inv msps \<Longrightarrow> ms_inv (ms_sort msp msps) \<and> mset (ms_sort msp msps) = add_mset msp (mset msps)"
proof (cases msps)
  case (Cons this rest)
  assume inv: "ms_inv msps"
  then have "ms_inv (ms_insert_after msp rest)"
    using Cons ms_insert_after_sorted by (simp add: ms_inv_def)
  then show ?thesis
    using inv Cons by (auto simp: ms_inv_def)
qed (simp add: ms_inv_def)

lemma ms_resort_ok: "ms_inv (tl msps) \<Longrightarrow> ms_inv (ms_resort msps) \<and> mset (ms_resort msps) = mset msps"
  using ms_sort_ok ms_insert_after_sorted
  by (induction msps rule: ms_resort.induct) (auto simp: ms_inv_def)

interpretation msq: priority_queue ms_peek_time "\<lambda>msp msps. Some (ms_sort msp msps)"
  "\<lambda>msps. case msps of [] \<Rightarrow> None | msp # rest \<Rightarrow> Some (msp, rest)" ms_inv "\<lambda>msps. msps"
  by unfold_locales (auto simp: ms_sort_ok, auto simp: ms_inv_def)


section \<open>Draining the buffers\<close>

definition trace_time :: "trace \<Rightarrow> u64" where
  "trace_time t = tr_time (t_bit t)"

definition buffered :: "ms_stream list \<Rightarrow> trace multiset" where
  "buffered msps = sum_list (map (mset \<circ> ms_traces) msps)"

text \<open>A stream whose file is closed and whose buffer is in the order of time.\<close>

definition drained :: "per_dev_info list \<Rightarrow> ms_stream \<Rightarrow> bool" where
  "drained pdis msp \<longleftrightarrow> ms_traces msp \<noteq> [] \<and> sorted (map trace_time (ms_traces msp))
     \<and> (\<forall>t \<in> set (ms_traces msp). 0 \<le> sint (tr_cpu (t_bit t)) \<and> payload_ok (t_bit t))
     \<and> ms_pdi msp < length pdis \<and> 0 \<le> sint (ms_cpu msp) \<and> cpu_closed (pdis ! ms_pdi msp) (unat (ms_cpu msp))"

lemma drained_step: "devs_step a b \<Longrightarrow> drained a msp \<Longrightarrow> drained b msp"
  using devs_stepD [of a b "ms_pdi msp"] by (auto simp: drained_def dev_step_def)

lemma buffered_mset: "mset xs = mset ys \<Longrightarrow> buffered xs = buffered ys"
  unfolding buffered_def by (metis mset_map sum_mset_sum_list)

lemma buffered_Cons [simp]: "buffered [] = {#}" "buffered (msp # msps) = mset (ms_traces msp) + buffered msps"
  by (simp_all add: buffered_def)

lemma buffered_mem: "t \<in># buffered msps \<longleftrightarrow> (\<exists>msp \<in> set msps. t \<in> set (ms_traces msp))"
  by (induction msps) auto

text \<open>The first trace of the first stream is the earliest one.\<close>

lemma first_is_earliest:
  assumes "ms_inv (msp # rest)" "\<forall>m \<in> set (msp # rest). drained pdis m" "t \<in># buffered (msp # rest)"
  shows "ms_peek_time msp \<le> trace_time t"
proof -
  obtain m where m: "m \<in> set (msp # rest)" "t \<in> set (ms_traces m)"
    using assms(3) unfolding buffered_mem by blast
  have "ms_peek_time msp \<le> ms_peek_time m"
    using assms(1) m(1) by (auto simp: ms_inv_def)
  also have "ms_peek_time m \<le> trace_time t"
    using assms(2) m by (cases "ms_traces m") (auto simp: drained_def ms_peek_time_def ms_peek_def trace_time_def)
  finally show ?thesis .
qed

lemma prime_loop_closed: "pci_fd (pdi_cpus (ms_dev msp st) ! c) < 0 \<Longrightarrow> prime_loop i ndone c msp st = Some (ndone, msp, st)"
  by (subst prime_loop.simps) simp

lemma prime_closed:
  assumes "devs_ok (devices (ms_sorter st))" "ms_pdi msp < length (devices (ms_sorter st))" "0 \<le> sint (ms_cpu msp)"
    "cpu_closed (ms_dev msp st) (unat (ms_cpu msp))"
  shows "\<exists>s. ms_prime msp st = Some (0, msp, st\<lparr>ms_sorter := s\<rparr>) \<and> moves [] (ms_sorter st) s"
proof -
  have "dev_ok (ms_dev msp st)"
    using assms(1,2) by (simp add: devs_ok_def ms_dev_def)
  then obtain pdi where p: "get_cpu_info (ms_dev msp st) (ms_cpu msp) = Some (pdi, unat (ms_cpu msp))"
    "dev_step (ms_dev msp st) pdi"
    using get_cpu_info_ok assms(3) by blast
  then have "cpu_closed pdi (unat (ms_cpu msp))"
    using assms(4) by (simp add: dev_step_def)
  then have "ms_prime msp st = Some (0, msp, st\<lparr>ms_sorter := set_dev (ms_pdi msp) pdi (ms_sorter st)\<rparr>)"
    using assms(2) p(1) by (simp add: ms_prime_def prime_loop_closed cpu_closed_def on_sorter_def ms_dev_def set_dev_def)
  moreover have "moves [] (ms_sorter st) (set_dev (ms_pdi msp) pdi (ms_sorter st))"
    using assms(1,2) p(2) by (intro update_dev_moves) (simp_all add: ms_dev_def)
  ultimately show ?thesis
    by blast
qed

text \<open>Taking the first trace.\<close>

definition streams_ok :: "ms_state \<Rightarrow> bool" where
  "streams_ok st \<longleftrightarrow> devs_ok (devices (ms_sorter st)) \<and> ms_inv (ms_head st)
     \<and> (\<forall>msp \<in> set (ms_head st). drained (devices (ms_sorter st)) msp)"

lemma ms_deq_ok:
  assumes "streams_ok st" "ms_head st = msp # rest" "ms_traces msp = t # ts"
  shows "\<exists>s h. ms_deq st = Some (st\<lparr>ms_sorter := s, ms_head := h\<rparr>) \<and> moves [] (ms_sorter st) s
    \<and> streams_ok (st\<lparr>ms_sorter := s, ms_head := h\<rparr>) \<and> buffered h = buffered (ms_head st) - {#t#}"
proof -
  let ?msp = "msp\<lparr>ms_traces := ts\<rparr>"
  have ok: "devs_ok (devices (ms_sorter st))" "ms_inv rest" "drained (devices (ms_sorter st)) msp"
    "\<forall>m \<in> set rest. drained (devices (ms_sorter st)) m"
    using assms by (auto simp: streams_ok_def ms_inv_def)
  show ?thesis
  proof (cases "ts = []")
    case True
    have "\<exists>s. ms_prime ?msp st = Some (0, ?msp, st\<lparr>ms_sorter := s\<rparr>) \<and> moves [] (ms_sorter st) s"
      using ok by (intro prime_closed) (simp_all add: drained_def ms_dev_def)
    then obtain s where s: "ms_prime ?msp st = Some (0, ?msp, st\<lparr>ms_sorter := s\<rparr>)" "moves [] (ms_sorter st) s"
      by blast
    then have "streams_ok (st\<lparr>ms_sorter := s, ms_head := rest\<rparr>)"
      using ok drained_step [OF moves_devs] moves_devs_ok by (simp add: streams_ok_def)
    moreover have "ms_deq st = Some (st\<lparr>ms_sorter := s, ms_head := rest\<rparr>)"
      using assms(2,3) True s(1) by (simp add: ms_deq_def)
    moreover have "buffered rest = buffered (ms_head st) - {#t#}"
      using assms(2,3) True by simp
    ultimately show ?thesis
      using s(2) by blast
  next
    case False
    let ?h = "ms_resort (?msp # rest)"
    have r: "ms_inv ?h" "mset ?h = mset (?msp # rest)"
      using ms_resort_ok [of "?msp # rest"] ok(2) by simp_all
    have "drained (devices (ms_sorter st)) ?msp"
      using ok(3) assms(3) False by (simp add: drained_def)
    then have "streams_ok (st\<lparr>ms_head := ?h\<rparr>)"
      using ok r mset_eq_setD [OF r(2)] by (auto simp: streams_ok_def)
    moreover have "ms_deq st = Some (st\<lparr>ms_head := ?h\<rparr>)"
      using assms(2,3) False by (simp add: ms_deq_def)
    moreover have "buffered ?h = buffered (ms_head st) - {#t#}"
      using assms(2,3) buffered_mset [OF r(2)] by simp
    moreover have "st\<lparr>ms_head := ?h\<rparr> = st\<lparr>ms_sorter := ms_sorter st, ms_head := ?h\<rparr>"
      by simp
    ultimately show ?thesis
      using moves_self [OF ok(1)] by metis
  qed
qed

text \<open>What is written for a trace that is handled.\<close>

definition shown :: "sorter \<Rightarrow> blk_io_trace \<Rightarrow> bool" where
  "shown s b \<longleftrightarrow> written s b \<and> stopwatch_start s \<le> tr_time b"

lemma moves_shown: "moves bs s s' \<Longrightarrow> shown s' = shown s"
  using moves_written by (auto simp: shown_def fun_eq_iff moves_def)

lemma dump_at_moves:
  assumes "devs_ok (devices s)" "d < length (devices s)" "c < length (pdi_cpus (devices s ! d))" "payload_ok b"
  shows "\<exists>s'. dump_at d c b s = Some (dumped (globs s) b, s') \<and> moves (if recorded (globs s) b then [dumped (globs s) b] else []) s s'"
proof -
  have "dev_ok (devices s ! d)"
    using assms by (simp add: devs_ok_def)
  then obtain pdi g where p: "dump_at d c b s = Some (dumped (globs s) b, set_dev d pdi (s\<lparr>globs := g\<rparr>))"
    "dev_step (devices s ! d) pdi" "same_options (globs s) g"
    "binary_out g = binary_out (globs s) @ (if recorded (globs s) b then [dumped (globs s) b] else [])"
    using dump_at_ok assms(3,4) by blast
  have "devs_step (devices s) ((devices s)[d := pdi])"
    using assms(1,2) p(2) by (rule devs_step_update)
  then have "moves (if recorded (globs s) b then [dumped (globs s) b] else []) s (set_dev d pdi (s\<lparr>globs := g\<rparr>))"
    using p(3,4) unfolding moves_def set_dev_def
    by (intro exI [of _ "(devices s)[d := pdi]"] exI [of _ g]) simp
  then show ?thesis
    using p(1) by blast
qed

lemma handle_trace_ok:
  assumes "devs_ok (devices s)" "d < length (devices s)" "c < length (pdi_cpus (devices s ! d))" "payload_ok (t_bit t)"
  shows "\<exists>t' s'. handle_trace d c t s = Some (t', s') \<and> tr_cpu (t_bit t') = tr_cpu (t_bit t)
    \<and> moves (if shown s (t_bit t) then [dumped (globs s) (t_bit t)] else []) s s'"
proof -
  define s1 where "s1 = set_dev d ((devices s ! d)\<lparr>last_reported_time := tr_time (t_bit t)\<rparr>) s"
  have 1: "moves [] s s1"
    unfolding s1_def using assms
    by (intro update_dev_moves) (simp_all add: devs_ok_def dev_step_def dev_ok_def track_inv_def cpu_seen_def cpu_named_def cpu_closed_def)
  have "d < length (devices s1)" "c < length (pdi_cpus (devices s1 ! d))"
    using assms(2,3) by (simp_all add: s1_def set_dev_def)
  then obtain s2 where 2: "dump_at d c (t_bit t) s1 = Some (dumped (globs s1) (t_bit t), s2)"
    "moves (if recorded (globs s1) (t_bit t) then [dumped (globs s1) (t_bit t)] else []) s1 s2"
    using dump_at_moves moves_devs_ok [OF 1] assms(4) by blast
  have same: "shown s (t_bit t) = shown s1 (t_bit t)" "dumped (globs s) = dumped (globs s1)"
    using moves_shown [OF 1] moves_dumped [OF 1] by simp_all
  show ?thesis
  proof (cases "selected (act_mask s1) (t_bit t) \<and> stopwatch_start s1 \<le> tr_time (t_bit t)")
    case True
    then have "shown s1 (t_bit t) = recorded (globs s1) (t_bit t)"
      by (simp add: shown_def written_def)
    then show ?thesis
      using True 2(1) moves_nil_trans [OF 1 2(2)] same
      by (simp add: handle_trace_def Let_def s1_def [symmetric] split: if_splits)
  next
    case False
    then show ?thesis
      using 1 same by (auto simp: handle_trace_def Let_def s1_def [symmetric] shown_def written_def)
  qed
qed

lemma streams_ok_moves:
  assumes "streams_ok st" "moves bs (ms_sorter st) s"
  shows "streams_ok (st\<lparr>ms_sorter := s\<rparr>)"
  using assms(1) drained_step [OF moves_devs [OF assms(2)]] moves_devs_ok [OF assms(2)] by (simp add: streams_ok_def)

lemma handle_ok:
  assumes "streams_ok st" "ms_head st = msp # rest" "ms_traces msp = t # ts"
    and "t' = shifted (genesis_time (ms_sorter st)) t"
  shows "\<exists>go s h. handle st = Some (go, st\<lparr>ms_sorter := s, ms_head := h\<rparr>)
    \<and> (if tr_time (t_bit t') > stopwatch_end (ms_sorter st) then \<not> go \<and> moves [] (ms_sorter st) s
       else go \<and> moves (if shown (ms_sorter st) (t_bit t') then [dumped (globs (ms_sorter st)) (t_bit t')] else []) (ms_sorter st) s
         \<and> streams_ok (st\<lparr>ms_sorter := s, ms_head := h\<rparr>) \<and> buffered h = buffered (ms_head st) - {#t#})"
proof -
  let ?s = "ms_sorter st" and ?d = "ms_pdi msp" and ?c = "unat (ms_cpu msp)"
  have ok: "devs_ok (devices ?s)" "?d < length (devices ?s)" "0 \<le> sint (ms_cpu msp)" "0 \<le> sint (tr_cpu (t_bit t))"
    "payload_ok (t_bit t')"
    using assms(1-4) by (auto simp: streams_ok_def drained_def shifted_def payload_ok_def)
  then obtain pdi where p: "get_cpu_info (devices ?s ! ?d) (ms_cpu msp) = Some (pdi, ?c)" "dev_step (devices ?s ! ?d) pdi"
    "?c < length (pdi_cpus pdi)"
    using get_cpu_info_ok [of "devices ?s ! ?d"] by (auto simp: devs_ok_def cpu_named_def)
  define pdi1 where "pdi1 = set_cpu ?c (\<lambda>pci. pci\<lparr>pci_nelems := pci_nelems pci + 1\<rparr>) pdi"
  define s1 where "s1 = set_dev ?d pdi1 ?s"
  have "dev_step pdi pdi1"
    unfolding pdi1_def using p(2,3) by (intro set_cpu_step) (simp_all add: dev_step_def dev_ok_def cpu_ok_def)
  then have 1: "moves [] ?s s1"
    unfolding s1_def using ok p(2) dev_step_trans by (blast intro: update_dev_moves)
  have len: "?d < length (devices s1)" "?c < length (pdi_cpus (devices s1 ! ?d))" "genesis_time s1 = genesis_time ?s"
    "stopwatch_end s1 = stopwatch_end ?s"
    using ok(2) p(3) by (simp_all add: s1_def pdi1_def set_dev_def)
  have peek: "ms_peek msp = t" "ms_dev msp st = devices ?s ! ?d"
    using assms(3) by (simp_all add: ms_peek_def ms_dev_def)
  show ?thesis
  proof (cases "tr_time (t_bit t') > stopwatch_end ?s")
    case True
    then show ?thesis
      using 1 p(1) assms(2,4) len(3,4) peek
      by (simp add: handle_def pdi1_def [symmetric] s1_def [symmetric] Let_def) blast
  next
    case False
    obtain t2 s2 where 2: "handle_trace ?d ?c t' s1 = Some (t2, s2)" "moves (if shown s1 (t_bit t') then [dumped (globs s1) (t_bit t')] else []) s1 s2"
      "tr_cpu (t_bit t2) = tr_cpu (t_bit t)"
      using handle_trace_ok [OF moves_devs_ok [OF 1] len(1,2) ok(5)] assms(4) by (auto simp: shifted_def)
    have 12: "moves (if shown ?s (t_bit t') then [dumped (globs ?s) (t_bit t')] else []) ?s s2"
      using moves_nil_trans [OF 1 2(2)] unfolding moves_shown [OF 1] moves_dumped [OF 1] .
    obtain s3 h where 3: "ms_deq (st\<lparr>ms_sorter := s2\<rparr>) = Some (st\<lparr>ms_sorter := s3, ms_head := h\<rparr>)"
      "moves [] s2 s3" "streams_ok (st\<lparr>ms_sorter := s3, ms_head := h\<rparr>)" "buffered h = buffered (ms_head st) - {#t#}"
      using ms_deq_ok [OF streams_ok_moves [OF assms(1) 12], of msp rest t ts] assms(2,3) by auto
    have 13: "moves (if shown ?s (t_bit t') then [dumped (globs ?s) (t_bit t')] else []) ?s s3"
      using moves_trans [OF 12 3(2)] by simp
    have d3: "?d < length (devices s3)"
      using devs_stepD [OF moves_devs [OF 13]] ok(2) by blast
    then have "\<exists>pdi. trace_rb_insert_last (rb_batch s3) (devices s3 ! ?d) t2 = Some pdi \<and> dev_step (devices s3 ! ?d) pdi"
      using moves_devs_ok [OF 13] d3 ok(4) 2(3) by (intro trace_rb_insert_last_ok) (auto simp: devs_ok_def)
    then obtain pdi' where l: "trace_rb_insert_last (rb_batch s3) (devices s3 ! ?d) t2 = Some pdi'"
      "moves [] s3 (set_dev ?d pdi' s3)"
      using update_dev_moves [OF moves_devs_ok [OF 13] d3] by blast
    define s4 where "s4 = (if text_output (globs s3) then set_dev ?d pdi' s3 else s3)"
    have "moves [] s3 s4"
      using l(2) moves_self [OF moves_devs_ok [OF 13]] by (simp add: s4_def)
    then have "moves (if shown ?s (t_bit t') then [dumped (globs ?s) (t_bit t')] else []) ?s s4" "streams_ok (st\<lparr>ms_sorter := s4, ms_head := h\<rparr>)"
      using moves_trans [OF 13, of "[]" s4] streams_ok_moves [OF 3(3), of "[]" s4] by (simp_all add: streams_ok_def)
    moreover have "handle st = Some (True, st\<lparr>ms_sorter := s4, ms_head := h\<rparr>)"
      using p(1) assms(2,4) len(3,4) peek False 2(1) 3(1) l(1)
      by (simp add: handle_def pdi1_def [symmetric] s1_def [symmetric] Let_def s4_def on_sorter_def)
    ultimately show ?thesis
      using False 3(4) by (intro exI [of _ True] exI [of _ s4] exI [of _ h]) simp
  qed
qed

definition to_show :: "sorter \<Rightarrow> trace list \<Rightarrow> blk_io_trace list" where
  "to_show s ts = map (dumped (globs s)) (filter (shown s)
     (takeWhile (\<lambda>b. tr_time b \<le> stopwatch_end s) (map (\<lambda>t. t_bit (shifted (genesis_time s) t)) ts)))"

lemma to_show_Cons:
  "to_show s (t # ts) =
     (let b = t_bit (shifted (genesis_time s) t)
      in if tr_time b \<le> stopwatch_end s then (if shown s b then [dumped (globs s) b] else []) @ to_show s ts else [])"
  by (simp add: to_show_def Let_def)

lemma moves_times: "moves bs s s' \<Longrightarrow> stopwatch_end s' = stopwatch_end s \<and> genesis_time s' = genesis_time s"
  by (auto simp: moves_def)

lemma moves_to_show: "moves bs s s' \<Longrightarrow> to_show s' = to_show s"
  using moves_shown [of bs s s'] moves_times [of bs s s'] moves_dumped [of bs s s'] by (intro ext) (simp add: to_show_def cong: filter_cong)

lemma handle_loop_ok:
  assumes "streams_ok st" "\<not> is_done (ms_sorter st)"
  shows "\<exists>st' L. handle_loop st = Some st' \<and> mset L = buffered (ms_head st) \<and> sorted (map trace_time L)
    \<and> moves (to_show (ms_sorter st) L) (ms_sorter st) (ms_sorter st')"
  using assms
proof (induction "size (buffered (ms_head st))" arbitrary: st rule: less_induct)
  case less
  show ?case
  proof (cases "ms_head st")
    case Nil
    then have "handle_loop st = Some st"
      by (simp add: handle_loop.simps)
    then show ?thesis
      using Nil moves_self less.prems(1) by (intro exI [of _ st] exI [of _ "[]"]) (simp add: streams_ok_def to_show_def)
  next
    case (Cons msp rest)
    let ?s = "ms_sorter st" and ?all = "buffered (ms_head st)"
    obtain t ts where t: "ms_traces msp = t # ts"
      using less.prems(1) Cons by (cases "ms_traces msp") (auto simp: streams_ok_def drained_def)
    let ?t = "shifted (genesis_time ?s) t"
    have mem: "t \<in># ?all"
      using t Cons by simp
    have least: "\<forall>u \<in># ?all. trace_time t \<le> trace_time u"
      using less.prems(1) Cons first_is_earliest [of msp rest "devices ?s"] t
      by (auto simp: streams_ok_def ms_peek_time_def ms_peek_def trace_time_def simp del: buffered_Cons)
    obtain go s h where go: "handle st = Some (go, st\<lparr>ms_sorter := s, ms_head := h\<rparr>)"
      "if tr_time (t_bit ?t) > stopwatch_end ?s then \<not> go \<and> moves [] ?s s
       else go \<and> moves (if shown ?s (t_bit ?t) then [dumped (globs ?s) (t_bit ?t)] else []) ?s s
         \<and> streams_ok (st\<lparr>ms_sorter := s, ms_head := h\<rparr>) \<and> buffered h = ?all - {#t#}"
      using handle_ok [OF less.prems(1) Cons t refl] by blast
    have unfold: "handle_loop st = (if go then handle_loop (st\<lparr>ms_sorter := s, ms_head := h\<rparr>) else Some (st\<lparr>ms_sorter := s, ms_head := h\<rparr>))"
      using less.prems(2) Cons go(1) by (simp add: handle_loop.simps [of st])
    show ?thesis
    proof (cases "tr_time (t_bit ?t) > stopwatch_end ?s")
      case True
      obtain xs where xs: "mset xs = ?all - {#t#}"
        using ex_mset by blast
      let ?L = "t # sort_key trace_time xs"
      have "mset ?L = ?all" "sorted (map trace_time ?L)"
        using xs mem least in_diffD by (fastforce simp flip: set_mset_mset)+
      moreover have "to_show ?s ?L = []"
        using True unfolding to_show_Cons Let_def by (auto dest: leD)
      ultimately show ?thesis
        using True go(2) unfold by (intro exI [of _ "st\<lparr>ms_sorter := s, ms_head := h\<rparr>"] exI [of _ ?L]) simp
    next
      case False
      let ?st = "st\<lparr>ms_sorter := s, ms_head := h\<rparr>"
      have "size (buffered (ms_head ?st)) < size ?all" "streams_ok ?st" "\<not> is_done (ms_sorter ?st)"
        using False go(2) mem less.prems(2) by (auto simp: size_Diff1_less moves_def)
      then obtain st' L where L: "handle_loop ?st = Some st'" "mset L = buffered (ms_head ?st)" "sorted (map trace_time L)"
        "moves (to_show s L) s (ms_sorter st')"
        using less.hyps [of ?st] by auto
      have "moves (if shown ?s (t_bit ?t) then [dumped (globs ?s) (t_bit ?t)] else []) ?s s"
        using False go(2) by simp
      from moves_trans [OF this L(4)] moves_to_show [OF this]
      have "moves (to_show ?s (t # L)) ?s (ms_sorter st')"
        using False by (simp add: to_show_Cons Let_def not_le [symmetric])
      moreover have "mset (t # L) = ?all" "sorted (map trace_time (t # L))"
        using L(2,3) False go(2) mem least by (auto simp flip: set_mset_mset dest: in_diffD)
      moreover have "handle_loop st = Some st'"
        using unfold L(1) False go(2) by simp
      ultimately show ?thesis
        by blast
    qed
  qed
qed

section \<open>Properties\<close>


text \<open>A device with two CPUs whose files are closed; the traces of the second one come before and after that of the
  first.\<close>

definition example_streams :: ms_state where
  "example_streams =
     \<lparr>ms_sorter = example_sorter\<lparr>devices := [zero_dev_info\<lparr>pdi_dev := 8,
          pdi_cpus := [zero_cpu_info\<lparr>pci_fd := - 1\<rparr>, zero_cpu_info\<lparr>pci_fd := - 1, pci_cpu := 1\<rparr>]\<rparr>],
        globs := (init_globals (\<lambda>_. zero_iot))\<lparr>dump_binary := True\<rparr>, genesis_time := 3\<rparr>,
      fds = \<lambda>_. \<lparr>in_events = [], in_fdblock = - 1\<rparr>,
      ms_head = [\<lparr>ms_traces = [example_trace 3 1, example_trace 7 2], ms_pdi = 0, ms_cpu = 1\<rparr>,
                 \<lparr>ms_traces = [example_trace 5 1], ms_pdi = 0, ms_cpu = 0\<rparr>]\<rparr>"


end
