(* ===== verification/C_Text.thy ===== *)
theory C_Text
  imports Prelude
begin

text \<open>
  The parts of the C library (and of its kernel counterparts) that format and scan text: the conversions of
  \<open>printf\<close> for integers, the field widths, \<open>strsep\<close>, \<open>strstrip\<close> and the unsigned conversions of \<open>sscanf\<close>. A string is the list of
  its characters up to the terminating NUL.
\<close>

section \<open>Numbers\<close>

fun nat_digits :: "nat \<Rightarrow> nat \<Rightarrow> nat list" where
  "nat_digits b n = (if n < b \<or> b < 2 then [n] else nat_digits b (n div b) @ [n mod b])"

declare nat_digits.simps [simp del]

definition digit_char :: "nat \<Rightarrow> char" where
  "digit_char d = char_of (if d < 10 then 48 + d else 87 + d)"

definition show_nat :: "nat \<Rightarrow> nat \<Rightarrow> string" where
  "show_nat b n = map digit_char (nat_digits b n)"

text \<open>\<open>%u\<close>, \<open>%llu\<close>, \<open>%d\<close> and \<open>%x\<close>.\<close>

definition fmt_u :: "'a :: len word \<Rightarrow> string" where
  "fmt_u w = show_nat 10 (unat w)"

definition fmt_d :: "int \<Rightarrow> string" where
  "fmt_d i = (if i < 0 then CHR ''-'' # show_nat 10 (nat (- i)) else show_nat 10 (nat i))"

definition fmt_x :: "'a :: len word \<Rightarrow> string" where
  "fmt_x w = show_nat 16 (unat w)"

text \<open>A field width, right- or left-adjusted, or filled with zeros.\<close>

definition pad_left :: "nat \<Rightarrow> string \<Rightarrow> string" where
  "pad_left w s = replicate (w - length s) CHR '' '' @ s"

definition pad_right :: "nat \<Rightarrow> string \<Rightarrow> string" where
  "pad_right w s = s @ replicate (w - length s) CHR '' ''"

definition pad_zero :: "nat \<Rightarrow> string \<Rightarrow> string" where
  "pad_zero w s = replicate (w - length s) CHR ''0'' @ s"

section \<open>Scanning\<close>

definition is_space :: "char \<Rightarrow> bool" where
  "is_space c \<longleftrightarrow> c \<in> {CHR '' '', CHR 0x09, CHR 0x0A, CHR 0x0B, CHR 0x0C, CHR 0x0D}"

definition digit_val :: "char \<Rightarrow> nat option" where
  "digit_val c = (let n = (of_char c :: nat)
     in if 48 \<le> n \<and> n \<le> 57 then Some (n - 48)
        else if 97 \<le> n \<and> n \<le> 102 then Some (n - 87)
        else if 65 \<le> n \<and> n \<le> 70 then Some (n - 55) else None)"

definition is_digit :: "nat \<Rightarrow> char \<Rightarrow> bool" where
  "is_digit b c \<longleftrightarrow> (case digit_val c of None \<Rightarrow> False | Some d \<Rightarrow> d < b)"

definition digits_value :: "nat \<Rightarrow> string \<Rightarrow> nat" where
  "digits_value b s = foldl (\<lambda>a c. a * b + the (digit_val c)) 0 s"

text \<open>The hexadecimal prefix, which counts only before a digit.\<close>

definition skip_prefix :: "nat \<Rightarrow> string \<Rightarrow> string" where
  "skip_prefix b s =
     (if b = 16 \<and> length s > 2 \<and> s ! 0 = CHR ''0'' \<and> s ! 1 \<in> {CHR ''x'', CHR ''X''} \<and> is_digit 16 (s ! 2)
      then drop 2 s else s)"

text \<open>\<open>sscanf\<close> with \<open>%llu\<close> or \<open>%llx\<close>: the value and what follows it.\<close>

definition scan_unsigned :: "nat \<Rightarrow> string \<Rightarrow> (u64 \<times> string) option" where
  "scan_unsigned b s =
     (let s = skip_prefix b (dropWhile is_space s); ds = takeWhile (is_digit b) s
      in if ds = [] then None else Some (of_nat (digits_value b ds), dropWhile (is_digit b) s))"

section \<open>Splitting\<close>

text \<open>All the tokens that \<open>strsep\<close> with one delimiter delivers.\<close>

fun strsep_tokens :: "char \<Rightarrow> string \<Rightarrow> string list" where
  "strsep_tokens c [] = [[]]"
| "strsep_tokens c (x # xs) =
     (if x = c then [] # strsep_tokens c xs
      else (case strsep_tokens c xs of [] \<Rightarrow> [[x]] | t # ts \<Rightarrow> (x # t) # ts))"

definition strstrip :: "string \<Rightarrow> string" where
  "strstrip s = rev (dropWhile is_space (rev (dropWhile is_space s)))"

section \<open>Lemmas\<close>

lemma nat_digits_less: "1 < b \<Longrightarrow> \<forall>d \<in> set (nat_digits b n). d < b"
proof (induction b n rule: nat_digits.induct)
  case (1 b n)
  then show ?case
    by (subst nat_digits.simps) auto
qed

lemma digit_val_char: "d < 16 \<Longrightarrow> digit_val (digit_char d) = Some d"
  by (simp add: digit_val_def digit_char_def Let_def)

lemma is_digit_char: "d < b \<Longrightarrow> b \<le> 16 \<Longrightarrow> is_digit b (digit_char d)"
  by (simp add: is_digit_def digit_val_char)

lemma show_nat_digits: "1 < b \<Longrightarrow> b \<le> 16 \<Longrightarrow> c \<in> set (show_nat b n) \<Longrightarrow> is_digit b c"
  using nat_digits_less by (fastforce simp: show_nat_def is_digit_char)

lemma show_nat_nonempty [simp]: "show_nat b n \<noteq> []"
  by (subst show_nat_def, subst nat_digits.simps) simp

lemma digits_value_show:
  assumes "1 < b" "b \<le> 16"
  shows "digits_value b (show_nat b n) = n"
  using assms
proof (induction b n rule: nat_digits.induct)
  case (1 b n)
  show ?case
  proof (cases "n < b")
    case True
    then show ?thesis
      using 1 by (subst show_nat_def, subst nat_digits.simps) (simp add: digits_value_def digit_val_char)
  next
    case False
    then have "show_nat b n = show_nat b (n div b) @ [digit_char (n mod b)]"
      using 1 by (simp add: show_nat_def nat_digits.simps [of b n])
    moreover have "n mod b < 16"
      using 1 by (meson less_le_trans mod_less_divisor order_less_trans zero_less_one)
    ultimately show ?thesis
      using 1 False by (simp add: digits_value_def digit_val_char)
  qed
qed

lemma digit_not_space: "is_digit b c \<Longrightarrow> \<not> is_space c"
  by (auto simp: is_digit_def is_space_def digit_val_def Let_def split: if_splits option.splits)

lemma show_nat_hd: "1 < b \<Longrightarrow> b \<le> 16 \<Longrightarrow> \<not> is_space (hd (show_nat b n))"
  using digit_not_space show_nat_digits by (metis hd_in_set show_nat_nonempty)

text \<open>A printed number is read back.\<close>

lemma scan_show:
  assumes "rest = [] \<or> \<not> is_digit 10 (hd rest)"
  shows "scan_unsigned 10 (show_nat 10 n @ rest) = Some (of_nat n, rest)"
proof -
  obtain c s where cs: "show_nat 10 n = c # s"
    using show_nat_nonempty by (cases "show_nat 10 n") auto
  have "dropWhile is_space (show_nat 10 n @ rest) = show_nat 10 n @ rest"
    using show_nat_hd [of 10 n] cs by simp
  moreover have "takeWhile (is_digit 10) (show_nat 10 n @ rest) = show_nat 10 n"
    "dropWhile (is_digit 10) (show_nat 10 n @ rest) = rest"
    using assms show_nat_digits [of 10 _ n] by (cases rest; simp add: takeWhile_append2 dropWhile_append2)+
  ultimately show ?thesis
    by (simp add: scan_unsigned_def skip_prefix_def digits_value_show Let_def)
qed

lemma strsep_tokens_nonempty [simp]: "strsep_tokens c s \<noteq> []"
  by (cases s) (auto split: list.splits)

lemma strsep_tokens_single: "c \<notin> set s \<Longrightarrow> strsep_tokens c s = [s]"
  by (induction s) auto

lemma strsep_tokens_append: "c \<notin> set s \<Longrightarrow> strsep_tokens c (s @ c # t) = s # strsep_tokens c t"
  by (induction s) auto

end
