(* ===== verification/Ext_Journal.thy ===== *)
theory Ext_Journal
  imports C_Text
begin

text \<open>
  The journal of ext3 as \<open>stat/ext-journal.c\<close> reads it: the big-endian readers of \<open>base-intro.c\<close>, the headers and the
  descriptor entries, the search of a journal block, the list of the journal blocks and the one open transaction.
  A buffer is the list of its bytes; a read outside it is \<open>None\<close>.
\<close>

section \<open>Readers\<close>

definition ROUNDDOWN :: "u64 \<Rightarrow> u32 \<Rightarrow> u64" where
  "ROUNDDOWN a n = a - a mod ucast n"

definition ROUNDUP :: "u64 \<Rightarrow> u32 \<Rightarrow> u64" where
  "ROUNDUP a n = ROUNDDOWN (a + ucast (n - 1)) n"

definition CEILING :: "u32 \<Rightarrow> u32 \<Rightarrow> u32" where
  "CEILING a d = a div d + a mod d"

definition byte_at :: "u8 list \<Rightarrow> nat \<Rightarrow> u8 option" where
  "byte_at buf i = (if i < length buf then Some (buf ! i) else None)"

definition readui32be :: "u8 list \<Rightarrow> nat \<Rightarrow> u32 option" where
  "readui32be buf offset = do {
     a \<leftarrow> byte_at buf offset;
     b \<leftarrow> byte_at buf (offset + 1);
     c \<leftarrow> byte_at buf (offset + 2);
     d \<leftarrow> byte_at buf (offset + 3);
     Some (push_bit 24 (ucast a) OR push_bit 16 (ucast b) OR push_bit 8 (ucast c) OR ucast d) }"

definition readui16be :: "u8 list \<Rightarrow> nat \<Rightarrow> u16 option" where
  "readui16be buf offset = do {
     a \<leftarrow> byte_at buf offset;
     b \<leftarrow> byte_at buf (offset + 1);
     Some (push_bit 8 (ucast a) OR ucast b) }"

definition readui32le :: "u8 list \<Rightarrow> nat \<Rightarrow> u32 option" where
  "readui32le buf offset = do {
     a \<leftarrow> byte_at buf offset;
     b \<leftarrow> byte_at buf (offset + 1);
     c \<leftarrow> byte_at buf (offset + 2);
     d \<leftarrow> byte_at buf (offset + 3);
     Some (push_bit 24 (ucast d) OR push_bit 16 (ucast c) OR push_bit 8 (ucast b) OR ucast a) }"

definition readui16le :: "u8 list \<Rightarrow> nat \<Rightarrow> u16 option" where
  "readui16le buf offset = do {
     a \<leftarrow> byte_at buf offset;
     b \<leftarrow> byte_at buf (offset + 1);
     Some (push_bit 8 (ucast b) OR ucast a) }"

text \<open>The part of a device that an aligned read covers: its offset and size, and where the data starts in the buffer;
  \<open>None\<close> where \<open>align_read\<close> returns \<open>-1\<close> before it reads.\<close>

definition align_range :: "u64 \<Rightarrow> u64 \<Rightarrow> u32 \<Rightarrow> u32 \<Rightarrow> u32 \<Rightarrow> (u64 \<times> u32 \<times> u64) option" where
  "align_range buf offset sz capacity alignment =
     (if buf mod ucast alignment \<noteq> 0 then None
      else let start = ROUNDDOWN offset alignment;
               len = ucast (ROUNDUP (offset - start + ucast sz) alignment) :: u32
           in if capacity < len then None else Some (start, len, offset - start))"

section \<open>Headers and entries\<close>

definition JOURNAL_SIGNATURE :: u32 where
  "JOURNAL_SIGNATURE = 0xc03b3998"

definition JOURNAL_DESCRIPTOR_BLOCK :: u32 where
  "JOURNAL_DESCRIPTOR_BLOCK = 1"

definition JOURNAL_REVOKE_BLOCK :: u32 where
  "JOURNAL_REVOKE_BLOCK = 5"

definition JOURNAL_DESC_SAME_UUID :: u32 where
  "JOURNAL_DESC_SAME_UUID = 0x02"

definition JOURNAL_DESC_LAST_ENTRY :: u32 where
  "JOURNAL_DESC_LAST_ENTRY = 0x08"

record ext_journal_standard_header_t =
  jsh_signature :: u32
  jsh_block_type :: u32
  jsh_sequence :: u32

record ext_journal_superblock_t =
  js_header :: ext_journal_standard_header_t
  js_block_size :: u32
  js_blocks :: u32
  js_first_journal_block :: u32
  js_first_sequence :: u32
  js_first_transaction_block :: u32
  js_error :: u32

record ext_journal_descriptor_entry_t =
  jde_fs_block :: u32
  jde_entry_flags :: u32

definition is_journal_fs_block :: "u8 list \<Rightarrow> bool option" where
  "is_journal_fs_block buf = map_option (\<lambda>w. w \<noteq> JOURNAL_SIGNATURE) (readui32be buf 0)"

text \<open>The result is \<open>None\<close> inside for the return value \<open>-1\<close>.\<close>

definition parse_journal_standard_header :: "u8 list \<Rightarrow> int \<Rightarrow> ext_journal_standard_header_t option option" where
  "parse_journal_standard_header buf sz =
     (if sz < 12 then Some None
      else do {
        signature \<leftarrow> readui32be buf 0;
        block_type \<leftarrow> readui32be buf 4;
        sequence \<leftarrow> readui32be buf 8;
        Some (if signature \<noteq> JOURNAL_SIGNATURE then None
              else if block_type = 0 \<or> block_type > JOURNAL_REVOKE_BLOCK then None
              else Some \<lparr>jsh_signature = signature, jsh_block_type = block_type, jsh_sequence = sequence\<rparr>) })"

text \<open>The entry and the return value, the size that is left.\<close>

definition parse_journal_descriptor_entry :: "u8 list \<Rightarrow> int \<Rightarrow> (ext_journal_descriptor_entry_t \<times> int) option option" where
  "parse_journal_descriptor_entry buf sz =
     (if sz < 8 then Some None
      else do {
        fs_block \<leftarrow> readui32be buf 0;
        flags \<leftarrow> readui32be buf 4;
        let entry = \<lparr>jde_fs_block = fs_block, jde_entry_flags = flags\<rparr>;
        Some (if flags AND JOURNAL_DESC_SAME_UUID = 0
              then if sz < 24 then None else Some (entry, sz - 24)
              else Some (entry, sz - 8)) })"

text \<open>The size test of the superblock only prints a message.\<close>

definition parse_journal_superblock :: "u8 list \<Rightarrow> ext_journal_superblock_t option option" where
  "parse_journal_superblock buf = do {
     header \<leftarrow> parse_journal_standard_header buf 12;
     case header of
       None \<Rightarrow> Some None
     | Some h \<Rightarrow> do {
         block_size \<leftarrow> readui32be buf 12;
         blocks \<leftarrow> readui32be buf 16;
         first_block \<leftarrow> readui32be buf 20;
         first_seq \<leftarrow> readui32be buf 24;
         first_trans \<leftarrow> readui32be buf 28;
         err \<leftarrow> readui32be buf 32;
         Some (Some \<lparr>js_header = h, js_block_size = block_size, js_blocks = blocks, js_first_journal_block = first_block,
           js_first_sequence = first_seq, js_first_transaction_block = first_trans, js_error = err\<rparr>) } }"

section \<open>The journal blocks\<close>

text \<open>The loop of the binary search over the numbers of the blocks.\<close>

function search_block :: "u32 \<Rightarrow> u32 list \<Rightarrow> int \<Rightarrow> int \<Rightarrow> nat option" where
  "search_block blockid blocks ll ul =
     (if ll \<le> ul then
        let mid = ll + (ul - ll) div 2; b = blocks ! nat mid
        in if blockid < b then search_block blockid blocks ll (mid - 1)
           else if blockid > b then search_block blockid blocks (mid + 1) ul
           else Some (nat mid)
      else None)"
  by pat_completeness auto
termination
  by (relation "measure (\<lambda>(_, _, ll, ul). nat (ul - ll + 1))") auto

declare search_block.simps [simp del]

definition get_journalblock_from_datablock :: "u32 \<Rightarrow> u32 list \<Rightarrow> nat option option" where
  "get_journalblock_from_datablock blockid blocks =
     (if blocks = [] then None
      else if blockid < hd blocks \<or> blockid > last blocks then Some None
      else Some (search_block blockid blocks 0 (int (length blocks) - 1)))"

text \<open>The block before one in the log, which is a ring that leaves out the superblock at index 0.\<close>

definition get_prev_journal_block :: "nat \<Rightarrow> nat \<Rightarrow> nat" where
  "get_prev_journal_block journal_block sz =
     (if journal_block = 0 \<or> journal_block = 1 then sz - 1 else journal_block - 1)"

text \<open>The blocks of a file, from its tree of indirect blocks.\<close>

record sblock_t =
  sb_level :: u8
  sb_bh :: u32
  sb_sib :: u32

partial_function (option) init_journal_blocklist :: "(u32 \<Rightarrow> sblock_t option) \<Rightarrow> u32 list \<Rightarrow> u32 \<Rightarrow> u32 list option" where
  "init_journal_blocklist blist blocks blockid =
     (if blockid = 0 then Some blocks
      else do {
        b \<leftarrow> blist blockid;
        blocks \<leftarrow> (if sb_level b \<noteq> 0 then init_journal_blocklist blist blocks (sb_bh b) else Some (blocks @ [blockid]));
        init_journal_blocklist blist blocks (sb_sib b) })"

text \<open>The list in ranges.\<close>

fun dump_ranges :: "u32 list \<Rightarrow> u32 \<Rightarrow> string" where
  "dump_ranges [] t = (if t \<noteq> 0 then ''-'' @ fmt_d (sint (t - 1)) @ ''\<newline>'' else ''\<newline>'')"
| "dump_ranges (b # bs) t =
     (if t = 0 then fmt_d (sint b) @ dump_ranges bs (b + 1)
      else if t = b then dump_ranges bs (b + 1)
      else ''-'' @ fmt_d (sint (t - 1)) @ '', '' @ fmt_d (sint b) @ dump_ranges bs (b + 1))"

definition dump_journal_blocklist :: "u32 list \<Rightarrow> string" where
  "dump_journal_blocklist blocks = dump_ranges blocks 0"

section \<open>Transactions\<close>

text \<open>The pool of \<open>JOURNAL_FREE_TRANSACTION\<close> structs is a list of their numbers; a transaction has its number, its sequence number and the index of its
  descriptor block.\<close>

definition JOURNAL_FREE_TRANSACTION :: nat where
  "JOURNAL_FREE_TRANSACTION = 16"

record sjournal_t =
  free_trans :: "nat list"
  sj_transaction :: "(nat \<times> u32 \<times> nat) option"
  sj_blocklist :: "u32 list"

definition init_journal :: "u32 list \<Rightarrow> sjournal_t" where
  "init_journal blocks = \<lparr>free_trans = [0..<JOURNAL_FREE_TRANSACTION], sj_transaction = None, sj_blocklist = blocks\<rparr>"

definition alloc_trans :: "sjournal_t \<Rightarrow> (nat \<times> sjournal_t) option" where
  "alloc_trans j = (case free_trans j of [] \<Rightarrow> None | t # ts \<Rightarrow> Some (t, j\<lparr>free_trans := ts\<rparr>))"

definition dealloc_trans :: "nat \<Rightarrow> sjournal_t \<Rightarrow> sjournal_t" where
  "dealloc_trans t j = j\<lparr>free_trans := t # free_trans j\<rparr>"

text \<open>\<open>False\<close> for the return value \<open>-1\<close>.\<close>

definition begin_transaction :: "nat \<Rightarrow> u32 \<Rightarrow> sjournal_t \<Rightarrow> bool \<times> sjournal_t" where
  "begin_transaction journal_block sequence j =
     (if sj_transaction j \<noteq> None then (False, j)
      else case alloc_trans j of
             None \<Rightarrow> (False, j)
           | Some (t, j) \<Rightarrow> (True, j\<lparr>sj_transaction := Some (t, sequence, journal_block)\<rparr>))"

definition end_transaction :: "nat \<Rightarrow> sjournal_t \<Rightarrow> bool \<times> sjournal_t" where
  "end_transaction t j =
     (if map_option fst (sj_transaction j) \<noteq> Some t then (False, j)
      else (True, (dealloc_trans t j)\<lparr>sj_transaction := None\<rparr>))"

section \<open>Lemmas\<close>

lemma readui32be_some: "(\<exists>w. readui32be buf i = Some w) \<longleftrightarrow> i + 3 < length buf"
  by (auto simp: readui32be_def byte_at_def)

lemma readui32be_none: "readui32be buf i = None \<longleftrightarrow> length buf \<le> i + 3"
  using readui32be_some [of buf i] by (cases "readui32be buf i") auto

text \<open>The search looks at sorted blocks between its bounds only.\<close>

lemma search_block_found:
  "search_block blockid blocks ll ul = Some i \<Longrightarrow> 0 \<le> ll \<Longrightarrow> ul < int (length blocks) \<Longrightarrow>
   i < length blocks \<and> blocks ! i = blockid"
proof (induction blockid blocks ll ul rule: search_block.induct)
  case (1 blockid blocks ll ul)
  show ?case
    using "1.IH" "1.prems" search_block.simps [of blockid blocks ll ul] by (auto simp: Let_def split: if_splits)
qed

lemma search_block_complete:
  assumes "sorted blocks" "search_block blockid blocks ll ul = None" "0 \<le> ll" "ul < int (length blocks)"
    and "i < length blocks" "blocks ! i = blockid"
  shows "int i < ll \<or> ul < int i"
  using assms
proof (induction blockid blocks ll ul rule: search_block.induct)
  case (1 blockid blocks ll ul)
  let ?mid = "ll + (ul - ll) div 2"
  show ?case
  proof (cases "ll \<le> ul")
    case True
    have lt: "blocks ! a \<le> blocks ! b" if "a \<le> b" "b < length blocks" for a b
      using 1(3) that by (simp add: sorted_iff_nth_mono)
    consider "blockid < blocks ! nat ?mid" | "blockid > blocks ! nat ?mid" | "blockid = blocks ! nat ?mid"
      by force
    then show ?thesis
    proof cases
      case 1
      then have "int i < ll \<or> ?mid - 1 < int i"
        using "1.prems" True by (intro "1.IH"(1)) (auto simp: search_block.simps [of _ _ ll] Let_def)
      moreover have "int i < ?mid"
        using lt [of "nat ?mid" i] 1 "1.prems"(5,6) by (cases "?mid \<le> int i") (auto simp: nat_le_iff dest: leD)
      ultimately show ?thesis
        by simp
    next
      case 2
      then have "int i < ?mid + 1 \<or> ul < int i"
        using "1.prems" True by (intro "1.IH"(2)) (auto simp: search_block.simps [of _ _ ll] Let_def split: if_splits dest: order.asym)
      moreover have "nat ?mid < length blocks"
        using "1.prems"(3,4) True by (simp add: nat_less_iff)
      moreover from this have "?mid < int i"
        using lt [of i "nat ?mid"] 2 "1.prems"(3-6) True by (cases "int i \<le> ?mid") (auto simp: le_nat_iff dest: leD)
      ultimately show ?thesis
        by simp
    next
      case 3
      then show ?thesis
        using "1.prems" True by (simp add: search_block.simps [of _ _ ll] Let_def)
    qed
  qed auto
qed

lemma search_block_equiv:
  assumes "sorted blocks" "blocks \<noteq> []"
  shows "get_journalblock_from_datablock blockid blocks =
    Some (if blockid \<in> set blocks then search_block blockid blocks 0 (int (length blocks) - 1) else None)"
proof -
  have "hd blocks \<le> b \<and> b \<le> last blocks" if "b \<in> set blocks" for b
    using assms that by (auto simp: in_set_conv_nth hd_conv_nth last_conv_nth sorted_iff_nth_mono)
  moreover have "search_block blockid blocks 0 (int (length blocks) - 1) = None" if "blockid \<notin> set blocks"
    using search_block_found [of blockid blocks 0 "int (length blocks) - 1"] that
    by (cases "search_block blockid blocks 0 (int (length blocks) - 1)") auto
  ultimately show ?thesis
    using assms(2) by (auto simp: get_journalblock_from_datablock_def not_less dest: leD)
qed

text \<open>The pool and the open transaction together hold every struct once.\<close>

definition journal_inv :: "sjournal_t \<Rightarrow> bool" where
  "journal_inv j \<longleftrightarrow>
     mset (free_trans j) + (case sj_transaction j of None \<Rightarrow> {#} | Some (t, _) \<Rightarrow> {#t#}) = mset [0..<JOURNAL_FREE_TRANSACTION]"

lemma journal_inv_init: "journal_inv (init_journal blocks)"
  by (simp add: journal_inv_def init_journal_def)

lemma journal_inv_free:
  assumes "journal_inv j" "sj_transaction j = None"
  obtains t ts where "free_trans j = t # ts"
proof (cases "free_trans j")
  case Nil
  then show ?thesis
    using assms by (simp add: journal_inv_def JOURNAL_FREE_TRANSACTION_def upt_rec)
qed (use that in blast)

section \<open>Properties\<close>

text \<open>C35: on sorted block numbers the binary search of \<open>get_journalblock_from_datablock\<close> never reads outside the array and finds
  the given number exactly when it is in the list, at an index that holds it.\<close>

theorem journal_block_search:
  assumes "sorted blocks" "blocks \<noteq> []"
  shows "case get_journalblock_from_datablock blockid blocks of
      None \<Rightarrow> False
    | Some None \<Rightarrow> blockid \<notin> set blocks
    | Some (Some i) \<Rightarrow> i < length blocks \<and> blocks ! i = blockid"
proof -
  have "search_block blockid blocks 0 (int (length blocks) - 1) \<noteq> None" if "blockid \<in> set blocks"
    using search_block_complete [OF assms(1), of blockid 0 "int (length blocks) - 1"] that
    by (fastforce simp: in_set_conv_nth)
  then show ?thesis
    using search_block_equiv [OF assms, of blockid] search_block_found [of blockid blocks 0 "int (length blocks) - 1"]
    by (auto split: option.splits)
qed

theorem journal_block_search_witness:
  "\<exists>i. get_journalblock_from_datablock 12 [3, 7, 12, 40] = Some (Some i) \<and> [3, 7, 12, 40 :: u32] ! i = 12"
  using journal_block_search [of "[3, 7, 12, 40]" 12] by (auto split: option.splits)



end
