(* ===== verification/Kernel_Trace.thy ===== *)
theory Kernel_Trace
  imports Trace_Input Ext_Journal
begin

text \<open>
  The in-kernel tracer \<open>blktrace.c\<close>: the trace of a request queue, the records it writes for the processes, the time and
  messages (\<open>trace_note\<close>), the filter (\<open>act_log_check\<close>), the two versions of \<open>__blk_add_trace\<close> and the callbacks of
  the tracepoints. What the rest of the kernel does is the parameter \<open>env\<close> of the operations: the current task and CPU, the clocks, whether
  the relay and the ring buffer have room, the numbers of the request flags and the journal parser of \<open>ext4-journal.h\<close>.
\<close>

section \<open>State\<close>

text \<open>The state of a struct that \<open>kzalloc\<close> has cleared is none of the three.\<close>

datatype trace_state = Blktrace_none | Blktrace_setup | Blktrace_running | Blktrace_stopped

record blk_trace =
  bt_state :: trace_state
  bt_rchan :: bool
  bt_sequence :: "(u32 \<Rightarrow> u64) option"
  bt_act_mask :: u16
  start_lba :: u64
  end_lba :: u64
  bt_pid :: u32
  bt_dev :: u32
  bt_dropped :: u32
  bt_relay :: "blk_io_trace list"

text \<open>The queues with their traces, the global variables, the structs that are allocated and what \<open>tsk->btrace_seq\<close> is for a process.\<close>

record kernel =
  queues :: "nat \<Rightarrow> blk_trace option"
  blktrace_seq :: u32
  blk_tracer_enabled :: bool
  blk_probes_ref :: int
  registered :: bool
  blk_tree_root :: bool
  allocated :: nat
  btrace_seq :: "u32 \<Rightarrow> u32"
  ring :: "blk_io_trace list"

definition init_kernel :: kernel where
  "init_kernel = \<lparr>queues = (\<lambda>_. None), blktrace_seq = 1, blk_tracer_enabled = False, blk_probes_ref = 0, registered = False,
     blk_tree_root = False, allocated = 0, btrace_seq = (\<lambda>_. 0), ring = []\<rparr>"

section \<open>The environment\<close>

datatype reserve_result = Fits | Next_buf bool | Too_big

datatype req_flag = REQ_SYNC | REQ_RAHEAD | REQ_META | REQ_DISCARD | REQ_FLUSH | REQ_FUA

record journal_api =
  parse_header :: "u8 list \<Rightarrow> int \<Rightarrow> ext_journal_standard_header_t option option"
  parse_entry :: "u8 list \<Rightarrow> int \<Rightarrow> (ext_journal_descriptor_entry_t \<times> int) option option"

record env =
  e_cpu :: u32
  e_pid :: u32
  e_comm :: "u8 list"
  e_ktime :: u64
  e_now :: "u32 \<times> u32"
  e_mem :: blk_io_trace
  e_reserve :: "blk_io_trace list \<Rightarrow> nat \<Rightarrow> reserve_result"
  e_ring :: "nat \<Rightarrow> bool"
  e_req :: "req_flag \<Rightarrow> nat"
  e_journal :: journal_api

section \<open>Bytes of the payloads\<close>

definition le32 :: "u32 \<Rightarrow> u8 list" where
  "le32 w = map (\<lambda>i. ucast (drop_bit (8 * i) w)) [0..<4]"

definition le64 :: "u64 \<Rightarrow> u8 list" where
  "le64 w = map (\<lambda>i. ucast (drop_bit (8 * i) w)) [0..<8]"

definition cpu_to_be32 :: "u32 \<Rightarrow> u8 list" where
  "cpu_to_be32 w = rev (le32 w)"

definition cpu_to_be64 :: "u64 \<Rightarrow> u8 list" where
  "cpu_to_be64 w = rev (le64 w)"

section \<open>Notes\<close>

text \<open>The relay asks before it starts a sub-buffer; a full one counts as a drop.\<close>

definition blk_subbuf_start_callback :: "bool \<Rightarrow> blk_trace \<Rightarrow> bool \<times> blk_trace" where
  "blk_subbuf_start_callback full bt =
     (if \<not> full then (True, bt) else (False, bt\<lparr>bt_dropped := bt_dropped bt + 1\<rparr>))"

definition relay_reserve :: "env \<Rightarrow> nat \<Rightarrow> blk_trace \<Rightarrow> bool \<times> blk_trace" where
  "relay_reserve env len bt =
     (case e_reserve env (bt_relay bt) len of
        Fits \<Rightarrow> (True, bt)
      | Next_buf full \<Rightarrow> blk_subbuf_start_callback full bt
      | Too_big \<Rightarrow> (False, bt))"

definition note_record :: "env \<Rightarrow> u32 \<Rightarrow> u32 \<Rightarrow> u8 list \<Rightarrow> blk_trace \<Rightarrow> blk_io_trace \<Rightarrow> blk_io_trace" where
  "note_record env pid action data bt t =
     t\<lparr>tr_device := bt_dev bt, tr_action := action, tr_pid := pid, tr_cpu := e_cpu env,
       tr_pdu_len := of_nat (length data), tr_pdu := data\<rparr>"

text \<open>A record of the relay: the fields that only it has.\<close>

definition relay_record :: "env \<Rightarrow> blk_io_trace" where
  "relay_record env =
     (e_mem env)\<lparr>tr_magic := BLK_IO_TRACE_MAGIC OR BLK_IO_TRACE_VERSION, tr_time := e_ktime env\<rparr>"

definition trace_note :: "env \<Rightarrow> u32 \<Rightarrow> u32 \<Rightarrow> u8 list \<Rightarrow> blk_trace \<times> kernel \<Rightarrow> blk_trace \<times> kernel" where
  "trace_note env pid action data bk =
     (let (bt, k) = bk; len = sizeof_trace + length data
      in if blk_tracer_enabled k then
           (if \<not> e_ring env len then (bt, k)
            else (bt, k\<lparr>ring := ring k @ [note_record env pid action data bt (e_mem env)]\<rparr>))
         else if \<not> bt_rchan bt then (bt, k)
         else let (t, bt) = relay_reserve env len bt
              in if t then (bt\<lparr>bt_relay := bt_relay bt @ [note_record env pid action data bt (relay_record env)]\<rparr>, k)
                 else (bt, k))"

definition trace_note_tsk :: "env \<Rightarrow> blk_trace \<times> kernel \<Rightarrow> blk_trace \<times> kernel" where
  "trace_note_tsk env bk =
     (let (bt, k) = bk
      in trace_note env (e_pid env) (BLK_TN TN_PROCESS) (e_comm env)
           (bt, k\<lparr>btrace_seq := (btrace_seq k)(e_pid env := blktrace_seq k)\<rparr>))"

definition trace_note_time :: "env \<Rightarrow> blk_trace \<times> kernel \<Rightarrow> blk_trace \<times> kernel" where
  "trace_note_time env bk =
     trace_note env 0 (BLK_TN TN_TIMESTAMP) (le32 (fst (e_now env)) @ le32 (snd (e_now env))) bk"

text \<open>The message is what the format produces; \<open>vscnprintf\<close> cuts it.\<close>

definition trace_note_message :: "env \<Rightarrow> nat \<Rightarrow> u8 list \<Rightarrow> blk_trace \<times> kernel \<Rightarrow> blk_trace \<times> kernel" where
  "trace_note_message env max_msg msg bk =
     (let (bt, k) = bk
      in if bt_state bt \<noteq> Blktrace_running \<and> \<not> blk_tracer_enabled k then bk
         else if (ucast (bt_act_mask bt) :: u32) AND BLK_TC TC_NOTIFY = 0 then bk
         else trace_note env 0 (BLK_TN TN_MESSAGE) (take (max_msg - 1) msg) bk)"

section \<open>Events\<close>

definition act_log_check :: "blk_trace \<Rightarrow> u32 \<Rightarrow> u64 \<Rightarrow> u32 \<Rightarrow> bool" where
  "act_log_check bt what sector pid \<longleftrightarrow>
     push_bit BLK_TC_SHIFT (ucast (bt_act_mask bt)) AND what = 0
     \<or> sector \<noteq> 0 \<and> (sector < start_lba bt \<or> sector > end_lba bt)
     \<or> bt_pid bt \<noteq> 0 \<and> pid \<noteq> bt_pid bt"

definition ddir_act :: "u32 \<Rightarrow> u32" where
  "ddir_act rw = (if rw AND 1 = 0 then BLK_TC_ACT (BLK_TC TC_READ) else BLK_TC_ACT (BLK_TC TC_WRITE))"

text \<open>The category of a request flag and its bit.\<close>

fun req_tc :: "req_flag \<Rightarrow> nat" where
  "req_tc REQ_SYNC = 3"
| "req_tc REQ_RAHEAD = 11"
| "req_tc REQ_META = 12"
| "req_tc REQ_DISCARD = 13"
| "req_tc REQ_FLUSH = 2"
| "req_tc REQ_FUA = 15"

definition MASK_TC_BIT :: "(req_flag \<Rightarrow> nat) \<Rightarrow> u32 \<Rightarrow> req_flag \<Rightarrow> u32" where
  "MASK_TC_BIT req rw f = push_bit (req_tc f + BLK_TC_SHIFT - req f) (rw AND push_bit (req f) 1)"

definition event_action :: "(req_flag \<Rightarrow> nat) \<Rightarrow> u32 \<Rightarrow> u32 \<Rightarrow> u32" where
  "event_action req rw what =
     what OR ddir_act rw OR MASK_TC_BIT req rw REQ_SYNC OR MASK_TC_BIT req rw REQ_RAHEAD OR MASK_TC_BIT req rw REQ_META
     OR MASK_TC_BIT req rw REQ_DISCARD OR MASK_TC_BIT req rw REQ_FLUSH OR MASK_TC_BIT req rw REQ_FUA"

definition event_record ::
    "env \<Rightarrow> u64 \<Rightarrow> u32 \<Rightarrow> u32 \<Rightarrow> u32 \<Rightarrow> u8 list \<Rightarrow> blk_trace \<Rightarrow> blk_io_trace \<Rightarrow> blk_io_trace" where
  "event_record env sector bytes what err pdu bt t =
     t\<lparr>tr_cpu := e_cpu env, tr_pid := e_pid env, tr_sector := sector, tr_bytes := bytes, tr_action := what,
       tr_device := bt_dev bt, tr_error := ucast err, tr_pdu_len := of_nat (length pdu), tr_pdu := pdu\<rparr>"

text \<open>The part that both versions share; \<open>fill\<close> is what the version for requests adds to the record. A NULL pointer that is
  followed is \<open>None\<close>.\<close>

definition relay_event ::
    "(blk_io_trace \<Rightarrow> blk_io_trace option) \<Rightarrow> env \<Rightarrow> u64 \<Rightarrow> u32 \<Rightarrow> u32 \<Rightarrow> u32 \<Rightarrow> u8 list \<Rightarrow> blk_trace \<Rightarrow> blk_trace option" where
  "relay_event fill env sector bytes what err pdu bt =
     (if \<not> bt_rchan bt then None
      else let (t, bt) = relay_reserve env (sizeof_trace + length pdu) bt
           in if \<not> t then Some bt
              else do {
                sequence \<leftarrow> bt_sequence bt;
                let n = sequence (e_cpu env) + 1;
                r \<leftarrow> fill (event_record env sector bytes what err pdu bt ((relay_record env)\<lparr>tr_sequence := ucast n\<rparr>));
                Some (bt\<lparr>bt_sequence := Some (sequence(e_cpu env := n)), bt_relay := bt_relay bt @ [r]\<rparr>) })"

definition add_trace_with ::
    "(blk_io_trace \<Rightarrow> blk_io_trace option) \<Rightarrow> env \<Rightarrow> u64 \<Rightarrow> u32 \<Rightarrow> u32 \<Rightarrow> u32 \<Rightarrow> u32 \<Rightarrow> u8 list
       \<Rightarrow> blk_trace \<times> kernel \<Rightarrow> (blk_trace \<times> kernel) option" where
  "add_trace_with fill env sector bytes rw what err pdu bk =
     (let (bt, k) = bk; what = event_action (e_req env) rw what
      in if bt_state bt \<noteq> Blktrace_running \<and> \<not> blk_tracer_enabled k then Some bk
         else if act_log_check bt what sector (e_pid env) then Some bk
         else if blk_tracer_enabled k then
           (if \<not> e_ring env (sizeof_trace + length pdu) then Some bk
            else do {
              r \<leftarrow> fill (event_record env sector bytes what err pdu bt (e_mem env));
              Some (bt, k\<lparr>ring := ring k @ [r]\<rparr>) })
         else do {
           let (bt, k) = (if btrace_seq k (e_pid env) \<noteq> blktrace_seq k then trace_note_tsk env (bt, k) else (bt, k));
           bt \<leftarrow> relay_event fill env sector bytes what err pdu bt;
           Some (bt, k) })"

definition blk_add_trace ::
    "env \<Rightarrow> u64 \<Rightarrow> u32 \<Rightarrow> u32 \<Rightarrow> u32 \<Rightarrow> u32 \<Rightarrow> u8 list \<Rightarrow> blk_trace \<times> kernel \<Rightarrow> (blk_trace \<times> kernel) option" where
  "blk_add_trace env sector bytes rw what err pdu bk = add_trace_with Some env sector bytes rw what err pdu bk"

text \<open>The scan of a journal descriptor block. The size that is passed is that of the whole block, although the
  entries start behind the header.\<close>

partial_function (option) count_entries :: "journal_api \<Rightarrow> u8 list \<Rightarrow> int \<Rightarrow> u16 \<Rightarrow> u16 option" where
  "count_entries japi buf sz n = do {
     e \<leftarrow> parse_entry japi buf sz;
     case e of
       None \<Rightarrow> Some n
     | Some (desc, left) \<Rightarrow>
         if left < 0 then Some n
         else let n = n + 1;
                  buf = drop (if jde_entry_flags desc AND JOURNAL_DESC_SAME_UUID \<noteq> 0 then 8 else 24) buf
              in if jde_entry_flags desc AND JOURNAL_DESC_LAST_ENTRY \<noteq> 0 then Some n else count_entries japi buf left n }"

definition journal_fill :: "journal_api \<Rightarrow> u8 list option \<Rightarrow> blk_io_trace \<Rightarrow> blk_io_trace option" where
  "journal_fill japi buffer t =
     (let t = t\<lparr>tr_vec_count := 0, tr_seq := 0\<rparr>; sz = sint (tr_bytes t)
      in case buffer of
           None \<Rightarrow> Some t
         | Some buf \<Rightarrow> do {
             header \<leftarrow> parse_header japi buf sz;
             case header of
               None \<Rightarrow> Some t
             | Some h \<Rightarrow>
                 if jsh_block_type h = JOURNAL_DESCRIPTOR_BLOCK then do {
                   n \<leftarrow> count_entries japi (drop 12 buf) sz 0;
                   Some (t\<lparr>tr_seq := jsh_sequence h, tr_vec_count := n\<rparr>) }
                 else if jsh_block_type h > JOURNAL_DESCRIPTOR_BLOCK \<and> jsh_block_type h \<le> JOURNAL_REVOKE_BLOCK then
                   Some (t\<lparr>tr_seq := jsh_block_type h * 1000000 + jsh_sequence h\<rparr>)
                 else Some t })"

section \<open>Requests and bios\<close>

record request =
  rq_pc :: bool
  rq_bytes :: u32
  rq_pos :: u64
  rq_cmd_flags :: u32
  rq_errors :: u32
  rq_cmd :: "u8 list"
  rq_buffer :: "u8 list option"
  rq_disk :: u32

record bio =
  bi_sector :: u64
  bi_size :: u32
  bi_rw :: u32
  bi_uptodate :: bool
  bi_bdev :: u32

definition blk_add_trace_my ::
    "env \<Rightarrow> u64 \<Rightarrow> u32 \<Rightarrow> u32 \<Rightarrow> u32 \<Rightarrow> u32 \<Rightarrow> u8 list \<Rightarrow> request \<Rightarrow> blk_trace \<times> kernel \<Rightarrow> (blk_trace \<times> kernel) option" where
  "blk_add_trace_my env sector bytes rw what err pdu rq bk =
     add_trace_with (journal_fill (e_journal env) (rq_buffer rq)) env sector bytes rw what err pdu bk"

text \<open>\<open>bt = q->blk_trace; if (bt) ...\<close>\<close>

definition on_trace ::
    "nat \<Rightarrow> (blk_trace \<times> kernel \<Rightarrow> (blk_trace \<times> kernel) option) \<Rightarrow> kernel \<Rightarrow> kernel option" where
  "on_trace q f k =
     (case queues k q of
        None \<Rightarrow> Some k
      | Some bt \<Rightarrow> do { (bt, k) \<leftarrow> f (bt, k); Some (k\<lparr>queues := (queues k)(q \<mapsto> bt)\<rparr>) })"

definition blk_add_trace_rq :: "env \<Rightarrow> nat \<Rightarrow> request \<Rightarrow> u32 \<Rightarrow> kernel \<Rightarrow> kernel option" where
  "blk_add_trace_rq env q rq what =
     on_trace q (\<lambda>bk.
       if rq_pc rq
       then blk_add_trace_my env 0 (rq_bytes rq) (rq_cmd_flags rq) (what OR BLK_TC_ACT (BLK_TC TC_PC)) (rq_errors rq) (rq_cmd rq) rq bk
       else blk_add_trace_my env (rq_pos rq) (rq_bytes rq) (rq_cmd_flags rq) (what OR BLK_TC_ACT (BLK_TC TC_FS)) (rq_errors rq) [] rq bk)"

definition EIO_code :: u32 where
  "EIO_code = 5"

definition blk_add_trace_bio :: "env \<Rightarrow> nat \<Rightarrow> bio \<Rightarrow> u32 \<Rightarrow> u32 \<Rightarrow> kernel \<Rightarrow> kernel option" where
  "blk_add_trace_bio env q bio what err =
     on_trace q (blk_add_trace env (bi_sector bio) (bi_size bio) (bi_rw bio) what
       (if err = 0 \<and> \<not> bi_uptodate bio then EIO_code else err) [])"

text \<open>A bio that may be absent.\<close>

definition blk_add_trace_getrq :: "env \<Rightarrow> nat \<Rightarrow> bio option \<Rightarrow> u32 \<Rightarrow> kernel \<Rightarrow> kernel option" where
  "blk_add_trace_getrq env q bio rw =
     (case bio of
        Some b \<Rightarrow> blk_add_trace_bio env q b (BLK_TA TA_GETRQ) 0
      | None \<Rightarrow> on_trace q (blk_add_trace env 0 0 rw (BLK_TA TA_GETRQ) 0 []))"

definition blk_add_trace_sleeprq :: "env \<Rightarrow> nat \<Rightarrow> bio option \<Rightarrow> u32 \<Rightarrow> kernel \<Rightarrow> kernel option" where
  "blk_add_trace_sleeprq env q bio rw =
     (case bio of
        Some b \<Rightarrow> blk_add_trace_bio env q b (BLK_TA TA_SLEEPRQ) 0
      | None \<Rightarrow> on_trace q (blk_add_trace env 0 0 rw (BLK_TA TA_SLEEPRQ) 0 []))"

definition blk_add_trace_plug :: "env \<Rightarrow> nat \<Rightarrow> kernel \<Rightarrow> kernel option" where
  "blk_add_trace_plug env q = on_trace q (blk_add_trace env 0 0 0 (BLK_TA TA_PLUG) 0 [])"

definition blk_add_trace_unplug :: "env \<Rightarrow> nat \<Rightarrow> u32 \<Rightarrow> bool \<Rightarrow> kernel \<Rightarrow> kernel option" where
  "blk_add_trace_unplug env q depth explicit =
     on_trace q (blk_add_trace env 0 0 0 (BLK_TA (if explicit then TA_UNPLUG_IO else TA_UNPLUG_TIMER)) 0
       (cpu_to_be64 (ucast depth)))"

definition blk_add_trace_split :: "env \<Rightarrow> nat \<Rightarrow> bio \<Rightarrow> u32 \<Rightarrow> kernel \<Rightarrow> kernel option" where
  "blk_add_trace_split env q bio pdu =
     on_trace q (blk_add_trace env (bi_sector bio) (bi_size bio) (bi_rw bio) (BLK_TA TA_SPLIT)
       (if bi_uptodate bio then 0 else 1) (cpu_to_be64 (ucast pdu)))"

definition remap_bytes :: "u32 \<Rightarrow> u32 \<Rightarrow> u64 \<Rightarrow> u8 list" where
  "remap_bytes device_from device_to sector_from =
     cpu_to_be32 device_from @ cpu_to_be32 device_to @ cpu_to_be64 sector_from"

definition blk_add_trace_bio_remap :: "env \<Rightarrow> nat \<Rightarrow> bio \<Rightarrow> u32 \<Rightarrow> u64 \<Rightarrow> kernel \<Rightarrow> kernel option" where
  "blk_add_trace_bio_remap env q bio dev from_sector =
     on_trace q (blk_add_trace env (bi_sector bio) (bi_size bio) (bi_rw bio) (BLK_TA TA_REMAP)
       (if bi_uptodate bio then 0 else 1) (remap_bytes dev (bi_bdev bio) from_sector))"

definition blk_add_trace_rq_remap :: "env \<Rightarrow> nat \<Rightarrow> request \<Rightarrow> u32 \<Rightarrow> u64 \<Rightarrow> kernel \<Rightarrow> kernel option" where
  "blk_add_trace_rq_remap env q rq dev from_sector =
     on_trace q (blk_add_trace env (rq_pos rq) (rq_bytes rq) (rq_cmd_flags rq AND 1) (BLK_TA TA_REMAP)
       (if rq_errors rq \<noteq> 0 then 1 else 0) (remap_bytes dev (rq_disk rq) from_sector))"

definition blk_add_driver_data :: "env \<Rightarrow> nat \<Rightarrow> request \<Rightarrow> u8 list \<Rightarrow> kernel \<Rightarrow> kernel option" where
  "blk_add_driver_data env q rq data =
     on_trace q (blk_add_trace env (if rq_pc rq then 0 else rq_pos rq) (rq_bytes rq) 0 (BLK_TA TA_DRV_DATA) (rq_errors rq) data)"

section \<open>Tracepoints\<close>

text \<open>The tracepoints of the block layer and the callbacks that \<open>blk_register_tracepoints\<close> attaches to them.\<close>

datatype tracepoint =
    block_rq_abort request | block_rq_insert request | block_rq_issue request | block_rq_requeue request | block_rq_complete request
  | block_bio_bounce bio | block_bio_complete bio u32 | block_bio_backmerge bio | block_bio_frontmerge bio | block_bio_queue bio
  | block_getrq "bio option" u32 | block_sleeprq "bio option" u32 | block_plug | block_unplug u32 bool | block_split bio u32
  | block_bio_remap bio u32 u64 | block_rq_remap request u32 u64

fun probe :: "env \<Rightarrow> nat \<Rightarrow> tracepoint \<Rightarrow> kernel \<Rightarrow> kernel option" where
  "probe env q (block_rq_abort rq) = blk_add_trace_rq env q rq (BLK_TA TA_ABORT)"
| "probe env q (block_rq_insert rq) = blk_add_trace_rq env q rq (BLK_TA TA_INSERT)"
| "probe env q (block_rq_issue rq) = blk_add_trace_rq env q rq (BLK_TA TA_ISSUE)"
| "probe env q (block_rq_requeue rq) = blk_add_trace_rq env q rq (BLK_TA TA_REQUEUE)"
| "probe env q (block_rq_complete rq) = blk_add_trace_rq env q rq (BLK_TA TA_COMPLETE)"
| "probe env q (block_bio_bounce b) = blk_add_trace_bio env q b (BLK_TA TA_BOUNCE) 0"
| "probe env q (block_bio_complete b err) = blk_add_trace_bio env q b (BLK_TA TA_COMPLETE) err"
| "probe env q (block_bio_backmerge b) = blk_add_trace_bio env q b (BLK_TA TA_BACKMERGE) 0"
| "probe env q (block_bio_frontmerge b) = blk_add_trace_bio env q b (BLK_TA TA_FRONTMERGE) 0"
| "probe env q (block_bio_queue b) = blk_add_trace_bio env q b (BLK_TA TA_QUEUE) 0"
| "probe env q (block_getrq b rw) = blk_add_trace_getrq env q b rw"
| "probe env q (block_sleeprq b rw) = blk_add_trace_sleeprq env q b rw"
| "probe env q block_plug = blk_add_trace_plug env q"
| "probe env q (block_unplug depth explicit) = blk_add_trace_unplug env q depth explicit"
| "probe env q (block_split b pdu) = blk_add_trace_split env q b pdu"
| "probe env q (block_bio_remap b dev from_sector) = blk_add_trace_bio_remap env q b dev from_sector"
| "probe env q (block_rq_remap rq dev from_sector) = blk_add_trace_rq_remap env q rq dev from_sector"

text \<open>A tracepoint is hit: nothing happens while no callbacks are attached.\<close>

definition hit :: "env \<Rightarrow> nat \<Rightarrow> tracepoint \<Rightarrow> kernel \<Rightarrow> kernel option" where
  "hit env q tp k = (if registered k then probe env q tp k else Some k)"

end
