(* ===== verification/Kernel_Control.thy ===== *)
theory Kernel_Control
  imports Kernel_Trace Act_Mask
begin

text \<open>
  Control of the in-kernel tracer: the ioctls that set up, start, stop and tear down the trace of a queue, the sysfs
  attributes that do the same and set the filter, the file for messages, and the counting of the users of the tracepoints.
  Which allocations succeed is a parameter.
\<close>

section \<open>Results\<close>

text \<open>An error code or \<open>0\<close>.\<close>

datatype kerr = EINVAL | ENOMEM | ENOENT | EIO | EBUSY | EFAULT | ENXIO | ENOTTY

type_synonym kret = "kerr option"

section \<open>Users of the tracepoints\<close>

definition blk_trace_free :: "kernel \<Rightarrow> kernel" where
  "blk_trace_free k = k\<lparr>allocated := allocated k - 1\<rparr>"

text \<open>\<open>atomic_inc_return\<close> and \<open>atomic_dec_and_test\<close> on the number of users, with the callbacks attached for the first user
  and detached after the last one.\<close>

definition get_probes :: "kernel \<Rightarrow> kernel" where
  "get_probes k =
     (let n = blk_probes_ref k + 1
      in k\<lparr>blk_probes_ref := n, registered := (if n = 1 then True else registered k)\<rparr>)"

definition put_probes :: "kernel \<Rightarrow> kernel" where
  "put_probes k =
     (let n = blk_probes_ref k - 1
      in k\<lparr>blk_probes_ref := n, registered := (if n = 0 then False else registered k)\<rparr>)"

definition blk_trace_cleanup :: "kernel \<Rightarrow> kernel" where
  "blk_trace_cleanup k = put_probes (blk_trace_free k)"

definition blk_trace_remove :: "nat \<Rightarrow> kernel \<Rightarrow> kret \<times> kernel" where
  "blk_trace_remove q k =
     (let old = queues k q; k = k\<lparr>queues := (queues k)(q := None)\<rparr>
      in case old of
           None \<Rightarrow> (Some EINVAL, k)
         | Some bt \<Rightarrow> (None, if bt_state bt \<noteq> Blktrace_running then blk_trace_cleanup k else k))"

section \<open>Setting up\<close>

record setup_args =
  su_name :: string
  su_act_mask :: u16
  su_buf_size :: u32
  su_buf_nr :: u32
  su_start_lba :: u64
  su_end_lba :: u64
  su_pid :: u32

datatype alloc = A_bt | A_sequence | A_msg | A_tree | A_dir | A_dropped | A_msg_file | A_rchan

definition BLKTRACE_BDEV_SIZE :: nat where
  "BLKTRACE_BDEV_SIZE = 32"

text \<open>The name of the directory.\<close>

definition bdev_name :: "string \<Rightarrow> string" where
  "bdev_name name = map (\<lambda>c. if c = CHR ''/'' then CHR ''_'' else c) (take (BLKTRACE_BDEV_SIZE - 1) name)"

text \<open>A partition is given by its first sector and its number of sectors.\<close>

definition blk_trace_setup_lba :: "(u64 \<times> u64) option \<Rightarrow> blk_trace \<Rightarrow> blk_trace" where
  "blk_trace_setup_lba part bt =
     (case part of
        Some (start_sect, nr_sects) \<Rightarrow> bt\<lparr>start_lba := start_sect, end_lba := start_sect + nr_sects\<rparr>
      | None \<Rightarrow> bt\<lparr>start_lba := 0, end_lba := - 1\<rparr>)"

definition zero_trace_struct :: blk_trace where
  "zero_trace_struct =
     \<lparr>bt_state = Blktrace_none, bt_rchan = False, bt_sequence = None, bt_act_mask = 0, start_lba = 0, end_lba = 0,
      bt_pid = 0, bt_dev = 0, bt_dropped = 0, bt_relay = []\<rparr>"

text \<open>The trace that the arguments describe.\<close>

definition new_trace :: "u32 \<Rightarrow> (u64 \<times> u64) option \<Rightarrow> setup_args \<Rightarrow> blk_trace" where
  "new_trace dev part buts =
     (let bt = zero_trace_struct\<lparr>bt_sequence := Some (\<lambda>_. 0), bt_dev := dev, bt_rchan := True,
            bt_act_mask := (if su_act_mask buts = 0 then - 1 else su_act_mask buts)\<rparr>;
          bt = blk_trace_setup_lba part bt;
          bt = (if su_start_lba buts \<noteq> 0 then bt\<lparr>start_lba := su_start_lba buts\<rparr> else bt);
          bt = (if su_end_lba buts \<noteq> 0 then bt\<lparr>end_lba := su_end_lba buts\<rparr> else bt)
      in bt\<lparr>bt_pid := su_pid buts, bt_state := Blktrace_setup\<rparr>)"

text \<open>The exchange with \<open>q->blk_trace\<close>, which is undone when there was a trace.\<close>

definition install :: "nat \<Rightarrow> blk_trace \<Rightarrow> kernel \<Rightarrow> kret \<times> kernel" where
  "install q bt k =
     (case queues k q of
        Some _ \<Rightarrow> (Some EBUSY, blk_trace_free k)
      | None \<Rightarrow> (None, get_probes (k\<lparr>queues := (queues k)(q \<mapsto> bt)\<rparr>)))"

definition do_blk_trace_setup ::
    "(alloc \<Rightarrow> bool) \<Rightarrow> nat \<Rightarrow> string \<Rightarrow> u32 \<Rightarrow> (u64 \<times> u64) option \<Rightarrow> setup_args \<Rightarrow> kernel \<Rightarrow> kret \<times> setup_args \<times> kernel" where
  "do_blk_trace_setup ok q name dev part buts k =
     (if su_buf_size buts = 0 \<or> su_buf_nr buts = 0 then (Some EINVAL, buts, k)
      else let buts = buts\<lparr>su_name := bdev_name name\<rparr>
      in if \<not> ok A_bt then (Some ENOMEM, buts, k)
      else let k = k\<lparr>allocated := allocated k + 1\<rparr>
      in if \<not> ok A_sequence \<or> \<not> ok A_msg then (Some ENOMEM, buts, blk_trace_free k)
      else if \<not> blk_tree_root k \<and> \<not> ok A_tree then (Some ENOENT, buts, blk_trace_free k)
      else let k = k\<lparr>blk_tree_root := True\<rparr>
      in if \<not> ok A_dir then (Some ENOENT, buts, blk_trace_free k)
      else if \<not> ok A_dropped \<or> \<not> ok A_msg_file \<or> \<not> ok A_rchan then (Some EIO, buts, blk_trace_free k)
      else let (ret, k) = install q (new_trace dev part buts) k in (ret, buts, k))"

text \<open>The arguments come from the user and go back to him: \<open>copy_in\<close> is what \<open>copy_from_user\<close> reads, \<open>copy_out\<close> whether
  \<open>copy_to_user\<close> succeeds; the last result is what the user finds.\<close>

definition blk_trace_setup ::
    "(alloc \<Rightarrow> bool) \<Rightarrow> nat \<Rightarrow> string \<Rightarrow> u32 \<Rightarrow> (u64 \<times> u64) option \<Rightarrow> setup_args option \<Rightarrow> bool \<Rightarrow> kernel
       \<Rightarrow> kret \<times> kernel \<times> setup_args option" where
  "blk_trace_setup ok q name dev part copy_in copy_out k =
     (case copy_in of
        None \<Rightarrow> (Some EFAULT, k, None)
      | Some buts \<Rightarrow>
          let (ret, buts, k) = do_blk_trace_setup ok q name dev part buts k
          in if ret \<noteq> None then (ret, k, None)
             else if \<not> copy_out then (Some EFAULT, snd (blk_trace_remove q k), None)
             else (None, k, Some buts))"

text \<open>The 32-bit version writes the name back only.\<close>

definition compat_blk_trace_setup ::
    "(alloc \<Rightarrow> bool) \<Rightarrow> nat \<Rightarrow> string \<Rightarrow> u32 \<Rightarrow> (u64 \<times> u64) option \<Rightarrow> setup_args option \<Rightarrow> bool \<Rightarrow> kernel
       \<Rightarrow> kret \<times> kernel \<times> string option" where
  "compat_blk_trace_setup ok q name dev part copy_in copy_out k =
     (case copy_in of
        None \<Rightarrow> (Some EFAULT, k, None)
      | Some buts \<Rightarrow>
          let (ret, buts, k) = do_blk_trace_setup ok q name dev part buts k
          in if ret \<noteq> None then (ret, k, None)
             else if \<not> copy_out then (Some EFAULT, snd (blk_trace_remove q k), None)
             else (None, k, Some (su_name buts)))"

section \<open>Starting and stopping\<close>

definition start_trace :: "env \<Rightarrow> nat \<Rightarrow> blk_trace \<Rightarrow> kernel \<Rightarrow> kernel" where
  "start_trace env q bt k =
     (let k = k\<lparr>blktrace_seq := blktrace_seq k + 1\<rparr>;
          (bt, k) = trace_note_time env (bt\<lparr>bt_state := Blktrace_running\<rparr>, k)
      in k\<lparr>queues := (queues k)(q \<mapsto> bt)\<rparr>)"

definition blk_trace_startstop :: "env \<Rightarrow> nat \<Rightarrow> bool \<Rightarrow> kernel \<Rightarrow> kret \<times> kernel" where
  "blk_trace_startstop env q start k =
     (case queues k q of
        None \<Rightarrow> (Some EINVAL, k)
      | Some bt \<Rightarrow>
          if start then
            (if bt_state bt = Blktrace_setup \<or> bt_state bt = Blktrace_stopped then (None, start_trace env q bt k)
             else (Some EINVAL, k))
          else
            (if bt_state bt = Blktrace_running
             then (None, k\<lparr>queues := (queues k)(q \<mapsto> bt\<lparr>bt_state := Blktrace_stopped\<rparr>)\<rparr>)
             else (Some EINVAL, k)))"

datatype ioctl =
    BLKTRACESETUP string u32 "(u64 \<times> u64) option" "setup_args option" bool
  | BLKTRACESETUP32 string u32 "(u64 \<times> u64) option" "setup_args option" bool
  | BLKTRACESTART | BLKTRACESTOP | BLKTRACETEARDOWN | Other_ioctl

text \<open>The device may have no queue. Of a successful setup the memory of the user is left out.\<close>

fun blk_trace_ioctl :: "env \<Rightarrow> (alloc \<Rightarrow> bool) \<Rightarrow> nat option \<Rightarrow> ioctl \<Rightarrow> kernel \<Rightarrow> kret \<times> kernel" where
  "blk_trace_ioctl env ok None cmd k = (Some ENXIO, k)"
| "blk_trace_ioctl env ok (Some q) (BLKTRACESETUP name dev part copy_in copy_out) k =
     (let (ret, k, _) = blk_trace_setup ok q name dev part copy_in copy_out k in (ret, k))"
| "blk_trace_ioctl env ok (Some q) (BLKTRACESETUP32 name dev part copy_in copy_out) k =
     (let (ret, k, _) = compat_blk_trace_setup ok q name dev part copy_in copy_out k in (ret, k))"
| "blk_trace_ioctl env ok (Some q) BLKTRACESTART k = blk_trace_startstop env q True k"
| "blk_trace_ioctl env ok (Some q) BLKTRACESTOP k = blk_trace_startstop env q False k"
| "blk_trace_ioctl env ok (Some q) BLKTRACETEARDOWN k = blk_trace_remove q k"
| "blk_trace_ioctl env ok (Some q) Other_ioctl k = (Some ENOTTY, k)"

definition blk_trace_shutdown :: "env \<Rightarrow> nat \<Rightarrow> kernel \<Rightarrow> kernel" where
  "blk_trace_shutdown env q k =
     (if queues k q = None then k
      else let (_, k) = blk_trace_startstop env q False k; (_, k) = blk_trace_remove q k in k)"

section \<open>Messages of the user\<close>

text \<open>\<open>copied\<close> is what \<open>copy_from_user\<close> delivers; the message ends at its first NUL.\<close>

definition blk_msg_write :: "env \<Rightarrow> nat \<Rightarrow> nat \<Rightarrow> nat \<Rightarrow> bool \<Rightarrow> u8 list option \<Rightarrow> kernel \<Rightarrow> (kerr + nat) \<times> kernel" where
  "blk_msg_write env max_msg q cnt mem_ok copied k =
     (if cnt \<ge> max_msg then (Inl EINVAL, k)
      else if \<not> mem_ok then (Inl ENOMEM, k)
      else case copied of
             None \<Rightarrow> (Inl EFAULT, k)
           | Some msg \<Rightarrow>
               (Inr cnt, the (on_trace q (\<lambda>bk. Some (trace_note_message env max_msg (takeWhile (\<lambda>c. c \<noteq> 0) msg) bk)) k)))"

section \<open>The tracer of ftrace\<close>

definition blk_tracer_start :: "kernel \<Rightarrow> kernel" where
  "blk_tracer_start k = k\<lparr>blk_tracer_enabled := True\<rparr>"

definition blk_tracer_stop :: "kernel \<Rightarrow> kernel" where
  "blk_tracer_stop k = k\<lparr>blk_tracer_enabled := False\<rparr>"

definition blk_trace_remove_queue :: "nat \<Rightarrow> kernel \<Rightarrow> kret \<times> kernel" where
  "blk_trace_remove_queue q k =
     (let old = queues k q; k = k\<lparr>queues := (queues k)(q := None)\<rparr>
      in case old of
           None \<Rightarrow> (Some EINVAL, k)
         | Some bt \<Rightarrow> (None, blk_trace_free (put_probes k)))"

definition blk_trace_setup_queue :: "(alloc \<Rightarrow> bool) \<Rightarrow> nat \<Rightarrow> u32 \<Rightarrow> (u64 \<times> u64) option \<Rightarrow> kernel \<Rightarrow> kret \<times> kernel" where
  "blk_trace_setup_queue ok q dev part k =
     (if \<not> ok A_bt then (Some ENOMEM, k)
      else let k = k\<lparr>allocated := allocated k + 1\<rparr>
      in if \<not> ok A_msg then (Some ENOMEM, blk_trace_free k)
      else install q (blk_trace_setup_lba part (zero_trace_struct\<lparr>bt_dev := dev, bt_act_mask := - 1\<rparr>)) k)"

section \<open>The attributes\<close>

definition kernel_mask_maps :: "(blk_tc \<times> string) list" where
  "kernel_mask_maps =
     [(TC_READ, ''read''), (TC_WRITE, ''write''), (TC_FLUSH, ''flush''), (TC_SYNC, ''sync''), (TC_QUEUE, ''queue''),
      (TC_REQUEUE, ''requeue''), (TC_ISSUE, ''issue''), (TC_COMPLETE, ''complete''), (TC_FS, ''fs''), (TC_PC, ''pc''),
      (TC_AHEAD, ''ahead''), (TC_META, ''meta''), (TC_DISCARD, ''discard''), (TC_DRV_DATA, ''drv_data''), (TC_FUA, ''fua'')]"

text \<open>The loop of \<open>blk_trace_str2mask\<close> over the tokens; \<open>None\<close> for \<open>-EINVAL\<close>.\<close>

fun tokens2mask :: "string list \<Rightarrow> u32 \<Rightarrow> u32 option" where
  "tokens2mask [] m = Some m"
| "tokens2mask (token # tokens) m =
     (if token = [] then tokens2mask tokens m
      else case find (\<lambda>(c, str). strcasecmp_eq token str) kernel_mask_maps of
             None \<Rightarrow> None
           | Some (c, _) \<Rightarrow> tokens2mask tokens (m OR BLK_TC c))"

definition blk_trace_str2mask :: "string \<Rightarrow> u32 option" where
  "blk_trace_str2mask str = tokens2mask (strsep_tokens CHR '','' (strstrip str)) 0"

text \<open>The names of the categories of a mask, which \<open>sprintf\<close> appends.\<close>

fun append_names :: "(blk_tc \<times> string) list \<Rightarrow> u32 \<Rightarrow> string \<Rightarrow> string" where
  "append_names [] m buf = buf"
| "append_names ((c, str) # maps) m buf =
     append_names maps m (if m AND BLK_TC c \<noteq> 0 then buf @ (if buf = [] then '''' else '','') @ str else buf)"

definition blk_trace_mask2str :: "u32 \<Rightarrow> string" where
  "blk_trace_mask2str m = append_names kernel_mask_maps m [] @ ''\<newline>''"

datatype attr = Attr_enable | Attr_act_mask | Attr_pid | Attr_start_lba | Attr_end_lba

definition sysfs_blk_trace_attr_show :: "attr \<Rightarrow> nat option \<Rightarrow> kernel \<Rightarrow> kerr + string" where
  "sysfs_blk_trace_attr_show attr q k =
     (case q of
        None \<Rightarrow> Inl ENXIO
      | Some q \<Rightarrow> Inr
          (if attr = Attr_enable then (if queues k q \<noteq> None then ''1\<newline>'' else ''0\<newline>'')
           else case queues k q of
                  None \<Rightarrow> ''disabled\<newline>''
                | Some bt \<Rightarrow>
                    (case attr of
                       Attr_act_mask \<Rightarrow> blk_trace_mask2str (ucast (bt_act_mask bt))
                     | Attr_pid \<Rightarrow> fmt_u (bt_pid bt) @ ''\<newline>''
                     | Attr_start_lba \<Rightarrow> fmt_u (start_lba bt) @ ''\<newline>''
                     | _ \<Rightarrow> fmt_u (end_lba bt) @ ''\<newline>'')))"

text \<open>The number that is stored: for the mask in hexadecimal or else a list of names.\<close>

definition attr_value :: "attr \<Rightarrow> string \<Rightarrow> u64 option" where
  "attr_value attr buf =
     (if attr = Attr_act_mask
      then case scan_unsigned 16 buf of
             Some (v, _) \<Rightarrow> Some v
           | None \<Rightarrow> map_option ucast (blk_trace_str2mask buf)
      else map_option fst (scan_unsigned 10 buf))"

fun set_attr :: "attr \<Rightarrow> u64 \<Rightarrow> blk_trace \<Rightarrow> blk_trace" where
  "set_attr Attr_act_mask v bt = bt\<lparr>bt_act_mask := ucast v\<rparr>"
| "set_attr Attr_pid v bt = bt\<lparr>bt_pid := ucast v\<rparr>"
| "set_attr Attr_start_lba v bt = bt\<lparr>start_lba := v\<rparr>"
| "set_attr Attr_end_lba v bt = bt\<lparr>end_lba := v\<rparr>"
| "set_attr Attr_enable v bt = bt"

definition sysfs_blk_trace_attr_store ::
    "(alloc \<Rightarrow> bool) \<Rightarrow> attr \<Rightarrow> nat option \<Rightarrow> u32 \<Rightarrow> (u64 \<times> u64) option \<Rightarrow> string \<Rightarrow> kernel \<Rightarrow> (kerr + nat) \<times> kernel" where
  "sysfs_blk_trace_attr_store ok attr q dev part buf k =
     (if buf = [] then (Inl EINVAL, k)
      else case attr_value attr buf of
        None \<Rightarrow> (Inl EINVAL, k)
      | Some v \<Rightarrow>
          (case q of
             None \<Rightarrow> (Inl ENXIO, k)
           | Some q \<Rightarrow>
               let (ret, k) =
                 (if attr = Attr_enable
                  then if v \<noteq> 0 then blk_trace_setup_queue ok q dev part k else blk_trace_remove_queue q k
                  else let (ret, k) = (if queues k q = None then blk_trace_setup_queue ok q dev part k else (None, k))
                       in if ret = None then (ret, k\<lparr>queues := (queues k)(q := map_option (set_attr attr v) (queues k q))\<rparr>)
                          else (ret, k))
               in (case ret of Some e \<Rightarrow> Inl e | None \<Rightarrow> Inr (length buf), k)))"

end
