(* ===== verification/Kernel_Machine.thy ===== *)
theory Kernel_Machine
  imports Kernel_Control
begin

text \<open>
  The in-kernel tracer as a state machine: its steps are the ioctls, the shutdown of a queue, the sysfs and message files, the tracer of ftrace and the
  tracepoints, in any order and for any environment. The invariant says how the counters agree with the queues and what the
  relay of a trace holds.
\<close>

section \<open>Steps\<close>

text \<open>The request flags lie below the trace categories they are moved to.\<close>

definition req_ok :: "(req_flag \<Rightarrow> nat) \<Rightarrow> bool" where
  "req_ok req \<longleftrightarrow> (\<forall>f. req f \<le> req_tc f + BLK_TC_SHIFT)"

inductive kstep :: "kernel \<Rightarrow> kernel \<Rightarrow> bool" where
  ioctl: "kstep k (snd (blk_trace_ioctl env ok q cmd k))"
| shutdown: "kstep k (blk_trace_shutdown env q k)"
| msg: "kstep k (snd (blk_msg_write env max_msg q n mem_ok copied k))"
| sysfs: "kstep k (snd (sysfs_blk_trace_attr_store ok attr qo dev part buf k))"
| ftrace_start: "kstep k (blk_tracer_start k)"
| ftrace_stop: "kstep k (blk_tracer_stop k)"
| tracepoint: "kstep k k'" if "req_ok (e_req env)" "hit env q tp k = Some k'"
| driver: "kstep k k'" if "req_ok (e_req env)" "blk_add_driver_data env q rq data k = Some k'"

inductive reachable :: "kernel \<Rightarrow> bool" where
  init: "reachable init_kernel"
| step: "reachable k \<Longrightarrow> kstep k k' \<Longrightarrow> reachable k'"

section \<open>Actions\<close>

fun tc_bit :: "blk_tc \<Rightarrow> nat" where
  "tc_bit TC_READ = 0" | "tc_bit TC_WRITE = 1" | "tc_bit TC_FLUSH = 2" | "tc_bit TC_SYNC = 3" | "tc_bit TC_QUEUE = 4"
| "tc_bit TC_REQUEUE = 5" | "tc_bit TC_ISSUE = 6" | "tc_bit TC_COMPLETE = 7" | "tc_bit TC_FS = 8" | "tc_bit TC_PC = 9"
| "tc_bit TC_NOTIFY = 10" | "tc_bit TC_AHEAD = 11" | "tc_bit TC_META = 12" | "tc_bit TC_DISCARD = 13"
| "tc_bit TC_DRV_DATA = 14" | "tc_bit TC_FUA = 15"

lemma BLK_TC_push: "BLK_TC c = push_bit (tc_bit c) 1"
  by (cases c; simp only: BLK_TC.simps tc_bit.simps)

lemma BLK_TC_ACT_push: "BLK_TC_ACT (BLK_TC c) = push_bit (16 + tc_bit c) 1"
  by (simp only: BLK_TC_ACT_def BLK_TC_push BLK_TC_SHIFT_def push_bit_push_bit add.commute)

lemma and_push_bit_1: "n < LENGTH('a) \<Longrightarrow> w AND push_bit n 1 \<noteq> 0 \<longleftrightarrow> bit w n" for w :: "'a :: len word"
  by (simp add: and_exp_eq_0_iff_not_bit push_bit_eq_mult)

lemma tc_bit_le: "tc_bit c \<le> 15"
  by (cases c) simp_all

lemma has_tc_bit: "has_tc action c \<longleftrightarrow> bit action (16 + tc_bit c)"
  unfolding has_tc_def BLK_TC_ACT_push using tc_bit_le [of c] by (intro and_push_bit_1) simp

lemma bit_MASK_TC_BIT:
  assumes "req f \<le> req_tc f + BLK_TC_SHIFT" "n < 32"
  shows "bit (MASK_TC_BIT req rw f) n \<longleftrightarrow> n = 16 + req_tc f \<and> bit rw (req f)"
  using assms by (auto simp: MASK_TC_BIT_def bit_push_bit_iff bit_and_iff bit_1_iff BLK_TC_SHIFT_def bit_simps)

lemma bit_push_1: "k < LENGTH('a) \<Longrightarrow> bit (push_bit k 1 :: 'a :: len word) n \<longleftrightarrow> n = k"
  by (auto simp: push_bit_eq_mult bit_exp_iff)

lemma bit_ddir_act: "bit (ddir_act rw) n \<longleftrightarrow> n = (if even rw then 16 else 17)"
proof (cases "even rw")
  case True
  then have "ddir_act rw = push_bit (16 + tc_bit TC_READ) 1"
    by (simp only: ddir_act_def BLK_TC_ACT_push and_one_eq even_iff_mod_2_eq_zero refl if_True)
  then show ?thesis
    using True bit_push_1 [of 16, where 'a = 32] by (simp del: push_bit_of_1 push_bit_numeral)
next
  case False
  then have "ddir_act rw = push_bit (16 + tc_bit TC_WRITE) 1"
    by (simp only: ddir_act_def BLK_TC_ACT_push and_one_eq even_iff_mod_2_eq_zero if_False)
  then show ?thesis
    using False bit_push_1 [of 17, where 'a = 32] by (simp del: push_bit_of_1 push_bit_numeral)
qed

lemma event_action_bit:
  assumes "req_ok req" "n < 32"
  shows "bit (event_action req rw what) n \<longleftrightarrow>
    bit what n \<or> n = (if even rw then 16 else 17) \<or> (\<exists>f. n = 16 + req_tc f \<and> bit rw (req f))"
proof -
  have "(\<exists>f. P f) \<longleftrightarrow> P REQ_SYNC \<or> P REQ_RAHEAD \<or> P REQ_META \<or> P REQ_DISCARD \<or> P REQ_FLUSH \<or> P REQ_FUA" for P
    by (metis req_flag.exhaust)
  then show ?thesis
    using assms unfolding event_action_def req_ok_def
    by (simp only: bit_or_iff bit_MASK_TC_BIT bit_ddir_act conj_commute disj_assoc disj_commute disj_left_commute)
qed

lemma req_tc_not_notify: "req_tc f \<noteq> tc_bit TC_NOTIFY"
  by (cases f) simp_all

lemma event_not_notify: "req_ok req \<Longrightarrow> has_tc (event_action req rw what) TC_NOTIFY = has_tc what TC_NOTIFY"
  using req_tc_not_notify by (auto simp: has_tc_bit event_action_bit)

section \<open>What the relay of a trace holds\<close>

text \<open>The events of a CPU, without the notes.\<close>

definition events_of :: "u32 \<Rightarrow> blk_io_trace list \<Rightarrow> blk_io_trace list" where
  "events_of cpu rs = filter (\<lambda>r. tr_cpu r = cpu \<and> \<not> has_tc (tr_action r) TC_NOTIFY) rs"

definition numbered :: "blk_io_trace list \<Rightarrow> bool" where
  "numbered rs \<longleftrightarrow> (\<forall>cpu. map tr_sequence (events_of cpu rs) = map (\<lambda>i. of_nat (i + 1)) [0..<length (events_of cpu rs)])"

definition trace_inv :: "blk_trace \<Rightarrow> bool" where
  "trace_inv bt \<longleftrightarrow> (bt_state bt \<noteq> Blktrace_none \<longrightarrow> bt_rchan bt)
     \<and> (bt_rchan bt \<longrightarrow> (\<exists>s. bt_sequence bt = Some s \<and> (\<forall>cpu. s cpu = of_nat (length (events_of cpu (bt_relay bt))))))
     \<and> numbered (bt_relay bt) \<and> (\<forall>r \<in> set (bt_relay bt). verify_trace r = None)"

text \<open>An operation on a trace changes its relay and counters; of the kernel it changes the ring buffer and the marks of the processes.\<close>

definition same_control :: "kernel \<Rightarrow> kernel \<Rightarrow> bool" where
  "same_control k k' \<longleftrightarrow> queues k' = queues k \<and> allocated k' = allocated k \<and> blk_probes_ref k' = blk_probes_ref k
     \<and> registered k' = registered k \<and> blk_tracer_enabled k' = blk_tracer_enabled k"

definition logs :: "blk_trace \<times> kernel \<Rightarrow> blk_trace \<times> kernel \<Rightarrow> bool" where
  "logs bk bk' \<longleftrightarrow> trace_inv (fst bk') \<and> bt_state (fst bk') = bt_state (fst bk) \<and> bt_rchan (fst bk') = bt_rchan (fst bk)
     \<and> same_control (snd bk) (snd bk')"

lemma logs_refl: "trace_inv (fst bk) \<Longrightarrow> logs bk bk"
  by (simp add: logs_def same_control_def)

lemma logs_trans: "logs a b \<Longrightarrow> logs b c \<Longrightarrow> logs a c"
  by (simp add: logs_def same_control_def)

lemma numbered_note: "has_tc (tr_action r) TC_NOTIFY \<Longrightarrow> numbered (rs @ [r]) = numbered rs"
  by (simp add: numbered_def events_of_def)

lemma numbered_event:
  "numbered rs \<Longrightarrow> tr_sequence r = of_nat (length (events_of (tr_cpu r) rs) + 1) \<Longrightarrow> numbered (rs @ [r])"
  by (auto simp: numbered_def events_of_def)

text \<open>What the inode of the record keeps of the reserved one.\<close>

definition fill_ok :: "(blk_io_trace \<Rightarrow> blk_io_trace option) \<Rightarrow> bool" where
  "fill_ok fill \<longleftrightarrow> (\<forall>t r. fill t = Some r \<longrightarrow> tr_magic r = tr_magic t \<and> tr_sequence r = tr_sequence t \<and> tr_cpu r = tr_cpu t
     \<and> tr_action r = tr_action t)"

lemma fill_ok_Some: "fill_ok Some"
  by (simp add: fill_ok_def)

lemma journal_fill_frame:
  assumes "journal_fill japi buffer t = Some r"
  shows "tr_magic r = tr_magic t" "tr_sequence r = tr_sequence t" "tr_cpu r = tr_cpu t" "tr_action r = tr_action t"
  using assms unfolding journal_fill_def Let_def
  by (simp_all split: option.split_asm if_split_asm bind_split_asm) (clarsimp, assumption?)+

lemma fill_ok_journal: "fill_ok (journal_fill japi buffer)"
  by (simp add: fill_ok_def journal_fill_frame)

lemma verify_relay: "tr_magic r = BLK_IO_TRACE_MAGIC OR BLK_IO_TRACE_VERSION \<Longrightarrow> verify_trace r = None"
  by (simp add: verify_trace_def CHECK_MAGIC_def const_defs)

lemma relay_reserve_frame:
  assumes "relay_reserve env len bt = (t, bt')"
  shows "bt_state bt' = bt_state bt" "bt_rchan bt' = bt_rchan bt" "bt_sequence bt' = bt_sequence bt"
    "bt_relay bt' = bt_relay bt" "bt_dev bt' = bt_dev bt"
  using assms by (auto simp: relay_reserve_def blk_subbuf_start_callback_def split: reserve_result.split_asm if_split_asm)

lemma relay_reserve_inv: "relay_reserve env len bt = (t, bt') \<Longrightarrow> trace_inv bt' = trace_inv bt"
  by (simp add: trace_inv_def relay_reserve_frame)

lemma trace_inv_note:
  assumes "trace_inv bt" "has_tc (tr_action r) TC_NOTIFY" "verify_trace r = None"
  shows "trace_inv (bt\<lparr>bt_relay := bt_relay bt @ [r]\<rparr>)"
proof -
  have "events_of cpu (bt_relay bt @ [r]) = events_of cpu (bt_relay bt)" for cpu
    using assms(2) by (simp add: events_of_def)
  then show ?thesis
    using assms by (simp add: trace_inv_def numbered_note)
qed

lemma trace_note_logs:
  assumes "trace_inv (fst bk)" "has_tc action TC_NOTIFY"
  shows "logs bk (trace_note env pid action data bk)"
proof (cases bk)
  case (Pair bt k)
  obtain t bt' where r: "relay_reserve env (sizeof_trace + length data) bt = (t, bt')"
    by (cases "relay_reserve env (sizeof_trace + length data) bt")
  have "trace_inv (bt'\<lparr>bt_relay := bt_relay bt' @ [note_record env pid action data bt' (relay_record env)]\<rparr>)"
    using assms Pair relay_reserve_inv [OF r]
    by (intro trace_inv_note) (simp_all add: note_record_def relay_record_def verify_relay)
  then show ?thesis
    using assms(1) r relay_reserve_inv [OF r] relay_reserve_frame [OF r]
    by (simp add: Pair trace_note_def logs_def same_control_def Let_def)
qed

lemma note_actions: "has_tc (BLK_TN n) TC_NOTIFY"
  by (cases n) (simp_all add: has_tc_def BLK_TN.simps BLK_TC_ACT_def BLK_TC.simps BLK_TC_SHIFT_def push_bit_eq_mult)

lemma ucast_count: "ucast (of_nat n + 1 :: u64) = (of_nat (n + 1) :: u32)"
proof -
  have "of_nat n + 1 = (of_nat (n + 1) :: u64)"
    by simp
  then show ?thesis
    by (simp only: unsigned_of_nat word_of_nat_eq_iff) simp
qed

lemma trace_inv_event:
  assumes "trace_inv bt" "bt_rchan bt" "bt_sequence bt = Some s" "\<not> has_tc (tr_action r) TC_NOTIFY" "verify_trace r = None"
    and "tr_sequence r = ucast (s (tr_cpu r) + 1)"
  shows "trace_inv (bt\<lparr>bt_sequence := Some (s(tr_cpu r := s (tr_cpu r) + 1)), bt_relay := bt_relay bt @ [r]\<rparr>)"
proof -
  have s: "s cpu = of_nat (length (events_of cpu (bt_relay bt)))" for cpu
    using assms(1-3) by (auto simp: trace_inv_def)
  have ev: "events_of cpu (bt_relay bt @ [r]) = events_of cpu (bt_relay bt) @ (if tr_cpu r = cpu then [r] else [])" for cpu
    using assms(4) by (simp add: events_of_def)
  have "tr_sequence r = of_nat (length (events_of (tr_cpu r) (bt_relay bt)) + 1)"
    unfolding assms(6) s by (rule ucast_count)
  then have "numbered (bt_relay bt @ [r])"
    using assms(1) by (intro numbered_event) (simp_all add: trace_inv_def)
  then show ?thesis
    using assms s by (auto simp: trace_inv_def ev)
qed

lemma relay_event_inv:
  assumes "trace_inv bt" "fill_ok fill" "\<not> has_tc what TC_NOTIFY" "relay_event fill env sector bytes what err pdu bt = Some bt'"
  shows "trace_inv bt' \<and> bt_state bt' = bt_state bt \<and> bt_rchan bt' = bt_rchan bt"
proof -
  obtain t b where r: "relay_reserve env (sizeof_trace + length pdu) bt = (t, b)"
    by (cases "relay_reserve env (sizeof_trace + length pdu) bt")
  have rchan: "bt_rchan bt"
    using assms(4) by (auto simp: relay_event_def split: if_split_asm)
  show ?thesis
  proof (cases t)
    case False
    then show ?thesis
      using assms r rchan relay_reserve_inv [OF r] relay_reserve_frame [OF r] by (auto simp: relay_event_def)
  next
    case True
    obtain s rec where s: "bt_sequence b = Some s"
      "fill (event_record env sector bytes what err pdu b ((relay_record env)\<lparr>tr_sequence := ucast (s (e_cpu env) + 1)\<rparr>)) = Some rec"
      "bt' = b\<lparr>bt_sequence := Some (s(e_cpu env := s (e_cpu env) + 1)), bt_relay := bt_relay b @ [rec]\<rparr>"
      using assms(4) r rchan True by (auto simp: relay_event_def Let_def bind_eq_Some_conv)
    have rec: "tr_magic rec = BLK_IO_TRACE_MAGIC OR BLK_IO_TRACE_VERSION" "tr_sequence rec = ucast (s (e_cpu env) + 1)"
      "tr_cpu rec = e_cpu env" "tr_action rec = what"
      using assms(2) s(2) unfolding fill_ok_def by (fastforce simp: event_record_def relay_record_def)+
    have "trace_inv (b\<lparr>bt_sequence := Some (s(tr_cpu rec := s (tr_cpu rec) + 1)), bt_relay := bt_relay b @ [rec]\<rparr>)"
      using assms(1,3) rchan s(1) rec relay_reserve_inv [OF r] relay_reserve_frame [OF r]
      by (intro trace_inv_event) (simp_all add: verify_relay)
    then show ?thesis
      using s(3) rec(3) relay_reserve_frame [OF r] by simp
  qed
qed

lemma add_trace_logs:
  assumes "trace_inv (fst bk)" "fill_ok fill" "req_ok (e_req env)" "\<not> has_tc what TC_NOTIFY"
    and "add_trace_with fill env sector bytes rw what err pdu bk = Some bk'"
  shows "logs bk bk'"
proof (cases bk)
  case (Pair bt k)
  let ?what = "event_action (e_req env) rw what"
  let ?n = "if btrace_seq k (e_pid env) \<noteq> blktrace_seq k then trace_note_tsk env (bt, k) else (bt, k)"
  have what: "\<not> has_tc ?what TC_NOTIFY"
    using assms(3,4) by (simp add: event_not_notify)
  have n: "logs bk ?n"
  proof (cases "btrace_seq k (e_pid env) \<noteq> blktrace_seq k")
    case True
    let ?k = "k\<lparr>btrace_seq := (btrace_seq k)(e_pid env := blktrace_seq k)\<rparr>"
    have "logs (bt, ?k) (trace_note env (e_pid env) (BLK_TN TN_PROCESS) (e_comm env) (bt, ?k))"
      using assms(1) Pair note_actions by (intro trace_note_logs) simp_all
    then show ?thesis
      using True Pair by (simp add: trace_note_tsk_def logs_def same_control_def)
  qed (use assms(1) Pair logs_refl in simp)
  consider "bk' = bk"
    | r where "bk' = (bt, k\<lparr>ring := ring k @ [r]\<rparr>)"
    | b where "relay_event fill env sector bytes ?what err pdu (fst ?n) = Some b" "bk' = (b, snd ?n)"
    using assms(5) unfolding add_trace_with_def Pair Let_def
    by (auto simp: bind_eq_Some_conv case_prod_beta split: if_split_asm)
  then show ?thesis
  proof cases
    case 1
    then show ?thesis
      using assms(1) logs_refl by simp
  next
    case 2
    then show ?thesis
      using assms(1) Pair by (simp add: logs_def same_control_def)
  next
    case 3
    then show ?thesis
      using relay_event_inv [OF _ assms(2) what 3(1)] n by (simp add: logs_def)
  qed
qed

section \<open>The counters\<close>

definition kinv :: "kernel \<Rightarrow> bool" where
  "kinv k \<longleftrightarrow> finite (dom (queues k)) \<and> card (dom (queues k)) \<le> allocated k \<and> blk_probes_ref k = int (allocated k)
     \<and> (registered k \<longleftrightarrow> allocated k > 0) \<and> (\<forall>bt \<in> ran (queues k). trace_inv bt)"

text \<open>The structs that no queue points to.\<close>

definition lost :: "kernel \<Rightarrow> nat" where
  "lost k = allocated k - card (dom (queues k))"

definition keeps :: "kernel \<Rightarrow> kernel \<Rightarrow> bool" where
  "keeps k k' \<longleftrightarrow> kinv k' \<and> lost k \<le> lost k'"

lemma keeps_refl: "kinv k \<Longrightarrow> keeps k k"
  by (simp add: keeps_def)

lemma keeps_trans: "keeps a b \<Longrightarrow> keeps b c \<Longrightarrow> keeps a c"
  by (simp add: keeps_def)

lemma keeps_inv: "keeps k k' \<Longrightarrow> kinv k'"
  by (simp add: keeps_def)

lemma kinv_trace: "kinv k \<Longrightarrow> queues k q = Some bt \<Longrightarrow> trace_inv bt"
  by (auto simp: kinv_def ranI)

lemma keeps_control: "kinv k \<Longrightarrow> same_control k k' \<Longrightarrow> keeps k k'"
  by (simp add: keeps_def kinv_def lost_def same_control_def)

lemma keeps_update:
  assumes "kinv k" "queues k q = Some bt" "trace_inv bt'"
  shows "keeps k (k\<lparr>queues := (queues k)(q \<mapsto> bt')\<rparr>)"
proof -
  have "insert q (dom (queues k)) = dom (queues k)"
    using assms(2) by auto
  moreover have "\<forall>b \<in> ran ((queues k)(q \<mapsto> bt')). trace_inv b"
    using assms(1,3) by (auto simp: kinv_def ran_def split: if_splits)
  ultimately show ?thesis
    using assms(1) by (simp add: keeps_def kinv_def lost_def)
qed

lemma keeps_logged:
  assumes "kinv k" "queues k q = Some bt" "logs (b, k) (bt', k')"
  shows "keeps k (k'\<lparr>queues := (queues k')(q \<mapsto> bt')\<rparr>)"
proof -
  have "keeps k k'" "queues k' q = Some bt" "trace_inv bt'"
    using assms by (auto simp: logs_def same_control_def intro!: keeps_control)
  then show ?thesis
    using keeps_update keeps_trans by (metis keeps_inv)
qed

lemma on_trace_keeps:
  assumes "kinv k" "on_trace q f k = Some k'" "\<And>bt bk. trace_inv bt \<Longrightarrow> f (bt, k) = Some bk \<Longrightarrow> logs (bt, k) bk"
  shows "keeps k k'"
proof (cases "queues k q")
  case None
  then show ?thesis
    using assms keeps_refl by (simp add: on_trace_def)
next
  case (Some bt)
  then obtain bt' k1 where f: "f (bt, k) = Some (bt', k1)" "k' = k1\<lparr>queues := (queues k1)(q \<mapsto> bt')\<rparr>"
    using assms(2) by (auto simp: on_trace_def bind_eq_Some_conv)
  then show ?thesis
    using assms(1,3) Some keeps_logged kinv_trace by metis
qed

text \<open>Forgetting the trace of a queue.\<close>

definition detach :: "nat \<Rightarrow> kernel \<Rightarrow> kernel" where
  "detach q k = k\<lparr>queues := (queues k)(q := None)\<rparr>"

lemma detach_counts:
  assumes "kinv k" "queues k q = Some bt"
  shows "card (dom (queues k)) = Suc (card (dom (queues (detach q k))))" "finite (dom (queues (detach q k)))"
    "\<forall>b \<in> ran (queues (detach q k)). trace_inv b"
proof -
  have dom: "dom (queues (detach q k)) = dom (queues k) - {q}"
    by (auto simp: detach_def)
  have "q \<in> dom (queues k)" "finite (dom (queues k))"
    using assms by (auto simp: kinv_def)
  then show "card (dom (queues k)) = Suc (card (dom (queues (detach q k))))" "finite (dom (queues (detach q k)))"
    unfolding dom by (simp_all only: card_Suc_Diff1 finite_Diff)
  show "\<forall>b \<in> ran (queues (detach q k)). trace_inv b"
    using assms(1) by (auto simp: kinv_def detach_def ran_def split: if_splits)
qed

lemma detach_none: "queues k q = None \<Longrightarrow> detach q k = k"
  by (simp add: detach_def fun_upd_idem)

lemma detach_fields [simp]:
  "allocated (detach q k) = allocated k" "blk_probes_ref (detach q k) = blk_probes_ref k" "registered (detach q k) = registered k"
  by (simp_all add: detach_def)

lemma detach_lost:
  assumes "kinv k" "queues k q = Some bt"
  shows "kinv (detach q k)" "lost (detach q k) = Suc (lost k)"
  using assms detach_counts [OF assms] by (auto simp: kinv_def lost_def)

lemma cleanup_keeps:
  assumes "kinv k" "queues k q = Some bt"
  shows "keeps k (blk_trace_cleanup (detach q k))" "keeps k (blk_trace_free (put_probes (detach q k)))"
  using assms detach_counts [OF assms]
  by (auto simp: keeps_def kinv_def lost_def blk_trace_cleanup_def put_probes_def blk_trace_free_def Let_def)

lemma remove_keeps: "kinv k \<Longrightarrow> keeps k (snd (blk_trace_remove q k))"
  using detach_lost [of k q] cleanup_keeps [of k q] keeps_refl [of k] detach_none [of k q]
  by (auto simp: blk_trace_remove_def Let_def detach_def [symmetric] keeps_def split: option.splits)

lemma remove_queue_keeps: "kinv k \<Longrightarrow> keeps k (snd (blk_trace_remove_queue q k))"
  using cleanup_keeps [of k q] keeps_refl [of k] detach_none [of k q]
  by (auto simp: blk_trace_remove_queue_def Let_def detach_def [symmetric] split: option.splits)

text \<open>A struct that has been allocated is freed again or installed.\<close>

lemma install_keeps:
  assumes "kinv k" "trace_inv bt"
  shows "keeps k (snd (install q bt (k\<lparr>allocated := allocated k + 1, blk_tree_root := b\<rparr>)))"
proof (cases "queues k q")
  case None
  have "dom ((queues k)(q \<mapsto> bt)) = insert q (dom (queues k))" "q \<notin> dom (queues k)"
    using None by auto
  moreover have "\<forall>b \<in> ran ((queues k)(q \<mapsto> bt)). trace_inv b"
    using assms None by (auto simp: kinv_def)
  ultimately show ?thesis
    using assms None by (auto simp: keeps_def kinv_def lost_def install_def get_probes_def Let_def)
next
  case (Some old)
  then show ?thesis
    using assms by (simp add: install_def blk_trace_free_def keeps_control same_control_def)
qed

section \<open>Every step keeps the invariant\<close>

lemma trace_inv_fresh: "bt_relay bt = [] \<Longrightarrow> bt_sequence bt = Some (\<lambda>_. 0) \<or> \<not> bt_rchan bt \<Longrightarrow>
    bt_state bt = Blktrace_none \<or> bt_rchan bt \<Longrightarrow> trace_inv bt"
  by (auto simp: trace_inv_def numbered_def events_of_def)

lemma setup_lba_frame:
  "bt_relay (blk_trace_setup_lba part bt) = bt_relay bt" "bt_sequence (blk_trace_setup_lba part bt) = bt_sequence bt"
  "bt_rchan (blk_trace_setup_lba part bt) = bt_rchan bt" "bt_state (blk_trace_setup_lba part bt) = bt_state bt"
  by (simp_all add: blk_trace_setup_lba_def split: option.split)

lemma trace_inv_new: "trace_inv (new_trace dev part buts)"
  by (intro trace_inv_fresh) (simp_all add: new_trace_def Let_def setup_lba_frame zero_trace_struct_def)

lemma do_setup_keeps:
  assumes "kinv k"
  shows "keeps k (snd (snd (do_blk_trace_setup ok q name dev part buts k)))"
proof -
  have free: "keeps k (blk_trace_free (k\<lparr>allocated := allocated k + 1\<rparr>))"
    "keeps k (blk_trace_free (k\<lparr>allocated := allocated k + 1, blk_tree_root := True\<rparr>))"
    using assms by (auto simp: blk_trace_free_def same_control_def intro!: keeps_control)
  show ?thesis
    using free keeps_refl [OF assms] install_keeps [OF assms trace_inv_new, of q _ _ _ True]
    by (simp add: do_blk_trace_setup_def Let_def case_prod_beta)
qed

lemma setup_queue_keeps:
  assumes "kinv k"
  shows "keeps k (snd (blk_trace_setup_queue ok q dev part k))"
proof -
  have "trace_inv (blk_trace_setup_lba part (zero_trace_struct\<lparr>bt_dev := dev, bt_act_mask := - 1\<rparr>))"
    by (intro trace_inv_fresh) (simp_all add: setup_lba_frame zero_trace_struct_def)
  from install_keeps [OF assms this, of q "blk_tree_root k"]
  show ?thesis
    using assms keeps_refl [OF assms]
    by (simp add: blk_trace_setup_queue_def Let_def blk_trace_free_def)
qed

lemma startstop_keeps:
  assumes "kinv k"
  shows "keeps k (snd (blk_trace_startstop env q start k))"
proof (cases "queues k q")
  case None
  then show ?thesis
    using assms keeps_refl by (simp add: blk_trace_startstop_def)
next
  case (Some bt)
  have inv: "trace_inv bt"
    using assms Some by (rule kinv_trace)
  let ?k = "k\<lparr>blktrace_seq := blktrace_seq k + 1\<rparr>" and ?bt = "bt\<lparr>bt_state := Blktrace_running\<rparr>"
  have "keeps k (start_trace env q bt k)" if "bt_state bt \<noteq> Blktrace_none"
  proof -
    have "keeps k ?k" "trace_inv ?bt"
      using assms inv that by (auto simp: same_control_def trace_inv_def intro!: keeps_control)
    moreover have "logs (?bt, ?k) (trace_note_time env (?bt, ?k))"
      unfolding trace_note_time_def using \<open>trace_inv ?bt\<close> note_actions by (intro trace_note_logs) simp_all
    ultimately show ?thesis
      using keeps_logged [of ?k q bt ?bt] Some keeps_trans [of k ?k] keeps_inv
      by (simp add: start_trace_def Let_def case_prod_beta)
  qed
  moreover have "trace_inv (bt\<lparr>bt_state := Blktrace_stopped\<rparr>)" if "bt_state bt = Blktrace_running"
    using inv that by (auto simp: trace_inv_def)
  ultimately show ?thesis
    using Some keeps_refl [OF assms] keeps_update [OF assms Some] by (auto simp: blk_trace_startstop_def)
qed

lemma setup_keeps:
  assumes "kinv k"
  shows "keeps k (fst (snd (blk_trace_setup ok q name dev part copy_in copy_out k)))"
    "keeps k (fst (snd (compat_blk_trace_setup ok q name dev part copy_in copy_out k)))"
proof -
  have "keeps k k'" "keeps k (snd (blk_trace_remove q k'))"
    if "do_blk_trace_setup ok q name dev part buts k = (ret, buts', k')" for buts ret buts' k'
    using do_setup_keeps [OF assms, of ok q name dev part buts] that remove_keeps keeps_trans keeps_inv by (metis snd_conv)+
  then show "keeps k (fst (snd (blk_trace_setup ok q name dev part copy_in copy_out k)))"
    "keeps k (fst (snd (compat_blk_trace_setup ok q name dev part copy_in copy_out k)))"
    using keeps_refl [OF assms]
    by (auto simp: blk_trace_setup_def compat_blk_trace_setup_def split: option.splits prod.splits)
qed

lemma ioctl_keeps:
  assumes "kinv k"
  shows "keeps k (snd (blk_trace_ioctl env ok q cmd k))"
proof (cases q)
  case None
  then show ?thesis
    using assms keeps_refl by simp
next
  case (Some q)
  then show ?thesis
    using assms keeps_refl startstop_keeps remove_keeps setup_keeps
    by (cases cmd) (simp_all add: case_prod_beta)
qed

lemma shutdown_keeps: "kinv k \<Longrightarrow> keeps k (blk_trace_shutdown env q k)"
  using startstop_keeps [of k env q False] remove_keeps keeps_trans keeps_inv keeps_refl
  by (simp add: blk_trace_shutdown_def case_prod_beta)

lemma set_attr_inv: "trace_inv bt \<Longrightarrow> trace_inv (set_attr attr v bt)"
  by (cases attr) (simp_all add: trace_inv_def)

lemma store_keeps:
  assumes "kinv k"
  shows "keeps k (snd (sysfs_blk_trace_attr_store ok attr qo dev part buf k))"
proof -
  have set: "keeps k' (k'\<lparr>queues := (queues k')(q := map_option (set_attr attr v) (queues k' q))\<rparr>)" if "kinv k'" for k' q v
  proof (cases "queues k' q")
    case None
    then show ?thesis
      using that by (simp add: fun_upd_idem keeps_refl)
  next
    case (Some bt)
    then show ?thesis
      using that kinv_trace [OF that Some] keeps_update set_attr_inv by simp
  qed
  have change: "keeps k (k'\<lparr>queues := (queues k')(q := map_option (set_attr attr v) (queues k' q))\<rparr>)" "keeps k k'"
    if "(if queues k q = None then blk_trace_setup_queue ok q dev part k else (None, k)) = (ret, k')" for ret k' q v
  proof -
    show "keeps k k'"
      using assms setup_queue_keeps keeps_refl that by (metis snd_conv)
    then show "keeps k (k'\<lparr>queues := (queues k')(q := map_option (set_attr attr v) (queues k' q))\<rparr>)"
      using set keeps_trans keeps_inv by blast
  qed
  show ?thesis
  proof (cases "buf = [] \<or> attr_value attr buf = None \<or> qo = None")
    case True
    then show ?thesis
      using keeps_refl [OF assms] by (auto simp: sysfs_blk_trace_attr_store_def split: option.split)
  next
    case False
    then obtain v q where v: "buf \<noteq> []" "attr_value attr buf = Some v" "qo = Some q"
      by auto
    show ?thesis
    proof (cases "attr = Attr_enable")
      case True
      then show ?thesis
        using v setup_queue_keeps [OF assms] remove_queue_keeps [OF assms]
        by (simp add: sysfs_blk_trace_attr_store_def case_prod_beta)
    next
      case False
      obtain ret k' where r: "(if queues k q = None then blk_trace_setup_queue ok q dev part k else (None, k)) = (ret, k')"
        by (metis surj_pair)
      then show ?thesis
        using v False change [OF r] by (simp add: sysfs_blk_trace_attr_store_def Let_def)
    qed
  qed
qed

lemma action_not_notify [simp]:
  "\<not> has_tc (BLK_TA a) TC_NOTIFY" "\<not> has_tc (BLK_TA a OR BLK_TC_ACT (BLK_TC TC_PC)) TC_NOTIFY"
  "\<not> has_tc (BLK_TA a OR BLK_TC_ACT (BLK_TC TC_FS)) TC_NOTIFY"
  by (cases a; simp add: has_tc_def BLK_TA.simps BLK_TC_ACT_def BLK_TC.simps BLK_TC_SHIFT_def push_bit_eq_mult)+

section \<open>The states of a trace\<close>

text \<open>The changes of the state of the trace of a queue; \<open>None\<close> when there is no trace.\<close>

inductive state_change :: "trace_state option \<Rightarrow> trace_state option \<Rightarrow> bool" where
  same: "state_change s s"
| ioctl_setup: "state_change None (Some Blktrace_setup)"
| sysfs_setup: "state_change None (Some Blktrace_none)"
| start: "state_change (Some Blktrace_setup) (Some Blktrace_running)"
| stop: "state_change (Some Blktrace_running) (Some Blktrace_stopped)"
| restart: "state_change (Some Blktrace_stopped) (Some Blktrace_running)"
| teardown: "state_change (Some s) None"

inductive_cases change_to_running: "state_change s (Some Blktrace_running)"
inductive_simps change_from_none: "state_change None s"
inductive_simps change_from_sysfs: "state_change (Some Blktrace_none) s"

definition state_of :: "nat \<Rightarrow> kernel \<Rightarrow> trace_state option" where
  "state_of q k = map_option bt_state (queues k q)"

definition steps_state :: "kernel \<Rightarrow> kernel \<Rightarrow> bool" where
  "steps_state k k' \<longleftrightarrow> (\<forall>q. state_change (state_of q k) (state_of q k'))"

lemma steps_same: "(\<And>q. state_of q k' = state_of q k) \<Longrightarrow> steps_state k k'"
  by (simp add: steps_state_def state_change.same)

lemma steps_one:
  assumes "queues k' = (queues k)(q := b)" "state_change (state_of q k) (map_option bt_state b)"
  shows "steps_state k k'"
  using assms by (auto simp: steps_state_def state_of_def intro: state_change.same)

lemma steps_update: "queues k q = Some bt \<Longrightarrow> bt_state bt' = bt_state bt \<Longrightarrow> queues k' = (queues k)(q \<mapsto> bt') \<Longrightarrow> steps_state k k'"
  by (rule steps_same) (auto simp: state_of_def)

lemma state_of_simps [simp]:
  "state_of q (blk_trace_free k) = state_of q k" "state_of q (put_probes k) = state_of q k"
  "state_of q (get_probes k) = state_of q k" "state_of q (blk_trace_cleanup k) = state_of q k"
  "state_of q (k\<lparr>allocated := a\<rparr>) = state_of q k" "state_of q (k\<lparr>blk_tree_root := b\<rparr>) = state_of q k"
  by (simp_all add: state_of_def blk_trace_free_def put_probes_def get_probes_def blk_trace_cleanup_def Let_def)

lemma on_trace_state:
  assumes "kinv k" "on_trace q f k = Some k'" "\<And>bt bk. trace_inv bt \<Longrightarrow> f (bt, k) = Some bk \<Longrightarrow> logs (bt, k) bk"
  shows "steps_state k k'"
proof (cases "queues k q")
  case None
  then show ?thesis
    using assms by (simp add: on_trace_def steps_same)
next
  case (Some bt)
  then obtain bt' k1 where f: "f (bt, k) = Some (bt', k1)" "k' = k1\<lparr>queues := (queues k1)(q \<mapsto> bt')\<rparr>"
    using assms(2) by (auto simp: on_trace_def bind_eq_Some_conv)
  then have "logs (bt, k) (bt', k1)"
    using assms(1,3) Some kinv_trace by blast
  then show ?thesis
    using Some f(2) by (intro steps_update) (auto simp: logs_def same_control_def)
qed

lemma blk_add_logs:
  "req_ok (e_req env) \<Longrightarrow> \<not> has_tc what TC_NOTIFY \<Longrightarrow> trace_inv bt \<Longrightarrow>
     blk_add_trace env sector bytes rw what err pdu (bt, k) = Some bk \<Longrightarrow> logs (bt, k) bk"
  "req_ok (e_req env) \<Longrightarrow> \<not> has_tc what TC_NOTIFY \<Longrightarrow> trace_inv bt \<Longrightarrow>
     blk_add_trace_my env sector bytes rw what err pdu rq (bt, k) = Some bk \<Longrightarrow> logs (bt, k) bk"
  using add_trace_logs [of "(bt, k)", OF _ fill_ok_Some] add_trace_logs [of "(bt, k)", OF _ fill_ok_journal]
  unfolding blk_add_trace_def blk_add_trace_my_def by simp_all

text \<open>What a tracepoint does to the state.\<close>

definition good :: "kernel \<Rightarrow> kernel \<Rightarrow> bool" where
  "good k k' \<longleftrightarrow> keeps k k' \<and> steps_state k k'"

lemma good_refl: "kinv k \<Longrightarrow> good k k"
  by (simp add: good_def keeps_refl steps_same)

lemma on_trace_good:
  assumes "kinv k" "on_trace q f k = Some k'" "\<And>bt bk. trace_inv bt \<Longrightarrow> f (bt, k) = Some bk \<Longrightarrow> logs (bt, k) bk"
  shows "good k k'"
  using on_trace_keeps [OF assms] on_trace_state [OF assms] by (simp add: good_def)

lemma msg_good:
  assumes "kinv k"
  shows "good k (snd (blk_msg_write env max_msg q n mem_ok copied k))"
proof -
  have log: "logs (bt, k) bk" if "trace_inv bt" "Some (trace_note_message env max_msg m (bt, k)) = Some bk" for bt bk m
    using that logs_refl trace_note_logs [of "(bt, k)"] note_actions
    by (auto simp: trace_note_message_def Let_def split: if_splits)
  have "\<exists>k'. on_trace q (\<lambda>bk. Some (trace_note_message env max_msg m bk)) k = Some k'" for m
    by (auto simp: on_trace_def split: option.split prod.split)
  then have "good k (the (on_trace q (\<lambda>bk. Some (trace_note_message env max_msg m bk)) k))" for m
    using on_trace_good [OF assms] log by (metis option.sel)
  then show ?thesis
    using good_refl [OF assms] by (simp add: blk_msg_write_def split: option.split)
qed

lemma add_good:
  assumes "kinv k" "req_ok (e_req env)" "\<not> has_tc what TC_NOTIFY"
  shows "on_trace q (blk_add_trace env sector bytes rw what err pdu) k = Some k' \<Longrightarrow> good k k'"
    "on_trace q (blk_add_trace_my env sector bytes rw what err pdu rq) k = Some k' \<Longrightarrow> good k k'"
  using on_trace_good [OF assms(1)] blk_add_logs [OF assms(2,3)] by blast+

lemmas ta_good = add_good(1) [OF _ _ action_not_notify(1)]
  add_good(2) [OF _ _ action_not_notify(2)] add_good(2) [OF _ _ action_not_notify(3)]

lemma rq_good:
  "kinv k \<Longrightarrow> req_ok (e_req env) \<Longrightarrow> blk_add_trace_rq env q rq (BLK_TA a) k = Some k' \<Longrightarrow> good k k'"
  by (cases "rq_pc rq") (auto simp: blk_add_trace_rq_def intro: ta_good)

lemma bio_good:
  "kinv k \<Longrightarrow> req_ok (e_req env) \<Longrightarrow> blk_add_trace_bio env q b (BLK_TA a) err k = Some k' \<Longrightarrow> good k k'"
  unfolding blk_add_trace_bio_def by (rule ta_good)

lemma probe_good:
  assumes "kinv k" "req_ok (e_req env)" "probe env q tp k = Some k'"
  shows "good k k'"
  using assms
  by (cases tp) (auto simp: blk_add_trace_getrq_def blk_add_trace_sleeprq_def blk_add_trace_plug_def blk_add_trace_unplug_def
      blk_add_trace_split_def blk_add_trace_bio_remap_def blk_add_trace_rq_remap_def
      split: option.splits intro: ta_good rq_good bio_good)

lemma ftrace_keeps: "kinv k \<Longrightarrow> keeps k (blk_tracer_start k)" "kinv k \<Longrightarrow> keeps k (blk_tracer_stop k)"
  by (simp_all add: blk_tracer_start_def blk_tracer_stop_def keeps_def kinv_def lost_def)

lemma kstep_keeps:
  assumes "kstep k k'" "kinv k"
  shows "keeps k k'"
  using assms
proof cases
  case (tracepoint env q tp)
  then show ?thesis
    using assms(2) probe_good good_refl by (auto simp: hit_def good_def split: if_splits)
next
  case (driver env q rq data)
  then show ?thesis
    using assms(2) ta_good(1) unfolding blk_add_driver_data_def good_def by blast
qed (use assms(2) in \<open>simp_all add: ioctl_keeps shutdown_keeps msg_good [unfolded good_def] store_keeps ftrace_keeps\<close>)

lemma reachable_kinv: "reachable k \<Longrightarrow> kinv k"
proof (induction rule: reachable.induct)
  case init
  then show ?case
    by (simp add: kinv_def init_kernel_def)
next
  case (step k k')
  then show ?case
    using kstep_keeps keeps_inv by blast
qed

text \<open>The control operations.\<close>

lemma queues_control [simp]:
  "queues (blk_trace_free k) = queues k" "queues (put_probes k) = queues k" "queues (get_probes k) = queues k"
  "queues (blk_trace_cleanup k) = queues k"
  by (simp_all add: blk_trace_free_def put_probes_def get_probes_def blk_trace_cleanup_def Let_def)

lemma remove_queues: "queues (snd (blk_trace_remove q k)) = (queues k)(q := None)"
  by (simp add: blk_trace_remove_def Let_def split: option.split)

lemma remove_queue_queues: "queues (snd (blk_trace_remove_queue q k)) = (queues k)(q := None)"
  by (simp add: blk_trace_remove_queue_def Let_def split: option.split)

lemma to_none: "state_change s None"
  by (cases s) (auto intro: state_change.intros)

lemma remove_steps: "steps_state k (snd (blk_trace_remove q k))" "steps_state k (snd (blk_trace_remove_queue q k))"
  by (rule steps_one [OF remove_queues] steps_one [OF remove_queue_queues]; simp add: to_none)+

lemma install_queues:
  "install q bt k = (ret, k') \<Longrightarrow>
     ret = None \<and> queues k q = None \<and> queues k' = (queues k)(q \<mapsto> bt) \<or> ret \<noteq> None \<and> queues k' = queues k"
  by (auto simp: install_def split: option.splits)

lemma new_trace_state: "bt_state (new_trace dev part buts) = Blktrace_setup"
  by (simp add: new_trace_def Let_def)

lemma do_setup_queues:
  assumes "do_blk_trace_setup ok q name dev part buts k = (ret, buts', k')"
  shows "ret = None \<and> queues k q = None \<and> (\<exists>bt. bt_state bt = Blktrace_setup \<and> queues k' = (queues k)(q \<mapsto> bt))
    \<or> ret \<noteq> None \<and> queues k' = queues k"
proof -
  let ?bt = "new_trace dev part (buts\<lparr>su_name := bdev_name name\<rparr>)"
  let ?k = "k\<lparr>allocated := allocated k + 1, blk_tree_root := True\<rparr>"
  obtain r k2 where r: "install q ?bt ?k = (r, k2)"
    by (cases "install q ?bt ?k")
  have "ret = r \<and> k' = k2 \<or> ret \<noteq> None \<and> queues k' = queues k"
    using assms r by (simp add: do_blk_trace_setup_def Let_def split: if_split_asm) auto
  then show ?thesis
    using install_queues [OF r] new_trace_state by auto
qed

text \<open>A setup that is undone leaves the queues as they were.\<close>

lemma setup_queues:
  "(let k' = fst (snd (blk_trace_setup ok q name dev part copy_in copy_out k)) in
     queues k' = queues k \<or> queues k q = None \<and> (\<exists>bt. bt_state bt = Blktrace_setup \<and> queues k' = (queues k)(q \<mapsto> bt)))"
  "(let k' = fst (snd (compat_blk_trace_setup ok q name dev part copy_in copy_out k)) in
     queues k' = queues k \<or> queues k q = None \<and> (\<exists>bt. bt_state bt = Blktrace_setup \<and> queues k' = (queues k)(q \<mapsto> bt)))"
proof -
  have undo: "queues (snd (blk_trace_remove q k')) = queues k" if "queues k q = None" "queues k' = (queues k)(q \<mapsto> bt)" for k' bt
    using that by (simp add: remove_queues fun_upd_idem)
  show "(let k' = fst (snd (blk_trace_setup ok q name dev part copy_in copy_out k)) in
     queues k' = queues k \<or> queues k q = None \<and> (\<exists>bt. bt_state bt = Blktrace_setup \<and> queues k' = (queues k)(q \<mapsto> bt)))"
    unfolding blk_trace_setup_def Let_def
    by (auto split: option.splits prod.splits dest!: do_setup_queues intro: undo)
  show "(let k' = fst (snd (compat_blk_trace_setup ok q name dev part copy_in copy_out k)) in
     queues k' = queues k \<or> queues k q = None \<and> (\<exists>bt. bt_state bt = Blktrace_setup \<and> queues k' = (queues k)(q \<mapsto> bt)))"
    unfolding compat_blk_trace_setup_def Let_def
    by (auto split: option.splits prod.splits dest!: do_setup_queues intro: undo)
qed

lemma steps_same_queues: "queues k' = queues k \<Longrightarrow> steps_state k k'"
  by (rule steps_same) (simp add: state_of_def)

lemma start_trace_state:
  assumes "kinv k" "queues k q = Some bt" "bt_state bt \<noteq> Blktrace_none"
  shows "state_of q' (start_trace env q bt k) = (if q' = q then Some Blktrace_running else state_of q' k)"
    "allocated (start_trace env q bt k) = allocated k"
proof -
  let ?k = "k\<lparr>blktrace_seq := blktrace_seq k + 1\<rparr>" and ?bt = "bt\<lparr>bt_state := Blktrace_running\<rparr>"
  have "trace_inv ?bt"
    using kinv_trace [OF assms(1,2)] assms(3) by (simp add: trace_inv_def)
  then have "logs (?bt, ?k) (trace_note_time env (?bt, ?k))"
    unfolding trace_note_time_def using note_actions by (intro trace_note_logs) simp_all
  then show "state_of q' (start_trace env q bt k) = (if q' = q then Some Blktrace_running else state_of q' k)"
    "allocated (start_trace env q bt k) = allocated k"
    by (auto simp: start_trace_def Let_def case_prod_beta logs_def same_control_def state_of_def)
qed

lemma startstop_steps:
  assumes "kinv k"
  shows "steps_state k (snd (blk_trace_startstop env q start k))"
proof (cases "queues k q")
  case None
  then show ?thesis
    by (simp add: blk_trace_startstop_def steps_same)
next
  case (Some bt)
  note step = state_change.intros
  have q: "state_of q k = Some (bt_state bt)"
    using Some by (simp add: state_of_def)
  have "steps_state k (start_trace env q bt k)" if "bt_state bt = Blktrace_setup \<or> bt_state bt = Blktrace_stopped"
    using that start_trace_state(1) [OF assms Some] q step(1,4,6) by (auto simp: steps_state_def)
  moreover have "steps_state k (k\<lparr>queues := (queues k)(q \<mapsto> bt\<lparr>bt_state := Blktrace_stopped\<rparr>)\<rparr>)"
    if "bt_state bt = Blktrace_running"
    using that q step(5) by (intro steps_one) auto
  ultimately show ?thesis
    using Some by (simp add: blk_trace_startstop_def steps_same)
qed

lemma ioctl_steps:
  assumes "kinv k"
  shows "steps_state k (snd (blk_trace_ioctl env ok q cmd k))"
proof (cases q)
  case None
  then show ?thesis
    by (simp add: steps_same)
next
  case (Some q)
  have up: "steps_state k k'" if "let k' = k' in queues k' = queues k \<or>
      queues k q = None \<and> (\<exists>bt. bt_state bt = Blktrace_setup \<and> queues k' = (queues k)(q \<mapsto> bt))" for k'
    using that steps_same_queues [of k' k] steps_one [of k' k q] state_change.ioctl_setup by (auto simp: state_of_def Let_def)
  show ?thesis
    using Some startstop_steps [OF assms] remove_steps(1) [of k q] up [OF setup_queues(1)]
      up [OF setup_queues(2)]
    by (cases cmd) (simp_all add: case_prod_beta steps_same)
qed

lemma shutdown_steps: "kinv k \<Longrightarrow> steps_state k (blk_trace_shutdown env q k)"
proof -
  assume inv: "kinv k"
  let ?k = "snd (blk_trace_startstop env q False k)"
  have "(queues ?k)(q := None) = (queues k)(q := None)"
    by (auto simp: blk_trace_startstop_def split: option.split)
  then show ?thesis
    using steps_one [of "snd (blk_trace_remove q ?k)" k q None] to_none
    by (simp add: blk_trace_shutdown_def case_prod_beta remove_queues steps_same)
qed

lemma setup_queue_queues:
  "queues (snd (blk_trace_setup_queue ok q dev part k)) = queues k \<or>
   queues k q = None \<and> (\<exists>bt. bt_state bt = Blktrace_none \<and> queues (snd (blk_trace_setup_queue ok q dev part k)) = (queues k)(q \<mapsto> bt))"
proof -
  let ?bt = "blk_trace_setup_lba part (zero_trace_struct\<lparr>bt_dev := dev, bt_act_mask := - 1\<rparr>)"
  obtain r k' where r: "install q ?bt (k\<lparr>allocated := allocated k + 1\<rparr>) = (r, k')"
    by (cases "install q ?bt (k\<lparr>allocated := allocated k + 1\<rparr>)")
  have "bt_state ?bt = Blktrace_none"
    by (simp add: setup_lba_frame zero_trace_struct_def)
  then show ?thesis
    using install_queues [OF r] r by (auto simp: blk_trace_setup_queue_def Let_def)
qed

lemma set_attr_state [simp]: "bt_state (set_attr attr v bt) = bt_state bt"
  by (cases attr) simp_all

lemma store_steps: "steps_state k (snd (sysfs_blk_trace_attr_store ok attr qo dev part buf k))"
proof (cases "buf = [] \<or> attr_value attr buf = None \<or> qo = None")
  case True
  then show ?thesis
    by (auto simp: sysfs_blk_trace_attr_store_def steps_same split: option.split)
next
  case False
  then obtain v q where v: "buf \<noteq> []" "attr_value attr buf = Some v" "qo = Some q"
    by auto
  have up: "steps_state k k'" if "queues k' = queues k \<or>
      queues k q = None \<and> (\<exists>bt. bt_state bt = Blktrace_none \<and> queues k' = (queues k)(q \<mapsto> bt))" for k'
    using that steps_same_queues [of k' k] steps_one [of k' k q] state_change.sysfs_setup by (auto simp: state_of_def)
  show ?thesis
  proof (cases "attr = Attr_enable")
    case True
    then show ?thesis
      using v up [OF setup_queue_queues] remove_steps(2) [of k q]
      by (simp add: sysfs_blk_trace_attr_store_def case_prod_beta)
  next
    case False
    obtain ret k' where r: "(if queues k q = None then blk_trace_setup_queue ok q dev part k else (None, k)) = (ret, k')"
      by (metis surj_pair)
    have k': "steps_state k k'"
      using r up setup_queue_queues [of ok q dev part k] by (metis snd_conv)
    moreover have "steps_state k (k'\<lparr>queues := (queues k')(q := map_option (set_attr attr v) (queues k' q))\<rparr>)"
      using k' by (simp add: steps_state_def state_of_def option.map_comp o_def)
    ultimately show ?thesis
      using v False r by (simp add: sysfs_blk_trace_attr_store_def Let_def)
  qed
qed

lemma kstep_steps:
  assumes "kstep k k'" "kinv k"
  shows "steps_state k k'"
  using assms
proof cases
  case (tracepoint env q tp)
  then show ?thesis
    using assms(2) probe_good steps_same by (auto simp: hit_def good_def split: if_splits)
next
  case (driver env q rq data)
  then show ?thesis
    using assms(2) ta_good(1) unfolding blk_add_driver_data_def good_def by blast
qed (use assms(2) in \<open>simp_all add: ioctl_steps shutdown_steps msg_good [unfolded good_def] store_steps
      steps_same_queues blk_tracer_start_def blk_tracer_stop_def\<close>)

section \<open>Tracepoints do not fail\<close>

text \<open>The buffer in which the callback of a tracepoint looks for journal blocks.\<close>

fun tp_buffer :: "tracepoint \<Rightarrow> u8 list option" where
  "tp_buffer (block_rq_abort rq) = rq_buffer rq"
| "tp_buffer (block_rq_insert rq) = rq_buffer rq"
| "tp_buffer (block_rq_issue rq) = rq_buffer rq"
| "tp_buffer (block_rq_requeue rq) = rq_buffer rq"
| "tp_buffer (block_rq_complete rq) = rq_buffer rq"
| "tp_buffer _ = None"

lemma add_trace_total:
  assumes "trace_inv bt" "\<And>t. fill t \<noteq> None" "has_tc what TC_NOTIFY = False"
  shows "\<exists>bk. add_trace_with fill env sector bytes rw what err pdu (bt, k) = Some bk"
proof -
  have filled: "\<exists>r. fill t = Some r" for t
    using assms(2) by auto
  have relay: "\<exists>b'. relay_event fill env sector bytes w err pdu b = Some b'" if b: "trace_inv b" "bt_rchan b" for b w
  proof -
    obtain t b1 where r: "relay_reserve env (sizeof_trace + length pdu) b = (t, b1)"
      by (cases "relay_reserve env (sizeof_trace + length pdu) b")
    obtain s where "bt_sequence b1 = Some s"
      using b relay_reserve_frame [OF r] by (auto simp: trace_inv_def)
    then show ?thesis
      using b(2) r filled by (auto simp: relay_event_def Let_def bind_eq_Some_conv)
  qed
  have "logs (bt, k') (trace_note env pid (BLK_TN TN_PROCESS) data (bt, k'))" for k' pid data
    using assms(1) note_actions by (intro trace_note_logs) simp_all
  then have tsk: "trace_inv (fst (trace_note_tsk env (bt, k)))" "bt_rchan (fst (trace_note_tsk env (bt, k))) = bt_rchan bt"
    by (simp_all add: trace_note_tsk_def logs_def)
  have "bt_state bt = Blktrace_running \<Longrightarrow> bt_rchan bt"
    using assms(1) by (simp add: trace_inv_def)
  then show ?thesis
    using relay [OF tsk(1), of "event_action (e_req env) rw what"] relay [OF assms(1), of "event_action (e_req env) rw what"] tsk(2) filled
    by (auto simp: add_trace_with_def Let_def case_prod_beta bind_eq_Some_conv)
qed

lemma on_trace_total:
  "kinv k \<Longrightarrow> (\<And>bt. trace_inv bt \<Longrightarrow> \<exists>bk. f (bt, k) = Some bk) \<Longrightarrow> \<exists>k'. on_trace q f k = Some k'"
  using kinv_trace [of k q] by (fastforce simp: on_trace_def split: option.split)

lemma blk_add_total: "kinv k \<Longrightarrow> \<exists>k'. on_trace q (blk_add_trace env sector bytes rw (BLK_TA a) err pdu) k = Some k'"
  unfolding blk_add_trace_def by (intro on_trace_total add_trace_total) simp_all

lemma rq_total: "kinv k \<Longrightarrow> rq_buffer rq = None \<Longrightarrow> \<exists>k'. blk_add_trace_rq env q rq (BLK_TA a) k = Some k'"
  unfolding blk_add_trace_rq_def blk_add_trace_my_def
  by (cases "rq_pc rq"; simp; intro on_trace_total add_trace_total) (simp_all add: journal_fill_def)

section \<open>Properties\<close>

text \<open>C5: in every state that the tracer reaches, the callbacks are attached exactly while the number of users is positive, that
  number is the number of allocated traces and at least that of the traced queues, every record in the relay of a queue is one
  that the tools accept, and the events that a CPU has written there are numbered 1, 2, 3, \<dots> without a gap.\<close>

theorem kernel_invariant:
  assumes "reachable k"
  shows "(registered k \<longleftrightarrow> blk_probes_ref k > 0) \<and> blk_probes_ref k = int (allocated k)
    \<and> card (dom (queues k)) \<le> allocated k
    \<and> (\<forall>q bt. queues k q = Some bt \<longrightarrow> (\<forall>r \<in> set (bt_relay bt). verify_trace r = None)
        \<and> (\<forall>cpu. map tr_sequence (events_of cpu (bt_relay bt)) = map (\<lambda>i. of_nat (i + 1)) [0..<length (events_of cpu (bt_relay bt))]))"
proof -
  have inv: "kinv k"
    using assms by (rule reachable_kinv)
  then have "trace_inv bt" if "queues k q = Some bt" for q bt
    using that by (rule kinv_trace)
  then show ?thesis
    using inv by (auto simp: kinv_def trace_inv_def numbered_def)
qed

text \<open>One queue, set up and started.\<close>

definition example_env :: env where
  "example_env = \<lparr>e_cpu = 0, e_pid = 42, e_comm = replicate 16 0, e_ktime = 5, e_now = (0, 0), e_mem = zero_trace,
     e_reserve = (\<lambda>_ _. Fits), e_ring = (\<lambda>_. True), e_req = req_tc,
     e_journal = \<lparr>parse_header = parse_journal_standard_header, parse_entry = parse_journal_descriptor_entry\<rparr>\<rparr>"

definition example_setup :: ioctl where
  "example_setup = BLKTRACESETUP ''sda'' 8 None
     (Some \<lparr>su_name = [], su_act_mask = 0, su_buf_size = 1, su_buf_nr = 1, su_start_lba = 0, su_end_lba = 0, su_pid = 0\<rparr>) True"

definition example_ready :: kernel where
  "example_ready = snd (blk_trace_ioctl example_env (\<lambda>_. True) (Some 0) example_setup init_kernel)"

definition example_running :: kernel where
  "example_running = snd (blk_trace_ioctl example_env (\<lambda>_. True) (Some 0) BLKTRACESTART example_ready)"

lemma example_reachable: "reachable example_ready" "reachable example_running"
  unfolding example_running_def example_ready_def
  by (rule reachable.step [OF reachable.init kstep.ioctl])
    (rule reachable.step [OF reachable.step [OF reachable.init kstep.ioctl] kstep.ioctl])

lemma example_ready_state: "\<exists>bt. queues example_ready 0 = Some bt \<and> bt_state bt = Blktrace_setup" "allocated example_ready = 1"
  by (simp_all add: example_ready_def example_setup_def init_kernel_def blk_trace_setup_def do_blk_trace_setup_def install_def
      get_probes_def new_trace_state Let_def)

lemma example_running_state: "\<exists>bt. queues example_running 0 = Some bt \<and> bt_state bt = Blktrace_running"
  "allocated example_running = 1"
proof -
  obtain bt where bt: "queues example_ready 0 = Some bt" "bt_state bt = Blktrace_setup"
    using example_ready_state(1) by blast
  then have run: "example_running = start_trace example_env 0 bt example_ready"
    by (simp add: example_running_def blk_trace_startstop_def)
  have "state_of 0 example_running = Some Blktrace_running"
    unfolding run using start_trace_state(1) [OF reachable_kinv [OF example_reachable(1)] bt(1), of 0] bt(2) by simp
  then show "\<exists>bt. queues example_running 0 = Some bt \<and> bt_state bt = Blktrace_running"
    by (auto simp: state_of_def)
  show "allocated example_running = 1"
    unfolding run using start_trace_state(2) [OF reachable_kinv [OF example_reachable(1)] bt(1)] bt(2) example_ready_state(2) by simp
qed

theorem kernel_invariant_witness: "registered example_running \<and> blk_probes_ref example_running = 1"
  using kernel_invariant [OF example_reachable(2)] example_running_state(2) by simp

text \<open>C36: tearing a trace down while it runs forgets it but neither frees it nor gives up its use of the tracepoints, and no later
  sequence of operations repairs this: the callbacks stay attached for ever and there is always an allocated trace that no queue has.\<close>

theorem teardown_running_leaks:
  assumes "reachable k" "queues k q = Some bt" "bt_state bt = Blktrace_running"
    and "kstep\<^sup>*\<^sup>* (snd (blk_trace_ioctl env ok (Some q) BLKTRACETEARDOWN k)) k'"
  shows "registered k' \<and> card (dom (queues k')) < allocated k'"
proof -
  let ?k = "detach q k"
  have down: "snd (blk_trace_ioctl env ok (Some q) BLKTRACETEARDOWN k) = ?k"
    using assms(2,3) by (simp add: blk_trace_remove_def detach_def)
  have start: "kinv ?k" "lost ?k > 0"
    using detach_lost [OF reachable_kinv [OF assms(1)] assms(2)] by simp_all
  have "kinv k' \<and> lost k' > 0"
    using assms(4) unfolding down
  proof (induction rule: rtranclp_induct)
    case (step a b)
    then show ?case
      using kstep_keeps [of a b] by (auto simp: keeps_def)
  qed (use start in simp)
  then show ?thesis
    by (auto simp: kinv_def lost_def)
qed

theorem teardown_running_leaks_witness:
  "registered (snd (blk_trace_ioctl example_env (\<lambda>_. True) (Some 0) BLKTRACETEARDOWN example_running))"
proof -
  obtain bt where "queues example_running 0 = Some bt" "bt_state bt = Blktrace_running"
    using example_running_state(1) by blast
  then show ?thesis
    using teardown_running_leaks [OF example_reachable(2)] by blast
qed

text \<open>C22: the state of the trace of a queue changes only as the comment of \<open>blk_trace_startstop\<close> says: a trace starts to run from the
  state set up or stopped and stops only when it runs; what sysfs has set up never runs.\<close>

theorem trace_states:
  assumes "reachable k" "kstep k k'"
  shows "state_change (state_of q k) (state_of q k')"
  using kstep_steps [OF assms(2) reachable_kinv [OF assms(1)]] by (simp add: steps_state_def)

theorem trace_states_witness:
  "state_change (state_of 0 example_running)
     (state_of 0 (snd (blk_trace_ioctl example_env (\<lambda>_. True) (Some 0) BLKTRACESTOP example_running)))"
  by (rule trace_states [OF example_reachable(2)]) (rule kstep.ioctl)



end
