(* ===== verification/Kernel_Attr.thy ===== *)
theory Kernel_Attr
  imports Kernel_Machine
begin

text \<open>
  The text of the sysfs attribute \<open>act_mask\<close>: a list of category names is read back as it was written, except for the category
  that the table does not name, and except for what the scan for a hexadecimal number takes first.
\<close>

section \<open>Names separated by commas\<close>

fun join :: "string list \<Rightarrow> string" where
  "join [] = []"
| "join [s] = s"
| "join (s # ss) = s @ CHR '','' # join ss"

lemma join_tokens: "ss \<noteq> [] \<Longrightarrow> \<forall>s \<in> set ss. CHR '','' \<notin> set s \<Longrightarrow> strsep_tokens CHR '','' (join ss) = ss"
  by (induction ss rule: join.induct) (simp_all add: strsep_tokens_single strsep_tokens_append)

lemma join_snoc: "ss \<noteq> [] \<Longrightarrow> join (ss @ [s]) = join ss @ CHR '','' # s"
proof (induction ss rule: join.induct)
  case (3 s s' ss)
  then show ?case
    by simp
qed simp_all

lemma join_empty: "\<forall>s \<in> set ss. s \<noteq> [] \<Longrightarrow> join ss = [] \<longleftrightarrow> ss = []"
  by (induction ss rule: join.induct) auto

lemma join_chars: "c \<in> set (join ss) \<Longrightarrow> c = CHR '','' \<or> (\<exists>s \<in> set ss. c \<in> set s)"
  by (induction ss rule: join.induct) auto

definition names_in :: "u32 \<Rightarrow> (blk_tc \<times> string) list \<Rightarrow> (blk_tc \<times> string) list" where
  "names_in m maps = filter (\<lambda>(c, _). m AND BLK_TC c \<noteq> 0) maps"

lemma append_names_join:
  assumes "\<forall>(c, s) \<in> set maps. s \<noteq> []" "\<forall>s \<in> set ss. s \<noteq> []"
  shows "append_names maps m (join ss) = join (ss @ map snd (names_in m maps))"
  using assms
proof (induction maps arbitrary: ss)
  case (Cons a maps)
  obtain c s where a: "a = (c, s)"
    by (cases a)
  have "join ss @ (if join ss = [] then '''' else '','') @ s = join (ss @ [s])"
    using Cons.prems join_empty [of ss] by (cases "ss = []") (simp_all add: join_snoc)
  moreover have "s \<noteq> []"
    using Cons.prems a by auto
  ultimately show ?case
    using Cons.prems Cons.IH [of "ss @ [s]"] Cons.IH [of ss] by (simp add: a names_in_def)
qed (simp add: names_in_def)

section \<open>Reading the names\<close>

lemma names_plain: "list_all (\<lambda>(c, s). s \<noteq> [] \<and> CHR '','' \<notin> set s \<and> list_all (\<lambda>x. \<not> is_space x) s) kernel_mask_maps"
  by code_simp

lemma name_plain: "a \<in> set kernel_mask_maps \<Longrightarrow> snd a \<noteq> [] \<and> CHR '','' \<notin> set (snd a) \<and> (\<forall>x \<in> set (snd a). \<not> is_space x)"
  using names_plain by (cases a) (auto simp: list_all_iff)

lemma mask2str_join: "blk_trace_mask2str m = join (map snd (names_in m kernel_mask_maps)) @ ''\<newline>''"
proof -
  have "\<forall>(c, s) \<in> set kernel_mask_maps. s \<noteq> []"
    using name_plain by fastforce
  then show ?thesis
    using append_names_join [of kernel_mask_maps "[]" m] by (simp add: blk_trace_mask2str_def)
qed

lemma names_found: "list_all (\<lambda>(c, s). find (\<lambda>(c, str). strcasecmp_eq s str) kernel_mask_maps = Some (c, s)) kernel_mask_maps"
  by code_simp

lemma tokens2mask_names:
  "set maps \<subseteq> set kernel_mask_maps \<Longrightarrow> tokens2mask (map snd maps) m = Some (foldl (\<lambda>m (c, _). m OR BLK_TC c) m maps)"
proof (induction maps arbitrary: m)
  case (Cons a maps)
  then have "find (\<lambda>(c, str). strcasecmp_eq (snd a) str) kernel_mask_maps = Some a" "snd a \<noteq> []"
    using names_found name_plain [of a] by (auto simp: list_all_iff)
  then show ?case
    using Cons by (cases a) simp
qed simp

lemma bit_foldl_masks:
  "bit (foldl (\<lambda>m (c, _). m OR BLK_TC c) m maps) n \<longleftrightarrow> bit m n \<or> (\<exists>c s. (c, s) \<in> set maps \<and> n = tc_bit c)"
proof (induction maps arbitrary: m)
  case (Cons a maps)
  have "tc_bit c < 32" for c
    using tc_bit_le [of c] by simp
  then show ?case
    using Cons by (cases a) (auto simp: bit_or_iff BLK_TC_push bit_push_1 simp del: push_bit_of_1)
qed simp

text \<open>The categories that the table names.\<close>

definition named_mask :: u32 where
  "named_mask = 0xfbff"

lemma bit_named_mask: "bit named_mask n \<longleftrightarrow> (\<exists>c s. (c, s) \<in> set kernel_mask_maps \<and> n = tc_bit c)"
proof -
  have "foldl (\<lambda>m (c, _). m OR BLK_TC c) 0 kernel_mask_maps = named_mask"
    by code_simp
  then show ?thesis
    using bit_foldl_masks [of 0 kernel_mask_maps n] by simp
qed

lemma strstrip_line: "s \<noteq> [] \<Longrightarrow> \<forall>c \<in> set s. \<not> is_space c \<Longrightarrow> strstrip (s @ ''\<newline>'') = s"
proof -
  assume s: "s \<noteq> []" "\<forall>c \<in> set s. \<not> is_space c"
  have "is_space (CHR 0x0A)"
    by code_simp
  moreover have "dropWhile is_space s = s" "dropWhile is_space (rev s) = rev s"
    using s hd_in_set [of s] hd_in_set [of "rev s"] by (auto simp: dropWhile_eq_self_iff)
  ultimately show ?thesis
    using s by (simp add: strstrip_def dropWhile_append)
qed

lemma str2mask_names:
  assumes "set maps \<subseteq> set kernel_mask_maps"
  shows "blk_trace_str2mask (join (map snd maps) @ ''\<newline>'') = Some (foldl (\<lambda>m (c, _). m OR BLK_TC c) 0 maps)"
proof (cases "maps = []")
  case True
  have "blk_trace_str2mask ''\<newline>'' = Some 0"
    by code_simp
  then show ?thesis
    using True by simp
next
  case False
  have plain: "\<forall>s \<in> set (map snd maps). s \<noteq> [] \<and> CHR '','' \<notin> set s \<and> (\<forall>c \<in> set s. \<not> is_space c)"
    using assms name_plain by (auto dest!: subsetD)
  have "\<not> is_space CHR '',''"
    by code_simp
  then have "\<forall>c \<in> set (join (map snd maps)). \<not> is_space c"
    using plain join_chars [of _ "map snd maps"] by blast
  then have "strstrip (join (map snd maps) @ ''\<newline>'') = join (map snd maps)"
    using plain False join_empty [of "map snd maps"] by (intro strstrip_line) auto
  then show ?thesis
    using plain False join_tokens [of "map snd maps"] tokens2mask_names [OF assms] by (simp add: blk_trace_str2mask_def)
qed

section \<open>Properties\<close>

text \<open>C32: the list of names that \<open>blk_trace_mask2str\<close> prints for a mask is read by \<open>blk_trace_str2mask\<close> as the same mask without the
  category of notes, which has no name there.\<close>

theorem act_mask_names_roundtrip: "blk_trace_str2mask (blk_trace_mask2str m) = Some (m AND named_mask)"
proof -
  let ?maps = "names_in m kernel_mask_maps"
  have "foldl (\<lambda>m (c, _). m OR BLK_TC c) 0 ?maps = m AND named_mask"
  proof (rule bit_eqI)
    fix n
    have "m AND BLK_TC c \<noteq> 0 \<longleftrightarrow> bit m (tc_bit c)" for c
      unfolding BLK_TC_push using tc_bit_le [of c] by (intro and_push_bit_1) simp
    then show "bit (foldl (\<lambda>m (c, _). m OR BLK_TC c) 0 ?maps) n = bit (m AND named_mask) n"
      by (auto simp: bit_foldl_masks bit_and_iff bit_named_mask names_in_def)
  qed
  moreover have "set ?maps \<subseteq> set kernel_mask_maps"
    by (auto simp: names_in_def)
  ultimately show ?thesis
    by (simp add: mask2str_join str2mask_names)
qed

text \<open>A text that begins with a hexadecimal digit other than 0 is stored in the attribute as the number of its leading
  digits, even where it is a list of names: \<open>fs\<close> selects four categories, and file system requests are not among them.\<close>

theorem act_mask_store_hexadecimal:
  assumes "is_digit 16 c" "c \<noteq> CHR ''0''"
  shows "attr_value Attr_act_mask (c # s) = Some (of_nat (digits_value 16 (takeWhile (is_digit 16) (c # s))))"
  using assms digit_not_space [OF assms(1)] by (simp add: attr_value_def scan_unsigned_def skip_prefix_def Let_def)

theorem act_mask_store_hexadecimal_witness:
  "attr_value Attr_act_mask ''fs'' = Some 0xf \<and> blk_trace_str2mask ''fs'' = Some (BLK_TC TC_FS) \<and> 0xf AND BLK_TC TC_FS = 0"
proof -
  have "is_digit 16 CHR ''f''"
    by code_simp
  then have "attr_value Attr_act_mask ''fs'' = Some (of_nat (digits_value 16 (takeWhile (is_digit 16) ''fs'')))"
    by (rule act_mask_store_hexadecimal) simp
  moreover have "digits_value 16 (takeWhile (is_digit 16) ''fs'') = 0xf" "blk_trace_str2mask ''fs'' = Some (BLK_TC TC_FS)"
    "0xf AND BLK_TC TC_FS = 0"
    by code_simp+
  ultimately show ?thesis
    by simp
qed

end
