(* ===== verification/Kernel_Journal.thy ===== *)
theory Kernel_Journal
  imports Kernel_Machine
begin

text \<open>
  The scan of journal descriptor blocks in \<open>__blk_add_trace_my\<close>. It needs a parser that reports how much of the block is
  left; with it the scan stays inside a block when it is told the size of what is left behind the header. The
  tracer passes the size of the whole block instead.
\<close>

locale journal_parser =
  fixes japi :: journal_api
  assumes entry_reads: "parse_entry japi buf sz = None \<Longrightarrow> sz \<ge> 8 \<and> length buf < 8"
    and entry_left: "parse_entry japi buf sz = Some (Some (e, left)) \<Longrightarrow>
      left = sz - (if jde_entry_flags e AND JOURNAL_DESC_SAME_UUID \<noteq> 0 then 8 else 24) \<and> 0 \<le> left"
begin

lemma scan_inside: "sz \<le> int (length buf) \<Longrightarrow> \<exists>m. count_entries japi buf sz n = Some m"
proof (induction "nat sz" arbitrary: buf sz n rule: less_induct)
  case less
  have "parse_entry japi buf sz \<noteq> None"
    using entry_reads [of buf sz] less.prems by linarith
  then obtain r where r: "parse_entry japi buf sz = Some r"
    by blast
  show ?case
  proof (cases r)
    case None
    then show ?thesis
      using r by (simp add: count_entries.simps [of japi buf])
  next
    case (Some p)
    then obtain e left where p: "parse_entry japi buf sz = Some (Some (e, left))"
      using r by (cases p) simp
    let ?d = "if jde_entry_flags e AND JOURNAL_DESC_SAME_UUID \<noteq> 0 then 8 else 24 :: nat"
    have left: "left = sz - int ?d" "0 \<le> left" "?d \<ge> 8"
      using entry_left [OF p] by auto
    then have "nat left < nat sz" "left \<le> int (length (drop ?d buf))"
      using less.prems by auto
    then have "\<exists>m. count_entries japi (drop ?d buf) left (n + 1) = Some m"
      by (rule less.hyps)
    then show ?thesis
      using p left(2) by (simp add: count_entries.simps [of japi buf] Let_def)
  qed
qed

end

definition ext_journal_api :: journal_api where
  "ext_journal_api = \<lparr>parse_header = parse_journal_standard_header, parse_entry = parse_journal_descriptor_entry\<rparr>"

lemma entry_parse:
  "8 \<le> sz \<Longrightarrow> 8 \<le> length buf \<Longrightarrow> \<exists>b f. readui32be buf 0 = Some b \<and> readui32be buf 4 = Some f"
  using readui32be_some [of buf 0] readui32be_some [of buf 4] by auto

interpretation ext: journal_parser ext_journal_api
proof
  show "sz \<ge> 8 \<and> length buf < 8" if "parse_entry ext_journal_api buf sz = None" for buf sz
    using that readui32be_none [of buf 0] readui32be_none [of buf 4]
    by (auto simp: ext_journal_api_def parse_journal_descriptor_entry_def Let_def bind_eq_None_conv split: if_splits)
  show "left = sz - (if jde_entry_flags e AND JOURNAL_DESC_SAME_UUID \<noteq> 0 then 8 else 24) \<and> 0 \<le> left"
    if "parse_entry ext_journal_api buf sz = Some (Some (e, left))" for buf sz e left
    using that
    by (auto simp: ext_journal_api_def parse_journal_descriptor_entry_def Let_def bind_eq_Some_conv split: if_splits)
qed

text \<open>A sequence of entries that share the UUID and of which none is marked as the last one.\<close>

definition open_entries :: "u8 list \<Rightarrow> nat \<Rightarrow> bool" where
  "open_entries buf m \<longleftrightarrow> length buf = 8 * m
     \<and> (\<forall>i < m. \<exists>f. readui32be buf (8 * i + 4) = Some f \<and> f AND JOURNAL_DESC_SAME_UUID \<noteq> 0 \<and> f AND JOURNAL_DESC_LAST_ENTRY = 0)"

lemma readui32be_drop: "readui32be (drop k buf) i = readui32be buf (k + i)"
  by (simp add: readui32be_def byte_at_def ac_simps less_diff_conv)

lemma open_entries_Suc:
  "open_entries buf (Suc m) \<Longrightarrow> open_entries (drop 8 buf) m"
  unfolding open_entries_def readui32be_drop by (auto simp: add.assoc [symmetric] dest!: spec [of _ "Suc _"])

lemma scan_overruns: "open_entries buf m \<Longrightarrow> int (8 * m + 8) \<le> sz \<Longrightarrow> count_entries ext_journal_api buf sz n = None"
proof (induction m arbitrary: buf sz n)
  case 0
  then have "readui32be buf 0 = None"
    by (simp add: open_entries_def readui32be_none)
  then show ?case
    using 0 by (simp add: count_entries.simps ext_journal_api_def parse_journal_descriptor_entry_def)
next
  case (Suc m)
  obtain f where f: "readui32be buf 4 = Some f" "f AND JOURNAL_DESC_SAME_UUID \<noteq> 0" "f AND JOURNAL_DESC_LAST_ENTRY = 0"
    using Suc.prems(1) by (auto simp: open_entries_def dest: spec [of _ 0])
  obtain b where b: "readui32be buf 0 = Some b"
    using Suc.prems entry_parse [of sz buf] by (auto simp: open_entries_def)
  have "count_entries ext_journal_api (drop 8 buf) (sz - 8) (n + 1) = None"
    using Suc.prems open_entries_Suc by (intro Suc.IH) auto
  then show ?case
    using b f Suc.prems(2)
    by (simp add: count_entries.simps [of _ buf] ext_journal_api_def parse_journal_descriptor_entry_def Let_def)
qed


text \<open>A block with one entry.\<close>

definition example_block :: "u8 list" where
  "example_block = [0xc0, 0x3b, 0x39, 0x98, 0, 0, 0, 1, 0, 0, 0, 9, 0, 0, 0, 7, 0, 0, 0, 2]"


end
