(* ===== verification/Blkparse_Fmt.thy ===== *)
theory Blkparse_Fmt
  imports Dump C_Text
begin

text \<open>
  The text of a trace, \<open>blkparse_fmt.c\<close>: the default line of \<open>process_default\<close> and the line of a format that the user
  gives for an action. \<open>Dump\<close> records the calls of \<open>process_fmt\<close>; here is what such a call prints. A call of
  \<open>exit\<close> and an access outside an array are errors; a text that has been printed before is of no interest then.
\<close>

datatype fmt_error = Fmt_exit | Fmt_undefined

definition andthen :: "'e + 'a \<Rightarrow> ('a \<Rightarrow> 'e + 'b) \<Rightarrow> 'e + 'b" where
  "andthen r f = (case r of Inl e \<Rightarrow> Inl e | Inr x \<Rightarrow> f x)"

definition defined :: "('a \<Rightarrow> 'b) \<Rightarrow> 'a option \<Rightarrow> fmt_error + 'b" where
  "defined f x = (case x of None \<Rightarrow> Inl Fmt_undefined | Some y \<Rightarrow> Inr (f y))"

section \<open>Formats of the user\<close>

definition VALID_SPECS :: string where
  "VALID_SPECS = ''ABCDFGIMPQRSTUWX''"

text \<open>\<open>strchr\<close> also finds the NUL that ends the text.\<close>

definition valid_spec :: "char \<Rightarrow> bool" where
  "valid_spec spec \<longleftrightarrow> spec \<in> set VALID_SPECS \<or> spec = CHR 0x00"

definition set_all_format_specs :: "string \<Rightarrow> globals \<Rightarrow> globals" where
  "set_all_format_specs option g =
     g\<lparr>override_format := (\<lambda>c. if c \<in> set VALID_SPECS \<and> override_format g c = None then Some option else override_format g c)\<rparr>"

text \<open>A character of a text with its final NUL; behind that the read is not defined. \<open>optarg\<close> is the global variable of
  \<open>getopt_long\<close>.\<close>

definition char_at :: "string \<Rightarrow> nat \<Rightarrow> char option" where
  "char_at s i = (if i < length s then Some (s ! i) else if i = length s then Some CHR 0x00 else None)"

definition add_format_spec :: "string \<Rightarrow> string \<Rightarrow> globals \<Rightarrow> (nat \<times> globals) option" where
  "add_format_spec optarg option g = do {
     spec \<leftarrow> char_at optarg 0;
     if \<not> valid_spec spec then Some (1, g)
     else do {
       sep \<leftarrow> char_at optarg 1;
       if sep \<noteq> CHR '','' then Some (1, g)
       else Some (0, g\<lparr>override_format := (override_format g)(spec \<mapsto> drop 2 option)\<rparr>) } }"

section \<open>Fields\<close>

definition fill_rwbs :: "blk_io_trace \<Rightarrow> string" where
  "fill_rwbs t =
     (if has_tc (tr_action t) TC_FLUSH then ''F'' else '''') @
     (if has_tc (tr_action t) TC_DISCARD then ''D''
      else if has_tc (tr_action t) TC_WRITE then ''W''
      else if tr_bytes t \<noteq> 0 then ''R'' else ''N'') @
     (if has_tc (tr_action t) TC_FUA then ''F'' else '''') @
     (if has_tc (tr_action t) TC_AHEAD then ''A'' else '''') @
     (if has_tc (tr_action t) TC_SYNC then ''S'' else '''') @
     (if has_tc (tr_action t) TC_META then ''M'' else '''')"

text \<open>\<open>localtime\<close> gives the hours, minutes and seconds of a time.\<close>

definition print_time :: "(int \<Rightarrow> nat \<times> nat \<times> nat) \<Rightarrow> globals \<Rightarrow> u64 \<Rightarrow> string" where
  "print_time localtime g timestamp =
     (let s = sint (of_int (fst (abs_start_time g)) + SECONDS timestamp);
          n = of_int (snd (abs_start_time g)) + NANO_SECONDS timestamp;
          (s, n) = (if n \<ge> 1000000000 then (s + 1, n - 1000000000) else (s, n));
          (h, m, sec) = localtime s
      in pad_zero 2 (show_nat 10 h) @ '':'' @ pad_zero 2 (show_nat 10 m) @ '':'' @ pad_zero 2 (show_nat 10 sec)
           @ ''.'' @ pad_zero 6 (fmt_u (n div 1000)))"

text \<open>The comparison is with an array of 4096 zeros.\<close>

definition pdu_rest_is_zero :: "u8 list \<Rightarrow> bool option" where
  "pdu_rest_is_zero pdu = (if length pdu \<le> 4096 then Some (\<forall>b \<in> set pdu. b = 0) else None)"

definition fmt_02x :: "u8 \<Rightarrow> string" where
  "fmt_02x b = pad_zero 2 (fmt_x b)"

text \<open>The loop over the bytes that are left; all but the first are preceded by a blank.\<close>

fun dump_bytes :: "bool \<Rightarrow> u8 list \<Rightarrow> string option" where
  "dump_bytes first [] = Some ''''"
| "dump_bytes first (b # bs) = do {
     let s = (if first then '''' else '' '') @ fmt_02x b;
     stop \<leftarrow> (if b = 0 then pdu_rest_is_zero (b # bs) else Some False);
     if stop then Some (s @ '' ..'')
     else do { r \<leftarrow> dump_bytes False bs; Some (s @ r) } }"

text \<open>The text is built in an array of 4096 characters; NULL for an empty payload.\<close>

definition dump_pdu :: "u8 list \<Rightarrow> string option option" where
  "dump_pdu pdu =
     (if pdu = [] then Some None
      else do {
        s \<leftarrow> dump_bytes True pdu;
        if length s < 4096 then Some (Some s) else None })"

definition be64_to_cpu :: "u8 list \<Rightarrow> u64" where
  "be64_to_cpu bs = fold (\<lambda>b w. push_bit 8 w OR ucast b) bs 0"

definition get_pdu_int :: "blk_io_trace \<Rightarrow> u32 option" where
  "get_pdu_int t = (if length (tr_pdu t) < 8 then None else Some (ucast (be64_to_cpu (take 8 (tr_pdu t)))))"

definition chars :: "u8 list \<Rightarrow> string" where
  "chars = map (\<lambda>b. char_of (unat b))"

text \<open>The name of the process; the C library prints a null pointer as \<open>(null)\<close>.\<close>

definition process_name :: "globals \<Rightarrow> blk_io_trace \<Rightarrow> string" where
  "process_name g t =
     (case find_process_name g (tr_pid t) of None \<Rightarrow> ''(null)'' | Some comm \<Rightarrow> chars (cstr comm))"

text \<open>What a line needs beside the options: the CPU, the action, the record, the elapsed time and the payload that is passed.\<close>

record fmt_args =
  fa_localtime :: "int \<Rightarrow> nat \<times> nat \<times> nat"
  fa_cpu :: u32
  fa_act :: string
  fa_trace :: blk_io_trace
  fa_elapsed :: u64
  fa_pdu :: "u8 list"

text \<open>A field in a format, with its width and the flag for left adjustment. The conversions whose length does not fit
  the type of the argument print its value.\<close>

definition print_field :: "globals \<Rightarrow> fmt_args \<Rightarrow> char \<Rightarrow> bool \<Rightarrow> nat option \<Rightarrow> fmt_error + string" where
  "print_field g a field left width =
     (let t = fa_trace a;
          fmt = (\<lambda>s. case width of None \<Rightarrow> s | Some w \<Rightarrow> if left then pad_right w s else pad_left w s)
      in if field = CHR ''a'' then Inr (fmt (fa_act a))
         else if field = CHR ''c'' then Inr (fmt (fmt_d (sint (fa_cpu a))))
         else if field = CHR ''C'' then Inr (fmt (process_name g t))
         else if field = CHR ''d'' then Inr (fmt (fill_rwbs t))
         else if field = CHR ''D'' then Inr (pad_left 3 (fmt_u (MAJOR (tr_device t))) @ '','' @ pad_right 3 (fmt_u (MINOR (tr_device t))))
         else if field = CHR ''e'' then Inr (fmt (fmt_u (tr_error t)))
         else if field = CHR ''M'' then Inr (fmt (fmt_u (MAJOR (tr_device t))))
         else if field = CHR ''m'' then Inr (fmt (fmt_u (MINOR (tr_device t))))
         else if field = CHR ''n'' then Inr (fmt (fmt_u (t_sec t)))
         else if field = CHR ''N'' then Inr (fmt (fmt_u (tr_bytes t)))
         else if field = CHR ''p'' then Inr (fmt (fmt_u (tr_pid t)))
         else if field = CHR ''P'' then defined (\<lambda>p. case p of None \<Rightarrow> '''' | Some s \<Rightarrow> s) (dump_pdu (fa_pdu a))
         else if field = CHR ''s'' then Inr (fmt (fmt_u (tr_sequence t)))
         else if field = CHR ''S'' then Inr (fmt (fmt_u (tr_sector t)))
         else if field = CHR ''t'' then
           Inr (pad_zero (case width of None \<Rightarrow> 9 | Some w \<Rightarrow> w) (fmt_u (NANO_SECONDS (tr_time t))))
         else if field = CHR ''T'' then Inr (fmt (fmt_d (sint (ucast (SECONDS (tr_time t)) :: u32))))
         else if field = CHR ''u'' then
           (if fa_elapsed a = - 1 then Inl Fmt_exit else Inr (fmt (fmt_u (fa_elapsed a div 1000))))
         else if field = CHR ''U'' then defined (\<lambda>i. fmt (fmt_u i)) (get_pdu_int t)
         else if field = CHR ''z'' then Inr (fmt (print_time (fa_localtime a) g (tr_time t)))
         else Inr (fmt [field]))"

text \<open>The width is an \<open>int\<close>, whose overflow is not defined.\<close>

definition dec_digit :: "char \<Rightarrow> bool" where
  "dec_digit c \<longleftrightarrow> c \<in> set ''0123456789''"

definition parse_field :: "globals \<Rightarrow> fmt_args \<Rightarrow> string \<Rightarrow> fmt_error + string \<times> string" where
  "parse_field g a p =
     (let left = (p \<noteq> [] \<and> hd p = CHR ''-'');
          p = (if left then tl p else p);
          ds = takeWhile dec_digit p;
          p = dropWhile dec_digit p;
          width = (if ds = [] then None else Some (digits_value 10 ds))
      in if \<exists>w. width = Some w \<and> w \<ge> 2 ^ 31 then Inl Fmt_undefined
         else case p of
                [] \<Rightarrow> Inr ('''', [])
              | c # p \<Rightarrow> andthen (print_field g a c left width) (\<lambda>s. Inr (s, p)))"

lemma parse_field_shorter: "parse_field g a p = Inr (s, p') \<Longrightarrow> length p' \<le> length p"
proof -
  assume r: "parse_field g a p = Inr (s, p')"
  let ?q = "dropWhile dec_digit (if p \<noteq> [] \<and> hd p = CHR ''-'' then tl p else p)"
  have "length p' \<le> length ?q"
    using r by (auto simp: parse_field_def Let_def andthen_def split: if_splits list.splits sum.splits)
  also have "\<dots> \<le> length p"
    by (rule order_trans [OF length_dropWhile_le]) simp
  finally show ?thesis .
qed

section \<open>The default line\<close>

text \<open>A payload in brackets.\<close>

definition pdu_text :: "u8 list \<Rightarrow> fmt_error + string" where
  "pdu_text pdu =
     (case dump_pdu pdu of
        None \<Rightarrow> Inl Fmt_undefined
      | Some None \<Rightarrow> Inr ''''
      | Some (Some s) \<Rightarrow> Inr (''('' @ s @ '') ''))"

definition default_header :: "fmt_args \<Rightarrow> string" where
  "default_header a =
     (let t = fa_trace a
      in pad_left 3 (fmt_u (MAJOR (tr_device t))) @ '','' @ pad_right 3 (fmt_u (MINOR (tr_device t))) @ '' '' @
         pad_left 2 (fmt_d (sint (fa_cpu a))) @ '' '' @ pad_left 8 (fmt_d (sint (tr_sequence t))) @ '' '' @
         pad_left 5 (fmt_d (sint (ucast (SECONDS (tr_time t)) :: u32))) @ ''.'' @ pad_zero 9 (fmt_u (NANO_SECONDS (tr_time t))) @ '' '' @
         pad_left 5 (fmt_u (tr_pid t)) @ '' '' @ pad_left 2 (fa_act a) @ '' '' @ pad_left 3 (fill_rwbs t))"

text \<open>Parts of the lines.\<close>

definition f_extent :: "blk_io_trace \<Rightarrow> string" where
  "f_extent t = fmt_u (tr_sector t) @ '' + '' @ fmt_u (t_sec t)"

definition f_elapsed :: "u64 \<Rightarrow> string" where
  "f_elapsed e = ''('' @ pad_left 8 (fmt_u e) @ '')''"

definition f_error :: "blk_io_trace \<Rightarrow> string" where
  "f_error t = ''['' @ fmt_u (tr_error t) @ '']''"

definition f_vec :: "blk_io_trace \<Rightarrow> string" where
  "f_vec t = ''count:'' @ fmt_u (tr_vec_count t) @ '' seq:'' @ fmt_u (tr_seq t)"

text \<open>The choice between the journal texts when \<open>vec_count\<close> is 0, after what precedes them.\<close>

definition f_journal :: "string \<Rightarrow> string \<Rightarrow> blk_io_trace \<Rightarrow> string" where
  "f_journal pre gap t =
     (if ucast (tr_vec_count t) = MAX_VEC + 1
      then pre @ '' '' @ f_error t @ '' seq:'' @ fmt_u (tr_seq t) @ '' error:descriptor_item_number_is_zero\<newline>''
      else if ucast (tr_vec_count t) \<ge> 2 * MAX_VEC
      then pre @ gap @ f_error t @ '' journal_block_type:'' @ fmt_d (uint (tr_vec_count t) div uint MAX_VEC - 2)
             @ '' seq:'' @ fmt_u (tr_seq t) @ '' \<newline>''
      else pre @ gap @ f_error t @ '' '' @ f_vec t @ '' \<newline>'')"

definition default_complete :: "blk_io_trace \<Rightarrow> u64 \<Rightarrow> string" where
  "default_complete t elapsed =
     (if elapsed \<noteq> - 1 then
        (if t_sec t \<noteq> 0 then
           (if tr_vec_count t = 0 then f_journal (f_extent t @ '' '' @ f_elapsed elapsed) '' '' t
            else f_extent t @ '' '' @ f_elapsed elapsed @ '' '' @ f_error t @ '' 1'' @ f_vec t @ '' '' @ ''\<newline>'')
         else fmt_u (tr_sector t) @ '' '' @ f_elapsed elapsed @ '' '' @ f_error t @ '' \<newline>'')
      else
        (if t_sec t \<noteq> 0 then
           (if tr_vec_count t = 0 then f_journal (f_extent t) ''  '' t
            else f_extent t @ '' '' @ f_error t @ '' 2'' @ f_vec t @ '' '' @ ''\<newline>'')
         else
           (if tr_vec_count t = 0 then f_journal (fmt_u (tr_sector t)) '' '' t
            else fmt_u (tr_sector t) @ ''  3'' @ f_vec t @ '' '' @ ''\<newline>'')
           @ fmt_u (tr_sector t) @ '' '' @ f_error t @ ''\<newline>''))"

definition default_queue :: "blk_io_trace \<Rightarrow> u64 \<Rightarrow> string \<Rightarrow> string" where
  "default_queue t elapsed name =
     (if elapsed \<noteq> - 1 then
        (if t_sec t \<noteq> 0 then f_extent t @ '' '' @ f_elapsed elapsed @ '' ['' @ name @ ''] '' @ f_vec t @ ''\<newline>''
         else f_elapsed elapsed @ '' ['' @ name @ ''] '' @ f_vec t @ ''\<newline>'')
      else
        (if t_sec t \<noteq> 0 then f_extent t @ '' ['' @ name @ ''] '' @ f_vec t @ ''\<newline>''
         else ''['' @ name @ '']\<newline>''))"

text \<open>The device of a remap is replaced before the header is printed.\<close>

definition process_default :: "globals \<Rightarrow> fmt_args \<Rightarrow> fmt_error + string" where
  "process_default g a =
     (case process_fmt_record (fa_act a) (fa_trace a) (g\<lparr>override_format := (\<lambda>_. None)\<rparr>) of
        None \<Rightarrow> Inl Fmt_undefined
      | Some t \<Rightarrow>
          let a = a\<lparr>fa_trace := t\<rparr>; name = process_name g t; c = hd (fa_act a); head = (\<lambda>s. Inr (default_header a @ s))
          in if c \<in> {CHR ''R'', CHR ''C''} then
               (if has_tc (tr_action t) TC_PC then andthen (pdu_text (fa_pdu a)) (\<lambda>s. head (s @ f_error t @ ''\<newline>''))
                else head (default_complete t (fa_elapsed a)))
             else if c \<in> {CHR ''D'', CHR ''I'', CHR ''Q'', CHR ''B''} then
               (if has_tc (tr_action t) TC_PC
                then andthen (pdu_text (fa_pdu a)) (\<lambda>s. head (fmt_u (tr_bytes t) @ '' '' @ s @ ''['' @ name @ '']\<newline>''))
                else head (default_queue t (fa_elapsed a) name))
             else if c \<in> {CHR ''M'', CHR ''F'', CHR ''G'', CHR ''S''} then
               head ((if t_sec t \<noteq> 0 then f_extent t @ '' '' else '''') @ ''['' @ name @ '']\<newline>'')
             else if c = CHR ''P'' then head (''['' @ name @ '']\<newline>'')
             else if c \<in> {CHR ''U'', CHR ''T''} then
               andthen (defined id (get_pdu_int t)) (\<lambda>i. head (''['' @ name @ ''] '' @ fmt_u i @ ''\<newline>''))
             else if c = CHR ''A'' then
               andthen (defined id (get_pdu_remap t)) (\<lambda>r.
                 head (f_extent t @ '' <- ('' @ fmt_u (MAJOR (r_device_from r)) @ '','' @ fmt_u (MINOR (r_device_from r))
                    @ '') '' @ fmt_u (r_sector_from r) @ '' '' @ f_vec t @ ''\<newline>''))
             else if c = CHR ''X'' then
               andthen (defined id (get_pdu_int t)) (\<lambda>i. head (fmt_u (tr_sector t) @ '' / '' @ fmt_u i @ '' ['' @ name @ '']\<newline>''))
             else if c = CHR ''m'' then
               (if 0 \<in> set (fa_pdu a) then head (pad_left (length (fa_pdu a)) (chars (cstr (fa_pdu a))) @ ''\<newline>'')
                else Inl Fmt_undefined)
             else head '''')"

section \<open>A line\<close>

definition escape_char :: "char \<Rightarrow> char option" where
  "escape_char c =
     (if c = CHR ''b'' then Some CHR 0x08 else if c = CHR ''n'' then Some CHR 0x0A
      else if c = CHR ''r'' then Some CHR 0x0D else if c = CHR ''t'' then Some CHR 0x09 else None)"

function format_text :: "globals \<Rightarrow> fmt_args \<Rightarrow> string \<Rightarrow> fmt_error + string" where
  "format_text g a [] = Inr ''''"
| "format_text g a (c # p) =
     (if c = CHR ''%'' then
        (case p of
           [] \<Rightarrow> Inr ''%''
         | d # p' \<Rightarrow>
             if d = CHR ''%'' then andthen (format_text g a p') (\<lambda>s. Inr (''%'' @ s))
             else case parse_field g a p of
                    Inl e \<Rightarrow> Inl e
                  | Inr (f, q) \<Rightarrow> andthen (format_text g a q) (\<lambda>s. Inr (f @ s)))
      else if c = CHR 0x5C then
        (case p of
           [] \<Rightarrow> Inl Fmt_exit
         | d # p' \<Rightarrow>
             (case escape_char d of
                None \<Rightarrow> Inl Fmt_exit
              | Some e \<Rightarrow> andthen (format_text g a p') (\<lambda>s. Inr (e # s))))
      else andthen (format_text g a p) (\<lambda>s. Inr (c # s)))"
  by pat_completeness auto
termination
  by (relation "measure (\<lambda>(_, _, p). length p)") (auto dest!: parse_field_shorter)

definition process_fmt_text :: "globals \<Rightarrow> fmt_args \<Rightarrow> fmt_error + string" where
  "process_fmt_text g a =
     (case override_format g (hd (fa_act a)) of
        None \<Rightarrow> process_default g a
      | Some p \<Rightarrow> format_text g a p)"

section \<open>The text of a payload\<close>

definition fmt_bytes :: "bool \<Rightarrow> u8 list \<Rightarrow> string" where
  "fmt_bytes first bs = (if first then tl else id) (concat (map (\<lambda>b. '' '' @ fmt_02x b) bs))"

text \<open>The number of bytes before the zeros at the end.\<close>

definition significant :: "u8 list \<Rightarrow> nat" where
  "significant pdu = length (dropWhile (\<lambda>b. b = 0) (rev pdu))"

definition pdu_summary :: "bool \<Rightarrow> u8 list \<Rightarrow> string" where
  "pdu_summary first pdu =
     (if significant pdu = length pdu then fmt_bytes first pdu
      else fmt_bytes first (take (Suc (significant pdu)) pdu) @ '' ..'')"

lemma fmt_bytes_Nil [simp]: "fmt_bytes first [] = ''''"
  by (simp add: fmt_bytes_def)

lemma fmt_bytes_Cons [simp]: "fmt_bytes first (b # bs) = (if first then '''' else '' '') @ fmt_02x b @ fmt_bytes False bs"
  by (simp add: fmt_bytes_def)

lemma significant_Nil [simp]: "significant [] = 0"
  by (simp add: significant_def)

lemma significant_zeros: "\<forall>b \<in> set pdu. b = 0 \<Longrightarrow> significant pdu = 0"
  by (simp add: significant_def dropWhile_eq_Nil_conv)

lemma significant_Cons: "\<exists>x \<in> set (b # bs). x \<noteq> 0 \<Longrightarrow> significant (b # bs) = Suc (significant bs)"
  by (auto simp: significant_def dropWhile_append dropWhile_eq_Nil_conv)

lemma significant_le: "significant pdu \<le> length pdu"
  unfolding significant_def by (rule order_trans [OF length_dropWhile_le]) simp

lemma significant_last: "pdu \<noteq> [] \<Longrightarrow> last pdu \<noteq> 0 \<Longrightarrow> significant pdu = length pdu"
  by (cases pdu rule: rev_cases) (auto simp: significant_def)

lemma dump_bytes_summary:
  "dump_bytes first pdu = None \<and> length pdu > 4096 \<or> dump_bytes first pdu = Some (pdu_summary first pdu)"
proof (induction pdu arbitrary: first)
  case Nil
  then show ?case
    by (simp add: pdu_summary_def)
next
  case (Cons b bs)
  show ?case
  proof (cases "\<forall>x \<in> set (b # bs). x = 0")
    case True
    then show ?thesis
      using significant_zeros [of "b # bs"] by (simp add: pdu_summary_def pdu_rest_is_zero_def)
  next
    case False
    then have k: "significant (b # bs) = Suc (significant bs)"
      using significant_Cons by blast
    have "pdu_summary first (b # bs) = (if first then '''' else '' '') @ fmt_02x b @ pdu_summary False bs"
      by (simp add: pdu_summary_def k)
    then show ?thesis
      using False Cons.IH [of False] by (auto simp: pdu_rest_is_zero_def Let_def)
  qed
qed

lemma length_fmt_02x [simp]: "length (fmt_02x b) = 2"
proof -
  have "unat b < 256"
    using unsigned_less [of b] by simp
  then have "length (nat_digits 16 (unat b)) = (if unat b < 16 then 1 else 2)"
    by (subst nat_digits.simps, subst nat_digits.simps) (simp add: less_mult_imp_div_less)
  then show ?thesis
    by (simp add: fmt_02x_def pad_zero_def fmt_x_def show_nat_def)
qed

lemma length_fmt_bytes: "length (fmt_bytes first bs) = 3 * length bs - (if first \<and> bs \<noteq> [] then 1 else 0)"
  by (induction bs arbitrary: first) (auto split: if_splits)

lemma length_pdu_summary: "length (pdu_summary True pdu) \<le> 3 * length pdu + 2"
  by (auto simp: pdu_summary_def length_fmt_bytes)

lemma dump_pdu_text:
  assumes "pdu \<noteq> []" "length pdu \<le> 1364"
  shows "dump_pdu pdu = Some (Some (pdu_summary True pdu))"
  using assms dump_bytes_summary [of True pdu] length_pdu_summary [of pdu] by (auto simp: dump_pdu_def)

section \<open>The options for the formats\<close>

text \<open>\<open>-f\<close> and \<open>-F\<close> in the order of the command line; \<open>None\<close> when the program gives up.\<close>

datatype fmt_option = Opt_f string | Opt_F string

fun parse_formats :: "fmt_option list \<Rightarrow> globals \<Rightarrow> globals option" where
  "parse_formats [] g = Some g"
| "parse_formats (Opt_f s # os) g = parse_formats os (set_all_format_specs s g)"
| "parse_formats (Opt_F s # os) g =
     (case add_format_spec s s g of Some (0, g) \<Rightarrow> parse_formats os g | _ \<Rightarrow> None)"

text \<open>The format that the options give an action: the last one for it alone, or else the first one for all of them.\<close>

fun own_formats :: "char \<Rightarrow> fmt_option list \<Rightarrow> string list" where
  "own_formats c [] = []"
| "own_formats c (Opt_F s # os) = (if s \<noteq> [] \<and> hd s = c then s # own_formats c os else own_formats c os)"
| "own_formats c (Opt_f s # os) = own_formats c os"

fun common_formats :: "fmt_option list \<Rightarrow> string list" where
  "common_formats [] = []"
| "common_formats (Opt_f s # os) = s # common_formats os"
| "common_formats (Opt_F s # os) = common_formats os"

definition chosen_format :: "char \<Rightarrow> fmt_option list \<Rightarrow> string option" where
  "chosen_format c os =
     (if own_formats c os \<noteq> [] then Some (drop 2 (last (own_formats c os)))
      else if common_formats os \<noteq> [] then Some (hd (common_formats os)) else None)"

lemma add_format_spec_ok:
  "add_format_spec s s g = Some (0, g') \<Longrightarrow>
     (\<exists>c p. s = c # CHR '','' # p \<and> valid_spec c \<and> g' = g\<lparr>override_format := (override_format g)(c \<mapsto> p)\<rparr>)"
  by (cases s; cases "tl s") (auto simp: add_format_spec_def char_at_def split: if_splits)

lemma parse_formats_chosen:
  assumes "parse_formats os g = Some g'" "c \<in> set VALID_SPECS"
  shows "override_format g' c =
    (if own_formats c os = [] \<and> override_format g c \<noteq> None then override_format g c else chosen_format c os)"
  using assms
proof (induction os g rule: parse_formats.induct)
  case (2 s os g)
  then show ?case
    by (auto simp: set_all_format_specs_def chosen_format_def)
next
  case (3 s os g)
  then obtain g1 where g1: "add_format_spec s s g = Some (0, g1)" "parse_formats os g1 = Some g'"
    by (auto split: option.splits nat.splits)
  then show ?case
    using 3 add_format_spec_ok [OF g1(1)] by (auto simp: chosen_format_def)
qed (simp add: chosen_format_def)

section \<open>Properties\<close>

text \<open>C40: \<open>dump_pdu\<close> writes all the bytes of a payload that does not end in zeros if there are at most 1365 of them;
  a longer one is written past the end of the array of 4096 characters.\<close>

theorem dump_pdu_limit:
  assumes "pdu \<noteq> []" "last pdu \<noteq> 0"
  shows "dump_pdu pdu = (if length pdu \<le> 1365 then Some (Some (fmt_bytes True pdu)) else None)"
  using assms dump_bytes_summary [of True pdu] by (auto simp: dump_pdu_def pdu_summary_def significant_last length_fmt_bytes)

theorem dump_pdu_limit_witness:
  "dump_pdu [0x12, 0, 0xff] = Some (Some ''12 00 ff'') \<and> dump_pdu (replicate 1366 1) = None"
proof -
  have "dump_pdu [0x12, 0, 0xff] = Some (Some (fmt_bytes True [0x12, 0, 0xff]))"
    using dump_pdu_limit [of "[0x12, 0, 0xff]"] by simp
  moreover have "fmt_bytes True [0x12, 0, 0xff] = ''12 00 ff''"
    by code_simp
  moreover have "dump_pdu (replicate 1366 1) = None"
    using dump_pdu_limit [of "replicate 1366 1"] by (simp del: replicate.simps)
  ultimately show ?thesis
    by simp
qed

lemma nat_sint: "0 \<le> sint w \<Longrightarrow> nat (sint w) = unat w" for w :: u32
proof -
  assume "0 \<le> sint w"
  moreover have "sint w < 2 ^ 31"
    using sint_lt [of w] by simp
  ultimately have "uint w = sint w"
    by (simp add: uint_sint take_bit_int_eq_self)
  then show "nat (sint w) = unat w"
    by (simp flip: nat_uint_eq)
qed

definition HEADER :: string where
  "HEADER = ''%D %2c %8s %5T.%9t %5p %2a %3d ''"

text \<open>The format that the source names \<open>HEADER\<close> prints what the default line starts with, and a blank.\<close>

theorem header_format:
  assumes "0 \<le> sint (tr_sequence (fa_trace a))"
  shows "format_text g a HEADER = Inr (default_header a @ '' '')"
proof -
  have "fmt_d (sint (tr_sequence (fa_trace a))) = fmt_u (tr_sequence (fa_trace a))"
    using assms by (simp add: fmt_d_def fmt_u_def nat_sint)
  then show ?thesis
    by (simp add: HEADER_def default_header_def parse_field_def dec_digit_def digits_value_def digit_val_def print_field_def
        andthen_def Let_def)
qed

text \<open>Whatever the order of the options, an action has the format of the last option for it alone, or else
  that of the first option for all actions, or else the default line.\<close>

theorem format_options:
  assumes "parse_formats os g = Some g'" "c \<in> set VALID_SPECS" "override_format g c = None"
  shows "override_format g' c = chosen_format c os"
  using parse_formats_chosen [OF assms(1,2)] assms(3) by simp

theorem format_options_witness:
  "map_option (\<lambda>g. override_format g CHR ''C'')
     (parse_formats [Opt_F ''C,%a'', Opt_f ''%D'', Opt_F ''C,%S''] (init_globals (\<lambda>_. zero_iot))) = Some (Some ''%S'')
   \<and> map_option (\<lambda>g. override_format g CHR ''Q'')
     (parse_formats [Opt_F ''C,%a'', Opt_f ''%D'', Opt_F ''C,%S''] (init_globals (\<lambda>_. zero_iot))) = Some (Some ''%D'')"
proof -
  let ?os = "[Opt_F ''C,%a'', Opt_f ''%D'', Opt_F ''C,%S'']" and ?g = "init_globals (\<lambda>_. zero_iot)"
  have valid: "CHR ''C'' \<in> set VALID_SPECS" "CHR ''Q'' \<in> set VALID_SPECS"
    by (simp_all add: VALID_SPECS_def)
  have none: "override_format ?g c = None" for c
    by (simp add: init_globals_def)
  obtain g' where g': "parse_formats ?os ?g = Some g'"
    using valid by (simp add: add_format_spec_def char_at_def valid_spec_def)
  have "chosen_format CHR ''C'' ?os = Some ''%S''" "chosen_format CHR ''Q'' ?os = Some ''%D''"
    by code_simp+
  then show ?thesis
    using format_options [OF g' valid(1) none] format_options [OF g' valid(2) none] g' by simp
qed

text \<open>A write request of one sector.\<close>

definition example_args :: fmt_args where
  "example_args = \<lparr>fa_localtime = (\<lambda>_. (0, 0, 0)), fa_cpu = 3, fa_act = ''Q'',
     fa_trace = zero_trace\<lparr>tr_device := 0x800001, tr_sequence := 7, tr_time := 5000000042, tr_pid := 99, tr_action := 0x20001, tr_bytes := 512\<rparr>,
     fa_elapsed = - 1, fa_pdu = []\<rparr>"

theorem header_format_witness:
  "format_text (init_globals (\<lambda>_. zero_iot)) example_args HEADER = Inr ''  8,1    3        7     5.000000042    99  Q   W ''"
proof -
  have "default_header example_args = ''  8,1    3        7     5.000000042    99  Q   W''"
    by code_simp
  moreover have "0 \<le> sint (tr_sequence (fa_trace example_args))"
    by (simp add: example_args_def)
  ultimately show ?thesis
    using header_format [of example_args] by simp
qed

end
