(* ===== verification/Kernel_Print.thy ===== *)
theory Kernel_Print
  imports Kernel_Machine Blkparse_Fmt
begin

text \<open>
  How the kernel prints its events, the end of \<open>blktrace.c\<close>: the lines of the ftrace tracer, the records for its binary
  output, and the texts for the other block tracepoints. The buffer \<open>trace_seq\<close> belongs to ftrace: \<open>put s x\<close> is what
  adding the text \<open>x\<close> to the contents \<open>s\<close> leaves, or \<open>None\<close> where \<open>trace_seq_printf\<close> returns 0. The functions return
  \<open>None\<close> for 0 as well, because the line is then printed again.
\<close>

type_synonym seq_put = "string \<Rightarrow> string \<Rightarrow> string option"

section \<open>The entry\<close>

text \<open>\<open>fill_rwbs\<close> of the kernel.\<close>

definition fill_rwbs_k :: "blk_io_trace \<Rightarrow> string" where
  "fill_rwbs_k t =
     (let tc = drop_bit BLK_TC_SHIFT (tr_action t)
      in if tr_action t = BLK_TN TN_MESSAGE then ''N''
         else (if tc AND BLK_TC TC_FLUSH \<noteq> 0 then ''F'' else '''') @
              (if tc AND BLK_TC TC_DISCARD \<noteq> 0 then ''D''
               else if tc AND BLK_TC TC_WRITE \<noteq> 0 then ''W''
               else if tr_bytes t \<noteq> 0 then ''R'' else ''N'') @
              (if tc AND BLK_TC TC_FUA \<noteq> 0 then ''F'' else '''') @
              (if tc AND BLK_TC TC_AHEAD \<noteq> 0 then ''A'' else '''') @
              (if tc AND BLK_TC TC_SYNC \<noteq> 0 then ''S'' else '''') @
              (if tc AND BLK_TC TC_META \<noteq> 0 then ''M'' else ''''))"

text \<open>A payload that is too short is read past its end.\<close>

definition get_pdu_int_k :: "blk_io_trace \<Rightarrow> u64 option" where
  "get_pdu_int_k t = (if length (tr_pdu t) < 8 then None else Some (be64_to_cpu (take 8 (tr_pdu t))))"

section \<open>Lines\<close>

text \<open>What a line takes from the iterator of ftrace: the time, the CPU, the process with its name, the flag for the long
  names of the actions and the entry.\<close>

record trace_iterator =
  it_ts :: u64
  it_cpu :: u32
  it_pid :: u32
  it_cmd :: string
  it_verbose :: bool
  it_ent :: blk_io_trace

definition blk_log_action_classic :: "seq_put \<Rightarrow> trace_iterator \<Rightarrow> string \<Rightarrow> string \<Rightarrow> string option" where
  "blk_log_action_classic put i act s =
     (let t = it_ent i; nsec_rem = it_ts i mod 1000000000; secs = ucast (it_ts i div 1000000000) :: u32
      in put s (pad_left 3 (fmt_u (MAJOR (tr_device t))) @ '','' @ pad_right 3 (fmt_u (MINOR (tr_device t))) @ '' '' @
           pad_left 2 (fmt_d (sint (it_cpu i))) @ '' '' @ pad_left 5 (fmt_d (sint secs)) @ ''.'' @ pad_zero 9 (fmt_u nsec_rem) @ '' '' @
           pad_left 5 (fmt_u (it_pid i)) @ ''-- '' @ pad_left 2 act @ ''-'' @ pad_left 3 (fill_rwbs_k t) @ ''  ''))"

definition blk_log_action :: "seq_put \<Rightarrow> trace_iterator \<Rightarrow> string \<Rightarrow> string \<Rightarrow> string option" where
  "blk_log_action put i act s =
     (let t = it_ent i
      in put s (pad_left 3 (fmt_u (MAJOR (tr_device t))) @ '','' @ pad_right 3 (fmt_u (MINOR (tr_device t))) @ '' '' @
           pad_left 2 act @ '' '' @ pad_left 3 (fill_rwbs_k t) @ '' ''))"

text \<open>The index behind the last byte that is not zero.\<close>

fun find_end :: "u8 list \<Rightarrow> nat \<Rightarrow> nat" where
  "find_end pdu 0 = 0"
| "find_end pdu (Suc e) = (if pdu ! e \<noteq> 0 then Suc e else find_end pdu e)"

text \<open>The loop of \<open>blk_log_dump_pdu\<close> from index \<open>i\<close> on.\<close>

fun log_dump_loop :: "seq_put \<Rightarrow> nat \<Rightarrow> nat \<Rightarrow> nat \<Rightarrow> u8 list \<Rightarrow> string \<Rightarrow> string option" where
  "log_dump_loop put end' len i [] s = put s '') ''"
| "log_dump_loop put end' len i (b # bs) s = do {
     s \<leftarrow> put s ((if i = 0 then '''' else '' '') @ fmt_02x b);
     if i = end' \<and> int end' \<noteq> int len - 1 then put s '' ..) ''
     else log_dump_loop put end' len (Suc i) bs s }"

definition blk_log_dump_pdu :: "seq_put \<Rightarrow> blk_io_trace \<Rightarrow> string \<Rightarrow> string option" where
  "blk_log_dump_pdu put t s =
     (if tr_pdu t = [] then Some s
      else do {
        s \<leftarrow> put s ''('';
        log_dump_loop put (find_end (tr_pdu t) (length (tr_pdu t))) (length (tr_pdu t)) 0 (tr_pdu t) s })"

definition blk_log_generic :: "seq_put \<Rightarrow> trace_iterator \<Rightarrow> string \<Rightarrow> string option" where
  "blk_log_generic put i s =
     (let t = it_ent i
      in if has_tc (tr_action t) TC_PC then do {
           s \<leftarrow> put s (fmt_u (tr_bytes t) @ '' '');
           s \<leftarrow> blk_log_dump_pdu put t s;
           put s (''['' @ it_cmd i @ '']\<newline>'') }
         else if t_sec t \<noteq> 0
         then put s (fmt_u (tr_sector t) @ '' + '' @ fmt_u (t_sec t) @ '' ['' @ it_cmd i @ '']\<newline>'')
         else put s (''['' @ it_cmd i @ '']\<newline>''))"

definition blk_log_with_error :: "seq_put \<Rightarrow> trace_iterator \<Rightarrow> string \<Rightarrow> string option" where
  "blk_log_with_error put i s =
     (let t = it_ent i
      in if has_tc (tr_action t) TC_PC then do {
           s \<leftarrow> blk_log_dump_pdu put t s;
           put s (''['' @ fmt_u (tr_error t) @ '']\<newline>'') }
         else if t_sec t \<noteq> 0
         then put s (fmt_u (tr_sector t) @ '' + '' @ fmt_u (t_sec t) @ '' ['' @ fmt_u (tr_error t) @ '']\<newline>'')
         else put s (fmt_u (tr_sector t) @ '' ['' @ fmt_u (tr_error t) @ '']\<newline>''))"

definition blk_log_remap :: "seq_put \<Rightarrow> trace_iterator \<Rightarrow> string \<Rightarrow> string option" where
  "blk_log_remap put i s = do {
     r \<leftarrow> get_pdu_remap (it_ent i);
     put s (fmt_u (tr_sector (it_ent i)) @ '' + '' @ fmt_u (t_sec (it_ent i)) @ '' <- ('' @ fmt_u (MAJOR (r_device_from r)) @ '',''
       @ fmt_u (MINOR (r_device_from r)) @ '') '' @ fmt_u (r_sector_from r) @ ''\<newline>'') }"

definition blk_log_plug :: "seq_put \<Rightarrow> trace_iterator \<Rightarrow> string \<Rightarrow> string option" where
  "blk_log_plug put i s = put s (''['' @ it_cmd i @ '']\<newline>'')"

definition blk_log_unplug :: "seq_put \<Rightarrow> trace_iterator \<Rightarrow> string \<Rightarrow> string option" where
  "blk_log_unplug put i s = do {
     n \<leftarrow> get_pdu_int_k (it_ent i);
     put s (''['' @ it_cmd i @ ''] '' @ fmt_u n @ ''\<newline>'') }"

definition blk_log_split :: "seq_put \<Rightarrow> trace_iterator \<Rightarrow> string \<Rightarrow> string option" where
  "blk_log_split put i s = do {
     n \<leftarrow> get_pdu_int_k (it_ent i);
     put s (fmt_u (tr_sector (it_ent i)) @ '' / '' @ fmt_u n @ '' ['' @ it_cmd i @ '']\<newline>'') }"

definition blk_log_msg :: "seq_put \<Rightarrow> trace_iterator \<Rightarrow> string \<Rightarrow> string option" where
  "blk_log_msg put i s = do {
     s \<leftarrow> put s (chars (tr_pdu (it_ent i)));
     put s ''\<newline>'' }"

text \<open>The table \<open>what2act\<close>: the two names of an action and how the rest of its line is printed.\<close>

definition what2act :: "(blk_ta \<times> (string \<times> string) \<times> (seq_put \<Rightarrow> trace_iterator \<Rightarrow> string \<Rightarrow> string option)) list" where
  "what2act =
     [(TA_QUEUE, (''Q'', ''queue''), blk_log_generic),
      (TA_BACKMERGE, (''M'', ''backmerge''), blk_log_generic),
      (TA_FRONTMERGE, (''F'', ''frontmerge''), blk_log_generic),
      (TA_GETRQ, (''G'', ''getrq''), blk_log_generic),
      (TA_SLEEPRQ, (''S'', ''sleeprq''), blk_log_generic),
      (TA_REQUEUE, (''R'', ''requeue''), blk_log_with_error),
      (TA_ISSUE, (''D'', ''issue''), blk_log_generic),
      (TA_COMPLETE, (''C'', ''complete''), blk_log_with_error),
      (TA_PLUG, (''P'', ''plug''), blk_log_plug),
      (TA_UNPLUG_IO, (''U'', ''unplug_io''), blk_log_unplug),
      (TA_UNPLUG_TIMER, (''UT'', ''unplug_timer''), blk_log_unplug),
      (TA_INSERT, (''I'', ''insert''), blk_log_generic),
      (TA_SPLIT, (''X'', ''split''), blk_log_split),
      (TA_BOUNCE, (''B'', ''bounce''), blk_log_generic),
      (TA_REMAP, (''A'', ''remap''), blk_log_remap)]"

text \<open>The entries have the indices of their actions, which are those from 1 to the length of the table.\<close>

definition print_one_line :: "seq_put \<Rightarrow> trace_iterator \<Rightarrow> bool \<Rightarrow> string \<Rightarrow> string option" where
  "print_one_line put i classic s =
     (let t = it_ent i;
          what = tr_action t AND 0xffff;
          log_action = (if classic then blk_log_action_classic else blk_log_action)
      in if tr_action t = BLK_TN TN_MESSAGE then do {
           s \<leftarrow> log_action put i (if it_verbose i then ''message'' else ''m'') s;
           blk_log_msg put i s }
         else case find (\<lambda>(a, _). ta_code a = what) what2act of
           None \<Rightarrow> put s (''Unknown action '' @ fmt_x what @ ''\<newline>'')
         | Some (a, names, print) \<Rightarrow> do {
             s \<leftarrow> log_action put i (if it_verbose i then snd names else fst names) s;
             print put i s })"

section \<open>Binary output\<close>

text \<open>A record as older versions wrote it: the fields before \<open>sector\<close> are new, with 0 for the sequence number.\<close>

definition blk_trace_synthesize_old_trace :: "trace_iterator \<Rightarrow> blk_io_trace" where
  "blk_trace_synthesize_old_trace i =
     (it_ent i)\<lparr>tr_magic := BLK_IO_TRACE_MAGIC OR BLK_IO_TRACE_VERSION, tr_sequence := 0, tr_time := it_ts i\<rparr>"

section \<open>Texts for other tracepoints\<close>

text \<open>The loop of \<open>blk_dump_cmd\<close> over the command of a request.\<close>

fun dump_cmd_loop :: "nat \<Rightarrow> nat \<Rightarrow> nat \<Rightarrow> u8 list \<Rightarrow> string" where
  "dump_cmd_loop end' len i [] = ''''"
| "dump_cmd_loop end' len i (b # bs) =
     (if i = 0 then '''' else '' '') @ fmt_02x b @
     (if i = end' \<and> int end' \<noteq> int len - 1 then '' ..'' else dump_cmd_loop end' len (Suc i) bs)"

definition blk_dump_cmd :: "request \<Rightarrow> string" where
  "blk_dump_cmd rq =
     (if \<not> rq_pc rq then ''''
      else dump_cmd_loop (find_end (rq_cmd rq) (length (rq_cmd rq))) (length (rq_cmd rq)) 0 (rq_cmd rq))"

text \<open>\<open>secure\<close> is the bit of \<open>REQ_SECURE\<close>, which no category stands for.\<close>

definition blk_fill_rwbs :: "(req_flag \<Rightarrow> nat) \<Rightarrow> nat \<Rightarrow> u32 \<Rightarrow> u32 \<Rightarrow> string" where
  "blk_fill_rwbs req secure rw bytes =
     (let flag = (\<lambda>f. rw AND push_bit (req f) 1 \<noteq> 0)
      in (if flag REQ_FLUSH then ''F'' else '''') @
         (if rw AND 1 \<noteq> 0 then ''W'' else if flag REQ_DISCARD then ''D'' else if bytes \<noteq> 0 then ''R'' else ''N'') @
         (if flag REQ_FUA then ''F'' else '''') @
         (if flag REQ_RAHEAD then ''A'' else '''') @
         (if flag REQ_SYNC then ''S'' else '''') @
         (if flag REQ_META then ''M'' else '''') @
         (if rw AND push_bit secure 1 \<noteq> 0 then ''E'' else ''''))"

text \<open>The number of records that were dropped, in a buffer of 16 characters.\<close>

definition blk_dropped_read :: "blk_trace \<Rightarrow> string" where
  "blk_dropped_read bt = take 15 (fmt_u (bt_dropped bt) @ ''\<newline>'')"

section \<open>Flags\<close>

lemma tc_of_action: "drop_bit BLK_TC_SHIFT a AND BLK_TC c \<noteq> 0 \<longleftrightarrow> has_tc a c"
proof -
  have "drop_bit BLK_TC_SHIFT a AND push_bit (tc_bit c) 1 \<noteq> 0 \<longleftrightarrow> bit (drop_bit BLK_TC_SHIFT a) (tc_bit c)"
    using tc_bit_le [of c] by (intro and_push_bit_1) simp
  then show ?thesis
    by (simp add: BLK_TC_push has_tc_bit bit_drop_bit_eq BLK_TC_SHIFT_def)
qed

lemma fill_rwbs_k_eq: "tr_action t \<noteq> BLK_TN TN_MESSAGE \<Longrightarrow> fill_rwbs_k t = fill_rwbs t"
  unfolding fill_rwbs_k_def fill_rwbs_def Let_def tc_of_action by (simp only: if_False)

lemma event_flag:
  assumes "req_ok req" "\<not> has_tc what c" "c \<notin> {TC_READ, TC_WRITE}" "req_tc f = tc_bit c"
  shows "has_tc (event_action req rw what) c \<longleftrightarrow> bit rw (req f)"
proof -
  have "req_tc f' = tc_bit c \<longleftrightarrow> f' = f" for f'
    unfolding assms(4) [symmetric] by (cases f; cases f') simp_all
  then have "(\<exists>f'. 16 + tc_bit c = 16 + req_tc f' \<and> bit rw (req f')) \<longleftrightarrow> bit rw (req f)"
    by (metis add_left_cancel)
  moreover have "16 + tc_bit c \<noteq> (if even rw then 16 else 17)"
    using assms(3) by (cases c) simp_all
  moreover have "\<not> bit what (16 + tc_bit c)" "16 + tc_bit c < 32"
    using assms(2) tc_bit_le [of c] by (simp_all add: has_tc_bit)
  ultimately show ?thesis
    using event_action_bit [OF assms(1), of "16 + tc_bit c" rw what] unfolding has_tc_bit by blast
qed

lemma event_write:
  assumes "req_ok req" "\<not> has_tc what TC_WRITE"
  shows "has_tc (event_action req rw what) TC_WRITE \<longleftrightarrow> odd rw"
proof -
  have "req_tc f \<noteq> 1" for f
    by (cases f) simp_all
  then show ?thesis
    using assms by (auto simp: has_tc_bit event_action_bit)
qed

section \<open>Payloads and commands\<close>

lemma find_end_append: "find_end (bs @ cs) (length bs) = find_end bs (length bs)"
proof -
  have "k \<le> length bs \<Longrightarrow> find_end (bs @ cs) k = find_end bs k" for k
    by (induction k) (auto simp: nth_append)
  then show ?thesis
    by simp
qed

lemma find_end_significant: "find_end pdu (length pdu) = significant pdu"
proof (induction pdu rule: rev_induct)
  case (snoc b bs)
  then show ?case
    using find_end_append [of bs "[b]"] by (cases "b = 0") (simp_all add: significant_def)
qed simp

lemma dump_cmd_loop_text:
  "i \<le> end' \<Longrightarrow> end' < i + length bs \<Longrightarrow> int end' \<noteq> int len - 1 \<Longrightarrow>
     dump_cmd_loop end' len i bs = fmt_bytes (i = 0) (take (Suc (end' - i)) bs) @ '' ..''"
proof (induction bs arbitrary: i)
  case (Cons b bs)
  show ?case
  proof (cases "i = end'")
    case False
    then have "Suc (end' - i) = Suc (Suc (end' - Suc i))"
      using Cons.prems(1) by simp
    then show ?thesis
      using Cons.IH [of "Suc i"] Cons.prems False by simp
  qed (use Cons.prems in simp)
qed simp

lemma dump_cmd_loop_all:
  "end' \<ge> i + length bs \<or> int end' = int len - 1 \<Longrightarrow> dump_cmd_loop end' len i bs = fmt_bytes (i = 0) bs"
  by (induction bs arbitrary: i) auto

lemma blk_dump_cmd_text:
  assumes "rq_pc rq"
  shows "blk_dump_cmd rq =
    (if significant (rq_cmd rq) + 1 = length (rq_cmd rq) then fmt_bytes True (rq_cmd rq) else pdu_summary True (rq_cmd rq))"
proof -
  let ?cmd = "rq_cmd rq"
  have d: "blk_dump_cmd rq = dump_cmd_loop (significant ?cmd) (length ?cmd) 0 ?cmd"
    using assms by (simp add: blk_dump_cmd_def find_end_significant)
  consider "significant ?cmd + 1 = length ?cmd" | "significant ?cmd = length ?cmd" | "significant ?cmd + 1 < length ?cmd"
    using significant_le [of ?cmd] by linarith
  then show ?thesis
  proof cases
    case 3
    then show ?thesis
      using dump_cmd_loop_text [of 0 "significant ?cmd" ?cmd "length ?cmd"] by (simp add: d pdu_summary_def)
  qed (simp_all add: d dump_cmd_loop_all pdu_summary_def)
qed

text \<open>In a buffer that never fills up, the text for ftrace is that of the command in brackets.\<close>

lemma log_dump_loop_text:
  assumes "\<And>s x. put s x = Some (s @ x)"
  shows "log_dump_loop put end' len i bs s = Some (s @ dump_cmd_loop end' len i bs @ '') '')"
  by (induction bs arbitrary: i s) (simp_all add: assms)

section \<open>Properties\<close>


text \<open>A synchronous write with the forced unit access, on Linux 3.4.\<close>

fun example_req :: "req_flag \<Rightarrow> nat" where
  "example_req REQ_SYNC = 4"
| "example_req REQ_META = 5"
| "example_req REQ_DISCARD = 7"
| "example_req REQ_RAHEAD = 13"
| "example_req REQ_FUA = 12"
| "example_req REQ_FLUSH = 18"

definition example_event :: blk_io_trace where
  "example_event = zero_trace\<lparr>tr_action := event_action example_req 0x1011 (BLK_TA TA_ISSUE), tr_bytes := 4096\<rparr>"


text \<open>For the command of a request, the text of the kernel and that of \<open>blkparse\<close> are the same, unless its last byte is
  its only zero at the end: \<open>blkparse\<close> adds dots to it as if more followed.\<close>

theorem command_texts_agree:
  assumes "rq_pc rq" "rq_cmd rq \<noteq> []" "length (rq_cmd rq) \<le> 1364" "tr_pdu t = rq_cmd rq"
    and "\<And>s x. put s x = Some (s @ x)"
  shows "blk_log_dump_pdu put t s = Some (s @ ''('' @ blk_dump_cmd rq @ '') '')
    \<and> dump_pdu (rq_cmd rq) = Some (Some (blk_dump_cmd rq @
        (if significant (rq_cmd rq) + 1 = length (rq_cmd rq) then '' ..'' else '''')))"
proof -
  have "blk_log_dump_pdu put t s = Some (s @ ''('' @ blk_dump_cmd rq @ '') '')"
    using assms(1,2,4) by (simp add: blk_log_dump_pdu_def blk_dump_cmd_def assms(5) log_dump_loop_text [OF assms(5)])
  moreover have "pdu_summary True (rq_cmd rq) = fmt_bytes True (rq_cmd rq) @ '' ..''" if "significant (rq_cmd rq) + 1 = length (rq_cmd rq)"
    using that by (auto simp: pdu_summary_def)
  ultimately show ?thesis
    using dump_pdu_text [OF assms(2,3)] blk_dump_cmd_text [OF assms(1)] by auto
qed

theorem command_texts_agree_witness:
  "\<exists>rq. blk_dump_cmd rq = ''28 00 12 00'' \<and> dump_pdu (rq_cmd rq) = Some (Some ''28 00 12 00 ..'')
    \<and> blk_log_dump_pdu (\<lambda>s x. Some (s @ x)) (zero_trace\<lparr>tr_pdu := rq_cmd rq\<rparr>) '''' = Some ''(28 00 12 00) ''"
proof -
  define rq :: request where "rq = \<lparr>rq_pc = True, rq_bytes = 0, rq_pos = 0, rq_cmd_flags = 0, rq_errors = 0,
    rq_cmd = [0x28, 0, 0x12, 0], rq_buffer = None, rq_disk = 0\<rparr>"
  have "rq_pc rq" "rq_cmd rq \<noteq> []" "length (rq_cmd rq) \<le> 1364"
    by (simp_all add: rq_def)
  moreover have "significant (rq_cmd rq) + 1 = length (rq_cmd rq)"
    by (simp add: rq_def significant_def)
  moreover have "blk_dump_cmd rq = ''28 00 12 00''"
    unfolding rq_def by code_simp
  ultimately show ?thesis
    using command_texts_agree [of rq "zero_trace\<lparr>tr_pdu := rq_cmd rq\<rparr>" "\<lambda>s x. Some (s @ x)" "''''"]
    by (intro exI [of _ rq]) simp
qed

end
