(* ===== verification/Btt_Base.thy ===== *)
theory Btt_Base
  imports Keyed_Tree Trace_Format Complex_Main
begin

text \<open>
  The common part of btt, \<open>btt/globals.h\<close>, \<open>btt/inlines.h\<close> and \<open>btt/dip_rb.c\<close>: averages, the ranges of activity, the
  histograms of sizes, the trace with its times (\<open>struct io\<close>) and the trees of traces by start sector. A \<open>double\<close>
  is a real number, without rounding. A null dereference or an index outside an array is \<open>None\<close>.
\<close>

section \<open>Times\<close>

definition BIT_TIME :: "u64 \<Rightarrow> real" where
  "BIT_TIME t = real (unat (SECONDS t)) + real (unat (NANO_SECONDS t)) / 10 ^ 9"

definition TO_SEC :: "u64 \<Rightarrow> real" where
  "TO_SEC nanosec = real (unat nanosec) / 10 ^ 9"

definition TO_MSEC :: "u64 \<Rightarrow> real" where
  "TO_MSEC nanosec = 1000 * TO_SEC nanosec"

definition tdelta :: "u64 \<Rightarrow> u64 \<Rightarrow> u64" where
  "tdelta t_from t_to = (if t_from < t_to then t_to - t_from else 1)"

text \<open>The value \<open>(__u64)-1\<close> of a time that has not been set.\<close>

definition no_time :: u64 where
  "no_time = - 1"

section \<open>Averages\<close>

record avg_info =
  ai_min :: u64
  ai_max :: u64
  ai_total :: u64
  ai_n :: u32

record avgs_info =
  q2q_dm :: avg_info
  q2a_dm :: avg_info
  q2c_dm :: avg_info
  q2q :: avg_info
  q2a :: avg_info
  q2g :: avg_info
  s2g :: avg_info
  g2i :: avg_info
  q2m :: avg_info
  i2d :: avg_info
  m2d :: avg_info
  d2c :: avg_info
  q2c :: avg_info
  blks :: avg_info

definition zero_avg :: avg_info where
  "zero_avg = \<lparr>ai_min = 0, ai_max = 0, ai_total = 0, ai_n = 0\<rparr>"

definition zero_avgs :: avgs_info where
  "zero_avgs = \<lparr>q2q_dm = zero_avg, q2a_dm = zero_avg, q2c_dm = zero_avg, q2q = zero_avg, q2a = zero_avg,
     q2g = zero_avg, s2g = zero_avg, g2i = zero_avg, q2m = zero_avg, i2d = zero_avg, m2d = zero_avg,
     d2c = zero_avg, q2c = zero_avg, blks = zero_avg\<rparr>"

text \<open>The two \<open>if\<close>s on the minimum and the maximum.\<close>

definition avg_bounds :: "u64 \<Rightarrow> avg_info \<Rightarrow> avg_info" where
  "avg_bounds t ap =
     (if t < ai_min ap then ap\<lparr>ai_min := t\<rparr>
      else if ai_max ap < t then ap\<lparr>ai_max := t\<rparr>
      else ap)"

definition avg_update :: "u64 \<Rightarrow> avg_info \<Rightarrow> avg_info" where
  "avg_update t ap =
     (let ap' = ap\<lparr>ai_n := ai_n ap + 1\<rparr>
      in if ai_n ap = 0 then ap'\<lparr>ai_max := t, ai_total := t, ai_min := t\<rparr>
         else let ap'' = avg_bounds t ap' in ap''\<lparr>ai_total := ai_total ap'' + t\<rparr>)"

text \<open>The \<open>int\<close> \<open>n\<close> is extended by its sign before it is multiplied.\<close>

definition avg_update_n :: "u64 \<Rightarrow> u32 \<Rightarrow> avg_info \<Rightarrow> avg_info" where
  "avg_update_n t n ap =
     (let ap' = (if ai_n ap = 0 then ap\<lparr>ai_max := t, ai_min := t, ai_total := scast n * t\<rparr>
                 else let ap' = avg_bounds t ap in ap'\<lparr>ai_total := ai_total ap' + scast n * t\<rparr>)
      in ap'\<lparr>ai_n := ai_n ap' + n\<rparr>)"

definition avg_unupdate :: "u64 \<Rightarrow> avg_info \<Rightarrow> avg_info" where
  "avg_unupdate t ap = ap\<lparr>ai_n := ai_n ap - 1, ai_total := ai_total ap - t\<rparr>"

text \<open>The time of the last queue event and the average of the times between them.\<close>

definition update_lq :: "u64 \<Rightarrow> u64 \<times> avg_info \<Rightarrow> u64 \<times> avg_info" where
  "update_lq t = (\<lambda>(last_q, avg).
     (t, if last_q \<noteq> no_time then avg_update (if last_q < t then t - last_q else 1) avg else avg))"

section \<open>Ranges of activity\<close>

record range_info =
  ri_start :: u64
  ri_end :: u64

record region_info =
  qranges :: "range_info list"
  cranges :: "range_info list"

definition region_init :: region_info where
  "region_init = \<lparr>qranges = [], cranges = []\<rparr>"

definition update_range :: "real \<Rightarrow> u64 \<Rightarrow> range_info list \<Rightarrow> range_info list" where
  "update_range range_delta t head_p =
     (let new = head_p @ [\<lparr>ri_start = t, ri_end = t\<rparr>]
      in if head_p \<noteq> [] then
           let rip = last head_p
           in if t < ri_end rip then head_p
              else if BIT_TIME (t - ri_end rip) < range_delta then butlast head_p @ [rip\<lparr>ri_end := t\<rparr>]
              else new
         else new)"

definition update_qregion :: "real \<Rightarrow> u64 \<Rightarrow> region_info \<Rightarrow> region_info" where
  "update_qregion range_delta t reg = reg\<lparr>qranges := update_range range_delta t (qranges reg)\<rparr>"

definition update_cregion :: "real \<Rightarrow> u64 \<Rightarrow> region_info \<Rightarrow> region_info" where
  "update_cregion range_delta t reg = reg\<lparr>cranges := update_range range_delta t (cranges reg)\<rparr>"

section \<open>Histograms of sizes\<close>

definition N_HIST_BKTS :: nat where
  "N_HIST_BKTS = 1025"

text \<open>The \<open>int\<close> index may be \<open>-1\<close>.\<close>

definition histo_idx :: "u64 \<Rightarrow> int" where
  "histo_idx nbytes = (let idx = sint (ucast (drop_bit 9 nbytes) - 1 :: u32) in min idx (int N_HIST_BKTS - 1))"

definition update_histo :: "u64 \<Rightarrow> u64 list \<Rightarrow> u64 list option" where
  "update_histo nbytes h =
     (let idx = histo_idx nbytes
      in if 0 \<le> idx \<and> idx < int (length h) then Some (h[nat idx := h ! nat idx + 1]) else None)"

section \<open>Traces with their times\<close>

datatype iop_type = IOP_Q | IOP_X | IOP_A | IOP_G | IOP_M | IOP_D | IOP_C | IOP_R | IOP_I | IOP_S

text \<open>
  The device and the process are indices into the lists of these structs. A pointer to a queued trace is its device
  with its start sector, which is the key of the tree that holds it; \<open>linked\<close> says that the tree does.
\<close>

record io =
  io_t :: blk_io_trace
  io_dip :: "nat option"
  io_pip :: "nat option"
  bytes_left :: u64
  g_time :: u64
  i_time :: u64
  m_time :: u64
  d_time :: u64
  c_time :: u64
  d_sec :: u64
  c_sec :: u64
  s_time :: u64
  d_nsec :: u32
  c_nsec :: u32
  linked :: bool
  io_type :: iop_type

text \<open>A cleared struct into which a trace has been read.\<close>

definition io_alloc :: "blk_io_trace \<Rightarrow> io" where
  "io_alloc t = \<lparr>io_t = t, io_dip = None, io_pip = None, bytes_left = 0, g_time = 0, i_time = 0, m_time = 0,
     d_time = 0, c_time = 0, d_sec = 0, c_sec = 0, s_time = 0, d_nsec = 0, c_nsec = 0, linked = False,
     io_type = IOP_Q\<rparr>"

definition BIT_START :: "io \<Rightarrow> u64" where
  "BIT_START iop = tr_sector (io_t iop)"

definition BIT_END :: "io \<Rightarrow> u64" where
  "BIT_END iop = tr_sector (io_t iop) + ucast (drop_bit 9 (tr_bytes (io_t iop)))"

definition IOP_READ :: "io \<Rightarrow> bool" where
  "IOP_READ iop \<longleftrightarrow> has_tc (tr_action (io_t iop)) TC_READ"

definition remapper_dev :: "u32 \<Rightarrow> bool" where
  "remapper_dev dev \<longleftrightarrow> MAJOR dev = 9 \<or> MAJOR dev = 253 \<or> MAJOR dev = 254"

fun type2c :: "iop_type \<Rightarrow> char" where
  "type2c IOP_Q = CHR ''Q''"
| "type2c IOP_X = CHR ''X''"
| "type2c IOP_A = CHR ''A''"
| "type2c IOP_I = CHR ''I''"
| "type2c IOP_M = CHR ''M''"
| "type2c IOP_D = CHR ''D''"
| "type2c IOP_C = CHR ''C''"
| "type2c IOP_R = CHR ''R''"
| "type2c IOP_G = CHR ''G''"
| "type2c _ = CHR ''?''"

section \<open>Trees of traces\<close>

text \<open>The return value and the tree.\<close>

definition rb_insert :: "io \<Rightarrow> io rb \<Rightarrow> (bool \<times> io rb) option" where
  "rb_insert iop tree =
     (case rb_place BIT_START (BIT_START iop) tree [] of
        None \<Rightarrow> Some (False, tree)
      | Some p \<Rightarrow> map_option (Pair True) (rb_link_insert iop p))"

fun rb_find_sec :: "u64 \<Rightarrow> io rb \<Rightarrow> io option" where
  "rb_find_sec sec Null = None"
| "rb_find_sec sec (Nd c l iop r) =
     (if sec < BIT_START iop then rb_find_sec sec l
      else if BIT_END iop \<le> sec then rb_find_sec sec r
      else Some iop)"

text \<open>The traces for which \<open>fnc\<close> is called or which are added to the list, in this order.\<close>

fun rb_foreach :: "io \<Rightarrow> io rb \<Rightarrow> io list" where
  "rb_foreach iop Null = []"
| "rb_foreach iop (Nd c l this r) =
     (if BIT_START iop \<le> BIT_START this \<and> BIT_END this \<le> BIT_END iop then [this] else [])
     @ (if BIT_START iop < BIT_START this then rb_foreach iop l else [])
     @ (if BIT_END this < BIT_END iop then rb_foreach iop r else [])"

text \<open>\<open>rb_erase\<close> of the trace, and an assignment to its fields.\<close>

definition io_erase :: "io \<Rightarrow> io rb \<Rightarrow> io rb option" where
  "io_erase iop tree = Option.bind (rb_find BIT_START (BIT_START iop) tree []) (\<lambda>(u, p). rb_erase u p)"

definition io_modify :: "(io \<Rightarrow> io) \<Rightarrow> io \<Rightarrow> io rb \<Rightarrow> io rb option" where
  "io_modify f iop tree = map_option (modify_at f) (rb_find BIT_START (BIT_START iop) tree [])"


section \<open>Lemmas on averages\<close>

definition avg_of :: "u64 list \<Rightarrow> avg_info" where
  "avg_of ts = fold avg_update ts zero_avg"

lemma avg_of_snoc: "avg_of (ts @ [t]) = avg_update t (avg_of ts)"
  by (simp add: avg_of_def)

lemma of_nat_u32_zero: "n < 2 ^ 32 \<Longrightarrow> (of_nat n :: u32) = 0 \<longleftrightarrow> n = 0"
  by (subst word_of_nat_eq_0_iff) (auto dest: dvd_imp_le)

lemma avg_update_some:
  assumes "ai_n ap \<noteq> 0" "ai_min ap \<le> ai_max ap"
  shows "ai_n (avg_update t ap) = ai_n ap + 1 \<and> ai_min (avg_update t ap) = min t (ai_min ap)
    \<and> ai_max (avg_update t ap) = max t (ai_max ap) \<and> ai_total (avg_update t ap) = ai_total ap + t"
  using assms by (auto simp: avg_update_def avg_bounds_def Let_def min_def max_def)

lemma avg_of_fields:
  assumes "length ts < 2 ^ 32" "ts \<noteq> []"
  shows "ai_n (avg_of ts) = of_nat (length ts) \<and> ai_min (avg_of ts) = Min (set ts)
    \<and> ai_max (avg_of ts) = Max (set ts) \<and> ai_total (avg_of ts) = sum_list ts"
  using assms
proof (induction ts rule: rev_induct)
  case (snoc t ts)
  show ?case
  proof (cases "ts = []")
    case True
    then show ?thesis
      by (simp add: avg_of_def avg_update_def zero_avg_def)
  next
    case False
    then have "ai_n (avg_of ts) \<noteq> 0" "ai_min (avg_of ts) \<le> ai_max (avg_of ts)"
      using snoc of_nat_u32_zero [of "length ts"] by simp_all
    from avg_update_some [OF this, of t] show ?thesis
      using snoc False by (simp add: avg_of_snoc)
  qed
qed simp


section \<open>Lemmas on ranges\<close>

text \<open>The ranges from the last time to the first: neighbours that are close share a range.\<close>

fun clusters :: "real \<Rightarrow> u64 list \<Rightarrow> range_info list" where
  "clusters d [] = []"
| "clusters d (t # ts) =
     (case clusters d ts of
        [] \<Rightarrow> [\<lparr>ri_start = t, ri_end = t\<rparr>]
      | r # rs \<Rightarrow> if BIT_TIME (ri_start r - t) < d then r\<lparr>ri_start := t\<rparr> # rs
                else \<lparr>ri_start = t, ri_end = t\<rparr> # r # rs)"

lemma clusters_Nil [simp]: "clusters d ts = [] \<longleftrightarrow> ts = []"
  by (cases ts) (auto split: list.splits)

lemma BIT_TIME_0 [simp]: "BIT_TIME 0 = 0"
  by (simp add: BIT_TIME_def SECONDS_def NANO_SECONDS_def)

lemma clusters_last: "ts \<noteq> [] \<Longrightarrow> ri_end (last (clusters d ts)) = last ts"
proof (induction ts)
  case (Cons t ts)
  then show ?case
    by (cases "clusters d ts") (auto split: if_splits)
qed simp


lemma update_range_append:
  "rs \<noteq> [] \<Longrightarrow> update_range d t (r # rs) = r # update_range d t rs"
  by (simp add: update_range_def Let_def)

lemma clusters_snoc: "sorted (ts @ [t]) \<Longrightarrow> clusters d (ts @ [t]) = update_range d t (clusters d ts)"
proof (induction ts)
  case Nil
  then show ?case
    by (simp add: update_range_def)
next
  case (Cons a ts)
  show ?case
  proof (cases "clusters d ts")
    case Nil
    then show ?thesis
      using Cons.prems by (auto simp: update_range_def Let_def not_less)
  next
    case (Cons r rs)
    have "ts \<noteq> []"
      using Cons by auto
    then have "ri_end (last (r # rs)) \<le> t"
      using clusters_last [of ts d] Cons Cons.prems last_in_set [of ts] by (auto simp: sorted_append)
    moreover have "clusters d (ts @ [t]) = update_range d t (r # rs)"
      using Cons.IH Cons.prems Cons by simp
    ultimately show ?thesis
      using Cons by (cases "rs = []") (auto simp: update_range_append update_range_def Let_def)
  qed
qed

lemma update_ranges_clusters:
  assumes "sorted ts"
  shows "fold (update_range d) ts [] = clusters d ts"
  using assms by (induction ts rule: rev_induct) (simp_all add: clusters_snoc sorted_append)

lemma clusters_range_ok:
  assumes "sorted ts" "r \<in> set (clusters d ts)"
  shows "ri_start r \<in> set ts \<and> ri_end r \<in> set ts \<and> ri_start r \<le> ri_end r"
  using assms
  by (induction ts arbitrary: r) (force split: list.splits if_splits)+

lemma clusters_cover:
  "sorted ts \<Longrightarrow> t \<in> set ts \<Longrightarrow> \<exists>r \<in> set (clusters d ts). ri_start r \<le> t \<and> t \<le> ri_end r"
proof (induction ts)
  case (Cons a ts)
  then show ?case
  proof (cases "clusters d ts")
    case (Cons r rs)
    then show ?thesis
      using Cons.IH Cons.prems clusters_range_ok [of ts r d] by (auto split: if_splits)
  qed auto
qed simp


lemma unat_SECONDS: "unat (SECONDS t) = unat t div 1000000000" "unat (NANO_SECONDS t) = unat t mod 1000000000"
proof -
  have "unat (1000000000 :: u64) = 1000000000"
    by simp
  then show "unat (SECONDS t) = unat t div 1000000000" "unat (NANO_SECONDS t) = unat t mod 1000000000"
    unfolding SECONDS_def NANO_SECONDS_def unat_div unat_mod by simp_all
qed

lemma BIT_TIME_TO_SEC: "BIT_TIME t = TO_SEC t"
proof -
  have "real n = 1000000000 * real (n div 1000000000) + real (n mod 1000000000)" for n :: nat
    by (metis mult_div_mod_eq of_nat_add of_nat_mult of_nat_numeral)
  from this [of "unat t"] show ?thesis
    by (simp add: BIT_TIME_def TO_SEC_def unat_SECONDS field_simps)
qed

lemma BIT_TIME_gap_mono:
  assumes "(a :: u64) \<le> b" "b \<le> c"
  shows "BIT_TIME (b - a) \<le> BIT_TIME (c - a)"
proof -
  have "unat (b - a) \<le> unat (c - a)"
    using assms by (simp add: unat_sub word_le_nat_alt)
  then show ?thesis
    unfolding BIT_TIME_TO_SEC TO_SEC_def by (intro divide_right_mono of_nat_mono) simp_all
qed

definition apart :: "real \<Rightarrow> range_info \<Rightarrow> range_info \<Rightarrow> bool" where
  "apart d r s \<longleftrightarrow> ri_end r < ri_start s \<and> d \<le> BIT_TIME (ri_start s - ri_end r)"

lemma apart_start [simp]: "apart d (r\<lparr>ri_start := a\<rparr>) s \<longleftrightarrow> apart d r s"
  by (simp add: apart_def)

lemma clusters_apart: "0 < d \<Longrightarrow> sorted ts \<Longrightarrow> sorted_wrt (apart d) (clusters d ts)"
proof (induction ts)
  case (Cons a ts)
  show ?case
  proof (cases "clusters d ts")
    case (Cons r rs)
    have IH: "sorted_wrt (apart d) (r # rs)"
      using Cons.IH Cons.prems Cons by simp
    have r: "a \<le> ri_start r" "ri_start r \<le> ri_end r"
      using clusters_range_ok [of ts r d] Cons.prems Cons by auto
    have later: "apart d \<lparr>ri_start = a, ri_end = a\<rparr> s" if "s \<in> set (r # rs)" "d \<le> BIT_TIME (ri_start r - a)" for s
    proof -
      have "ri_start r \<le> ri_start s"
        using that(1) IH r(2) by (auto simp: apart_def intro: order_trans less_imp_le)
      moreover have "a \<noteq> ri_start r"
        using that(2) \<open>0 < d\<close> by auto
      ultimately show ?thesis
        using that(2) r(1) BIT_TIME_gap_mono [of a "ri_start r" "ri_start s"] by (auto simp: apart_def)
    qed
    then show ?thesis
      using IH Cons by auto
  qed simp
qed simp


section \<open>Lemmas on trees of traces\<close>

text \<open>
  A trace of at least one sector that ends on the disk, and a tree whose traces do not overlap. The searches of
  btt rely on both.
\<close>

definition extent_ok :: "io \<Rightarrow> bool" where
  "extent_ok iop \<longleftrightarrow> BIT_START iop < BIT_END iop"

definition extents_apart :: "io rb \<Rightarrow> bool" where
  "extents_apart t \<longleftrightarrow> (\<forall>q \<in> set (inorder t). extent_ok q)
     \<and> sorted_wrt (\<lambda>p q. BIT_END p \<le> BIT_START q) (inorder t)"

definition covers :: "io \<Rightarrow> io \<Rightarrow> bool" where
  "covers iop q \<longleftrightarrow> BIT_START iop \<le> BIT_START q \<and> BIT_END q \<le> BIT_END iop"

lemma extents_apart_Nd:
  "extents_apart (Nd c l x r) \<longleftrightarrow> extents_apart l \<and> extents_apart r \<and> extent_ok x
     \<and> (\<forall>q \<in> set (inorder l). BIT_END q \<le> BIT_START x) \<and> (\<forall>q \<in> set (inorder r). BIT_END x \<le> BIT_START q)
     \<and> (\<forall>p \<in> set (inorder l). \<forall>q \<in> set (inorder r). BIT_END p \<le> BIT_START q)"
  by (auto simp: extents_apart_def sorted_wrt_append)

lemma rb_foreach_covered:
  "extents_apart t \<Longrightarrow> mset (rb_foreach iop t) = mset (filter (covers iop) (inorder t))"
proof (induction t)
  case (Nd c l x r)
  note apart = Nd.prems [unfolded extents_apart_Nd]
  have left: "filter (covers iop) (inorder l) = []" if "\<not> BIT_START iop < BIT_START x"
    using that apart by (force simp: filter_empty_conv covers_def extents_apart_def extent_ok_def)
  have right: "filter (covers iop) (inorder r) = []" if "\<not> BIT_END x < BIT_END iop"
    using that apart by (force simp: filter_empty_conv covers_def extents_apart_def extent_ok_def)
  have x: "covers iop x \<longleftrightarrow> BIT_START iop \<le> BIT_START x \<and> BIT_END x \<le> BIT_END iop"
    by (rule covers_def)
  show ?case
    using Nd.IH apart left right by (auto simp: x simp del: mset_filter)
qed simp

lemma rb_find_sec_sound: "rb_find_sec sec t = Some q \<Longrightarrow> q \<in> set (inorder t) \<and> BIT_START q \<le> sec \<and> sec < BIT_END q"
  by (induction t) (auto split: if_splits)

lemma rb_find_sec_complete:
  "extents_apart t \<Longrightarrow> q \<in> set (inorder t) \<Longrightarrow> BIT_START q \<le> sec \<Longrightarrow> sec < BIT_END q \<Longrightarrow> rb_find_sec sec t = Some q"
proof (induction t)
  case (Nd c l x r)
  note apart = Nd.prems(1) [unfolded extents_apart_Nd]
  consider "q = x" | "q \<in> set (inorder l)" | "q \<in> set (inorder r)"
    using Nd.prems by auto
  then show ?case
    using Nd apart by cases (force simp: extent_ok_def)+
qed simp


section \<open>Properties\<close>

text \<open>C14: while the queued traces of a device do not overlap, the search for a sector finds the trace that holds it and
  the traversal visits exactly the traces inside the given one, each once.\<close>

theorem queued_traces_found:
  assumes "extents_apart t"
  shows "(rb_find_sec sec t = Some q \<longleftrightarrow> q \<in> set (inorder t) \<and> BIT_START q \<le> sec \<and> sec < BIT_END q)
    \<and> mset (rb_foreach iop t) = mset (filter (covers iop) (inorder t))"
  using rb_find_sec_sound rb_find_sec_complete [OF assms] rb_foreach_covered [OF assms] by blast+

definition example_io :: "u64 \<Rightarrow> u32 \<Rightarrow> io" where
  "example_io sector bytes = io_alloc \<lparr>tr_magic = 0, tr_sequence = 0, tr_time = 0, tr_sector = sector, tr_bytes = bytes,
     tr_action = 0, tr_pid = 0, tr_device = 0, tr_cpu = 0, tr_error = 0, tr_vec_count = 0, tr_seq = 0, tr_pdu_len = 0,
     tr_pdu = []\<rparr>"

lemma example_io_bounds [simp]:
  "BIT_START (example_io s b) = s" "BIT_END (example_io s b) = s + ucast (drop_bit 9 b)"
  by (simp_all add: example_io_def io_alloc_def BIT_START_def BIT_END_def)

definition example_tree :: "io rb" where
  "example_tree = Nd RB_BLACK (Nd RB_RED Null (example_io 0 4096) Null) (example_io 8 1024) Null"

lemma example_tree_apart: "extents_apart example_tree"
  by (simp add: example_tree_def extents_apart_def extent_ok_def drop_bit_eq_div)

lemma queued_traces_found_witness:
  "rb_find_sec 9 example_tree = Some (example_io 8 1024)
   \<and> mset (rb_foreach (example_io 0 8192) example_tree) = mset [example_io 0 4096, example_io 8 1024]"
proof
  show "rb_find_sec 9 example_tree = Some (example_io 8 1024)"
    by (subst queued_traces_found [OF example_tree_apart, THEN conjunct1]) (simp add: example_tree_def drop_bit_eq_div)
  show "mset (rb_foreach (example_io 0 8192) example_tree) = mset [example_io 0 4096, example_io 8 1024]"
    by (subst queued_traces_found [OF example_tree_apart, THEN conjunct2]) (simp add: example_tree_def covers_def drop_bit_eq_div)
qed

text \<open>C16: the ranges of activity of times that do not decrease are the groups of neighbouring times less than
  \<open>range_delta\<close> apart: they cover all times, begin and end at one, and are at least \<open>range_delta\<close> apart.\<close>

theorem activity_ranges:
  assumes "sorted ts" "0 < range_delta" "rs = fold (update_range range_delta) ts []"
  shows "rs = clusters range_delta ts \<and> sorted_wrt (apart range_delta) rs
    \<and> (\<forall>r \<in> set rs. ri_start r \<in> set ts \<and> ri_end r \<in> set ts)
    \<and> (\<forall>t \<in> set ts. \<exists>r \<in> set rs. ri_start r \<le> t \<and> t \<le> ri_end r)"
  using update_ranges_clusters [OF assms(1)] clusters_apart [OF assms(2,1)] clusters_range_ok [OF assms(1)]
    clusters_cover [OF assms(1)] unfolding assms(3) by auto

lemma activity_ranges_witness:
  "fold (update_range (1 / 10)) [0, 50000000, 1000000000] []
   = [\<lparr>ri_start = 0, ri_end = 50000000\<rparr>, \<lparr>ri_start = 1000000000, ri_end = 1000000000\<rparr>]"
  using activity_ranges [OF _ _ refl, of "[0, 50000000, 1000000000]" "1 / 10"] by (simp add: BIT_TIME_TO_SEC TO_SEC_def)

end
