(* ===== verification/Btt_Live.thy ===== *)
theory Btt_Live
  imports Btt_Base
begin

text \<open>
  The periods in which a device is active, \<open>btt/p_live.c\<close>: from the dispatch to the completion of each request, merged
  where they meet, in a tree without overlaps. The list \<open>all_p_lives\<close> only serves to free the structs.
\<close>

section \<open>Adding a period\<close>

record p_live =
  pl_dt :: u64
  pl_ct :: u64

definition p_inside :: "p_live \<Rightarrow> u64 \<Rightarrow> u64 \<Rightarrow> bool" where
  "p_inside plp dt ct \<longleftrightarrow> pl_dt plp \<le> dt \<and> dt \<le> pl_ct plp \<or> pl_dt plp \<le> ct \<and> ct \<le> pl_ct plp
     \<or> dt < pl_dt plp \<and> pl_ct plp < ct"

text \<open>The loop of \<open>__p_live_add\<close>: to a period that meets the new one, or to an empty slot.\<close>

fun p_live_descend :: "u64 \<Rightarrow> u64 \<Rightarrow> p_live rb \<Rightarrow> p_live path \<Rightarrow> p_live rb \<times> p_live path" where
  "p_live_descend dt ct Null p = (Null, p)"
| "p_live_descend dt ct (Nd c l plp r) p =
     (if p_inside plp dt ct then (Nd c l plp r, p)
      else if ct < pl_dt plp then p_live_descend dt ct l (InLeft c plp r # p)
      else p_live_descend dt ct r (InRight c l plp # p))"

partial_function (option) p_live_insert :: "u64 \<Rightarrow> u64 \<Rightarrow> p_live rb \<Rightarrow> p_live rb option" where
  "p_live_insert dt ct tree =
     (case p_live_descend dt ct tree [] of
        (Null, p) \<Rightarrow> rb_link_insert \<lparr>pl_dt = dt, pl_ct = ct\<rparr> p
      | (Nd c l plp r, p) \<Rightarrow> Option.bind (rb_erase (Nd c l plp r) p)
          (\<lambda>tree'. p_live_insert (min (pl_dt plp) dt) (max (pl_ct plp) ct) tree'))"

section \<open>Reports\<close>

record p_live_info =
  nlives :: u64
  avg_live :: real
  avg_lull :: real
  live_percent :: real

record get_info =
  gi_start :: u64
  gi_end :: u64
  gi_lives :: u64
  tot_live :: u64
  gi_ofp :: "(real \<times> real) list option"
  last_0 :: real

text \<open>The lines of one period. The comparison with \<open>0.0\<close> is never true of an unsigned number.\<close>

definition p_live_line :: "real \<Rightarrow> p_live \<Rightarrow> get_info \<Rightarrow> get_info" where
  "p_live_line base_y plp gip =
     (let y0 = base_y; y1 = base_y + 9 / 10;
          gip1 = (case gi_ofp gip of
             None \<Rightarrow> gip
           | Some ls \<Rightarrow> gip\<lparr>gi_ofp := Some (ls @ [(last_0 gip, y0), (BIT_TIME (pl_dt plp), y0), (BIT_TIME (pl_dt plp), y1),
                 (BIT_TIME (pl_ct plp), y1), (BIT_TIME (pl_ct plp), y0)]), last_0 := BIT_TIME (pl_ct plp)\<rparr>);
          gip2 = gip1\<lparr>gi_lives := gi_lives gip1 + 1, tot_live := tot_live gip1 + (pl_ct plp - pl_dt plp)\<rparr>;
          gip3 = (if real (unat (gi_start gip2)) < 0 \<or> pl_dt plp < gi_start gip2 then gip2\<lparr>gi_start := pl_dt plp\<rparr> else gip2)
      in if real (unat (gi_end gip3)) < 0 \<or> gi_end gip3 < pl_ct plp then gip3\<lparr>gi_end := pl_ct plp\<rparr> else gip3)"

fun p_live_visit :: "real \<Rightarrow> p_live rb \<Rightarrow> get_info \<Rightarrow> get_info" where
  "p_live_visit base_y Null gip = gip"
| "p_live_visit base_y (Nd c l plp r) gip =
     p_live_visit base_y r (p_live_line base_y plp (p_live_visit base_y l gip))"

text \<open>The file is the result of \<open>do_open\<close>; the second component is what has been written to it.\<close>

definition p_live_get :: "bool \<Rightarrow> p_live rb \<Rightarrow> real \<Rightarrow> p_live_info \<times> (real \<times> real) list option" where
  "p_live_get opened tree base_y =
     (let gi = p_live_visit base_y tree \<lparr>gi_start = 0, gi_end = 0, gi_lives = 0, tot_live = 0,
                 gi_ofp = (if opened then Some [] else None), last_0 = 0\<rparr>;
          zero = \<lparr>nlives = gi_lives gi, avg_live = 0, avg_lull = 0, live_percent = 0\<rparr>
      in (if gi_lives gi = 0 then zero
          else if gi_lives gi = 1 then zero\<lparr>live_percent := 100\<rparr>
          else let t_time = BIT_TIME (gi_end gi - gi_start gi); live = BIT_TIME (tot_live gi)
               in zero\<lparr>live_percent := 100 * (live / t_time), avg_live := live / real (unat (gi_lives gi)),
                       avg_lull := (t_time - live) / real (unat (gi_lives gi - 1))\<rparr>,
          gi_ofp gi))"

section \<open>The set of active times\<close>

definition period_times :: "p_live \<Rightarrow> u64 set" where
  "period_times plp = {pl_dt plp..pl_ct plp}"

definition live_times :: "p_live rb \<Rightarrow> u64 set" where
  "live_times t = \<Union> (period_times ` set (inorder t))"

definition live_inv :: "p_live rb \<Rightarrow> bool" where
  "live_inv t \<longleftrightarrow> rb_inv t \<and> sorted_wrt (\<lambda>p q. pl_ct p < pl_dt q) (inorder t) \<and> (\<forall>p \<in> set (inorder t). pl_dt p \<le> pl_ct p)"

lemma p_live_descend_slot:
  "p_live_descend dt ct t p = (Null, q) \<Longrightarrow> q = rb_slot (\<lambda>y. ct < pl_dt y) t p"
  by (induction dt ct t p rule: p_live_descend.induct) (auto split: if_splits)

lemma p_live_descend_node:
  "p_live_descend dt ct t p = (Nd c l plp r, q) \<Longrightarrow> plug (Nd c l plp r) q = plug t p \<and> p_inside plp dt ct"
  by (induction dt ct t p rule: p_live_descend.induct) (auto split: if_splits)

text \<open>A descent that reaches an empty slot has passed no period that meets the new one.\<close>

lemma p_live_descend_apart:
  assumes "p_live_descend dt ct t p = (Null, q)" "dt \<le> ct" "sorted_wrt (\<lambda>p q. pl_ct p < pl_dt q) (inorder t)"
    "\<forall>p \<in> set (inorder t). pl_dt p \<le> pl_ct p" "x \<in> set (inorder t)"
  shows "ct < pl_dt x \<or> pl_ct x < dt"
  using assms
proof (induction dt ct t p rule: p_live_descend.induct)
  case (2 dt ct c l plp r p)
  have out: "\<not> p_inside plp dt ct"
    using 2(3) by (auto split: if_splits)
  have sorted: "sorted_wrt (\<lambda>p q. pl_ct p < pl_dt q) (inorder l)" "sorted_wrt (\<lambda>p q. pl_ct p < pl_dt q) (inorder r)"
    and sides: "\<And>y. y \<in> set (inorder l) \<Longrightarrow> pl_ct y < pl_dt plp" "\<And>y. y \<in> set (inorder r) \<Longrightarrow> pl_ct plp < pl_dt y"
    using 2(5) by (auto simp: sorted_wrt_append)
  have plp: "pl_dt plp \<le> pl_ct plp"
    using 2(6) by simp
  consider "x = plp" | "x \<in> set (inorder l)" | "x \<in> set (inorder r)"
    using 2(7) by auto
  then show ?case
  proof cases
    case 1
    then show ?thesis
      using out plp 2(4) by (auto simp: p_inside_def)
  next
    case x: 2
    show ?thesis
    proof (cases "ct < pl_dt plp")
      case True
      then show ?thesis
        using 2(1) [OF out True] 2(3,4,6) out sorted x by auto
    next
      case False
      then have "pl_ct plp < dt"
        using out plp 2(4) by (auto simp: p_inside_def)
      then show ?thesis
        using sides(1) [OF x] plp by auto
    qed
  next
    case x: 3
    show ?thesis
    proof (cases "ct < pl_dt plp")
      case True
      then show ?thesis
        using sides(2) [OF x] plp by auto
    next
      case False
      then show ?thesis
        using 2(2) [OF out False] 2(3,4,6) out sorted x by auto
    qed
  qed
qed simp

lemma inside_union:
  assumes "dt \<le> ct" "pl_dt plp \<le> pl_ct plp" "p_inside plp dt ct"
  shows "{min (pl_dt plp) dt..max (pl_ct plp) ct} = period_times plp \<union> {dt..ct}"
  using assms by (auto simp: p_inside_def period_times_def min_def max_def)

lemma live_inv_erase:
  assumes "live_inv t" "plug (Nd c l plp r) q = t"
  shows "\<exists>t'. rb_erase (Nd c l plp r) q = Some t' \<and> live_inv t' \<and> pl_dt plp \<le> pl_ct plp
    \<and> live_times t = live_times t' \<union> period_times plp \<and> length (inorder t) = Suc (length (inorder t'))"
proof -
  have t: "inorder t = (lctx q @ inorder l) @ plp # (inorder r @ rctx q)"
    using assms(2) inorder_plug [of "Nd c l plp r" q] by auto
  obtain t' where t': "rb_erase (Nd c l plp r) q = Some t'" "rb_inv t'"
    "inorder t' = lctx q @ inorder l @ inorder r @ rctx q"
    using rb_erase_balanced [of c l plp r q] assms by (auto simp: live_inv_def)
  moreover have "sorted_wrt (\<lambda>p q. pl_ct p < pl_dt q) (inorder t')"
    using assms(1) unfolding live_inv_def t t'(3) by (auto simp: sorted_wrt_append)
  ultimately show ?thesis
    using assms(1) by (auto simp: live_inv_def live_times_def t)
qed

lemma p_live_insert_ok:
  assumes "live_inv t" "dt \<le> ct"
  shows "\<exists>t'. p_live_insert dt ct t = Some t' \<and> live_inv t' \<and> live_times t' = live_times t \<union> {dt..ct}"
  using assms
proof (induction "length (inorder t)" arbitrary: t dt ct rule: less_induct)
  case less
  obtain u q where d: "p_live_descend dt ct t [] = (u, q)"
    by (cases "p_live_descend dt ct t []")
  note inv = less.prems(1) [unfolded live_inv_def]
  show ?case
  proof (cases u)
    case Null
    let ?f = "\<lambda>y. ct < pl_dt y" and ?x = "\<lparr>pl_dt = dt, pl_ct = ct\<rparr>"
    have q: "q = rb_slot ?f t []"
      using p_live_descend_slot d Null by blast
    have mono: "sorted_wrt (\<lambda>x y. ?f x \<longrightarrow> ?f y) (inorder t)"
      by (rule sorted_wrt_mono_rel [OF _ conjunct1 [OF conjunct2 [OF inv]]]) (use inv in fastforce)
    obtain t' where t': "rb_link_insert ?x q = Some t'" "rb_inv t'" "inorder t' = lctx q @ ?x # rctx q"
      using rb_link_insert_ok [of t ?x ?f] inv q by blast
    have t: "inorder t = lctx q @ rctx q"
      unfolding q by (simp add: slot_contents)
    have "ct < pl_dt y \<or> pl_ct y < dt" if "y \<in> set (inorder t)" for y
      using p_live_descend_apart [of dt ct t "[]" q y] d Null less.prems(2) inv that by auto
    then have "pl_ct y < dt" if "y \<in> set (lctx q)" for y
      using rb_slot_split(1) [OF mono, of y] that t q by auto
    moreover have "ct < pl_dt y" if "y \<in> set (rctx q)" for y
      using rb_slot_split(2) [OF mono, of y] that q by auto
    ultimately have "live_inv t'"
      using inv less.prems(2) t'(2) unfolding live_inv_def t'(3) t by (auto simp: sorted_wrt_append)
    moreover have "live_times t' = live_times t \<union> {dt..ct}"
      by (auto simp: live_times_def t'(3) t period_times_def)
    moreover have "p_live_insert dt ct t = Some t'"
      using t'(1) d Null by (simp add: p_live_insert.simps)
    ultimately show ?thesis
      by blast
  next
    case (Nd c l plp r)
    have node: "plug (Nd c l plp r) q = t" "p_inside plp dt ct"
      using p_live_descend_node [of dt ct t "[]"] d Nd by auto
    obtain t1 where t1: "rb_erase (Nd c l plp r) q = Some t1" "live_inv t1" "pl_dt plp \<le> pl_ct plp"
      "live_times t = live_times t1 \<union> period_times plp" "length (inorder t) = Suc (length (inorder t1))"
      using live_inv_erase [OF less.prems(1) node(1)] by blast
    have "min (pl_dt plp) dt \<le> max (pl_ct plp) ct"
      using t1(3) by (simp add: min.coboundedI1 max.coboundedI1)
    then obtain t' where t': "p_live_insert (min (pl_dt plp) dt) (max (pl_ct plp) ct) t1 = Some t'" "live_inv t'"
      "live_times t' = live_times t1 \<union> {min (pl_dt plp) dt..max (pl_ct plp) ct}"
      using less.hyps [OF _ t1(2)] t1(5) lessI by metis
    have "live_times t' = live_times t \<union> {dt..ct}"
      unfolding t'(3) t1(4) inside_union [OF less.prems(2) t1(3) node(2)] by auto
    moreover have "p_live_insert dt ct t = Some t'"
      using t'(1) t1(1) d Nd by (simp add: p_live_insert.simps [of dt ct t])
    ultimately show ?thesis
      using t'(2) by blast
  qed
qed


section \<open>Lemmas on the report\<close>

lemma p_live_visit_fold: "p_live_visit y t gi = fold (p_live_line y) (inorder t) gi"
  by (induction t arbitrary: gi) simp_all

lemma p_live_line_start: "gi_start gi = 0 \<Longrightarrow> gi_start (p_live_line y plp gi) = 0"
  by (auto simp: p_live_line_def Let_def split: option.splits)

lemma unsigned_not_negative [simp]: "\<not> (unsigned (w :: u64) :: real) < 0"
  by (metis of_nat_0_le_iff of_nat_unat not_less)

lemma p_live_line_fields:
  "gi_lives (p_live_line y plp gi) = gi_lives gi + 1"
  "tot_live (p_live_line y plp gi) = tot_live gi + (pl_ct plp - pl_dt plp)"
  "gi_end (p_live_line y plp gi) = max (pl_ct plp) (gi_end gi)"
  by (auto simp: p_live_line_def Let_def max_def split: option.splits)

lemma fold_p_live_line:
  "gi_start gi = 0 \<Longrightarrow> gi_start (fold (p_live_line y) ps gi) = 0"
  "gi_lives (fold (p_live_line y) ps gi) = gi_lives gi + of_nat (length ps)"
  "tot_live (fold (p_live_line y) ps gi) = tot_live gi + (\<Sum>p \<leftarrow> ps. pl_ct p - pl_dt p)"
  "gi_end (fold (p_live_line y) ps gi) = fold max (map pl_ct ps) (gi_end gi)"
  by (induction ps arbitrary: gi) (simp_all add: p_live_line_start p_live_line_fields)

lemma last_period_end:
  assumes "sorted_wrt (\<lambda>p q. pl_ct p < pl_dt q) ps" "\<forall>p \<in> set ps. pl_dt p \<le> pl_ct p" "ps \<noteq> []"
  shows "fold max (map pl_ct ps) 0 = pl_ct (last ps)"
proof -
  have "fold max (map pl_ct ps) m = pl_ct (last ps)" if "\<forall>p \<in> set ps. m \<le> pl_ct p" for m
    using assms that
  proof (induction ps arbitrary: m)
    case (Cons p ps)
    have "\<forall>q \<in> set ps. pl_ct p \<le> pl_ct q"
      using Cons.prems by (auto intro: less_imp_le order_less_le_trans)
    then show ?case
      using Cons.IH [of "pl_ct p"] Cons.prems by (cases "ps = []") (simp_all add: max_absorb2)
  qed simp
  then show ?thesis
    by simp
qed

text \<open>The times in the periods, in nanoseconds.\<close>

definition live_length :: "p_live rb \<Rightarrow> u64" where
  "live_length t = (\<Sum>p \<leftarrow> inorder t. pl_ct p - pl_dt p)"

lemma p_live_get_values:
  assumes "live_inv t" "1 < length (inorder t)" "length (inorder t) < 2 ^ 64"
  shows "fst (p_live_get opened t y) = \<lparr>nlives = of_nat (length (inorder t)),
      avg_live = BIT_TIME (live_length t) / real (length (inorder t)),
      avg_lull = (BIT_TIME (pl_ct (last (inorder t))) - BIT_TIME (live_length t)) / real (length (inorder t) - 1),
      live_percent = 100 * (BIT_TIME (live_length t) / BIT_TIME (pl_ct (last (inorder t))))\<rparr>"
proof -
  let ?n = "length (inorder t)"
  have ends: "fold max (map pl_ct (inorder t)) 0 = pl_ct (last (inorder t))"
    using assms by (intro last_period_end) (auto simp: live_inv_def)
  have unat: "unat (of_nat ?n :: u64) = ?n"
    using assms(3) by (simp add: unat_of_nat)
  then have n: "(of_nat ?n :: u64) \<noteq> 0" "(of_nat ?n :: u64) \<noteq> 1"
    using assms(2) by (metis not_less_zero unsigned_0, metis less_irrefl unsigned_1)
  have "unat (of_nat ?n - 1 :: u64) = ?n - 1"
    using unat n(1) by (simp add: unat_minus_one)
  then show ?thesis
    using unat n ends by (simp add: p_live_get_def p_live_visit_fold fold_p_live_line live_length_def Let_def)
qed


section \<open>Properties\<close>

fun p_live_inserts :: "(u64 \<times> u64) list \<Rightarrow> p_live rb \<Rightarrow> p_live rb option" where
  "p_live_inserts [] t = Some t"
| "p_live_inserts ((dt, ct) # ps) t = Option.bind (p_live_insert dt ct t) (p_live_inserts ps)"

lemma p_live_inserts_ok:
  "live_inv t \<Longrightarrow> \<forall>(dt, ct) \<in> set ps. dt \<le> ct \<Longrightarrow> \<exists>t'. p_live_inserts ps t = Some t' \<and> live_inv t'
     \<and> live_times t' = live_times t \<union> (\<Union>(dt, ct) \<in> set ps. {dt..ct})"
proof (induction ps arbitrary: t)
  case (Cons p ps)
  obtain dt ct where p: "p = (dt, ct)"
    by (cases p)
  then obtain t' where t': "p_live_insert dt ct t = Some t'" "live_inv t'" "live_times t' = live_times t \<union> {dt..ct}"
    using p_live_insert_ok [of t dt ct] Cons.prems by auto
  show ?case
    using Cons.IH [OF t'(2)] Cons.prems t' p by auto
qed simp

text \<open>C15: adding periods returns, whatever their order and overlaps, and leaves periods that are ordered and apart and that
  hold exactly the times of those that were added.\<close>

theorem active_periods:
  assumes "\<forall>(dt, ct) \<in> set ps. dt \<le> ct"
  shows "\<exists>t. p_live_inserts ps Null = Some t \<and> live_times t = (\<Union>(dt, ct) \<in> set ps. {dt..ct})
    \<and> sorted_wrt (\<lambda>p q. pl_ct p < pl_dt q) (inorder t) \<and> (\<forall>p \<in> set (inorder t). pl_dt p \<le> pl_ct p)"
  using p_live_inserts_ok [of Null ps] assms by (auto simp: live_inv_def live_times_def rb_inv_def)

lemma active_periods_witness:
  "\<exists>t. p_live_inserts [(10, 20), (40, 50), (15, 45)] Null = Some t \<and> live_times t = {10..50}"
proof -
  have "(\<Union>(dt, ct) \<in> set [(10, 20), (40, 50), (15, 45 :: u64)]. {dt..ct}) = {10..50}"
    by (auto simp: word_le_nat_alt word_less_nat_alt)
  then show ?thesis
    using active_periods [of "[(10, 20), (40, 50), (15, 45)]"] by auto
qed

text \<open>The report counts the periods and their length, but measures them against the time from \<open>0\<close> to the last completion,
  because the start is never set to the first dispatch.\<close>

theorem active_report:
  assumes "live_inv t" "1 < length (inorder t)" "length (inorder t) < 2 ^ 64"
  shows "fst (p_live_get opened t y) = \<lparr>nlives = of_nat (length (inorder t)),
      avg_live = BIT_TIME (live_length t) / real (length (inorder t)),
      avg_lull = (BIT_TIME (pl_ct (last (inorder t))) - BIT_TIME (live_length t)) / real (length (inorder t) - 1),
      live_percent = 100 * (BIT_TIME (live_length t) / BIT_TIME (pl_ct (last (inorder t))))\<rparr>"
  by (rule p_live_get_values [OF assms])

definition example_periods :: "p_live rb" where
  "example_periods = Nd RB_BLACK (Nd RB_RED Null \<lparr>pl_dt = 8000000000, pl_ct = 8500000000\<rparr> Null)
     \<lparr>pl_dt = 9500000000, pl_ct = 10000000000\<rparr> Null"

text \<open>Active for half of the two seconds, reported as ten percent.\<close>

lemma active_report_witness: "live_percent (fst (p_live_get False example_periods 0)) = 10"
proof -
  have "live_inv example_periods" "1 < length (inorder example_periods)" "length (inorder example_periods) < 2 ^ 64"
    by (simp_all add: example_periods_def live_inv_def rb_inv_def)
  then show ?thesis
    by (subst active_report) (simp_all add: example_periods_def live_length_def BIT_TIME_TO_SEC TO_SEC_def)
qed

end
