(* ===== verification/Btt_Seek.thy ===== *)
theory Btt_Seek
  imports Btt_Base "HOL-Library.Signed_Division"
begin

text \<open>
  Seeks in btt, \<open>btt/seek.c\<close>: the distance of each trace from the one before, counted per distance in a tree, with the median and
  the modes that are reported, and the seeks per second. A \<open>long long\<close> is a word of 64 bits, compared with its sign. A file is
  \<open>None\<close> for \<open>NULL\<close> or else the list of the values printed to it.
\<close>

section \<open>State\<close>

type_synonym s64 = "64 word"

record seek_bkt =
  sb_sectors :: s64
  sb_nseeks :: u32

record sps_bkt =
  t_start :: real
  t_last :: real
  sps_nseeks :: u64

record seeki =
  rfp :: "(real \<times> s64 \<times> char) list option"
  wfp :: "(real \<times> s64 \<times> char) list option"
  cfp :: "(real \<times> s64 \<times> char) list option"
  sps_fp :: "(real \<times> real) list option"
  seek_root :: "seek_bkt rb"
  sps :: sps_bkt
  tot_seeks :: s64
  total_sectors :: real
  last_start :: s64
  last_end :: s64

text \<open>A line at the end of a file.\<close>

definition fprintf :: "'a \<Rightarrow> 'a list option \<Rightarrow> 'a list option" where
  "fprintf x fp = map_option (\<lambda>xs. xs @ [x]) fp"

text \<open>Which files are open is the parameter of \<open>seeki_alloc\<close>.\<close>

definition seeki_alloc :: "bool \<Rightarrow> bool \<Rightarrow> bool \<Rightarrow> bool \<Rightarrow> seeki" where
  "seeki_alloc r w c s = \<lparr>rfp = if r then Some [] else None, wfp = if w then Some [] else None,
     cfp = if c then Some [] else None, sps_fp = if s then Some [] else None, seek_root = Null,
     sps = \<lparr>t_start = 0, t_last = 0, sps_nseeks = 0\<rparr>, tot_seeks = 0, total_sectors = 0, last_start = 0, last_end = 0\<rparr>"

section \<open>Operations\<close>

definition sb_key :: "seek_bkt \<Rightarrow> int" where
  "sb_key b = sint (sb_sectors b)"

definition seek_insert :: "s64 \<Rightarrow> seek_bkt rb \<Rightarrow> seek_bkt rb option" where
  "seek_insert sectors tree =
     (case rb_find sb_key (sint sectors) tree [] of
        Some pos \<Rightarrow> Some (modify_at (\<lambda>b. b\<lparr>sb_nseeks := sb_nseeks b + 1\<rparr>) pos)
      | None \<Rightarrow> Option.bind (rb_place sb_key (sint sectors) tree [])
                 (rb_link_insert \<lparr>sb_sectors = sectors, sb_nseeks = 1\<rparr>))"

definition DBL_EPSILON :: real where
  "DBL_EPSILON = 1 / 2 ^ 52"

definition sps_emit :: "seeki \<Rightarrow> seeki" where
  "sps_emit sip =
     (let b = sps sip; delta = t_last b - t_start b;
          s_p_s = (if sps_nseeks b = 1 \<or> delta < DBL_EPSILON then real (unat (sps_nseeks b))
                   else real (unat (sps_nseeks b)) / delta)
      in sip\<lparr>sps_fp := fprintf (t_start b, s_p_s) (sps_fp sip), sps := b\<lparr>t_start := 0, sps_nseeks := 0\<rparr>\<rparr>)"

definition sps_add :: "real \<Rightarrow> seeki \<Rightarrow> seeki" where
  "sps_add t sip =
     (if sps_fp sip \<noteq> None then
        let sip1 = (if sps_nseeks (sps sip) \<noteq> 0 \<and> t - t_start (sps sip) \<ge> 1 then sps_emit sip else sip);
            b = (sps sip1)\<lparr>t_last := t\<rparr>
        in if sps_nseeks b = 0 then sip1\<lparr>sps := b\<lparr>t_start := t, sps_nseeks := 1\<rparr>\<rparr>
           else sip1\<lparr>sps := b\<lparr>sps_nseeks := sps_nseeks b + 1\<rparr>\<rparr>
      else sip)"

text \<open>\<open>a \<le> b\<close> and \<open>a > b\<close> on \<open>long long\<close>.\<close>

definition s_le :: "s64 \<Rightarrow> s64 \<Rightarrow> bool" where
  "s_le a b \<longleftrightarrow> sint a \<le> sint b"

definition seek_dist :: "bool \<Rightarrow> io \<Rightarrow> seeki \<Rightarrow> s64 \<times> seeki" where
  "seek_dist seek_absolute iop sip =
     (let start = BIT_START iop; stop = BIT_END iop;
          dist = (if seek_absolute then start - last_end sip
                  else if s_le (last_start sip) start \<and> s_le start (last_end sip)
                    \<or> s_le (last_start sip) stop \<and> s_le stop (last_end sip) then 0
                  else if \<not> s_le start (last_end sip) then start - last_end sip
                  else start - last_start sip)
      in (dist, sip\<lparr>last_start := start, last_end := stop\<rparr>))"

definition llabs :: "s64 \<Rightarrow> s64" where
  "llabs x = (if sint x < 0 then - x else x)"

definition seeki_add :: "bool \<Rightarrow> io \<Rightarrow> seeki \<Rightarrow> seeki option" where
  "seeki_add seek_absolute iop sip =
     (let rw = (if IOP_READ iop then CHR ''r'' else CHR ''w'');
          (dist, sip1) = seek_dist seek_absolute iop sip;
          tstamp = BIT_TIME (tr_time (io_t iop));
          sip2 = (if IOP_READ iop then sip1\<lparr>rfp := fprintf (tstamp, dist, rw) (rfp sip1)\<rparr>
                  else sip1\<lparr>wfp := fprintf (tstamp, dist, rw) (wfp sip1)\<rparr>);
          sip3 = sip2\<lparr>cfp := fprintf (tstamp, dist, rw) (cfp sip2)\<rparr>;
          len = llabs dist
      in map_option (\<lambda>t. sps_add tstamp (sip3\<lparr>tot_seeks := tot_seeks sip3 + 1,
             total_sectors := total_sectors sip3 + of_int (sint len), seek_root := t\<rparr>))
           (seek_insert len (seek_root sip3)))"

text \<open>\<open>seeki_free\<close> prints the last seeks per second.\<close>

definition seeki_free :: "seeki \<Rightarrow> seeki" where
  "seeki_free sip = (if sps_fp sip \<noteq> None \<and> sps_nseeks (sps sip) \<noteq> 0 then sps_emit sip else sip)"

definition seeki_nseeks :: "seeki \<Rightarrow> s64" where
  "seeki_nseeks sip = tot_seeks sip"

definition seeki_mean :: "seeki \<Rightarrow> real" where
  "seeki_mean sip = total_sectors sip / of_int (sint (tot_seeks sip))"

text \<open>\<open>__median\<close>: the value that is stored when the function returns \<open>1\<close>; the parameter \<open>sofar\<close> never changes.\<close>

fun seek_median :: "seek_bkt rb \<Rightarrow> s64 \<Rightarrow> s64 \<Rightarrow> s64 option" where
  "seek_median Null sofar target = None"
| "seek_median (Nd c l b r) sofar target =
     (if s_le target (sofar + scast (sb_nseeks b)) then Some (sb_sectors b)
      else case seek_median l sofar target of
             Some v \<Rightarrow> Some v
           | None \<Rightarrow> seek_median r sofar target)"

text \<open>\<open>tot_seeks / 2\<close> rounds towards zero.\<close>

definition seeki_median :: "seeki \<Rightarrow> s64" where
  "seeki_median sip = (case seek_median (seek_root sip) 0 (word_of_int (sint (tot_seeks sip) sdiv 2)) of
     None \<Rightarrow> 0 | Some v \<Rightarrow> v)"

record seek_mode =
  most_seeks :: u32
  modes :: "s64 list option"

text \<open>\<open>nmds\<close> is the length of the list \<open>modes\<close>, which is \<open>NULL\<close> at first.\<close>

definition mode_visit :: "seek_bkt \<Rightarrow> seek_mode \<Rightarrow> seek_mode" where
  "mode_visit b mp =
     (let add = (\<lambda>ms. \<lparr>most_seeks = sb_nseeks b, modes = Some (ms @ [sb_sectors b])\<rparr>)
      in case modes mp of
           None \<Rightarrow> add []
         | Some ms \<Rightarrow> if sint (most_seeks mp) < sint (sb_nseeks b) then add []
                     else if sb_nseeks b = most_seeks mp then add ms
                     else mp)"

fun mode_walk :: "seek_bkt rb \<Rightarrow> seek_mode \<Rightarrow> seek_mode" where
  "mode_walk Null mp = mp"
| "mode_walk (Nd c l b r) mp = mode_visit b (mode_walk r (mode_walk l mp))"

definition seeki_mode :: "seeki \<Rightarrow> seek_mode" where
  "seeki_mode sip = mode_walk (seek_root sip) \<lparr>most_seeks = 0, modes = None\<rparr>"

definition nmds :: "seek_mode \<Rightarrow> nat" where
  "nmds mp = (case modes mp of None \<Rightarrow> 0 | Some ms \<Rightarrow> length ms)"


section \<open>The tree counts the distances\<close>

text \<open>What the tree holds after the distances \<open>ds\<close>.\<close>

definition buckets :: "s64 list \<Rightarrow> int \<Rightarrow> seek_bkt option" where
  "buckets ds k = (let d = word_of_int k
     in if d \<in> set ds \<and> sint d = k then Some \<lparr>sb_sectors = d, sb_nseeks = of_nat (count_list ds d)\<rparr> else None)"

definition counts :: "s64 list \<Rightarrow> seek_bkt rb \<Rightarrow> bool" where
  "counts ds t \<longleftrightarrow> keyed_inv sb_key t \<and> tree_map sb_key t = buckets ds"

lemma buckets_sint: "buckets ds (sint d) = (if d \<in> set ds then Some \<lparr>sb_sectors = d, sb_nseeks = of_nat (count_list ds d)\<rparr> else None)"
  by (simp add: buckets_def)

lemma buckets_snoc:
  "buckets (ds @ [d]) = (buckets ds)(sint d \<mapsto> \<lparr>sb_sectors = d, sb_nseeks = of_nat (count_list ds d) + 1\<rparr>)"
proof
  fix k
  show "buckets (ds @ [d]) k = ((buckets ds)(sint d \<mapsto> \<lparr>sb_sectors = d, sb_nseeks = of_nat (count_list ds d) + 1\<rparr>)) k"
    by (cases "k = sint d") (auto simp: buckets_def Let_def)
qed

lemma seek_insert_ok:
  assumes "counts ds t"
  shows "\<exists>t'. seek_insert d t = Some t' \<and> counts (ds @ [d]) t'"
proof (cases "rb_find sb_key (sint d) t []")
  case None
  then obtain p where p: "rb_place sb_key (sint d) t [] = Some p"
    using rb_place_find [of sb_key "sint d" t "[]"] by auto
  let ?b = "\<lparr>sb_sectors = d, sb_nseeks = 1\<rparr>"
  have "sb_key ?b = sint d"
    by (simp add: sb_key_def)
  then obtain t' where t': "rb_link_insert ?b p = Some t'" "keyed_inv sb_key t'"
    "tree_map sb_key t' = (tree_map sb_key t)(sint d \<mapsto> ?b)"
    using insert_refines [of sb_key t ?b p] p assms by (auto simp: counts_def)
  have "d \<notin> set ds"
    using find_refines [of sb_key t "sint d"] None assms buckets_sint [of ds d] by (auto simp: counts_def split: if_splits)
  then have "count_list ds d = 0"
    by (simp add: count_list_0_iff)
  then show ?thesis
    using t' None p assms by (simp add: seek_insert_def counts_def buckets_snoc)
next
  case (Some pos)
  obtain u q where pos: "pos = (u, q)"
    by (cases pos)
  let ?f = "\<lambda>b. b\<lparr>sb_nseeks := sb_nseeks b + 1\<rparr>"
  have inv: "keyed_inv sb_key t"
    using assms by (simp add: counts_def)
  have key: "\<And>b. sb_key (?f b) = sb_key b"
    by (simp add: sb_key_def)
  note found = Some [unfolded pos]
  have t': "keyed_inv sb_key (modify_at ?f pos)"
    "tree_map sb_key (modify_at ?f pos) = (tree_map sb_key t)(sint d := map_option ?f (tree_map sb_key t (sint d)))"
    using modify_refines [of sb_key t "sint d" u q ?f, OF inv found key] unfolding pos by blast+
  have "tree_map sb_key t (sint d) \<noteq> None"
    using find_refines [OF inv, of "sint d"] Some pos rb_find_Some [of sb_key "sint d" t "[]" u q] by auto
  then have "buckets ds (sint d) \<noteq> None"
    using assms by (simp add: counts_def)
  then show ?thesis
    using t' Some assms by (auto simp: seek_insert_def counts_def buckets_snoc buckets_sint split: if_splits)
qed


lemma counts_Nil: "counts [] Null"
  by (simp add: counts_def buckets_def fun_eq_iff)

lemma counts_elems:
  assumes "counts ds t"
  shows "b \<in> set (inorder t) \<longleftrightarrow> sb_sectors b \<in> set ds \<and> sb_nseeks b = of_nat (count_list ds (sb_sectors b))"
proof -
  have "b \<in> set (inorder t) \<longleftrightarrow> buckets ds (sb_key b) = Some b"
    using assms tree_map_Some [of sb_key t "sb_key b" b] by (simp add: counts_def)
  then show ?thesis
    by (cases b) (auto simp: sb_key_def buckets_sint)
qed

section \<open>Many traces\<close>

fun seeki_adds :: "bool \<Rightarrow> io list \<Rightarrow> seeki \<Rightarrow> seeki option" where
  "seeki_adds seek_absolute [] sip = Some sip"
| "seeki_adds seek_absolute (iop # ios) sip = Option.bind (seeki_add seek_absolute iop sip) (seeki_adds seek_absolute ios)"

text \<open>The distances of the traces.\<close>

fun seek_dists :: "bool \<Rightarrow> io list \<Rightarrow> seeki \<Rightarrow> s64 list" where
  "seek_dists seek_absolute [] sip = []"
| "seek_dists seek_absolute (iop # ios) sip =
     (let (dist, sip') = seek_dist seek_absolute iop sip in llabs dist # seek_dists seek_absolute ios sip')"

lemma seek_dist_cong:
  "last_start s = last_start s' \<Longrightarrow> last_end s = last_end s' \<Longrightarrow> fst (seek_dist a iop s) = fst (seek_dist a iop s')"
  by (simp add: seek_dist_def Let_def)

lemma seek_dist_frame [simp]:
  "last_start (snd (seek_dist a iop s)) = BIT_START iop" "last_end (snd (seek_dist a iop s)) = BIT_END iop"
  "seek_root (snd (seek_dist a iop s)) = seek_root s" "tot_seeks (snd (seek_dist a iop s)) = tot_seeks s"
  by (simp_all add: seek_dist_def Let_def)

lemma seek_dists_cong:
  "last_start s = last_start s' \<Longrightarrow> last_end s = last_end s' \<Longrightarrow> seek_dists a ios s = seek_dists a ios s'"
proof (induction ios arbitrary: s s')
  case (Cons iop ios)
  show ?case
    using Cons.IH [of "snd (seek_dist a iop s)" "snd (seek_dist a iop s')"] seek_dist_cong [of s s' a iop] Cons.prems
    by (simp add: case_prod_beta Let_def)
qed simp

lemma sps_emit_frame [simp]:
  "last_start (sps_emit s) = last_start s" "last_end (sps_emit s) = last_end s"
  "seek_root (sps_emit s) = seek_root s" "tot_seeks (sps_emit s) = tot_seeks s"
  by (simp_all add: sps_emit_def Let_def)

lemma sps_add_frame [simp]:
  "last_start (sps_add t s) = last_start s" "last_end (sps_add t s) = last_end s"
  "seek_root (sps_add t s) = seek_root s" "tot_seeks (sps_add t s) = tot_seeks s"
  by (simp_all add: sps_add_def Let_def)

lemma seeki_add_ok:
  assumes "counts ds (seek_root s)" "tot_seeks s = of_nat (length ds)"
  shows "\<exists>s'. seeki_add a iop s = Some s' \<and> counts (ds @ [llabs (fst (seek_dist a iop s))]) (seek_root s')
    \<and> tot_seeks s' = of_nat (Suc (length ds)) \<and> last_start s' = BIT_START iop \<and> last_end s' = BIT_END iop"
proof -
  obtain t where "seek_insert (llabs (fst (seek_dist a iop s))) (seek_root s) = Some t"
    "counts (ds @ [llabs (fst (seek_dist a iop s))]) t"
    using seek_insert_ok [OF assms(1)] by blast
  then show ?thesis
    using assms(2) by (simp add: seeki_add_def case_prod_beta Let_def)
qed

lemma seeki_adds_ok:
  assumes "counts ds (seek_root s)" "tot_seeks s = of_nat (length ds)"
  shows "\<exists>s'. seeki_adds a ios s = Some s' \<and> counts (ds @ seek_dists a ios s) (seek_root s')
    \<and> tot_seeks s' = of_nat (length ds + length ios)"
  using assms
proof (induction ios arbitrary: ds s)
  case (Cons iop ios)
  obtain s' where s': "seeki_add a iop s = Some s'" "counts (ds @ [llabs (fst (seek_dist a iop s))]) (seek_root s')"
    "tot_seeks s' = of_nat (length (ds @ [llabs (fst (seek_dist a iop s))]))"
    "last_start s' = BIT_START iop" "last_end s' = BIT_END iop"
    using seeki_add_ok [OF Cons.prems] by auto
  have "seek_dists a ios s' = seek_dists a ios (snd (seek_dist a iop s))"
    using s' by (intro seek_dists_cong) simp_all
  then show ?case
    using Cons.IH [OF s'(2,3)] s'(1) by (simp add: case_prod_beta Let_def)
qed simp

lemma length_seek_dists [simp]: "length (seek_dists a ios s) = length ios"
  by (induction ios arbitrary: s) (simp_all add: case_prod_beta Let_def)

section \<open>Modes\<close>

fun postorder :: "'a rb \<Rightarrow> 'a list" where
  "postorder Null = []"
| "postorder (Nd c l x r) = postorder l @ postorder r @ [x]"

lemma set_postorder [simp]: "set (postorder t) = set (inorder t)"
  by (induction t) auto

lemma mode_walk_fold: "mode_walk t mp = fold mode_visit (postorder t) mp"
  by (induction t arbitrary: mp) simp_all

definition most_often :: "seek_bkt list \<Rightarrow> u32 \<Rightarrow> bool" where
  "most_often bs n \<longleftrightarrow> n \<in> sb_nseeks ` set bs \<and> (\<forall>b \<in> set bs. sint (sb_nseeks b) \<le> sint n)"

lemma fold_mode_visit:
  "bs \<noteq> [] \<Longrightarrow> \<exists>n. most_often bs n \<and> fold mode_visit bs \<lparr>most_seeks = 0, modes = None\<rparr>
     = \<lparr>most_seeks = n, modes = Some (map sb_sectors (filter (\<lambda>b. sb_nseeks b = n) bs))\<rparr>"
proof (induction bs rule: rev_induct)
  case (snoc b bs)
  show ?case
  proof (cases "bs = []")
    case True
    then show ?thesis
      by (simp add: mode_visit_def most_often_def)
  next
    case False
    then obtain n where n: "most_often bs n" "fold mode_visit bs \<lparr>most_seeks = 0, modes = None\<rparr>
      = \<lparr>most_seeks = n, modes = Some (map sb_sectors (filter (\<lambda>b. sb_nseeks b = n) bs))\<rparr>"
      using snoc.IH by blast
    have less: "filter (\<lambda>x. sb_nseeks x = sb_nseeks b) bs = []" if "sint n < sint (sb_nseeks b)"
      using n(1) that by (auto simp: most_often_def filter_empty_conv)
    have "most_often (bs @ [b]) (if sint n < sint (sb_nseeks b) then sb_nseeks b else n)"
      using n(1) by (auto simp: most_often_def)
    then show ?thesis
      using n(2) less by (auto simp: mode_visit_def [of b] Let_def)
  qed
qed simp


lemma sint_of_nat_32: "n < 2 ^ 31 \<Longrightarrow> sint (of_nat n :: u32) = int n"
  by (simp add: signed_of_nat signed_take_bit_int_eq_self)

lemma sint_of_nat_64: "n < 2 ^ 63 \<Longrightarrow> sint (of_nat n :: s64) = int n"
  by (simp add: signed_of_nat signed_take_bit_int_eq_self)

lemma scast_of_nat_32: "n < 2 ^ 31 \<Longrightarrow> (scast (of_nat n :: u32) :: s64) = of_nat n"
  by (metis of_int_of_nat_eq of_int_sint sint_of_nat_32)

lemma count_le: "count_list ds d \<le> length ds"
  by (induction ds) auto

lemma mode_of_counts:
  assumes "counts ds t" "ds \<noteq> []" "length ds < 2 ^ 31"
  shows "\<exists>n ms. mode_walk t \<lparr>most_seeks = 0, modes = None\<rparr> = \<lparr>most_seeks = of_nat n, modes = Some ms\<rparr>
    \<and> set ms = {d \<in> set ds. count_list ds d = n} \<and> n = Max (count_list ds ` set ds)"
proof -
  let ?bs = "postorder t"
  have small: "count_list ds d < 2 ^ 31" for d
    using count_le [of ds d] assms(3) by simp
  have elem: "\<lparr>sb_sectors = d, sb_nseeks = of_nat (count_list ds d)\<rparr> \<in> set ?bs" if "d \<in> set ds" for d
    using that counts_elems [OF assms(1)] by simp
  then obtain n where n: "most_often ?bs n" "mode_walk t \<lparr>most_seeks = 0, modes = None\<rparr>
    = \<lparr>most_seeks = n, modes = Some (map sb_sectors (filter (\<lambda>b. sb_nseeks b = n) ?bs))\<rparr>"
    using fold_mode_visit [of ?bs] assms(2) by (metis list.set_sel(1) empty_iff empty_set mode_walk_fold)
  then obtain d where d: "d \<in> set ds" "n = of_nat (count_list ds d)"
    using counts_elems [OF assms(1)] by (auto simp: most_often_def)
  have sint_n: "sint n = int (count_list ds d)"
    using d small sint_of_nat_32 by simp
  have max: "count_list ds e \<le> count_list ds d" if "e \<in> set ds" for e
    using n(1) elem [OF that] small [of e] sint_n sint_of_nat_32 unfolding most_often_def by fastforce
  have eq: "of_nat (count_list ds e) = n \<longleftrightarrow> count_list ds e = count_list ds d" for e
    using sint_of_nat_32 [OF small [of e]] sint_n d(2) by (metis of_nat_eq_iff)
  have "set (map sb_sectors (filter (\<lambda>b. sb_nseeks b = n) ?bs)) = {e \<in> set ds. count_list ds e = count_list ds d}"
    (is "?L = ?R")
  proof
    show "?L \<subseteq> ?R"
      using counts_elems [OF assms(1)] eq by (auto simp flip: eq)
    show "?R \<subseteq> ?L"
    proof
      fix e
      assume "e \<in> ?R"
      then have "\<lparr>sb_sectors = e, sb_nseeks = n\<rparr> \<in> set (filter (\<lambda>b. sb_nseeks b = n) ?bs)"
        using elem [of e] eq [of e] by simp
      then show "e \<in> ?L"
        by (metis imageI seek_bkt.select_convs(1) set_map)
    qed
  qed
  moreover have "count_list ds d = Max (count_list ds ` set ds)"
    using max d(1) by (intro Max_eqI [symmetric]) auto
  ultimately show ?thesis
    using n(2) d(2) by blast
qed

section \<open>The median\<close>

lemma seek_median_None: "seek_median t sofar target = None \<longleftrightarrow> (\<forall>b \<in> set (inorder t). \<not> s_le target (sofar + scast (sb_nseeks b)))"
  by (induction t) (auto split: option.splits)

lemma seek_median_Some:
  "seek_median t sofar target = Some d \<Longrightarrow> \<exists>b \<in> set (inorder t). sb_sectors b = d \<and> s_le target (sofar + scast (sb_nseeks b))"
  by (induction t) (auto split: option.splits if_splits)

lemma median_of_counts:
  assumes "counts ds t" "length ds < 2 ^ 31" "tot = (of_nat (length ds) :: s64)"
  shows "case seek_median t 0 (word_of_int (sint tot sdiv 2)) of
      None \<Rightarrow> \<forall>d \<in> set ds. count_list ds d < length ds div 2
    | Some d \<Rightarrow> d \<in> set ds \<and> length ds div 2 \<le> count_list ds d"
proof -
  have "sint tot = int (length ds)"
    using assms(2,3) sint_of_nat_64 [of "length ds"] by simp
  then have "word_of_int (sint tot sdiv 2) = (of_nat (length ds div 2) :: s64)"
    by (simp add: signed_divide_int_def sgn_if) (metis of_int_of_nat_eq of_nat_numeral zdiv_int)
  moreover have le: "s_le (of_nat (length ds div 2)) (0 + scast (of_nat (count_list ds d) :: u32)) \<longleftrightarrow> length ds div 2 \<le> count_list ds d" for d
    using assms(2) count_le [of ds d] by (simp add: s_le_def scast_of_nat_32 sint_of_nat_64)
  moreover have "\<forall>d \<in> set ds. count_list ds d < length ds div 2"
    if none: "seek_median t 0 (of_nat (length ds div 2)) = None"
  proof
    fix d
    assume "d \<in> set ds"
    then have "\<lparr>sb_sectors = d, sb_nseeks = of_nat (count_list ds d)\<rparr> \<in> set (inorder t)"
      using counts_elems [OF assms(1)] by simp
    then show "count_list ds d < length ds div 2"
      using none le [of d] unfolding seek_median_None not_le [symmetric] by (metis seek_bkt.select_convs(2))
  qed
  moreover have "d \<in> set ds \<and> length ds div 2 \<le> count_list ds d"
    if "seek_median t 0 (of_nat (length ds div 2)) = Some d" for d
    using seek_median_Some [OF that] counts_elems [OF assms(1)] le by metis
  ultimately show ?thesis
    by (simp split: option.split)
qed


section \<open>Properties\<close>

lemma seek_report:
  assumes "length ios < 2 ^ 31"
  shows "\<exists>sip. seeki_adds a ios (seeki_alloc r w c s) = Some sip
    \<and> counts (seek_dists a ios (seeki_alloc r w c s)) (seek_root sip) \<and> tot_seeks sip = of_nat (length ios)"
  using seeki_adds_ok [of "[]" "seeki_alloc r w c s" a ios] counts_Nil by (simp add: seeki_alloc_def)

text \<open>C17: after fewer than \<open>2 ^ 31\<close> traces the modes are exactly the most frequent distances, with their number.\<close>

theorem seek_modes_reported:
  assumes "ios \<noteq> []" "length ios < 2 ^ 31" "ds = seek_dists a ios (seeki_alloc r w c s)"
  shows "\<exists>sip n ms. seeki_adds a ios (seeki_alloc r w c s) = Some sip
    \<and> seeki_mode sip = \<lparr>most_seeks = of_nat n, modes = Some ms\<rparr>
    \<and> set ms = {d \<in> set ds. count_list ds d = n} \<and> n = Max (count_list ds ` set ds)"
proof -
  have len: "length ds = length ios"
    using assms(3) by simp
  then have ds: "ds \<noteq> []" "length ds < 2 ^ 31"
    using assms(1,2) by (metis length_0_conv, simp)
  obtain sip where sip: "seeki_adds a ios (seeki_alloc r w c s) = Some sip" "counts ds (seek_root sip)"
    using seek_report [OF assms(2), of a r w c s] assms(3) by auto
  show ?thesis
    using mode_of_counts [OF sip(2) ds] sip(1) by (simp add: seeki_mode_def)
qed

text \<open>The reported median is not one: it is a distance of at least half of the traces when there is such a distance, and \<open>0\<close>
  when there is none.\<close>

theorem seek_median_reported:
  assumes "length ios < 2 ^ 31" "ds = seek_dists a ios (seeki_alloc r w c s)"
  shows "\<exists>sip. seeki_adds a ios (seeki_alloc r w c s) = Some sip
    \<and> (if \<exists>d \<in> set ds. length ds div 2 \<le> count_list ds d
       then seeki_median sip \<in> set ds \<and> length ds div 2 \<le> count_list ds (seeki_median sip)
       else seeki_median sip = 0)"
proof -
  obtain sip where sip: "seeki_adds a ios (seeki_alloc r w c s) = Some sip"
    "counts ds (seek_root sip)" "tot_seeks sip = of_nat (length ds)"
    using seek_report [OF assms(1), of a r w c s] assms(2) by auto
  have "length ds < 2 ^ 31"
    using assms by simp
  note median = median_of_counts [OF sip(2) this sip(3)]
  show ?thesis
  proof (cases "seek_median (seek_root sip) 0 (word_of_int (sint (tot_seeks sip) sdiv 2))")
    case None
    then have "\<not> (\<exists>d \<in> set ds. length ds div 2 \<le> count_list ds d)" "seeki_median sip = 0"
      using median by (auto simp: seeki_median_def not_le)
    then show ?thesis
      using sip(1) by auto
  next
    case (Some d)
    then have "d \<in> set ds" "length ds div 2 \<le> count_list ds d" "seeki_median sip = d"
      using median by (auto simp: seeki_median_def)
    then show ?thesis
      using sip(1) by auto
  qed
qed

definition example_ios :: "io list" where
  "example_ios = [example_io 0 512, example_io 11 512, example_io 32 512, example_io 63 512]"

lemma example_dists: "seek_dists False example_ios (seeki_alloc r w c s) = [0, 10, 20, 30]"
  by (simp add: example_ios_def seeki_alloc_def seek_dist_def s_le_def llabs_def drop_bit_eq_div)

lemma seek_modes_reported_witness:
  "\<exists>sip n ms. seeki_adds False example_ios (seeki_alloc False False False False) = Some sip
     \<and> seeki_mode sip = \<lparr>most_seeks = of_nat n, modes = Some ms\<rparr> \<and> set ms = {0, 10, 20, 30}"
proof -
  have "example_ios \<noteq> []" "length example_ios < 2 ^ 31"
    by (simp_all add: example_ios_def)
  from seek_modes_reported [OF this refl, of False False False False False] show ?thesis
    unfolding example_dists by fastforce
qed

lemma seek_median_reported_witness:
  "\<exists>sip. seeki_adds False example_ios (seeki_alloc False False False False) = Some sip \<and> seeki_median sip = 0"
proof -
  have "length example_ios < 2 ^ 31"
    by (simp add: example_ios_def)
  from seek_median_reported [OF this refl, of False False False False False] show ?thesis
    unfolding example_dists by auto
qed

end
