(* ===== verification/Btt_Files.thy ===== *)
theory Btt_Files
  imports Btt_Seek
begin

text \<open>
  The small collectors of btt: the depth of the queue of a driver (\<open>aqd.c\<close>), average latencies (\<open>plat.c\<close>, \<open>latency.c\<close>), the histogram of
  the time to dispatch (\<open>q2d.c\<close>), of the requests per unplug (\<open>unplug_hist.c\<close>), the rates per second (\<open>rstats.c\<close>) and the
  block numbers (\<open>bno_dump.c\<close>). A handle that is \<open>NULL\<close> is \<open>None\<close>; a file is the list of the values printed to it.
\<close>

section \<open>Depth of the driver's queue\<close>

record aqd_info =
  aqd_fp :: "(real \<times> u32) list"
  na :: u32

definition aqd_alloc :: "bool \<Rightarrow> aqd_info option" where
  "aqd_alloc opened = (if opened then Some \<lparr>aqd_fp = [], na = 0\<rparr> else None)"

definition aqd_issue :: "real \<Rightarrow> aqd_info option \<Rightarrow> aqd_info option" where
  "aqd_issue ts info =
     map_option (\<lambda>ap. ap\<lparr>aqd_fp := aqd_fp ap @ [(ts, na ap), (ts, na ap + 1)], na := na ap + 1\<rparr>) info"

definition aqd_complete :: "real \<Rightarrow> aqd_info option \<Rightarrow> aqd_info option" where
  "aqd_complete ts info =
     map_option (\<lambda>ap. if sint (na ap) > 0
                      then ap\<lparr>aqd_fp := aqd_fp ap @ [(ts, na ap), (ts, na ap - 1)], na := na ap - 1\<rparr>
                      else ap) info"

section \<open>Average latencies\<close>

record plat_info =
  nl :: s64
  plat_fp :: "(real \<times> real) list"
  first_ts :: real
  last_ts :: real
  tl :: real

definition plat_alloc :: "real \<Rightarrow> bool \<Rightarrow> plat_info option" where
  "plat_alloc plat_freq opened =
     (if plat_freq \<le> 0 then None
      else if opened then Some \<lparr>nl = 0, plat_fp = [], first_ts = -1, last_ts = -1, tl = -1\<rparr> else None)"

text \<open>The line for the traces since \<open>first_ts\<close>.\<close>

definition plat_line :: "plat_info \<Rightarrow> real \<times> real" where
  "plat_line pp = (let delta = last_ts pp - first_ts pp in (first_ts pp + delta / 2, tl pp / of_int (sint (nl pp))))"

definition plat_x2c :: "real \<Rightarrow> u64 \<Rightarrow> u64 \<Rightarrow> plat_info option \<Rightarrow> plat_info option" where
  "plat_x2c plat_freq ts latency info =
     map_option (\<lambda>pp. let now = TO_SEC ts; lat = TO_SEC latency
       in if first_ts pp = -1 then pp\<lparr>first_ts := now, last_ts := now, nl := 1, tl := lat\<rparr>
          else if now - first_ts pp \<ge> plat_freq then
            pp\<lparr>plat_fp := plat_fp pp @ [plat_line pp], first_ts := now, last_ts := now, nl := 1, tl := lat\<rparr>
          else pp\<lparr>last_ts := now, nl := nl pp + 1, tl := tl pp + lat\<rparr>) info"

text \<open>The file that \<open>plat_free\<close> leaves.\<close>

definition plat_free :: "plat_info option \<Rightarrow> (real \<times> real) list option" where
  "plat_free info = map_option (\<lambda>pp. if first_ts pp \<noteq> -1 then plat_fp pp @ [plat_line pp] else plat_fp pp) info"

definition latency_out :: "u64 \<Rightarrow> u64 \<Rightarrow> (real \<times> real) list option \<Rightarrow> (real \<times> real) list option" where
  "latency_out tstamp latency ofp = fprintf (TO_SEC tstamp, TO_SEC latency) ofp"

section \<open>Histogram of the time to dispatch\<close>

definition Q2D_MAX_HISTO :: nat where
  "Q2D_MAX_HISTO = 9"

record q2d_info =
  nhistos :: u64
  histos :: "u64 list"

definition q2d_alloc :: q2d_info where
  "q2d_alloc = \<lparr>nhistos = 0, histos = replicate (Q2D_MAX_HISTO + 1) 0\<rparr>"

text \<open>The index for a number of milliseconds.\<close>

definition q2d_index :: "int \<Rightarrow> nat" where
  "q2d_index msec =
     (if 500 \<le> msec \<and> msec \<le> 999 then 8
      else if 250 \<le> msec \<and> msec \<le> 499 then 7
      else if 100 \<le> msec \<and> msec \<le> 249 then 6
      else if 75 \<le> msec \<and> msec \<le> 99 then 5
      else if 50 \<le> msec \<and> msec \<le> 74 then 4
      else if 25 \<le> msec \<and> msec \<le> 49 then 3
      else if 10 \<le> msec \<and> msec \<le> 24 then 2
      else if 5 \<le> msec \<and> msec \<le> 9 then 1
      else if 0 \<le> msec \<and> msec \<le> 4 then 0
      else 9)"

definition q2d_histo_add :: "u64 \<Rightarrow> q2d_info \<Rightarrow> q2d_info" where
  "q2d_histo_add q2d_in q2dp =
     (let q2d = BIT_TIME q2d_in; msec = \<lfloor>q2d / (1 / 1000)\<rfloor>; index = q2d_index msec
      in q2dp\<lparr>histos := (histos q2dp)[index := histos q2dp ! index + 1], nhistos := nhistos q2dp + 1\<rparr>)"

definition q2d_ok :: "q2d_info option \<Rightarrow> bool" where
  "q2d_ok priv = (case priv of None \<Rightarrow> False | Some q2dp \<Rightarrow> nhistos q2dp > 0)"

definition q2d_acc :: "q2d_info \<Rightarrow> q2d_info \<Rightarrow> q2d_info" where
  "q2d_acc ap tp = ap\<lparr>histos := map2 (+) (histos ap) (histos tp), nhistos := nhistos ap + nhistos tp\<rparr>"

text \<open>The percentages that are printed.\<close>

definition q2d_display :: "q2d_info \<Rightarrow> real list" where
  "q2d_display q2dp = map (\<lambda>h. 100 * real (unat h) / real (unat (nhistos q2dp))) (histos q2dp)"

section \<open>Requests per unplug\<close>

definition BKT_WIDTH :: int where
  "BKT_WIDTH = 5"

definition EXCESS_BKT :: nat where
  "EXCESS_BKT = 20"

definition NBKTS :: nat where
  "NBKTS = EXCESS_BKT + 1"

text \<open>The part of the array that \<open>memset\<close> clears; what lies behind it is not used.\<close>

definition unplug_hist_alloc :: "bool \<Rightarrow> u32 list option" where
  "unplug_hist_alloc named = (if named then Some (replicate NBKTS 0) else None)"

text \<open>The number of requests is cut to an \<open>int\<close>. A negative index lies before the array.\<close>

definition unplug_hist_count :: "u64 \<Rightarrow> u32 list \<Rightarrow> u32 list option" where
  "unplug_hist_count nios hist =
     (let n_unplugs = sint (ucast nios :: u32); idx = min (n_unplugs sdiv BKT_WIDTH) (int EXCESS_BKT)
      in if 0 \<le> idx then Some (hist[nat idx := hist ! nat idx + 1]) else None)"

text \<open>The lines of the file.\<close>

definition unplug_hist_free :: "u32 list \<Rightarrow> (nat \<times> u32) list" where
  "unplug_hist_free hist = map (\<lambda>i. (i, hist ! i)) [0..<NBKTS]"

section \<open>Rates\<close>

record rstat =
  iops_fp :: "(s64 \<times> u64) list"
  mbps_fp :: "(s64 \<times> real) list"
  rs_ios :: u64
  rs_nblks :: u64
  base_sec :: s64

text \<open>\<open>NULL\<close> when one of the files cannot be opened.\<close>

definition rstat_alloc :: "bool \<Rightarrow> rstat option" where
  "rstat_alloc opened =
     (if opened then Some \<lparr>iops_fp = [], mbps_fp = [], rs_ios = 0, rs_nblks = 0, base_sec = -1\<rparr> else None)"

definition rstat_emit :: "real \<Rightarrow> rstat \<Rightarrow> rstat" where
  "rstat_emit cur rsip =
     (let mbps = (real (unat (rs_nblks rsip)) * 512) / (1024 * 1024)
      in rsip\<lparr>iops_fp := iops_fp rsip @ [(base_sec rsip, rs_ios rsip)], mbps_fp := mbps_fp rsip @ [(base_sec rsip, mbps)],
              base_sec := word_of_int \<lfloor>cur\<rfloor>, rs_ios := 0, rs_nblks := 0\<rparr>)"

definition rstat_count :: "real \<Rightarrow> u64 \<Rightarrow> rstat \<Rightarrow> rstat" where
  "rstat_count cur nblks rsip =
     (let rsip1 = (if sint (base_sec rsip) < 0 then rsip\<lparr>base_sec := word_of_int \<lfloor>cur\<rfloor>\<rparr>
                   else if sint (word_of_int \<lfloor>cur\<rfloor> - base_sec rsip) \<ge> 1 then rstat_emit cur rsip
                   else rsip)
      in rsip1\<lparr>rs_ios := rs_ios rsip1 + 1, rs_nblks := rs_nblks rsip1 + nblks\<rparr>)"

text \<open>\<open>rstat_add\<close> counts for the device, when it has a handle, and for the system.\<close>

definition rstat_add :: "real \<Rightarrow> u64 \<Rightarrow> rstat option \<times> rstat \<Rightarrow> rstat option \<times> rstat" where
  "rstat_add cur nblks = (\<lambda>(ptr, sys_info). (map_option (rstat_count cur nblks) ptr, rstat_count cur nblks sys_info))"

section \<open>Block numbers\<close>

record bno_dump =
  bno_rfp :: "(real \<times> u64 \<times> u64) list option"
  bno_wfp :: "(real \<times> u64 \<times> u64) list option"
  bno_cfp :: "(real \<times> u64 \<times> u64) list option"

definition bno_dump_write :: "io \<Rightarrow> (real \<times> u64 \<times> u64) list option \<Rightarrow> (real \<times> u64 \<times> u64) list option" where
  "bno_dump_write iop fp = fprintf (BIT_TIME (tr_time (io_t iop)), BIT_START iop, BIT_END iop) fp"

definition bno_dump_alloc :: "bool \<Rightarrow> bool \<Rightarrow> bool \<Rightarrow> bool \<Rightarrow> bno_dump option" where
  "bno_dump_alloc named r w c =
     (if named then Some \<lparr>bno_rfp = if r then Some [] else None, bno_wfp = if w then Some [] else None,
        bno_cfp = if c then Some [] else None\<rparr>
      else None)"

definition bno_dump_add :: "io \<Rightarrow> bno_dump option \<Rightarrow> bno_dump option" where
  "bno_dump_add iop handle =
     map_option (\<lambda>bdp.
       let bdp1 = (if IOP_READ iop then bdp\<lparr>bno_rfp := bno_dump_write iop (bno_rfp bdp)\<rparr>
                   else bdp\<lparr>bno_wfp := bno_dump_write iop (bno_wfp bdp)\<rparr>)
       in bdp1\<lparr>bno_cfp := bno_dump_write iop (bno_cfp bdp1)\<rparr>) handle"

section \<open>Lemmas\<close>

lemma q2d_index_bound: "q2d_index m \<le> Q2D_MAX_HISTO"
  by (simp add: q2d_index_def Q2D_MAX_HISTO_def)

lemma sum_list_update_inc:
  "i < length hs \<Longrightarrow> sum_list (hs[i := hs ! i + 1]) = sum_list hs + (1 :: u64)"
  by (induction hs arbitrary: i) (simp_all add: nth_Cons ac_simps split: nat.split)

text \<open>Each bucket counts, and their sum is the number of requests.\<close>

lemma q2d_histos_sum:
  assumes "length (histos q) = Q2D_MAX_HISTO + 1" "sum_list (histos q) = nhistos q"
  shows "length (histos (q2d_histo_add d q)) = Q2D_MAX_HISTO + 1"
    and "sum_list (histos (q2d_histo_add d q)) = nhistos (q2d_histo_add d q)"
  using assms q2d_index_bound by (simp_all add: q2d_histo_add_def Let_def sum_list_update_inc less_Suc_eq_le)

lemma unplug_hist_count_ok:
  assumes "sint (ucast nios :: u32) \<ge> 0" "length hist = NBKTS"
  shows "\<exists>hist'. unplug_hist_count nios hist = Some hist' \<and> length hist' = NBKTS"
  using assms by (auto simp: unplug_hist_count_def Let_def BKT_WIDTH_def signed_divide_int_def sgn_if min_def)

text \<open>The requests in the lines and those that are counted at the moment.\<close>

definition rstat_total :: "rstat \<Rightarrow> u64" where
  "rstat_total rs = sum_list (map snd (iops_fp rs)) + rs_ios rs"

lemma rstat_emit_total [simp]: "rstat_total (rstat_emit cur rs) = rstat_total rs"
  by (simp add: rstat_total_def rstat_emit_def)

lemma rstat_count_total: "rstat_total (rstat_count cur n rs) = rstat_total rs + 1"
  using rstat_emit_total [of cur rs] by (simp add: rstat_count_def Let_def rstat_total_def)

end
