(* ===== verification/Btt_Iostat.thy ===== *)
theory Btt_Iostat
  imports Btt_Files
begin

text \<open>
  The statistics of btt in the format of \<open>iostat\<close>, \<open>btt/iostat.c\<close>. A device has them twice, for the current interval and for the
  whole run; \<open>rqm[0]\<close> and \<open>rqm[1]\<close> of the code are \<open>st_rqm False\<close> for writes and \<open>st_rqm True\<close> for reads.
\<close>

section \<open>Statistics\<close>

record stats =
  st_rqm :: "bool \<Rightarrow> u64"
  st_ios :: "bool \<Rightarrow> u64"
  st_sec :: "bool \<Rightarrow> u64"
  st_wait :: u64
  st_svctm :: u64
  last_qu_change :: real
  last_dev_change :: real
  tot_qusz :: real
  idle_time :: real
  cur_qusz :: u32
  cur_dev :: u32

definition zero_stats_btt :: stats where
  "zero_stats_btt = \<lparr>st_rqm = (\<lambda>_. 0), st_ios = (\<lambda>_. 0), st_sec = (\<lambda>_. 0), st_wait = 0, st_svctm = 0,
     last_qu_change = 0, last_dev_change = 0, tot_qusz = 0, idle_time = 0, cur_qusz = 0, cur_dev = 0\<rparr>"

text \<open>\<open>stats\<close> and \<open>all_stats\<close> of a device.\<close>

type_synonym both_stats = "stats \<times> stats"

definition in_both :: "(stats \<Rightarrow> stats) \<Rightarrow> both_stats \<Rightarrow> both_stats" where
  "in_both f = (\<lambda>(s, a). (f s, f a))"

definition update_tot_qusz :: "real \<Rightarrow> both_stats \<Rightarrow> both_stats" where
  "update_tot_qusz now = in_both (\<lambda>s. s\<lparr>tot_qusz := tot_qusz s + (now - last_qu_change s) * of_int (sint (cur_qusz s)),
     last_qu_change := now\<rparr>)"

definition update_idle_time :: "real \<Rightarrow> bool \<Rightarrow> both_stats \<Rightarrow> both_stats" where
  "update_idle_time now force = (\<lambda>(s, a).
     let idle = (cur_dev s = 0 \<or> force)
     in in_both (\<lambda>s. (if idle then s\<lparr>idle_time := idle_time s + (now - last_dev_change s)\<rparr> else s)\<lparr>last_dev_change := now\<rparr>) (s, a))"

section \<open>Events\<close>

definition iostat_getrq :: "io \<Rightarrow> both_stats \<Rightarrow> both_stats" where
  "iostat_getrq iop st =
     in_both (\<lambda>s. s\<lparr>cur_qusz := cur_qusz s + 1\<rparr>) (update_tot_qusz (TO_SEC (tr_time (io_t iop))) st)"

definition iostat_merge :: "io \<Rightarrow> both_stats \<Rightarrow> both_stats" where
  "iostat_merge iop = in_both (\<lambda>s. s\<lparr>st_rqm := (st_rqm s)(IOP_READ iop := st_rqm s (IOP_READ iop) + 1)\<rparr>)"

definition iostat_issue :: "io \<Rightarrow> both_stats \<Rightarrow> both_stats" where
  "iostat_issue iop st =
     (let rw = IOP_READ iop; now = TO_SEC (tr_time (io_t iop));
          st1 = in_both (\<lambda>s. s\<lparr>st_ios := (st_ios s)(rw := st_ios s rw + 1)\<rparr>) st;
          st2 = in_both (\<lambda>s. s\<lparr>st_sec := (st_sec s)(rw := st_sec s rw + ucast (drop_bit 9 (tr_bytes (io_t iop))))\<rparr>) st1
      in in_both (\<lambda>s. s\<lparr>cur_dev := cur_dev s + 1\<rparr>) (update_idle_time now False st2))"

text \<open>The waiting time goes to the device of the completion, the rest to the device of the queued trace.\<close>

definition iostat_wait :: "io \<Rightarrow> io \<Rightarrow> both_stats \<Rightarrow> both_stats" where
  "iostat_wait q_iop c_iop st =
     (let t = tr_time (io_t c_iop)
      in if i_time q_iop \<noteq> no_time then in_both (\<lambda>s. s\<lparr>st_wait := st_wait s + tdelta (i_time q_iop) t\<rparr>) st
         else if m_time q_iop \<noteq> no_time then in_both (\<lambda>s. s\<lparr>st_wait := st_wait s + tdelta (m_time q_iop) t\<rparr>) st
         else st)"

definition iostat_complete :: "io \<Rightarrow> io \<Rightarrow> both_stats \<Rightarrow> both_stats" where
  "iostat_complete q_iop c_iop st =
     (let now = TO_SEC (tr_time (io_t c_iop));
          st1 = in_both (\<lambda>s. s\<lparr>cur_qusz := cur_qusz s - 1\<rparr>) (update_tot_qusz now st);
          st2 = in_both (\<lambda>s. s\<lparr>cur_dev := cur_dev s - 1\<rparr>) (update_idle_time now False st1)
      in in_both (\<lambda>s. s\<lparr>st_svctm := st_svctm s + tdelta (tr_time (io_t q_iop)) (tr_time (io_t c_iop))\<rparr>) st2)"

section \<open>Reports\<close>

record stats_t =
  st_n :: real
  rqm_s :: "bool \<Rightarrow> real"
  ios_s :: "bool \<Rightarrow> real"
  sec_s :: "bool \<Rightarrow> real"
  avgrq_sz :: real
  avgqu_sz :: real
  st_await :: real
  st_svctm_t :: real
  p_util :: real

definition zero_stats_t :: stats_t where
  "zero_stats_t = \<lparr>st_n = 0, rqm_s = (\<lambda>_. 0), ios_s = (\<lambda>_. 0), sec_s = (\<lambda>_. 0), avgrq_sz = 0, avgqu_sz = 0,
     st_await = 0, st_svctm_t = 0, p_util = 0\<rparr>"

text \<open>A line: its head, the numbers, and the stamp, which is \<open>None\<close> where \<open>TOTAL\<close> is printed.\<close>

type_synonym iostat_line = "string \<times> real list \<times> real option"

text \<open>Division by zero, which gives an infinity or \<open>NaN\<close> in the code, is zero here.\<close>

definition dump_stats :: "u64 \<Rightarrow> bool \<Rightarrow> u64 \<Rightarrow> string \<Rightarrow> both_stats \<Rightarrow> stats_t \<Rightarrow> iostat_line \<times> both_stats \<times> stats_t" where
  "dump_stats stamp all since hdr st asp =
     (let now = TO_SEC stamp;
          dt = (if all then real (unat stamp) / 10 ^ 9 else real (unat (stamp - since)) / 10 ^ 9);
          sel = (\<lambda>(s, a). if all then a else s);
          sp0 = sel st;
          nios = real (unat (st_ios sp0 False + st_ios sp0 True));
          nrqm = real (unat (st_rqm sp0 False + st_rqm sp0 True));
          st1 = update_tot_qusz now (update_idle_time now True st);
          sp = sel st1;
          avgrq = (if nios > 0 then real (unat (st_sec sp False + st_sec sp True)) / nios else 0);
          svctm = (if nios > 0 then TO_MSEC (st_svctm sp) / nios else 0);
          await = (if nios + nrqm > 0 then TO_MSEC (st_wait sp) / (nios + nrqm) else 0);
          util = (if idle_time sp \<le> dt then 100 * (1 - idle_time sp / dt) else 0);
          num = (\<lambda>w. real (unat (w :: u64)));
          line = (hdr, [num (st_rqm sp True) / dt, num (st_rqm sp False) / dt, num (st_ios sp True) / dt,
            num (st_ios sp False) / dt, num (st_sec sp True) / dt, num (st_sec sp False) / dt,
            num (st_sec sp True div 2) / dt, num (st_sec sp False div 2) / dt, avgrq, tot_qusz sp / dt, await, svctm, util],
            if all then None else Some (TO_SEC stamp));
          sp1 = (if all then sp
                 else sp\<lparr>st_rqm := (\<lambda>_. 0), st_ios := (\<lambda>_. 0), st_sec := (\<lambda>_. 0), st_wait := 0, st_svctm := 0,
                         tot_qusz := 0, idle_time := 0\<rparr>);
          st2 = (if all then st1 else (sp1, snd st1));
          asp1 = asp\<lparr>st_n := st_n asp + 1,
            rqm_s := (\<lambda>i. rqm_s asp i + num (st_rqm sp1 i) / dt),
            ios_s := (\<lambda>i. ios_s asp i + num (st_ios sp1 i) / dt),
            sec_s := (\<lambda>i. sec_s asp i + num (st_sec sp1 i) / dt),
            avgrq_sz := avgrq_sz asp + avgrq, avgqu_sz := avgqu_sz asp + tot_qusz sp1 / dt,
            st_await := st_await asp + await, st_svctm_t := st_svctm_t asp + svctm, p_util := p_util asp + util\<rparr>
      in (line, st2, asp1))"

definition dump_stats_t :: "u64 \<Rightarrow> stats_t \<Rightarrow> bool \<Rightarrow> iostat_line list" where
  "dump_stats_t stamp asp all =
     (if st_n asp < 2 then []
      else [(''TOTAL'', [rqm_s asp False, rqm_s asp True, ios_s asp False, ios_s asp True, sec_s asp False, sec_s asp True,
              sec_s asp False / 2, sec_s asp True / 2, avgrq_sz asp / st_n asp, avgqu_sz asp / st_n asp,
              st_await asp / st_n asp, st_svctm_t asp / st_n asp, p_util asp / st_n asp],
              if all then None else Some (TO_SEC stamp))])"

section \<open>Lemmas\<close>

text \<open>The counters are cleared before they are summed up.\<close>

lemma dump_stats_sums:
  assumes "dump_stats stamp False since hdr st asp = (line, st', asp')"
  shows "rqm_s asp' = rqm_s asp \<and> ios_s asp' = ios_s asp \<and> sec_s asp' = sec_s asp
    \<and> avgqu_sz asp' = avgqu_sz asp \<and> st_n asp' = st_n asp + 1"
  using assms by (auto simp: dump_stats_def Let_def)

end
