(* ===== verification/Btt_Devs.thy ===== *)
theory Btt_Devs
  imports Btt_Live Btt_Iostat C_Text "HOL-Library.List_Lexorder"
begin

text \<open>
  The devices and the processes of btt, \<open>btt/devs.c\<close>, \<open>btt/proc.c\<close>, \<open>btt/devmap.c\<close>, and the state of the program. The devices are a
  list in the order of \<open>all_devs\<close>, the processes a list in the order of their creation, and pointers to them are
  indices. Which files can be opened is a parameter.
\<close>

section \<open>Options\<close>

record btt_opts =
  opens :: "string \<Rightarrow> bool"
  seek_name :: "string option"
  sps_name :: "string option"
  aqd_name :: "string option"
  bno_dump_name :: "string option"
  unplug_hist_name :: "string option"
  q2d_name :: "string option"
  d2c_name :: "string option"
  q2c_name :: "string option"
  per_io_trees :: bool
  per_io_ofp :: bool
  iostat_ofp :: bool
  output_all_data :: bool
  seek_absolute :: bool
  ignore_remaps :: bool
  time_bounded :: bool
  t_astart :: real
  t_aend :: real
  plat_freq :: real
  range_delta :: real
  iostat_interval :: u64
  devices :: "string option"
  devmaps :: "(string \<times> string) list"

section \<open>State\<close>

record d_info =
  heads :: "iop_type \<Rightarrow> io rb"
  regions :: region_info
  devmap :: "string option"
  dip_name :: string
  q2q_handle :: seeki
  seek_handle :: seeki
  bno_dump_handle :: "bno_dump option"
  up_hist_handle :: "u32 list option"
  q2d_priv :: "q2d_info option"
  aqd_handle :: "aqd_info option"
  rstat_handle :: "rstat option"
  p_live_handle :: "p_live rb"
  q2d_plat_handle :: "plat_info option"
  q2c_plat_handle :: "plat_info option"
  d2c_plat_handle :: "plat_info option"
  q2d_ofp :: "(real \<times> real) list option"
  d2c_ofp :: "(real \<times> real) list option"
  q2c_ofp :: "(real \<times> real) list option"
  pit_fp :: "(u64 list \<times> u64 \<times> u64) list option"
  avgs :: avgs_info
  dip_stats :: both_stats
  dip_last_q :: u64
  n_qs :: u64
  n_ds :: u64
  n_act_q :: u64
  t_act_q :: u64
  device :: u32
  pre_culling :: bool
  is_plugged :: bool
  nplugs :: u32
  nplugs_t :: u32
  nios_up :: u64
  nios_upt :: u64
  start_time :: real
  last_plug :: real
  plugged_time :: real
  end_time :: real

record p_info =
  pi_regions :: region_info
  pi_avgs :: avgs_info
  pi_last_q :: u64
  pi_pid :: u32
  pi_name :: "u8 list"

text \<open>The messages carry the device, the time and the text, the tracks of \<open>per_io_ofp\<close> the trace as it is printed.\<close>

record btt =
  devs :: "d_info list"
  procs :: "p_info list"
  root_pid :: "(u32 \<times> nat) rb"
  root_name :: "(u8 list \<times> nat) rb"
  all_avgs :: avgs_info
  all_last_q :: u64
  all_regions :: region_info
  q_histo :: "u64 list"
  d_histo :: "u64 list"
  n_traces :: u64
  last_t_seen :: real
  btt_done :: bool
  sys_info :: rstat
  p_live_root :: "p_live rb"
  iostat_start :: u64
  iostat_last_stamp :: u64
  iostat_lines :: "iostat_line list"
  msgs :: "(string \<times> u64 \<times> u8 list) list"
  tracks :: "io list list"

section \<open>Names\<close>

definition make_dev_hdr :: "nat \<Rightarrow> string option \<Rightarrow> u32 \<Rightarrow> bool \<Rightarrow> string" where
  "make_dev_hdr len dmap dev add_parens = take (len - 1)
     (case dmap of
        Some s \<Rightarrow> s
      | None \<Rightarrow> if add_parens then ''('' @ pad_left 3 (fmt_u (MAJOR dev)) @ '','' @ pad_left 3 (fmt_u (MINOR dev)) @ '')''
                else fmt_u (MAJOR dev) @ '','' @ fmt_u (MINOR dev))"

definition dev_map_find :: "(string \<times> string) list \<Rightarrow> u32 \<Rightarrow> string option" where
  "dev_map_find all_devmaps dev =
     map_option fst (find (\<lambda>(name, devno). fmt_u (MAJOR dev) @ '','' @ fmt_u (MINOR dev) = devno) all_devmaps)"

text \<open>Whether a file of an option is open: \<open>NULL\<close> when it was not asked for.\<close>

definition opened :: "btt_opts \<Rightarrow> string option \<Rightarrow> string \<Rightarrow> bool" where
  "opened opts name rest = (case name of None \<Rightarrow> False | Some s \<Rightarrow> opens opts (s @ ''_'' @ rest @ ''.dat''))"

section \<open>Devices\<close>

definition DEV_HASH :: "u32 \<Rightarrow> nat" where
  "DEV_HASH dev = unat ((MAJOR dev XOR MINOR dev) AND 127)"

text \<open>The chain of the hash value, which is in the order of the devices.\<close>

definition dev_chain :: "btt \<Rightarrow> nat \<Rightarrow> nat list" where
  "dev_chain b h = filter (\<lambda>i. DEV_HASH (device (devs b ! i)) = h) [0..<length (devs b)]"

definition dip_find :: "u32 \<Rightarrow> btt \<Rightarrow> nat option" where
  "dip_find dev b = find (\<lambda>i. dev = device (devs b ! i)) (dev_chain b (DEV_HASH dev))"

definition update_dip :: "nat \<Rightarrow> (d_info \<Rightarrow> d_info) \<Rightarrow> btt \<Rightarrow> btt" where
  "update_dip i f b = b\<lparr>devs := (devs b)[i := f (devs b ! i)]\<rparr>"

text \<open>The files of seeks: \<open>name_dev_post_r.dat\<close>. Both handles of a device open the same file for seeks per second.\<close>

definition seeki_open :: "btt_opts \<Rightarrow> string \<Rightarrow> string \<Rightarrow> seeki" where
  "seeki_open opts name post =
     (let f = (\<lambda>c. opened opts (seek_name opts) (name @ post @ ''_'' @ [c]))
      in seeki_alloc (f CHR ''r'') (f CHR ''w'') (f CHR ''c'') (opened opts (sps_name opts) name))"

definition new_dip :: "btt_opts \<Rightarrow> u32 \<Rightarrow> u64 \<Rightarrow> d_info" where
  "new_dip opts dev t =
     (let dmap = dev_map_find (devmaps opts) dev;
          name = make_dev_hdr 256 dmap dev False;
          latency = (\<lambda>n post. if opened opts n (name @ ''_'' @ post) then Some [] else None);
          plat = (\<lambda>post. plat_alloc (plat_freq opts) (opens opts (name @ post @ ''_plat.dat'')));
          bno = (\<lambda>c. opened opts (bno_dump_name opts) (name @ ''_'' @ [c]))
      in \<lparr>heads = (\<lambda>_. Null), regions = region_init, devmap = dmap, dip_name = name,
          q2q_handle = seeki_open opts name ''_q2q'', seek_handle = seeki_open opts name ''_d2d'',
          bno_dump_handle = bno_dump_alloc (bno_dump_name opts \<noteq> None) (bno CHR ''r'') (bno CHR ''w'') (bno CHR ''c''),
          up_hist_handle = unplug_hist_alloc (unplug_hist_name opts \<noteq> None),
          q2d_priv = (if output_all_data opts then Some q2d_alloc else None),
          aqd_handle = aqd_alloc (opened opts (aqd_name opts) (name @ ''_aqd'')),
          rstat_handle = rstat_alloc (opens opts (name @ ''_iops_fp.dat'') \<and> opens opts (name @ ''_mbps_fp.dat'')),
          p_live_handle = Null, q2d_plat_handle = plat ''_q2d'', q2c_plat_handle = plat ''_q2c'',
          d2c_plat_handle = plat ''_d2c'', q2d_ofp = latency (q2d_name opts) ''q2d'',
          d2c_ofp = latency (d2c_name opts) ''d2c'', q2c_ofp = latency (q2c_name opts) ''q2c'',
          pit_fp = (if per_io_trees opts \<and> opens opts (name @ ''_pit.dat'') then Some [] else None),
          avgs = zero_avgs, dip_stats = (zero_stats_btt, zero_stats_btt), dip_last_q = no_time, n_qs = 0, n_ds = 0,
          n_act_q = 0, t_act_q = 0, device = dev, pre_culling = True, is_plugged = False, nplugs = 0, nplugs_t = 0,
          nios_up = 0, nios_upt = 0, start_time = BIT_TIME t, last_plug = 0, plugged_time = 0, end_time = 0\<rparr>)"

text \<open>The device, which is created when it is not there.\<close>

definition dip_get :: "btt_opts \<Rightarrow> u32 \<Rightarrow> u64 \<Rightarrow> btt \<Rightarrow> nat \<times> btt" where
  "dip_get opts dev t b =
     (case dip_find dev b of
        Some i \<Rightarrow> (i, b)
      | None \<Rightarrow> (length (devs b), b\<lparr>devs := devs b @ [new_dip opts dev t]\<rparr>))"

text \<open>The return value, the trace with \<open>linked\<close> set, and the state.\<close>

definition dip_alloc :: "btt_opts \<Rightarrow> u32 \<Rightarrow> io \<Rightarrow> btt \<Rightarrow> (nat option \<times> io \<times> btt) option" where
  "dip_alloc opts dev iop b =
     (let (i, b1) = dip_get opts dev (tr_time (io_t iop)) b
      in if pre_culling (devs b1 ! i) \<and> \<not> (io_type iop = IOP_Q \<or> io_type iop = IOP_A) then Some (None, iop, b1)
         else let b2 = update_dip i (\<lambda>d. d\<lparr>pre_culling := False\<rparr>) b1
              in map_option (\<lambda>(lnk, tree).
                   (Some i, iop\<lparr>linked := lnk\<rparr>,
                    update_dip i (\<lambda>d. d\<lparr>heads := (heads d)(io_type iop := tree), end_time := BIT_TIME (tr_time (io_t iop))\<rparr>) b2))
                 (rb_insert iop (heads (devs b2 ! i) (io_type iop))))"

text \<open>Assignments to a linked trace are stored in the tree that holds it.\<close>

definition io_store :: "io \<Rightarrow> btt \<Rightarrow> btt option" where
  "io_store iop b =
     (case io_dip iop of
        None \<Rightarrow> None
      | Some i \<Rightarrow> map_option (\<lambda>tree. update_dip i (\<lambda>d. d\<lparr>heads := (heads d)(io_type iop := tree)\<rparr>) b)
                   (io_modify (\<lambda>_. iop) iop (heads (devs b ! i) (io_type iop))))"

definition iop_rem_dip :: "io \<Rightarrow> btt \<Rightarrow> btt option" where
  "iop_rem_dip iop b =
     (if linked iop then
        case io_dip iop of
          None \<Rightarrow> None
        | Some i \<Rightarrow> map_option (\<lambda>tree. update_dip i (\<lambda>d. d\<lparr>heads := (heads d)(io_type iop := tree)\<rparr>) b)
                     (io_erase iop (heads (devs b ! i) (io_type iop)))
      else Some b)"

definition dip_find_sec :: "nat \<Rightarrow> iop_type \<Rightarrow> u64 \<Rightarrow> btt \<Rightarrow> io option" where
  "dip_find_sec i type sec b = rb_find_sec sec (heads (devs b ! i) type)"

definition dip_foreach_list :: "io \<Rightarrow> iop_type \<Rightarrow> btt \<Rightarrow> io list option" where
  "dip_foreach_list iop type b = map_option (\<lambda>i. rb_foreach iop (heads (devs b ! i) type)) (io_dip iop)"

section \<open>Plugging\<close>

definition dip_plug :: "u32 \<Rightarrow> real \<Rightarrow> btt \<Rightarrow> btt" where
  "dip_plug dev cur_time b =
     (case dip_find dev b of
        None \<Rightarrow> b
      | Some i \<Rightarrow> update_dip i (\<lambda>d. if \<not> is_plugged d then d\<lparr>is_plugged := True, last_plug := cur_time\<rparr> else d) b)"

definition unplug :: "real \<Rightarrow> d_info \<Rightarrow> d_info" where
  "unplug cur_time d = d\<lparr>is_plugged := False, plugged_time := plugged_time d + (cur_time - last_plug d)\<rparr>"

definition dip_unplug :: "u32 \<Rightarrow> real \<Rightarrow> u64 \<Rightarrow> btt \<Rightarrow> btt" where
  "dip_unplug dev cur_time nios b =
     (case dip_find dev b of
        None \<Rightarrow> b
      | Some i \<Rightarrow> update_dip i (\<lambda>d. if is_plugged d
                    then unplug cur_time (d\<lparr>nplugs := nplugs d + 1, nios_up := nios_up d + nios\<rparr>) else d) b)"

definition dip_unplug_tm :: "u32 \<Rightarrow> real \<Rightarrow> u64 \<Rightarrow> btt \<Rightarrow> btt" where
  "dip_unplug_tm dev cur_time nios b =
     (case dip_find dev b of
        None \<Rightarrow> b
      | Some i \<Rightarrow> update_dip i (\<lambda>d. if is_plugged d
                    then unplug cur_time (d\<lparr>nios_upt := nios_upt d + nios, nplugs_t := nplugs_t d + 1\<rparr>) else d) b)"


section \<open>Processes\<close>

text \<open>Names are bytes without the NUL, so the order of \<open>strcmp\<close> is the lexicographic one.\<close>

definition find_process_pid :: "u32 \<Rightarrow> btt \<Rightarrow> nat option" where
  "find_process_pid pid b = map_option snd (Option.bind (rb_find fst pid (root_pid b) []) elem_at)"

definition find_process_by_name :: "u8 list \<Rightarrow> btt \<Rightarrow> nat option" where
  "find_process_by_name name b = map_option snd (Option.bind (rb_find fst name (root_name b) []) elem_at)"

definition insert_pid :: "nat \<Rightarrow> u32 \<Rightarrow> btt \<Rightarrow> btt option" where
  "insert_pid pip pid b =
     (case rb_place fst pid (root_pid b) [] of
        None \<Rightarrow> Some b
      | Some p \<Rightarrow> map_option (\<lambda>t. b\<lparr>root_pid := t\<rparr>) (rb_link_insert (pid, pip) p))"

definition insert_name :: "nat \<Rightarrow> btt \<Rightarrow> btt option" where
  "insert_name pip b =
     (let name = pi_name (procs b ! pip)
      in case rb_place fst name (root_name b) [] of
           None \<Rightarrow> Some b
         | Some p \<Rightarrow> map_option (\<lambda>t. b\<lparr>root_name := t\<rparr>) (rb_link_insert (name, pip) p))"

definition insert_process :: "nat \<Rightarrow> btt \<Rightarrow> btt option" where
  "insert_process pip b = Option.bind (insert_pid pip (pi_pid (procs b ! pip)) b) (insert_name pip)"

definition no_pid :: u32 where
  "no_pid = - 1"

text \<open>\<open>find_process\<close> with a name.\<close>

definition find_process_named :: "u32 \<Rightarrow> u8 list \<Rightarrow> btt \<Rightarrow> (nat option \<times> btt) option" where
  "find_process_named pid name b =
     (if pid \<noteq> no_pid then
        case find_process_pid pid b of
          Some pip \<Rightarrow> Some (Some pip, b)
        | None \<Rightarrow>
            (case find_process_by_name name b of
               Some pip \<Rightarrow> if pid \<noteq> pi_pid (procs b ! pip) then map_option (Pair (Some pip)) (insert_pid pip pid b)
                          else Some (Some pip, b)
             | None \<Rightarrow> Some (None, b))
      else Some (find_process_by_name name b, b))"

definition process_alloc :: "u32 \<Rightarrow> u8 list \<Rightarrow> btt \<Rightarrow> btt option" where
  "process_alloc pid name b = do {
     (pip, b1) \<leftarrow> find_process_named pid name b;
     case pip of
       Some _ \<Rightarrow> Some b1
     | None \<Rightarrow> insert_process (length (procs b1))
         (b1\<lparr>procs := procs b1 @ [\<lparr>pi_regions = region_init, pi_avgs = zero_avgs, pi_last_q = no_time, pi_pid = pid,
                                   pi_name = name\<rparr>]\<rparr>)
   }"

definition bytes_of :: "string \<Rightarrow> u8 list" where
  "bytes_of s = map (\<lambda>c. of_char c) s"

text \<open>The name \<open>pid%09u\<close> for a process of which only the number is known.\<close>

definition pid_name :: "u32 \<Rightarrow> u8 list" where
  "pid_name pid = bytes_of (''pid'' @ pad_zero 9 (fmt_u pid))"

text \<open>\<open>find_process(pid, NULL)\<close>. The search for the name \<open>NULL\<close> compares it with any name there is.\<close>

definition find_process :: "u32 \<Rightarrow> btt \<Rightarrow> (nat option \<times> btt) option" where
  "find_process pid b =
     (if pid \<noteq> no_pid then
        case find_process_pid pid b of
          Some pip \<Rightarrow> Some (Some pip, b)
        | None \<Rightarrow> map_option (\<lambda>b1. (find_process_pid pid b1, b1)) (process_alloc pid (pid_name pid) b)
      else if root_name b = Null then Some (None, b) else None)"

section \<open>Setting up and releasing a trace\<close>

text \<open>\<open>io_setup\<close> returns \<open>linked\<close>.\<close>

definition io_setup :: "btt_opts \<Rightarrow> iop_type \<Rightarrow> io \<Rightarrow> btt \<Rightarrow> (io \<times> btt) option" where
  "io_setup opts type iop b = do {
     (dip, iop1, b1) \<leftarrow> dip_alloc opts (tr_device (io_t iop)) (iop\<lparr>io_type := type\<rparr>) b;
     let iop2 = iop1\<lparr>io_dip := dip\<rparr>;
     if linked iop2 then do {
       (pip, b2) \<leftarrow> find_process (tr_pid (io_t iop)) b1;
       let iop3 = iop2\<lparr>io_pip := pip, bytes_left := ucast (tr_bytes (io_t iop))\<rparr>;
       b3 \<leftarrow> io_store iop3 b2;
       Some (iop3, b3)
     } else Some (iop2, b1)
   }"

definition io_release :: "io \<Rightarrow> btt \<Rightarrow> btt option" where
  "io_release iop b = iop_rem_dip iop b"

section \<open>Averages of all, of the device and of the process\<close>

type_synonym avg_field = "(avg_info \<Rightarrow> avg_info) \<Rightarrow> avgs_info \<Rightarrow> avgs_info"

definition update_proc :: "nat \<Rightarrow> (p_info \<Rightarrow> p_info) \<Rightarrow> btt \<Rightarrow> btt" where
  "update_proc i f b = b\<lparr>procs := (procs b)[i := f (procs b ! i)]\<rparr>"

text \<open>The three macros differ in the function on the average.\<close>

definition with_avgs :: "avg_field \<Rightarrow> (avg_info \<Rightarrow> avg_info) \<Rightarrow> io \<Rightarrow> btt \<Rightarrow> btt option" where
  "with_avgs fld f iop b =
     (let b1 = b\<lparr>all_avgs := fld f (all_avgs b)\<rparr>
      in case io_dip iop of
           None \<Rightarrow> None
         | Some i \<Rightarrow>
             let b2 = update_dip i (\<lambda>d. d\<lparr>avgs := fld f (avgs d)\<rparr>) b1
             in Some (case io_pip iop of
                  None \<Rightarrow> b2
                | Some p \<Rightarrow> update_proc p (\<lambda>pr. pr\<lparr>pi_avgs := fld f (pi_avgs pr)\<rparr>) b2))"

definition UPDATE_AVGS :: "avg_field \<Rightarrow> io \<Rightarrow> u64 \<Rightarrow> btt \<Rightarrow> btt option" where
  "UPDATE_AVGS fld iop t = with_avgs fld (avg_update t) iop"

definition UPDATE_AVGS_N :: "avg_field \<Rightarrow> io \<Rightarrow> u64 \<Rightarrow> u32 \<Rightarrow> btt \<Rightarrow> btt option" where
  "UPDATE_AVGS_N fld iop t n = with_avgs fld (avg_update_n t n) iop"

definition UNUPDATE_AVGS :: "avg_field \<Rightarrow> io \<Rightarrow> u64 \<Rightarrow> btt \<Rightarrow> btt option" where
  "UNUPDATE_AVGS fld iop t = with_avgs fld (avg_unupdate t) iop"

text \<open>Device mappers have averages of their own.\<close>

definition dip_remapper :: "io \<Rightarrow> btt \<Rightarrow> bool option" where
  "dip_remapper iop b = map_option (\<lambda>i. remapper_dev (device (devs b ! i))) (io_dip iop)"

definition update_q2c :: "io \<Rightarrow> u64 \<Rightarrow> btt \<Rightarrow> btt option" where
  "update_q2c iop t b = Option.bind (dip_remapper iop b)
     (\<lambda>dm. UPDATE_AVGS (if dm then q2c_dm_update else q2c_update) iop t b)"

definition update_q2a :: "io \<Rightarrow> u64 \<Rightarrow> btt \<Rightarrow> btt option" where
  "update_q2a iop t b = Option.bind (dip_remapper iop b)
     (\<lambda>dm. UPDATE_AVGS (if dm then q2a_dm_update else q2a_update) iop t b)"

definition update_q2g :: "io \<Rightarrow> u64 \<Rightarrow> btt \<Rightarrow> btt option" where
  "update_q2g = UPDATE_AVGS q2g_update"

definition update_s2g :: "io \<Rightarrow> u64 \<Rightarrow> btt \<Rightarrow> btt option" where
  "update_s2g = UPDATE_AVGS s2g_update"

definition update_g2i :: "io \<Rightarrow> u64 \<Rightarrow> btt \<Rightarrow> btt option" where
  "update_g2i = UPDATE_AVGS g2i_update"

definition update_q2m :: "io \<Rightarrow> u64 \<Rightarrow> btt \<Rightarrow> btt option" where
  "update_q2m = UPDATE_AVGS q2m_update"

definition update_i2d :: "io \<Rightarrow> u64 \<Rightarrow> btt \<Rightarrow> btt option" where
  "update_i2d = UPDATE_AVGS i2d_update"

definition update_m2d :: "io \<Rightarrow> u64 \<Rightarrow> btt \<Rightarrow> btt option" where
  "update_m2d = UPDATE_AVGS m2d_update"

definition update_d2c :: "io \<Rightarrow> u64 \<Rightarrow> btt \<Rightarrow> btt option" where
  "update_d2c = UPDATE_AVGS d2c_update"

definition unupdate_q2g :: "io \<Rightarrow> u64 \<Rightarrow> btt \<Rightarrow> btt option" where
  "unupdate_q2g = UNUPDATE_AVGS q2g_update"

definition unupdate_g2i :: "io \<Rightarrow> u64 \<Rightarrow> btt \<Rightarrow> btt option" where
  "unupdate_g2i = UNUPDATE_AVGS g2i_update"

definition unupdate_q2m :: "io \<Rightarrow> u64 \<Rightarrow> btt \<Rightarrow> btt option" where
  "unupdate_q2m = UNUPDATE_AVGS q2m_update"

definition unupdate_i2d :: "io \<Rightarrow> u64 \<Rightarrow> btt \<Rightarrow> btt option" where
  "unupdate_i2d = UNUPDATE_AVGS i2d_update"

definition unupdate_m2d :: "io \<Rightarrow> u64 \<Rightarrow> btt \<Rightarrow> btt option" where
  "unupdate_m2d = UNUPDATE_AVGS m2d_update"

definition update_blks :: "io \<Rightarrow> btt \<Rightarrow> btt option" where
  "update_blks iop = with_avgs blks_update (avg_update (ucast (drop_bit 9 (tr_bytes (io_t iop))))) iop"

section \<open>Queue events\<close>

definition dip_update_q :: "btt_opts \<Rightarrow> u64 \<Rightarrow> d_info \<Rightarrow> d_info" where
  "dip_update_q opts t d =
     (let d1 = (if remapper_dev (device d)
                then let (lq, a) = update_lq t (dip_last_q d, q2q_dm (avgs d)) in d\<lparr>dip_last_q := lq, avgs := (avgs d)\<lparr>q2q_dm := a\<rparr>\<rparr>
                else let (lq, a) = update_lq t (dip_last_q d, q2q (avgs d)) in d\<lparr>dip_last_q := lq, avgs := (avgs d)\<lparr>q2q := a\<rparr>\<rparr>)
      in d1\<lparr>regions := update_qregion (range_delta opts) t (regions d1)\<rparr>)"

text \<open>\<open>dm\<close> says whether the device of the trace is a device mapper.\<close>

definition pip_update_q :: "btt_opts \<Rightarrow> bool \<Rightarrow> u64 \<Rightarrow> p_info \<Rightarrow> p_info" where
  "pip_update_q opts dm t p =
     (let p1 = (if dm
                then let (lq, a) = update_lq t (pi_last_q p, q2q_dm (pi_avgs p)) in p\<lparr>pi_last_q := lq, pi_avgs := (pi_avgs p)\<lparr>q2q_dm := a\<rparr>\<rparr>
                else let (lq, a) = update_lq t (pi_last_q p, q2q (pi_avgs p)) in p\<lparr>pi_last_q := lq, pi_avgs := (pi_avgs p)\<lparr>q2q := a\<rparr>\<rparr>)
      in p1\<lparr>pi_regions := update_qregion (range_delta opts) t (pi_regions p1)\<rparr>)"

end
