(* ===== verification/Btt_Trace.thy ===== *)
theory Btt_Trace
  imports Btt_Devs
begin

text \<open>
  The handlers of the traces of btt, \<open>btt/trace.c\<close> and \<open>btt/trace_*.c\<close>: a queued trace stays in the tree of its device until it is
  completed, the other events give it its times on the way, and the times between them go to the averages.
\<close>

section \<open>Parts of the payload\<close>

text \<open>A big-endian number of 8 or 4 bytes; \<open>None\<close> when the payload is too short.\<close>

definition get_be :: "u8 list \<Rightarrow> nat \<Rightarrow> nat \<Rightarrow> u64 option" where
  "get_be pdu pos n =
     (if pos + n \<le> length pdu then Some (foldl (\<lambda>a x. a * 256 + ucast x) 0 (take n (drop pos pdu))) else None)"

definition get_nio_up :: "io \<Rightarrow> u64 option" where
  "get_nio_up u_iop = get_be (tr_pdu (io_t u_iop)) 0 8"

definition cvt_pdu_remap :: "u8 list \<Rightarrow> blk_io_trace_remap option" where
  "cvt_pdu_remap pdu = do {
     from \<leftarrow> get_be pdu 0 4;
     to_dev \<leftarrow> get_be pdu 4 4;
     sector \<leftarrow> get_be pdu 8 8;
     Some \<lparr>r_device_from = ucast from, r_device_to = ucast to_dev, r_sector_from = sector\<rparr>
   }"

section \<open>Reports of iostat\<close>

text \<open>\<open>sscanf(p, "%u,%u", ...)\<close> of a device, without signs.\<close>

definition scan_dev :: "string \<Rightarrow> u32 option" where
  "scan_dev p = do {
     (mjr, rest) \<leftarrow> scan_unsigned 10 p;
     case rest of
       [] \<Rightarrow> None
     | c # rest \<Rightarrow> if c = CHR '','' then do {
           (mnr, _) \<leftarrow> scan_unsigned 10 rest;
           Some (push_bit MINORBITS (ucast mjr) OR ucast mnr)
         } else None
   }"

function scan_devs :: "string \<Rightarrow> u32 list" where
  "scan_devs p =
     (case scan_dev p of
        None \<Rightarrow> []
      | Some dev \<Rightarrow> dev # (case dropWhile (\<lambda>c. c \<noteq> CHR '';'') p of [] \<Rightarrow> [] | _ # p' \<Rightarrow> scan_devs p'))"
  by pat_completeness auto
termination
proof (relation "measure length")
  fix p :: string and c p'
  assume "dropWhile (\<lambda>c. c \<noteq> CHR '';'') p = c # p'"
  then show "(p', p) \<in> measure length"
    using length_dropWhile_le [of "\<lambda>c. c \<noteq> CHR '';''" p] by simp
qed simp

declare scan_devs.simps [simp del]

text \<open>The devices of a report, where \<open>None\<close> is the pointer \<open>NULL\<close> of a device that has no traces.\<close>

definition report_dips :: "btt_opts \<Rightarrow> btt \<Rightarrow> nat option list" where
  "report_dips opts b =
     (case devices opts of
        None \<Rightarrow> map Some [0..<length (devs b)]
      | Some s \<Rightarrow> map (\<lambda>dev. dip_find dev b) (scan_devs s))"

fun dump_dips :: "u64 \<Rightarrow> bool \<Rightarrow> nat option list \<Rightarrow> btt \<Rightarrow> stats_t \<Rightarrow> (btt \<times> stats_t) option" where
  "dump_dips stamp all [] b asp = Some (b, asp)"
| "dump_dips stamp all (None # ds) b asp = None"
| "dump_dips stamp all (Some i # ds) b asp =
     (let d = devs b ! i;
          (line, st, asp') = dump_stats stamp all (iostat_start b) (make_dev_hdr 11 (devmap d) (device d) True) (dip_stats d) asp
      in dump_dips stamp all ds (update_dip i (\<lambda>d. d\<lparr>dip_stats := st\<rparr>) b\<lparr>iostat_lines := iostat_lines b @ [line]\<rparr>) asp')"

text \<open>The line of \<open>dump_hdr\<close>.\<close>

definition iostat_hdr :: iostat_line where
  "iostat_hdr = (''Device:'', [], None)"

definition iostat_dump_stats :: "btt_opts \<Rightarrow> u64 \<Rightarrow> bool \<Rightarrow> btt \<Rightarrow> btt option" where
  "iostat_dump_stats opts stamp all b =
     map_option (\<lambda>(b1, asp). b1\<lparr>iostat_lines := iostat_lines b1 @ dump_stats_t stamp asp all\<rparr>)
       (dump_dips stamp all (report_dips opts b)
          (if all then b\<lparr>iostat_lines := iostat_lines b @ [iostat_hdr]\<rparr> else b) zero_stats_t)"

definition iostat_check_time :: "btt_opts \<Rightarrow> u64 \<Rightarrow> btt \<Rightarrow> btt option" where
  "iostat_check_time opts stamp b =
     (if iostat_ofp opts then
        map_option (\<lambda>b1. b1\<lparr>iostat_last_stamp := stamp\<rparr>)
          (if iostat_start b = no_time then Some (b\<lparr>iostat_start := stamp\<rparr>)
           else if stamp - iostat_start b \<ge> iostat_interval opts
           then map_option (\<lambda>b1. b1\<lparr>iostat_start := stamp\<rparr>) (iostat_dump_stats opts stamp False b)
           else Some b)
      else Some b)"

section \<open>Latencies\<close>

definition latency_q2d :: "btt_opts \<Rightarrow> u64 \<Rightarrow> u64 \<Rightarrow> d_info \<Rightarrow> d_info" where
  "latency_q2d opts tstamp latency d =
     d\<lparr>q2d_plat_handle := plat_x2c (plat_freq opts) tstamp latency (q2d_plat_handle d), q2d_ofp := latency_out tstamp latency (q2d_ofp d)\<rparr>"

definition latency_d2c :: "btt_opts \<Rightarrow> u64 \<Rightarrow> u64 \<Rightarrow> d_info \<Rightarrow> d_info" where
  "latency_d2c opts tstamp latency d =
     d\<lparr>d2c_plat_handle := plat_x2c (plat_freq opts) tstamp latency (d2c_plat_handle d), d2c_ofp := latency_out tstamp latency (d2c_ofp d)\<rparr>"

definition latency_q2c :: "btt_opts \<Rightarrow> u64 \<Rightarrow> u64 \<Rightarrow> d_info \<Rightarrow> d_info" where
  "latency_q2c opts tstamp latency d =
     d\<lparr>q2c_plat_handle := plat_x2c (plat_freq opts) tstamp latency (q2c_plat_handle d), q2c_ofp := latency_out tstamp latency (q2c_ofp d)\<rparr>"

section \<open>Queue\<close>

definition count_active :: "d_info \<Rightarrow> d_info" where
  "count_active d = d\<lparr>n_qs := n_qs d + 1, t_act_q := t_act_q d + n_act_q d, n_act_q := n_act_q d + 1\<rparr>"

definition handle_queue :: "btt_opts \<Rightarrow> io \<Rightarrow> btt \<Rightarrow> btt option" where
  "handle_queue opts q_iop b = do {
     i \<leftarrow> io_dip q_iop;
     let t = tr_time (io_t q_iop);
     seeks \<leftarrow> seeki_add (seek_absolute opts) q_iop (q2q_handle (devs b ! i));
     let b = update_dip i (\<lambda>d. d\<lparr>q2q_handle := seeks\<rparr>) b;
     let b = b\<lparr>all_regions := update_qregion (range_delta opts) t (all_regions b)\<rparr>;
     let b = update_dip i (dip_update_q opts t) b;
     let b = (case io_pip q_iop of
                None \<Rightarrow> b
              | Some p \<Rightarrow> update_proc p (pip_update_q opts (remapper_dev (device (devs b ! i))) t) b);
     b \<leftarrow> (if remapper_dev (tr_device (io_t q_iop))
           then let (lq, a) = update_lq t (all_last_q b, q2q_dm (all_avgs b))
                in Some (b\<lparr>all_last_q := lq, all_avgs := (all_avgs b)\<lparr>q2q_dm := a\<rparr>\<rparr>)
           else do {
             h \<leftarrow> update_histo (ucast (tr_bytes (io_t q_iop))) (q_histo b);
             let (lq, a) = update_lq t (all_last_q b, q2q (all_avgs b));
             Some (b\<lparr>q_histo := h, all_last_q := lq, all_avgs := (all_avgs b)\<lparr>q2q := a\<rparr>\<rparr>)
           });
     b \<leftarrow> io_store (q_iop\<lparr>i_time := no_time, g_time := no_time, c_time := no_time, m_time := no_time, d_time := no_time\<rparr>) b;
     Some (update_dip i count_active b)
   }"

text \<open>A trace without a size is left as it is; only its memory is lost.\<close>

definition trace_queue :: "btt_opts \<Rightarrow> io \<Rightarrow> btt \<Rightarrow> btt option" where
  "trace_queue opts q_iop b =
     (if tr_bytes (io_t q_iop) = 0 then Some b
      else do {
        (q_iop, b) \<leftarrow> io_setup opts IOP_Q q_iop b;
        if linked q_iop then handle_queue opts q_iop b else io_release q_iop b
      })"

section \<open>Requests: get, sleep, insert, merge\<close>

definition handle_g :: "io \<Rightarrow> btt \<Rightarrow> btt option" where
  "handle_g g_iop b = do {
     i \<leftarrow> io_dip g_iop;
     let b = update_dip i (\<lambda>d. d\<lparr>dip_stats := iostat_getrq g_iop (dip_stats d)\<rparr>) b;
     case dip_find_sec i IOP_Q (tr_sector (io_t g_iop)) b of
       None \<Rightarrow> Some b
     | Some q_iop \<Rightarrow> do {
         let q_iop = q_iop\<lparr>g_time := tr_time (io_t g_iop)\<rparr>;
         b \<leftarrow> io_store q_iop b;
         b \<leftarrow> update_q2g q_iop (tdelta (tr_time (io_t q_iop)) (tr_time (io_t g_iop))) b;
         if s_time q_iop \<noteq> 0 then update_s2g q_iop (tdelta (s_time q_iop) (tr_time (io_t g_iop))) b else Some b
       }
   }"

definition handle_s :: "io \<Rightarrow> btt \<Rightarrow> btt option" where
  "handle_s s_iop b = do {
     i \<leftarrow> io_dip s_iop;
     case dip_find_sec i IOP_Q (tr_sector (io_t s_iop)) b of
       None \<Rightarrow> Some b
     | Some q_iop \<Rightarrow> io_store (q_iop\<lparr>s_time := tr_time (io_t s_iop)\<rparr>) b
   }"

definition handle_i :: "io \<Rightarrow> btt \<Rightarrow> btt option" where
  "handle_i i_iop b = do {
     i \<leftarrow> io_dip i_iop;
     case dip_find_sec i IOP_Q (tr_sector (io_t i_iop)) b of
       None \<Rightarrow> Some b
     | Some q_iop \<Rightarrow> do {
         let q_iop = q_iop\<lparr>i_time := tr_time (io_t i_iop)\<rparr>;
         b \<leftarrow> io_store q_iop b;
         if g_time q_iop \<noteq> no_time then update_g2i q_iop (tdelta (g_time q_iop) (tr_time (io_t i_iop))) b else Some b
       }
   }"

text \<open>One active request less, if there is any.\<close>

definition count_inactive :: "d_info \<Rightarrow> d_info" where
  "count_inactive d = (if n_act_q d \<noteq> 0 then d\<lparr>n_act_q := n_act_q d - 1\<rparr> else d)"

definition handle_m :: "io \<Rightarrow> btt \<Rightarrow> btt option" where
  "handle_m m_iop b = do {
     i \<leftarrow> io_dip m_iop;
     let b = update_dip i (\<lambda>d. d\<lparr>dip_stats := iostat_merge m_iop (dip_stats d)\<rparr>) b;
     b \<leftarrow> (case dip_find_sec i IOP_Q (tr_sector (io_t m_iop)) b of
            None \<Rightarrow> Some b
          | Some q_iop \<Rightarrow> do {
              let q_iop = q_iop\<lparr>m_time := tr_time (io_t m_iop)\<rparr>;
              b \<leftarrow> io_store q_iop b;
              update_q2m q_iop (tdelta (tr_time (io_t q_iop)) (tr_time (io_t m_iop))) b
            });
     Some (update_dip i count_inactive b)
   }"

text \<open>The common frame of these handlers.\<close>

definition trace_with :: "btt_opts \<Rightarrow> iop_type \<Rightarrow> (io \<Rightarrow> btt \<Rightarrow> btt option) \<Rightarrow> io \<Rightarrow> btt \<Rightarrow> btt option" where
  "trace_with opts type handle iop b =
     (if tr_bytes (io_t iop) = 0 then Some b
      else do {
        (iop, b) \<leftarrow> io_setup opts type iop b;
        b \<leftarrow> (if linked iop then handle iop b else Some b);
        io_release iop b
      })"

definition trace_sleeprq :: "btt_opts \<Rightarrow> io \<Rightarrow> btt \<Rightarrow> btt option" where
  "trace_sleeprq opts = trace_with opts IOP_S handle_s"

definition trace_getrq :: "btt_opts \<Rightarrow> io \<Rightarrow> btt \<Rightarrow> btt option" where
  "trace_getrq opts = trace_with opts IOP_G handle_g"

definition trace_insert :: "btt_opts \<Rightarrow> io \<Rightarrow> btt \<Rightarrow> btt option" where
  "trace_insert opts = trace_with opts IOP_I handle_i"

definition trace_merge :: "btt_opts \<Rightarrow> io \<Rightarrow> btt \<Rightarrow> btt option" where
  "trace_merge opts = trace_with opts IOP_M handle_m"


section \<open>Issue\<close>

text \<open>The histogram of the time to dispatch, when it is there.\<close>

definition q2d_step :: "btt_opts \<Rightarrow> nat \<Rightarrow> u64 \<Rightarrow> btt \<Rightarrow> btt option" where
  "q2d_step opts i wait b =
     (if output_all_data opts
      then (case q2d_priv (devs b ! i) of
              None \<Rightarrow> None
            | Some q2d \<Rightarrow> Some (update_dip i (\<lambda>d. d\<lparr>q2d_priv := Some (q2d_histo_add wait q2d)\<rparr>) b))
      else Some b)"

text \<open>The loop over the queued traces of the request.\<close>

fun issue_loop :: "btt_opts \<Rightarrow> io \<Rightarrow> io list \<Rightarrow> btt \<Rightarrow> btt option" where
  "issue_loop opts d_iop [] b = Some b"
| "issue_loop opts d_iop (q_iop # qs) b = do {
     let t = tr_time (io_t d_iop);
     b \<leftarrow> (if i_time q_iop \<noteq> no_time then update_i2d q_iop (tdelta (i_time q_iop) t) b
           else if m_time q_iop \<noteq> no_time then update_m2d q_iop (tdelta (m_time q_iop) t) b
           else Some b);
     let d_iop = d_iop\<lparr>bytes_left := bytes_left d_iop - ucast (tr_bytes (io_t q_iop))\<rparr>;
     let q_iop = q_iop\<lparr>d_time := t, d_sec := tr_sector (io_t d_iop), d_nsec := t_sec (io_t d_iop)\<rparr>;
     b \<leftarrow> io_store q_iop b;
     i \<leftarrow> io_dip q_iop;
     let wait = t - tr_time (io_t q_iop);
     b \<leftarrow> q2d_step opts i wait b;
     issue_loop opts d_iop qs (update_dip i (latency_q2d opts t wait) b)
   }"

definition handle_issue :: "btt_opts \<Rightarrow> io \<Rightarrow> btt \<Rightarrow> btt option" where
  "handle_issue opts d_iop b = do {
     i \<leftarrow> io_dip d_iop;
     let b = update_dip i count_inactive b;
     seeks \<leftarrow> seeki_add (seek_absolute opts) d_iop (seek_handle (devs b ! i));
     let b = update_dip i (\<lambda>d. d\<lparr>seek_handle := seeks\<rparr>) b;
     let b = update_dip i (\<lambda>d. d\<lparr>bno_dump_handle := bno_dump_add d_iop (bno_dump_handle d)\<rparr>) b;
     let b = update_dip i (\<lambda>d. d\<lparr>dip_stats := iostat_issue d_iop (dip_stats d), n_ds := n_ds d + 1\<rparr>) b;
     b \<leftarrow> (if \<not> remapper_dev (tr_device (io_t d_iop))
           then map_option (\<lambda>h. b\<lparr>d_histo := h\<rparr>) (update_histo (ucast (tr_bytes (io_t d_iop))) (d_histo b))
           else Some b);
     let b = update_dip i (\<lambda>d. d\<lparr>aqd_handle := aqd_issue (BIT_TIME (tr_time (io_t d_iop))) (aqd_handle d)\<rparr>) b;
     qs \<leftarrow> dip_foreach_list d_iop IOP_Q b;
     issue_loop opts d_iop qs b
   }"

definition trace_issue :: "btt_opts \<Rightarrow> io \<Rightarrow> btt \<Rightarrow> btt option" where
  "trace_issue opts = trace_with opts IOP_D (handle_issue opts)"

section \<open>Completion\<close>

definition p_live_add :: "nat \<Rightarrow> u64 \<Rightarrow> u64 \<Rightarrow> btt \<Rightarrow> btt option" where
  "p_live_add i dt ct b = do {
     mine \<leftarrow> p_live_insert dt ct (p_live_handle (devs b ! i));
     sys \<leftarrow> p_live_insert dt ct (p_live_root b);
     Some (update_dip i (\<lambda>d. d\<lparr>p_live_handle := mine\<rparr>) b\<lparr>p_live_root := sys\<rparr>)
   }"

text \<open>The statistics of a completed trace that had been issued.\<close>

definition completed_step :: "btt_opts \<Rightarrow> io \<Rightarrow> io \<Rightarrow> nat \<Rightarrow> u64 \<Rightarrow> btt \<Rightarrow> (u64 \<times> btt) option" where
  "completed_step opts q_iop c_iop i dt b =
     (let t = tr_time (io_t c_iop)
      in if d_time q_iop \<noteq> no_time then do {
         let d2c = tdelta (d_time q_iop) t;
         b \<leftarrow> p_live_add i (d_time q_iop) t b;
         b \<leftarrow> update_d2c q_iop d2c b;
         let b = update_dip i (latency_d2c opts t d2c) b;
         j \<leftarrow> io_dip c_iop;
         let b = update_dip j (\<lambda>d. d\<lparr>dip_stats := iostat_wait q_iop c_iop (dip_stats d)\<rparr>) b;
         let b = update_dip i (\<lambda>d. d\<lparr>dip_stats := iostat_complete q_iop c_iop (dip_stats d)\<rparr>) b;
         Some (d_time q_iop, b)
       } else Some (dt, b))"

text \<open>The file of \<open>per_io_trees\<close> has a line per completion: the times of its queued traces, of the dispatch and of the completion.\<close>

fun complete_loop :: "btt_opts \<Rightarrow> io \<Rightarrow> io list \<Rightarrow> u64 \<times> io list \<times> u64 list \<Rightarrow> btt \<Rightarrow> ((u64 \<times> io list \<times> u64 list) \<times> btt) option" where
  "complete_loop opts c_iop [] acc b = Some (acc, b)"
| "complete_loop opts c_iop (q_iop # qs) (dt, shown, pits) b = do {
     let t = tr_time (io_t c_iop);
     let q2c = tdelta (tr_time (io_t q_iop)) t;
     let c_iop = c_iop\<lparr>bytes_left := bytes_left c_iop - ucast (tr_bytes (io_t q_iop))\<rparr>;
     b \<leftarrow> update_q2c q_iop q2c b;
     i \<leftarrow> io_dip q_iop;
     let b = update_dip i (latency_q2c opts (tr_time (io_t q_iop)) q2c) b;
     (dt, b) \<leftarrow> completed_step opts q_iop c_iop i dt b;
     let q_iop = (if per_io_ofp opts
                  then q_iop\<lparr>c_time := t, c_sec := tr_sector (io_t c_iop), c_nsec := t_sec (io_t c_iop)\<rparr> else q_iop);
     let pits = (if pit_fp (devs b ! i) \<noteq> None then pits @ [tr_time (io_t q_iop)] else pits);
     b \<leftarrow> io_release q_iop b;
     complete_loop opts c_iop qs (dt, shown @ [q_iop], pits) b
   }"

definition handle_complete :: "btt_opts \<Rightarrow> io \<Rightarrow> btt \<Rightarrow> btt option" where
  "handle_complete opts c_iop b = do {
     i \<leftarrow> io_dip c_iop;
     let t = tr_time (io_t c_iop);
     b \<leftarrow> update_blks c_iop b;
     let b = b\<lparr>all_regions := update_cregion (range_delta opts) t (all_regions b)\<rparr>;
     let b = update_dip i (\<lambda>d. d\<lparr>regions := update_cregion (range_delta opts) t (regions d)\<rparr>) b;
     let b = (case io_pip c_iop of
                None \<Rightarrow> b
              | Some p \<Rightarrow> update_proc p (\<lambda>pr. pr\<lparr>pi_regions := update_cregion (range_delta opts) t (pi_regions pr)\<rparr>) b);
     let b = update_dip i (\<lambda>d. d\<lparr>aqd_handle := aqd_complete (BIT_TIME t) (aqd_handle d)\<rparr>) b;
     let (mine, sys) = rstat_add (BIT_TIME t) (ucast (drop_bit 9 (tr_bytes (io_t c_iop)))) (rstat_handle (devs b ! i), sys_info b);
     let b = update_dip i (\<lambda>d. d\<lparr>rstat_handle := mine\<rparr>) b\<lparr>sys_info := sys\<rparr>;
     qs \<leftarrow> dip_foreach_list c_iop IOP_Q b;
     ((dt, shown, pits), b) \<leftarrow> complete_loop opts c_iop qs (no_time, [], []) b;
     let b = (if per_io_ofp opts then b\<lparr>tracks := tracks b @ [shown]\<rparr> else b);
     Some (update_dip i (\<lambda>d. d\<lparr>pit_fp := fprintf (pits, dt, t) (pit_fp d)\<rparr>) b)
   }"

definition trace_complete :: "btt_opts \<Rightarrow> io \<Rightarrow> btt \<Rightarrow> btt option" where
  "trace_complete opts = trace_with opts IOP_C (handle_complete opts)"

section \<open>Requeue, remap, plug\<close>

definition trace_requeue :: "btt_opts \<Rightarrow> io \<Rightarrow> btt \<Rightarrow> btt option" where
  "trace_requeue opts r_iop b = do {
     (r_iop, b) \<leftarrow> io_setup opts IOP_R r_iop b;
     b \<leftarrow> (if linked r_iop then map_option (\<lambda>i. update_dip i count_active b) (io_dip r_iop) else Some b);
     io_release r_iop b
   }"

definition trace_remap :: "btt_opts \<Rightarrow> io \<Rightarrow> btt \<Rightarrow> btt option" where
  "trace_remap opts a_iop b =
     (if ignore_remaps opts then io_release a_iop b
      else do {
        rp \<leftarrow> cvt_pdu_remap (tr_pdu (io_t a_iop));
        (a_iop, b) \<leftarrow> io_setup opts IOP_A a_iop b;
        b \<leftarrow> (if linked a_iop then
               case dip_find (r_device_from rp) b of
                 None \<Rightarrow> Some b
               | Some q_dip \<Rightarrow>
                   (case dip_find_sec q_dip IOP_Q (r_sector_from rp) b of
                      None \<Rightarrow> Some b
                    | Some q_iop \<Rightarrow> update_q2a q_iop (tdelta (tr_time (io_t q_iop)) (tr_time (io_t a_iop))) b)
             else Some b);
        io_release a_iop b
      })"

definition unplug_hist_add :: "io \<Rightarrow> btt \<Rightarrow> btt option" where
  "unplug_hist_add u_iop b =
     (case dip_find (tr_device (io_t u_iop)) b of
        None \<Rightarrow> Some b
      | Some i \<Rightarrow>
          (case up_hist_handle (devs b ! i) of
             None \<Rightarrow> Some b
           | Some hist \<Rightarrow> do {
               nios \<leftarrow> get_nio_up u_iop;
               hist \<leftarrow> unplug_hist_count nios hist;
               Some (update_dip i (\<lambda>d. d\<lparr>up_hist_handle := Some hist\<rparr>) b)
             }))"

definition trace_unplug_io :: "io \<Rightarrow> btt \<Rightarrow> btt option" where
  "trace_unplug_io u_iop b = do {
     b \<leftarrow> unplug_hist_add u_iop b;
     nios \<leftarrow> get_nio_up u_iop;
     io_release u_iop (dip_unplug (tr_device (io_t u_iop)) (BIT_TIME (tr_time (io_t u_iop))) nios b)
   }"

definition trace_unplug_timer :: "io \<Rightarrow> btt \<Rightarrow> btt option" where
  "trace_unplug_timer ut_iop b = do {
     nios \<leftarrow> get_nio_up ut_iop;
     io_release ut_iop (dip_unplug_tm (tr_device (io_t ut_iop)) (BIT_TIME (tr_time (io_t ut_iop))) nios b)
   }"

definition trace_plug :: "io \<Rightarrow> btt \<Rightarrow> btt option" where
  "trace_plug p_iop b = io_release p_iop (dip_plug (tr_device (io_t p_iop)) (BIT_TIME (tr_time (io_t p_iop))) b)"

section \<open>All traces\<close>

definition trace_switch :: "btt_opts \<Rightarrow> io \<Rightarrow> btt \<Rightarrow> btt option" where
  "trace_switch opts iop b =
     (let act = tr_action (io_t iop) AND 0xffff
      in if act = ta_code TA_QUEUE then trace_queue opts iop b
         else if act = ta_code TA_REMAP then trace_remap opts iop b
         else if act = ta_code TA_INSERT then trace_insert opts iop b
         else if act = ta_code TA_GETRQ then trace_getrq opts iop b
         else if act = ta_code TA_BACKMERGE then trace_merge opts iop b
         else if act = ta_code TA_FRONTMERGE then trace_merge opts iop b
         else if act = ta_code TA_REQUEUE then trace_requeue opts iop b
         else if act = ta_code TA_ISSUE then trace_issue opts iop b
         else if act = ta_code TA_COMPLETE then trace_complete opts iop b
         else if act = ta_code TA_PLUG then trace_plug iop b
         else if act = ta_code TA_UNPLUG_IO then trace_unplug_io iop b
         else if act = ta_code TA_UNPLUG_TIMER then trace_unplug_timer iop b
         else if act = ta_code TA_SLEEPRQ then trace_sleeprq opts iop b
         else io_release iop b)"

text \<open>\<open>__add_trace\<close>, without the display of the progress.\<close>

definition add_io_trace :: "btt_opts \<Rightarrow> io \<Rightarrow> btt \<Rightarrow> btt option" where
  "add_io_trace opts iop b = do {
     let b = b\<lparr>last_t_seen := BIT_TIME (tr_time (io_t iop)), n_traces := n_traces b + 1\<rparr>;
     b \<leftarrow> iostat_check_time opts (tr_time (io_t iop)) b;
     trace_switch opts iop b
   }"

text \<open>The text of a message ends at a zero byte.\<close>

definition trace_message :: "btt_opts \<Rightarrow> io \<Rightarrow> btt \<Rightarrow> (io \<times> btt) option" where
  "trace_message opts iop b = do {
     (iop, b) \<leftarrow> io_setup opts IOP_M iop b;
     if linked iop then do {
       i \<leftarrow> io_dip iop;
       let d = devs b ! i;
       Some (iop, b\<lparr>msgs := msgs b @ [(make_dev_hdr 15 (devmap d) (device d) True, tr_time (io_t iop),
         takeWhile (\<lambda>x. x \<noteq> 0) (tr_pdu (io_t iop)))]\<rparr>)
     } else Some (iop, b)
   }"

text \<open>The name of a process is the payload up to a slash; \<open>strchr\<close> reads on when there is no slash and no zero byte.\<close>

definition notify_process :: "io \<Rightarrow> btt \<Rightarrow> btt option" where
  "notify_process iop b =
     (let pid = tr_pid (io_t iop); pdu = tr_pdu (io_t iop)
      in if pid = 0 then process_alloc 0 (bytes_of ''kernel'') b
         else if \<exists>x \<in> set pdu. x = 0 \<or> x = 0x2f then process_alloc pid (takeWhile (\<lambda>x. x \<noteq> 0 \<and> x \<noteq> 0x2f) pdu) b
         else None)"

definition btt_add_trace :: "btt_opts \<Rightarrow> io \<Rightarrow> btt \<Rightarrow> btt option" where
  "btt_add_trace opts iop b =
     (let act = tr_action (io_t iop); t = BIT_TIME (tr_time (io_t iop))
      in if has_tc act TC_NOTIFY then do {
           (iop, b) \<leftarrow> (if act = BLK_TN TN_PROCESS then map_option (Pair iop) (notify_process iop b)
                       else if act = BLK_TN TN_MESSAGE then trace_message opts iop b
                       else Some (iop, b));
           io_release iop b
         }
         else if has_tc act TC_PC then io_release iop b
         else if time_bounded opts \<and> t < t_astart opts then io_release iop b
         else if time_bounded opts \<and> t > t_aend opts then map_option (\<lambda>b. b\<lparr>btt_done := True\<rparr>) (io_release iop b)
         else add_io_trace opts iop b)"


section \<open>The tracks of the requests\<close>

text \<open>\<open>%5d.%09lu\<close> of a time.\<close>

definition fmt_time :: "u64 \<Rightarrow> string" where
  "fmt_time t = pad_left 5 (fmt_d (sint (ucast (SECONDS t) :: u32))) @ ''.'' @ pad_zero 9 (fmt_u (NANO_SECONDS t))"

definition out_line :: "u64 \<Rightarrow> iop_type \<Rightarrow> u64 \<Rightarrow> u32 \<Rightarrow> bool \<Rightarrow> string" where
  "out_line tm type sec nsec indent =
     (if tm \<noteq> no_time
      then (if indent then replicate 9 CHR '' '' else [])
           @ fmt_time tm @ '' '' @ [type2c type] @ '' '' @ pad_left 10 (fmt_u sec) @ ''+'' @ pad_right 4 (fmt_u nsec) @ [CHR 0x0A]
      else [])"

text \<open>What is printed for a trace of \<open>tracks\<close>.\<close>

definition display_io_track :: "io \<Rightarrow> string" where
  "display_io_track iop =
     (let dev = tr_device (io_t iop); sec = tr_sector (io_t iop); n = t_sec (io_t iop);
          out = (\<lambda>tm type. if tm \<noteq> no_time then out_line tm type sec n True else [])
      in pad_left 3 (fmt_u (MAJOR dev)) @ '','' @ pad_right 3 (fmt_u (MINOR dev)) @ '': ''
         @ out_line (tr_time (io_t iop)) IOP_Q sec n False
         @ out (g_time iop) IOP_G @ out (i_time iop) IOP_I @ out (m_time iop) IOP_M
         @ out_line (d_time iop) IOP_D (d_sec iop) (d_nsec iop) True
         @ out_line (c_time iop) IOP_C (c_sec iop) (c_nsec iop) True @ [CHR 0x0A])"

section \<open>Lemmas on the reports of iostat\<close>

lemma dump_dips_sums:
  "dump_dips stamp False ds b asp = Some (b', asp') \<Longrightarrow>
   rqm_s asp' = rqm_s asp \<and> ios_s asp' = ios_s asp \<and> sec_s asp' = sec_s asp
     \<and> avgqu_sz asp' = avgqu_sz asp \<and> st_n asp' = st_n asp + real (length ds)"
proof (induction stamp "False" ds b asp arbitrary: rule: dump_dips.induct)
  case (3 stamp i ds b asp)
  obtain line st asp1 where one: "dump_stats stamp False (iostat_start b)
      (make_dev_hdr 11 (devmap (devs b ! i)) (device (devs b ! i)) True) (dip_stats (devs b ! i)) asp = (line, st, asp1)"
    by (cases "dump_stats stamp False (iostat_start b)
      (make_dev_hdr 11 (devmap (devs b ! i)) (device (devs b ! i)) True) (dip_stats (devs b ! i)) asp") auto
  show ?case
    using 3 dump_stats_sums [OF one] by (auto simp: one Let_def)
qed simp_all

lemma dump_dips_total:
  "None \<notin> set ds \<Longrightarrow> \<exists>b' asp'. dump_dips stamp all ds b asp = Some (b', asp')"
  by (induction stamp all ds b asp rule: dump_dips.induct) (auto simp: Let_def split: prod.split)



text \<open>The state at the start of the program, and options with which nothing but the averages is asked for.\<close>

definition btt_init :: btt where
  "btt_init = \<lparr>devs = [], procs = [], root_pid = Null, root_name = Null, all_avgs = zero_avgs, all_last_q = no_time,
     all_regions = region_init, q_histo = replicate N_HIST_BKTS 0, d_histo = replicate N_HIST_BKTS 0, n_traces = 0,
     last_t_seen = 0, btt_done = False, sys_info = \<lparr>iops_fp = [], mbps_fp = [], rs_ios = 0, rs_nblks = 0, base_sec = -1\<rparr>,
     p_live_root = Null, iostat_start = no_time, iostat_last_stamp = 0, iostat_lines = [], msgs = [], tracks = []\<rparr>"

definition plain_opts :: btt_opts where
  "plain_opts = \<lparr>opens = (\<lambda>_. True), seek_name = None, sps_name = None, aqd_name = None, bno_dump_name = None,
     unplug_hist_name = None, q2d_name = None, d2c_name = None, q2c_name = None, per_io_trees = False, per_io_ofp = False,
     iostat_ofp = False, output_all_data = False, seek_absolute = False, ignore_remaps = False, time_bounded = False,
     t_astart = 0, t_aend = 0, plat_freq = 0, range_delta = 1 / 10, iostat_interval = 1000000000, devices = None, devmaps = []\<rparr>"

definition example_iostat :: btt where
  "example_iostat = btt_init\<lparr>devs := [(new_dip plain_opts 0x800000 0)\<lparr>dip_stats := in_both (\<lambda>s. s\<lparr>st_ios := (\<lambda>_. 50)\<rparr>) (zero_stats_btt, zero_stats_btt)\<rparr>,
     new_dip plain_opts 0x800010 0], iostat_start := 0\<rparr>"


end
