(* ===== verification/Btt_Inv.thy ===== *)
theory Btt_Inv
  imports Btt_Trace
begin

text \<open>
  The state of btt between and during its handlers: every device holds the queued traces in the tree \<open>IOP_Q\<close>, and
  besides at most the trace that is being handled in the tree of its type. Each operation is defined and keeps this.
\<close>

section \<open>Computations that return\<close>

definition returns :: "('a \<Rightarrow> bool) \<Rightarrow> 'a option \<Rightarrow> bool" where
  "returns P m \<longleftrightarrow> (\<exists>x. m = Some x \<and> P x)"

lemma returns_simps [simp]:
  "returns P (Some x) \<longleftrightarrow> P x" "\<not> returns P None"
  "returns P (Option.bind m f) \<longleftrightarrow> returns (\<lambda>x. returns P (f x)) m"
  "returns P (map_option g m) \<longleftrightarrow> returns (\<lambda>x. P (g x)) m"
  by (auto simp: returns_def map_option_case bind_eq_Some_conv split: option.splits)

lemma returns_mono: "returns P m \<Longrightarrow> (\<And>x. P x \<Longrightarrow> Q x) \<Longrightarrow> returns Q m"
  by (auto simp: returns_def)

lemma returns_if: "(c \<Longrightarrow> returns P m) \<Longrightarrow> (\<not> c \<Longrightarrow> returns P m') \<Longrightarrow> returns P (if c then m else m')"
  by simp

section \<open>The invariant\<close>

text \<open>A queued trace of device \<open>i\<close>: there are \<open>np\<close> processes, and no time is later than \<open>T\<close>.\<close>

definition queued_ok :: "nat \<Rightarrow> u64 \<Rightarrow> nat \<Rightarrow> io \<Rightarrow> bool" where
  "queued_ok np T i q \<longleftrightarrow> io_dip q = Some i \<and> io_type q = IOP_Q \<and> linked q
     \<and> (\<forall>p. io_pip q = Some p \<longrightarrow> p < np) \<and> (d_time q \<noteq> no_time \<longrightarrow> d_time q \<le> T)"

definition queue_of :: "d_info \<Rightarrow> u64 \<Rightarrow> io option" where
  "queue_of d = tree_map BIT_START (heads d IOP_Q)"

text \<open>Seeks that have been counted are in the tree.\<close>

definition seeks_ok :: "seeki \<Rightarrow> bool" where
  "seeks_ok s \<longleftrightarrow> keyed_inv sb_key (seek_root s) \<and> (tot_seeks s \<noteq> 0 \<longrightarrow> seek_root s \<noteq> Null)"

text \<open>The trees other than \<open>IOP_Q\<close> hold what \<open>ex\<close> says.\<close>

definition dip_ok :: "btt_opts \<Rightarrow> u64 \<Rightarrow> (nat \<Rightarrow> iop_type \<Rightarrow> io rb) \<Rightarrow> nat \<Rightarrow> nat \<Rightarrow> d_info \<Rightarrow> bool" where
  "dip_ok opts T ex np i d \<longleftrightarrow> keyed_inv BIT_START (heads d IOP_Q) \<and> (\<forall>k q. queue_of d k = Some q \<longrightarrow> queued_ok np T i q)
     \<and> (\<forall>ty. ty \<noteq> IOP_Q \<longrightarrow> heads d ty = ex i ty)
     \<and> seeks_ok (q2q_handle d) \<and> seeks_ok (seek_handle d)
     \<and> live_inv (p_live_handle d) \<and> (\<forall>h. up_hist_handle d = Some h \<longrightarrow> length h = NBKTS)
     \<and> (output_all_data opts \<longrightarrow> q2d_priv d \<noteq> None) \<and> (pre_culling d \<longrightarrow> queue_of d = Map.empty)"

definition dips_ok :: "btt_opts \<Rightarrow> u64 \<Rightarrow> (nat \<Rightarrow> iop_type \<Rightarrow> io rb) \<Rightarrow> nat \<Rightarrow> d_info list \<Rightarrow> bool" where
  "dips_ok opts T ex np ds \<longleftrightarrow> (\<forall>i < length ds. dip_ok opts T ex np i (ds ! i))"

definition procs_ok :: "btt \<Rightarrow> bool" where
  "procs_ok b \<longleftrightarrow> keyed_inv fst (root_pid b) \<and> keyed_inv fst (root_name b)
     \<and> (\<forall>(k, p) \<in> set (inorder (root_pid b)). p < length (procs b))
     \<and> (\<forall>(k, p) \<in> set (inorder (root_name b)). p < length (procs b))"

definition btt_inv :: "btt_opts \<Rightarrow> u64 \<Rightarrow> (nat \<Rightarrow> iop_type \<Rightarrow> io rb) \<Rightarrow> btt \<Rightarrow> bool" where
  "btt_inv opts T ex b \<longleftrightarrow> dips_ok opts T ex (length (procs b)) (devs b) \<and> procs_ok b \<and> live_inv (p_live_root b)
     \<and> length (q_histo b) = N_HIST_BKTS \<and> length (d_histo b) = N_HIST_BKTS"

text \<open>What the handlers leave alone: the queues and the devices; processes are only added by \<open>io_setup\<close>.\<close>

definition same_queues :: "btt \<Rightarrow> btt \<Rightarrow> bool" where
  "same_queues b b' \<longleftrightarrow> map queue_of (devs b') = map queue_of (devs b) \<and> map device (devs b') = map device (devs b)
     \<and> length (procs b') = length (procs b)"

text \<open>The result of an operation on a good state.\<close>

definition kept :: "btt_opts \<Rightarrow> u64 \<Rightarrow> (nat \<Rightarrow> iop_type \<Rightarrow> io rb) \<Rightarrow> btt \<Rightarrow> btt \<Rightarrow> bool" where
  "kept opts T ex b b' \<longleftrightarrow> btt_inv opts T ex b' \<and> same_queues b b'"

lemma same_queues_refl [simp]: "same_queues b b"
  by (simp add: same_queues_def)

lemma same_queues_trans: "same_queues a b \<Longrightarrow> same_queues b c \<Longrightarrow> same_queues a c"
  by (simp add: same_queues_def)

lemma same_queues_length: "same_queues b b' \<Longrightarrow> length (devs b') = length (devs b)"
  by (metis length_map same_queues_def)

lemma same_queues_nth:
  assumes "same_queues b b'" "i < length (devs b)"
  shows "queue_of (devs b' ! i) = queue_of (devs b ! i) \<and> device (devs b' ! i) = device (devs b ! i)"
proof -
  have "map queue_of (devs b') ! i = map queue_of (devs b) ! i" "map device (devs b') ! i = map device (devs b) ! i"
    using assms(1) by (simp_all add: same_queues_def)
  then show ?thesis
    using assms(2) same_queues_length [OF assms(1)] by simp
qed

lemma kept_refl: "btt_inv opts T ex b \<Longrightarrow> kept opts T ex b b"
  by (simp add: kept_def)

lemma kept_trans: "kept opts T ex a b \<Longrightarrow> kept opts T ex b c \<Longrightarrow> kept opts T ex a c"
  using same_queues_trans by (auto simp: kept_def)

lemma kept_inv: "kept opts T ex a b \<Longrightarrow> btt_inv opts T ex b"
  by (simp add: kept_def)

text \<open>One step and then the next.\<close>

lemma kept_bind:
  assumes "returns (kept opts T ex b) m" "\<And>b'. kept opts T ex b b' \<Longrightarrow> returns (kept opts T ex b') (f b')"
  shows "returns (kept opts T ex b) (Option.bind m f)"
  unfolding returns_simps
proof (rule returns_mono [OF assms(1)])
  fix b'
  assume b': "kept opts T ex b b'"
  show "returns (kept opts T ex b) (f b')"
    by (rule returns_mono [OF assms(2) [OF b']]) (rule kept_trans [OF b'])
qed

section \<open>Updates that do not touch the queues\<close>

lemma dip_ok_cong:
  assumes "dip_ok opts T ex np i d" "heads d' = heads d"
    "q2q_handle d' = q2q_handle d" "seek_handle d' = seek_handle d"
    "p_live_handle d' = p_live_handle d" "up_hist_handle d' = up_hist_handle d" "q2d_priv d' = q2d_priv d"
    "pre_culling d' \<longrightarrow> pre_culling d"
  shows "dip_ok opts T ex np i d'"
  using assms by (simp add: dip_ok_def queue_of_def)

lemma dips_ok_update:
  assumes "dips_ok opts T ex np ds" "i < length ds \<Longrightarrow> dip_ok opts T ex np i d"
  shows "dips_ok opts T ex np (ds[i := d])"
  unfolding dips_ok_def
proof (intro allI impI)
  fix j
  assume "j < length (ds[i := d])"
  then show "dip_ok opts T ex np j (ds[i := d] ! j)"
    using assms by (cases "j = i") (auto simp: dips_ok_def)
qed

lemma kept_update_dip:
  assumes "btt_inv opts T ex b" "dip_ok opts T ex (length (procs b)) i (devs b ! i) \<Longrightarrow> dip_ok opts T ex (length (procs b)) i (f (devs b ! i))"
    "queue_of (f (devs b ! i)) = queue_of (devs b ! i)" "device (f (devs b ! i)) = device (devs b ! i)"
  shows "kept opts T ex b (update_dip i f b)"
proof -
  have "dips_ok opts T ex (length (procs b)) ((devs b)[i := f (devs b ! i)])"
    using assms(1,2) by (intro dips_ok_update) (auto simp: btt_inv_def dips_ok_def)
  moreover have "map queue_of ((devs b)[i := f (devs b ! i)]) = map queue_of (devs b)"
    "map device ((devs b)[i := f (devs b ! i)]) = map device (devs b)"
    using assms(3,4) by (simp_all add: map_update) (metis list_update_beyond list_update_id not_le nth_map length_map)+
  ultimately show ?thesis
    using assms(1) by (simp add: kept_def btt_inv_def procs_ok_def same_queues_def update_dip_def)
qed

text \<open>The usual case: none of the fields that matter changes.\<close>

definition plain_update :: "(d_info \<Rightarrow> d_info) \<Rightarrow> bool" where
  "plain_update f \<longleftrightarrow> (\<forall>d. heads (f d) = heads d \<and> q2q_handle (f d) = q2q_handle d
     \<and> seek_handle (f d) = seek_handle d \<and> p_live_handle (f d) = p_live_handle d
     \<and> up_hist_handle (f d) = up_hist_handle d \<and> q2d_priv (f d) = q2d_priv d \<and> device (f d) = device d
     \<and> (pre_culling (f d) \<longrightarrow> pre_culling d))"

lemma kept_plain:
  assumes "btt_inv opts T ex b" "plain_update f"
  shows "kept opts T ex b (update_dip i f b)"
proof (rule kept_update_dip [OF assms(1)])
  note f = assms(2) [unfolded plain_update_def, rule_format, of "devs b ! i"]
  show "dip_ok opts T ex (length (procs b)) i (devs b ! i) \<Longrightarrow> dip_ok opts T ex (length (procs b)) i (f (devs b ! i))"
    using f by (auto intro: dip_ok_cong)
  show "queue_of (f (devs b ! i)) = queue_of (devs b ! i)" "device (f (devs b ! i)) = device (devs b ! i)"
    using f by (simp_all add: queue_of_def)
qed

lemma kept_update_proc: "btt_inv opts T ex b \<Longrightarrow> kept opts T ex b (update_proc p f b)"
  by (simp add: kept_def btt_inv_def procs_ok_def same_queues_def update_proc_def)

text \<open>Updates of the rest of the state.\<close>

definition plain_rest :: "btt \<Rightarrow> btt \<Rightarrow> bool" where
  "plain_rest b b' \<longleftrightarrow> devs b' = devs b \<and> procs b' = procs b \<and> root_pid b' = root_pid b \<and> root_name b' = root_name b
     \<and> p_live_root b' = p_live_root b \<and> length (q_histo b') = length (q_histo b) \<and> length (d_histo b') = length (d_histo b)"

lemma kept_rest: "btt_inv opts T ex b \<Longrightarrow> plain_rest b b' \<Longrightarrow> kept opts T ex b b'"
  by (simp add: kept_def btt_inv_def procs_ok_def same_queues_def plain_rest_def)

lemma kept_with_avgs:
  assumes "btt_inv opts T ex b" "io_dip iop = Some i"
  shows "returns (kept opts T ex b) (with_avgs fld f iop b)"
proof -
  let ?b1 = "b\<lparr>all_avgs := fld f (all_avgs b)\<rparr>" and ?upd = "\<lambda>d. d\<lparr>avgs := fld f (avgs d)\<rparr>"
  have 1: "kept opts T ex b ?b1"
    by (rule kept_rest [OF assms(1)]) (simp add: plain_rest_def)
  have 2: "kept opts T ex ?b1 (update_dip i ?upd ?b1)"
    by (rule kept_plain [OF kept_inv [OF 1]]) (simp add: plain_update_def)
  note kept = kept_trans [OF 1 2]
  show ?thesis
    using kept kept_trans [OF kept kept_update_proc [OF kept_inv [OF kept]]] assms(2)
    by (auto simp: with_avgs_def Let_def split: option.split)
qed

lemma kept_UPDATE_AVGS:
  "btt_inv opts T ex b \<Longrightarrow> io_dip iop = Some i \<Longrightarrow> returns (kept opts T ex b) (UPDATE_AVGS fld iop t b)"
  unfolding UPDATE_AVGS_def by (rule kept_with_avgs)

lemmas update_defs = update_q2g_def update_s2g_def update_g2i_def update_q2m_def update_i2d_def update_m2d_def update_d2c_def

lemma kept_update_q2c:
  "btt_inv opts T ex b \<Longrightarrow> io_dip iop = Some i \<Longrightarrow> returns (kept opts T ex b) (update_q2c iop t b)"
  using kept_UPDATE_AVGS [of opts T ex b iop i] by (simp add: update_q2c_def dip_remapper_def del: returns_simps(3)) 


lemma kept_update_q2a:
  "btt_inv opts T ex b \<Longrightarrow> io_dip iop = Some i \<Longrightarrow> returns (kept opts T ex b) (update_q2a iop t b)"
  using kept_UPDATE_AVGS [of opts T ex b iop i] by (simp add: update_q2a_def dip_remapper_def)

lemma kept_update_blks:
  "btt_inv opts T ex b \<Longrightarrow> io_dip iop = Some i \<Longrightarrow> returns (kept opts T ex b) (update_blks iop b)"
  unfolding update_blks_def by (rule kept_with_avgs)

section \<open>The trees of seeks\<close>

lemma seek_insert_keyed:
  assumes "keyed_inv sb_key t"
  shows "returns (\<lambda>t'. keyed_inv sb_key t' \<and> t' \<noteq> Null) (seek_insert d t)"
proof (cases "rb_find sb_key (sint d) t []")
  case None
  let ?b = "\<lparr>sb_sectors = d, sb_nseeks = 1\<rparr>"
  obtain p where p: "rb_place sb_key (sint d) t [] = Some p"
    using None rb_place_find [of sb_key "sint d" t "[]"] by auto
  have "rb_place sb_key (sb_key ?b) t [] = Some p"
    using p by (simp add: sb_key_def)
  from insert_refines [OF assms this]
  obtain t' where t': "rb_link_insert ?b p = Some t'" "keyed_inv sb_key t'" "tree_map sb_key t' = (tree_map sb_key t)(sb_key ?b \<mapsto> ?b)"
    by auto
  have "tree_map sb_key t' (sb_key ?b) \<noteq> tree_map sb_key Null (sb_key ?b)"
    unfolding t'(3) by simp
  then have "t' \<noteq> Null"
    by blast
  then show ?thesis
    using None p t'(1,2) by (simp add: seek_insert_def)
next
  case (Some pos)
  obtain u q where pos: "pos = (u, q)"
    by (cases pos)
  let ?f = "\<lambda>b. b\<lparr>sb_nseeks := sb_nseeks b + 1\<rparr>"
  have "\<And>b. sb_key (?f b) = sb_key b"
    by (simp add: sb_key_def)
  then have "keyed_inv sb_key (modify_at ?f (u, q)) \<and> tree_map sb_key (modify_at ?f (u, q))
      = (tree_map sb_key t)(sint d := map_option ?f (tree_map sb_key t (sint d)))"
    using modify_refines [of sb_key t "sint d" u q ?f] assms Some unfolding pos by blast
  then have m: "keyed_inv sb_key (modify_at ?f (u, q))"
    "tree_map sb_key (modify_at ?f (u, q)) (sint d) = map_option ?f (tree_map sb_key t (sint d))"
    by simp_all
  obtain c l x r where u: "u = Nd c l x r"
    using rb_find_Some [of sb_key "sint d" t "[]" u q] Some unfolding pos by blast
  have "tree_map sb_key t (sint d) = Some x"
    using find_refines [OF assms, of "sint d"] Some by (simp add: pos u)
  then have "tree_map sb_key (modify_at ?f (u, q)) (sint d) \<noteq> tree_map sb_key Null (sint d)"
    unfolding m(2) by simp
  then have "modify_at ?f (u, q) \<noteq> Null"
    by metis
  then show ?thesis
    using Some m(1) unfolding pos by (simp add: seek_insert_def)
qed

lemma seeki_add_keyed: "seeks_ok s \<Longrightarrow> returns seeks_ok (seeki_add a iop s)"
  unfolding seeki_add_def case_prod_beta Let_def returns_simps
  by (rule returns_mono [OF seek_insert_keyed]) (simp_all add: seeks_ok_def)

section \<open>Changes of a queue\<close>

text \<open>The queue of device \<open>i\<close> becomes \<open>f\<close> of it, and nothing else changes in the queues.\<close>

definition queue_step :: "btt_opts \<Rightarrow> u64 \<Rightarrow> (nat \<Rightarrow> iop_type \<Rightarrow> io rb) \<Rightarrow> btt \<Rightarrow> nat
    \<Rightarrow> ((u64 \<Rightarrow> io option) \<Rightarrow> (u64 \<Rightarrow> io option)) \<Rightarrow> btt \<Rightarrow> bool" where
  "queue_step opts T ex b i f b' \<longleftrightarrow> btt_inv opts T ex b' \<and> procs b' = procs b
     \<and> map device (devs b') = map device (devs b)
     \<and> map queue_of (devs b') = (map queue_of (devs b))[i := f (queue_of (devs b ! i))]"

definition set_tree :: "nat \<Rightarrow> iop_type \<Rightarrow> io rb \<Rightarrow> btt \<Rightarrow> btt" where
  "set_tree i ty t = update_dip i (\<lambda>d. d\<lparr>heads := (heads d)(ty := t)\<rparr>)"

lemma set_queue_step:
  assumes "btt_inv opts T ex b" "keyed_inv BIT_START t" "tree_map BIT_START t = f (queue_of (devs b ! i))"
    "\<And>k q. f (queue_of (devs b ! i)) k = Some q \<Longrightarrow> queued_ok (length (procs b)) T i q" "queue_of (devs b ! i) \<noteq> Map.empty"
  shows "queue_step opts T ex b i f (set_tree i IOP_Q t b)"
proof -
  let ?upd = "\<lambda>d. d\<lparr>heads := (heads d)(IOP_Q := t)\<rparr>"
  have queue: "queue_of (?upd d) = tree_map BIT_START t" for d
    by (simp add: queue_of_def)
  have "dip_ok opts T ex (length (procs b)) i (?upd (devs b ! i))" if "i < length (devs b)"
    using assms that unfolding btt_inv_def dips_ok_def dip_ok_def queue by auto
  then have "dips_ok opts T ex (length (procs b)) ((devs b)[i := ?upd (devs b ! i)])"
    using assms(1) by (intro dips_ok_update) (auto simp: btt_inv_def)
  moreover have "map device ((devs b)[i := ?upd (devs b ! i)]) = map device (devs b)"
    by (simp add: map_update) (metis list_update_beyond list_update_id not_le nth_map length_map)
  ultimately show ?thesis
    using assms(1,3) by (simp add: queue_step_def btt_inv_def procs_ok_def set_tree_def update_dip_def map_update queue_of_def)
qed

lemma rb_find_queued:
  assumes "keyed_inv key t" "tree_map key t k = Some q"
  shows "\<exists>pos. rb_find key k t [] = Some pos"
  using find_refines [OF assms(1), of k] assms(2) by (cases "rb_find key k t []") auto

lemma modify_at_key:
  assumes "rb_find key k t [] = Some (u, q)"
  shows "modify_at (\<lambda>_. x) (u, q) = modify_at (\<lambda>y. if key y = k then x else y) (u, q)"
  using rb_find_Some [OF assms] by auto

lemma io_modify_queued:
  assumes "keyed_inv BIT_START t" "tree_map BIT_START t (BIT_START q') = Some q"
  shows "returns (\<lambda>t'. keyed_inv BIT_START t' \<and> tree_map BIT_START t' = (tree_map BIT_START t)(BIT_START q' \<mapsto> q')) (io_modify (\<lambda>_. q') q' t)"
proof -
  let ?k = "BIT_START q'" and ?f = "\<lambda>y. if BIT_START y = BIT_START q' then q' else y"
  obtain u p where pos: "rb_find BIT_START ?k t [] = Some (u, p)"
    using rb_find_queued [OF assms] by auto
  have "BIT_START q = ?k"
    using assms tree_map_Some [of BIT_START t] by blast
  then have "?f q = q'"
    by simp
  moreover have "\<And>y. BIT_START (?f y) = BIT_START y"
    by simp
  ultimately show ?thesis
    using modify_refines [of BIT_START t ?k u p ?f] assms pos modify_at_key [OF pos, of q'] by (auto simp: io_modify_def)
qed

lemma io_store_queued:
  assumes "btt_inv opts T ex b" "i < length (devs b)" "queue_of (devs b ! i) (BIT_START q') = Some q"
    "queued_ok (length (procs b)) T i q'"
  shows "returns (queue_step opts T ex b i (\<lambda>m. m(BIT_START q' \<mapsto> q'))) (io_store q' b)"
proof -
  have ok: "dip_ok opts T ex (length (procs b)) i (devs b ! i)"
    using assms(1,2) by (simp add: btt_inv_def dips_ok_def)
  then obtain t' where t': "io_modify (\<lambda>_. q') q' (heads (devs b ! i) IOP_Q) = Some t'" "keyed_inv BIT_START t'"
    "tree_map BIT_START t' = (queue_of (devs b ! i))(BIT_START q' \<mapsto> q')"
    using io_modify_queued [of "heads (devs b ! i) IOP_Q" q' q] assms(3) by (auto simp: returns_def queue_of_def dip_ok_def)
  have "io_store q' b = Some (set_tree i IOP_Q t' b)"
    using assms(4) t'(1) by (simp add: io_store_def queued_ok_def set_tree_def)
  moreover have "queue_step opts T ex b i (\<lambda>m. m(BIT_START q' \<mapsto> q')) (set_tree i IOP_Q t' b)"
    by (rule set_queue_step [OF assms(1) t'(2)]) (use ok assms(3,4) t'(3) in \<open>auto simp: dip_ok_def split: if_splits\<close>)
  ultimately show ?thesis
    by simp
qed

lemma io_release_queued:
  assumes "btt_inv opts T ex b" "i < length (devs b)" "queue_of (devs b ! i) (BIT_START q') = Some q"
    "queued_ok (length (procs b)) T i q'"
  shows "returns (queue_step opts T ex b i (\<lambda>m. m(BIT_START q' := None))) (io_release q' b)"
proof -
  let ?t = "heads (devs b ! i) IOP_Q"
  have ok: "dip_ok opts T ex (length (procs b)) i (devs b ! i)"
    using assms(1,2) by (simp add: btt_inv_def dips_ok_def)
  then have inv: "keyed_inv BIT_START ?t" "tree_map BIT_START ?t (BIT_START q') = Some q"
    using assms(3) by (simp_all add: dip_ok_def queue_of_def)
  obtain u p where pos: "rb_find BIT_START (BIT_START q') ?t [] = Some (u, p)"
    using rb_find_queued [OF inv] by auto
  obtain t' where t': "rb_erase u p = Some t'" "keyed_inv BIT_START t'"
    "tree_map BIT_START t' = (queue_of (devs b ! i))(BIT_START q' := None)"
    using erase_refines [OF inv(1) pos] by (auto simp: queue_of_def)
  have "io_release q' b = Some (set_tree i IOP_Q t' b)"
    using assms(4) t'(1) pos by (simp add: io_release_def iop_rem_dip_def io_erase_def queued_ok_def set_tree_def)
  moreover have "queue_step opts T ex b i (\<lambda>m. m(BIT_START q' := None)) (set_tree i IOP_Q t' b)"
    by (rule set_queue_step [OF assms(1) t'(2)]) (use ok assms(3) t'(3) in \<open>auto simp: dip_ok_def split: if_splits\<close>)
  ultimately show ?thesis
    by simp
qed


section \<open>Processes\<close>

text \<open>The tables after a lookup that may add a process.\<close>

definition proc_step :: "btt \<Rightarrow> btt \<Rightarrow> bool" where
  "proc_step b b' \<longleftrightarrow> procs_ok b' \<and> length (procs b) \<le> length (procs b')
     \<and> devs b' = devs b \<and> p_live_root b' = p_live_root b \<and> q_histo b' = q_histo b \<and> d_histo b' = d_histo b"

lemma proc_step_refl: "procs_ok b \<Longrightarrow> proc_step b b"
  by (simp add: proc_step_def)

lemma proc_step_trans: "proc_step a b \<Longrightarrow> proc_step b c \<Longrightarrow> proc_step a c"
  by (auto simp: proc_step_def)

lemma proc_step_frame:
  "proc_step b b' \<Longrightarrow> devs b' = devs b \<and> p_live_root b' = p_live_root b \<and> q_histo b' = q_histo b \<and> d_histo b' = d_histo b"
  by (auto simp: proc_step_def)

definition table_ok :: "nat \<Rightarrow> ('k :: linorder \<times> nat) rb \<Rightarrow> bool" where
  "table_ok np t \<longleftrightarrow> keyed_inv fst t \<and> (\<forall>(k, p) \<in> set (inorder t). p < np)"

lemma procs_ok_tables: "procs_ok b \<longleftrightarrow> table_ok (length (procs b)) (root_pid b) \<and> table_ok (length (procs b)) (root_name b)"
  by (auto simp: procs_ok_def table_ok_def)

lemma table_ok_mono: "table_ok np t \<Longrightarrow> np \<le> np' \<Longrightarrow> table_ok np' t"
  by (fastforce simp: table_ok_def)

lemma table_insert:
  assumes "table_ok np t" "rb_place fst k t [] = Some p" "v < np"
  shows "returns (table_ok np) (rb_link_insert (k, v) p)"
proof -
  obtain t' where t': "rb_link_insert (k, v) p = Some t'" "keyed_inv fst t'" "tree_map fst t' = (tree_map fst t)(k \<mapsto> (k, v))"
    using insert_refines [of fst t "(k, v)" p] assms by (auto simp: table_ok_def)
  have "q < np" if "(j, q) \<in> set (inorder t')" for j q
  proof -
    have "tree_map fst t' j = Some (j, q)"
      using tree_map_Some [OF t'(2)] that by simp
    then have "(j, q) = (k, v) \<or> tree_map fst t j = Some (j, q)"
      using t'(3) by (auto split: if_splits)
    then show ?thesis
      using assms tree_map_Some [of fst t j "(j, q)"] by (auto simp: table_ok_def)
  qed
  then show ?thesis
    using t' by (auto simp: table_ok_def)
qed

lemma table_find:
  assumes "table_ok np t" "map_option snd (Option.bind (rb_find fst k t []) elem_at) = Some v"
  shows "v < np"
proof -
  obtain j where "tree_map fst t k = Some (j, v)"
    using assms find_refines [of fst t k] by (auto simp: table_ok_def)
  then show ?thesis
    using assms(1) tree_map_Some [of fst t k "(j, v)"] by (auto simp: table_ok_def)
qed

lemma insert_pid_ok: "procs_ok b \<Longrightarrow> pip < length (procs b) \<Longrightarrow> returns (proc_step b) (insert_pid pip pid b)"
  using table_insert [of "length (procs b)" "root_pid b" pid _ pip] proc_step_refl
  by (auto simp: insert_pid_def procs_ok_tables proc_step_def returns_def split: option.split)

lemma insert_name_ok: "procs_ok b \<Longrightarrow> pip < length (procs b) \<Longrightarrow> returns (proc_step b) (insert_name pip b)"
  using table_insert [of "length (procs b)" "root_name b" "pi_name (procs b ! pip)" _ pip] proc_step_refl
  by (auto simp: insert_name_def Let_def procs_ok_tables proc_step_def returns_def split: option.split)

lemma insert_process_ok:
  assumes "procs_ok b" "pip < length (procs b)"
  shows "returns (proc_step b) (insert_process pip b)"
  unfolding insert_process_def returns_simps
proof (rule returns_mono [OF insert_pid_ok [OF assms]])
  fix b'
  assume b': "proc_step b b'"
  then have "returns (proc_step b') (insert_name pip b')"
    using assms(2) by (intro insert_name_ok) (auto simp: proc_step_def)
  then show "returns (proc_step b) (insert_name pip b')"
    by (rule returns_mono) (rule proc_step_trans [OF b'])
qed

text \<open>A lookup yields an index of a process.\<close>

definition lookup_step :: "btt \<Rightarrow> nat option \<times> btt \<Rightarrow> bool" where
  "lookup_step b = (\<lambda>(pip, b'). proc_step b b' \<and> (\<forall>p. pip = Some p \<longrightarrow> p < length (procs b')))"

lemma find_process_pid_ok: "procs_ok b \<Longrightarrow> find_process_pid pid b = Some p \<Longrightarrow> p < length (procs b)"
  using table_find [of "length (procs b)" "root_pid b" pid p] by (simp add: find_process_pid_def procs_ok_tables)

lemma find_process_by_name_ok: "procs_ok b \<Longrightarrow> find_process_by_name name b = Some p \<Longrightarrow> p < length (procs b)"
  using table_find [of "length (procs b)" "root_name b" name p] by (simp add: find_process_by_name_def procs_ok_tables)

lemma find_process_named_ok:
  assumes "procs_ok b"
  shows "returns (lookup_step b) (find_process_named pid name b)"
proof -
  have "returns (\<lambda>b'. lookup_step b (Some p, b')) (insert_pid p pid b)" if "find_process_by_name name b = Some p" for p
    by (rule returns_mono [OF insert_pid_ok [OF assms find_process_by_name_ok [OF assms that]]])
      (use find_process_by_name_ok [OF assms that] in \<open>auto simp: lookup_step_def proc_step_def\<close>)
  then show ?thesis
    using find_process_pid_ok [OF assms] find_process_by_name_ok [OF assms] proc_step_refl [OF assms]
    by (auto simp: find_process_named_def lookup_step_def split: option.split)
qed

lemma process_alloc_ok:
  assumes "procs_ok b"
  shows "returns (proc_step b) (process_alloc pid name b)"
  unfolding process_alloc_def returns_simps
proof (rule returns_mono [OF find_process_named_ok [OF assms]])
  fix x
  assume x: "lookup_step b x"
  obtain pip b1 where pip: "x = (pip, b1)"
    by (cases x)
  let ?b2 = "b1\<lparr>procs := procs b1 @ [\<lparr>pi_regions = region_init, pi_avgs = zero_avgs, pi_last_q = no_time, pi_pid = pid, pi_name = name\<rparr>]\<rparr>"
  have b1: "proc_step b b1"
    using x pip by (simp add: lookup_step_def)
  then have b2: "proc_step b ?b2"
    by (auto simp: proc_step_def procs_ok_tables intro: table_ok_mono)
  then have "returns (proc_step ?b2) (insert_process (length (procs b1)) ?b2)"
    by (intro insert_process_ok) (simp_all add: proc_step_def)
  then have "returns (proc_step b) (insert_process (length (procs b1)) ?b2)"
    by (rule returns_mono) (rule proc_step_trans [OF b2])
  then show "returns (proc_step b) (case x of (pip, b1) \<Rightarrow> (case pip of
      Some _ \<Rightarrow> Some b1
    | None \<Rightarrow> insert_process (length (procs b1)) (b1\<lparr>procs := procs b1 @ [\<lparr>pi_regions = region_init, pi_avgs = zero_avgs,
        pi_last_q = no_time, pi_pid = pid, pi_name = name\<rparr>]\<rparr>)))"
    using b1 pip by (simp split: option.split)
qed

lemma find_process_ok:
  assumes "procs_ok b" "pid \<noteq> no_pid"
  shows "returns (lookup_step b) (find_process pid b)"
proof -
  have "returns (\<lambda>b1. lookup_step b (find_process_pid pid b1, b1)) (process_alloc pid (pid_name pid) b)"
    by (rule returns_mono [OF process_alloc_ok [OF assms(1)]])
      (use find_process_pid_ok in \<open>auto simp: lookup_step_def proc_step_def\<close>)
  then show ?thesis
    using assms find_process_pid_ok [OF assms(1)] proc_step_refl [OF assms(1)]
    by (auto simp: find_process_def lookup_step_def split: option.split)
qed


section \<open>Setting up a trace\<close>

definition no_extra :: "nat \<Rightarrow> iop_type \<Rightarrow> io rb" where
  "no_extra = (\<lambda>_ _. Null)"

text \<open>The trace that is being handled in the tree of its type.\<close>

definition extra :: "io \<Rightarrow> nat \<Rightarrow> iop_type \<Rightarrow> io rb" where
  "extra iop = (\<lambda>i ty. if io_dip iop = Some i \<and> io_type iop = ty \<and> ty \<noteq> IOP_Q then Nd RB_BLACK Null iop Null else Null)"

lemma live_inv_Null [simp]: "live_inv Null"
  by (simp add: live_inv_def rb_inv_def)

lemma seeks_ok_open: "seeks_ok (seeki_open opts name post)"
  by (simp add: seeks_ok_def seeki_open_def seeki_alloc_def Let_def)

lemma new_dip_ok: "dip_ok opts T no_extra np i (new_dip opts dev t)"
  by (simp add: dip_ok_def new_dip_def queue_of_def seeks_ok_open unplug_hist_alloc_def no_extra_def Let_def fun_eq_iff)

lemma new_dip_fields [simp]:
  "device (new_dip opts dev t) = dev" "queue_of (new_dip opts dev t) = Map.empty" "pre_culling (new_dip opts dev t)"
  by (simp_all add: new_dip_def queue_of_def Let_def fun_eq_iff)

lemma dip_find_Some: "dip_find dev b = Some i \<Longrightarrow> i < length (devs b) \<and> device (devs b ! i) = dev"
  by (auto simp: dip_find_def find_Some_iff dev_chain_def) (use nth_mem in fastforce)+

lemma dip_find_None: "dip_find dev b = None \<Longrightarrow> dev \<notin> device ` set (devs b)"
  by (auto simp: dip_find_def find_None_iff dev_chain_def in_set_conv_nth)

text \<open>The devices may have become more; queues and devices that were there stay.\<close>

definition grown :: "btt \<Rightarrow> btt \<Rightarrow> bool" where
  "grown b b' \<longleftrightarrow> (\<exists>ext. map device (devs b') = map device (devs b) @ ext
     \<and> map queue_of (devs b') = map queue_of (devs b) @ replicate (length ext) Map.empty)
     \<and> (distinct (map device (devs b)) \<longrightarrow> distinct (map device (devs b')))"

lemma dip_get_ok:
  assumes "btt_inv opts T no_extra b" "dip_get opts dev t b = (i, b1)"
  shows "btt_inv opts T no_extra b1 \<and> i < length (devs b1) \<and> device (devs b1 ! i) = dev \<and> grown b b1
    \<and> procs b1 = procs b"
proof (cases "dip_find dev b")
  case None
  then have b1: "b1 = b\<lparr>devs := devs b @ [new_dip opts dev t]\<rparr>" "i = length (devs b)"
    using assms(2) by (auto simp: dip_get_def)
  have "dips_ok opts T no_extra (length (procs b)) (devs b1)"
    using assms(1) new_dip_ok by (auto simp: b1 btt_inv_def dips_ok_def nth_append less_Suc_eq)
  then show ?thesis
    using assms(1) dip_find_None [OF None] by (auto simp: b1 btt_inv_def procs_ok_def grown_def intro!: exI [of _ "[dev]"])
next
  case (Some j)
  then show ?thesis
    using assms dip_find_Some [OF Some] by (auto simp: dip_get_def grown_def)
qed

lemma rb_insert_Null: "rb_insert iop Null = Some (True, Nd RB_BLACK Null iop Null)"
  by (simp add: rb_insert_def rb_link_insert_def)

text \<open>The tree of another type is set to what \<open>extra\<close> says.\<close>

lemma set_other_tree:
  assumes "btt_inv opts T ex b" "ty \<noteq> IOP_Q"
    "\<And>j ty'. j < length (devs b) \<Longrightarrow> ex' j ty' = (if j = i \<and> ty' = ty then t else ex j ty')"
  shows "btt_inv opts T ex' (set_tree i ty t b) \<and> same_queues b (set_tree i ty t b)"
proof -
  let ?upd = "\<lambda>d. d\<lparr>heads := (heads d)(ty := t)\<rparr>"
  have q: "queue_of (?upd d) = queue_of d" for d
    using assms(2) by (simp add: queue_of_def)
  have ok: "dip_ok opts T ex (length (procs b)) j (devs b ! j)" if "j < length (devs b)" for j
    using assms(1) that by (simp add: btt_inv_def dips_ok_def)
  have "dip_ok opts T ex' (length (procs b)) j ((devs b)[i := ?upd (devs b ! i)] ! j)" if "j < length (devs b)" for j
    using ok [OF that] assms(2) assms(3) [OF that] that
    by (cases "j = i") (auto simp: dip_ok_def queue_of_def)
  then have "dips_ok opts T ex' (length (procs b)) ((devs b)[i := ?upd (devs b ! i)])"
    by (simp add: dips_ok_def)
  moreover have "map queue_of ((devs b)[i := ?upd (devs b ! i)]) = map queue_of (devs b)"
    "map device ((devs b)[i := ?upd (devs b ! i)]) = map device (devs b)"
    by (simp_all add: map_update q) (metis list_update_beyond list_update_id not_le nth_map length_map)+
  ultimately show ?thesis
    using assms(1) by (simp add: btt_inv_def procs_ok_def same_queues_def set_tree_def update_dip_def)
qed


lemma queued_ok_mono: "queued_ok np T i q \<Longrightarrow> np \<le> np' \<Longrightarrow> T \<le> T' \<Longrightarrow> queued_ok np' T' i q"
  by (fastforce simp: queued_ok_def)

lemma dip_ok_mono: "dip_ok opts T ex np i d \<Longrightarrow> np \<le> np' \<Longrightarrow> T \<le> T' \<Longrightarrow> dip_ok opts T' ex np' i d"
  using queued_ok_mono by (fastforce simp: dip_ok_def)

lemma dips_ok_mono: "dips_ok opts T ex np ds \<Longrightarrow> np \<le> np' \<Longrightarrow> T \<le> T' \<Longrightarrow> dips_ok opts T' ex np' ds"
  using dip_ok_mono by (fastforce simp: dips_ok_def)

lemma btt_inv_mono: "btt_inv opts T ex b \<Longrightarrow> T \<le> T' \<Longrightarrow> btt_inv opts T' ex b"
  using dips_ok_mono by (fastforce simp: btt_inv_def)

lemma btt_inv_proc_step: "btt_inv opts T ex b \<Longrightarrow> proc_step b b' \<Longrightarrow> btt_inv opts T ex b'"
  using dips_ok_mono [of opts T ex "length (procs b)" "devs b" "length (procs b')" T] by (simp add: btt_inv_def proc_step_def)

lemma update_dip_comp: "i < length (devs b) \<Longrightarrow> update_dip i f (update_dip i g b) = update_dip i (\<lambda>d. f (g d)) b"
  by (simp add: update_dip_def)

lemma update_dip_frame [simp]:
  "procs (update_dip i f b) = procs b" "length (devs (update_dip i f b)) = length (devs b)"
  "p_live_root (update_dip i f b) = p_live_root b" "q_histo (update_dip i f b) = q_histo b" "d_histo (update_dip i f b) = d_histo b"
  "root_pid (update_dip i f b) = root_pid b" "root_name (update_dip i f b) = root_name b"
  by (simp_all add: update_dip_def)

lemma procs_ok_update_dip [simp]: "procs_ok (update_dip i f b) = procs_ok b"
  by (simp add: procs_ok_def)

text \<open>The device of a trace, ready for the insertion.\<close>

lemma dip_ready:
  assumes "btt_inv opts T no_extra b" "dip_get opts dev t b = (i, b1)" "b2 = update_dip i (\<lambda>d. d\<lparr>pre_culling := False\<rparr>) b1"
  shows "btt_inv opts T no_extra b2 \<and> i < length (devs b2) \<and> device (devs b2 ! i) = dev \<and> grown b b2 \<and> procs b2 = procs b
    \<and> \<not> pre_culling (devs b2 ! i)"
proof -
  have 1: "btt_inv opts T no_extra b1" "i < length (devs b1)" "device (devs b1 ! i) = dev" "grown b b1" "procs b1 = procs b"
    using dip_get_ok [OF assms(1,2)] by auto
  have 2: "kept opts T no_extra b1 b2"
    unfolding assms(3) by (rule kept_plain [OF 1(1)]) (simp add: plain_update_def)
  have "\<not> pre_culling (devs b2 ! i)" "procs b2 = procs b"
    using 1(2,5) by (simp_all add: assms(3) update_dip_def)
  then show ?thesis
    using 1 2 same_queues_nth [of b1 b2 i] same_queues_length [of b1 b2] by (auto simp: kept_def same_queues_def grown_def)
qed

text \<open>What \<open>io_setup\<close> makes of a new trace: the trace that is linked is in the tree of its type, and a queued one is in the
  queue, where there was none with this start.\<close>

definition setup_ok :: "btt_opts \<Rightarrow> u64 \<Rightarrow> iop_type \<Rightarrow> io \<Rightarrow> btt \<Rightarrow> io \<times> btt \<Rightarrow> bool" where
  "setup_ok opts T ty iop b = (\<lambda>(iop', b'). io_t iop' = io_t iop \<and> d_time iop' = d_time iop
     \<and> (if linked iop'
        then \<exists>i b1. grown b b1 \<and> i < length (devs b1) \<and> length (devs b') = length (devs b1) \<and> map device (devs b') = map device (devs b1)
           \<and> device (devs b1 ! i) = tr_device (io_t iop) \<and> io_dip iop' = Some i \<and> io_type iop' = ty
           \<and> (\<forall>p. io_pip iop' = Some p \<longrightarrow> p < length (procs b'))
           \<and> btt_inv opts T (extra iop') b'
           \<and> (ty = IOP_Q \<longrightarrow> queue_of (devs b1 ! i) (BIT_START iop') = None)
           \<and> map queue_of (devs b') = (if ty = IOP_Q then (map queue_of (devs b1))[i := (queue_of (devs b1 ! i))(BIT_START iop' \<mapsto> iop')]
                                       else map queue_of (devs b1))
        else grown b b' \<and> btt_inv opts T no_extra b'
          \<and> (\<exists>i < length (devs b'). device (devs b' ! i) = tr_device (io_t iop)
               \<and> (if ty = IOP_Q then queue_of (devs b' ! i) (BIT_START iop) \<noteq> None else queue_of (devs b' ! i) = Map.empty))))"

lemma io_store_other:
  assumes "io_dip iop = Some i" "heads (devs b ! i) (io_type iop) = Nd RB_BLACK Null iop' Null" "BIT_START iop' = BIT_START iop"
  shows "io_store iop b = Some (set_tree i (io_type iop) (Nd RB_BLACK Null iop Null) b)"
  using assms by (simp add: io_store_def io_modify_def set_tree_def)

lemma set_tree_frame [simp]:
  "procs (set_tree i ty t b) = procs b" "length (devs (set_tree i ty t b)) = length (devs b)"
  by (simp_all add: set_tree_def)

text \<open>A type other than \<open>IOP_Q\<close>: the trace is alone in its tree.\<close>

abbreviation single :: "io \<Rightarrow> io rb" where
  "single iop \<equiv> Nd RB_BLACK Null iop Null"

definition alone :: "nat \<Rightarrow> iop_type \<Rightarrow> io \<Rightarrow> nat \<Rightarrow> iop_type \<Rightarrow> io rb" where
  "alone i ty iop = (\<lambda>j ty'. if j = i \<and> ty' = ty then single iop else Null)"

lemma link_other:
  assumes "btt_inv opts T no_extra b" "ty \<noteq> IOP_Q" "i < length (devs b)"
    "b' = update_dip i (\<lambda>d. d\<lparr>heads := (heads d)(ty := single iop), end_time := t\<rparr>) b"
  shows "btt_inv opts T (alone i ty iop) b' \<and> same_queues b b'"
proof -
  have 1: "btt_inv opts T (alone i ty iop) (set_tree i ty (single iop) b)" "same_queues b (set_tree i ty (single iop) b)"
    using set_other_tree [of opts T no_extra b ty "alone i ty iop" i "single iop"] assms(1,2) by (auto simp: no_extra_def alone_def)
  have "b' = update_dip i (\<lambda>d. d\<lparr>end_time := t\<rparr>) (set_tree i ty (single iop) b)"
    using assms(3,4) by (simp add: set_tree_def update_dip_comp)
  then have "kept opts T (alone i ty iop) (set_tree i ty (single iop) b) b'"
    using kept_plain [OF 1(1), of "\<lambda>d. d\<lparr>end_time := t\<rparr>"] by (simp add: plain_update_def)
  then show ?thesis
    using 1(2) same_queues_trans by (auto simp: kept_def)
qed

lemma finish_other:
  assumes "btt_inv opts T (alone i ty iop0) b" "ty \<noteq> IOP_Q" "i < length (devs b)" "pid \<noteq> no_pid" "BIT_START iop = BIT_START iop0"
    "io_type iop = ty"
  shows "\<exists>pip b1 b2. find_process pid b = Some (pip, b1)
    \<and> io_store (iop\<lparr>io_dip := Some i, io_pip := pip, bytes_left := n\<rparr>) b1 = Some b2
    \<and> btt_inv opts T (extra (iop\<lparr>io_dip := Some i, io_pip := pip, bytes_left := n\<rparr>)) b2
    \<and> map queue_of (devs b2) = map queue_of (devs b) \<and> map device (devs b2) = map device (devs b)
    \<and> (\<forall>p. pip = Some p \<longrightarrow> p < length (procs b2))"
proof -
  obtain pip b1 where b1: "find_process pid b = Some (pip, b1)" "lookup_step b (pip, b1)"
    using find_process_ok [of b pid] assms(1,4) by (auto simp: returns_def btt_inv_def)
  have inv: "btt_inv opts T (alone i ty iop0) b1" and same: "devs b1 = devs b"
    using btt_inv_proc_step [OF assms(1), of b1] b1(2) by (auto simp: lookup_step_def proc_step_def)
  define iop3 where "iop3 = iop\<lparr>io_dip := Some i, io_pip := pip, bytes_left := n\<rparr>"
  have "heads (devs b1 ! i) ty = single iop0"
    using inv assms(2,3) by (simp add: btt_inv_def dips_ok_def dip_ok_def same alone_def)
  then have store: "io_store iop3 b1 = Some (set_tree i ty (single iop3) b1)"
    using io_store_other [of iop3 i b1 iop0] assms(5,6) by (simp add: iop3_def BIT_START_def)
  have "btt_inv opts T (extra iop3) (set_tree i ty (single iop3) b1) \<and> same_queues b1 (set_tree i ty (single iop3) b1)"
    using assms(2,6) by (intro set_other_tree [OF inv]) (auto simp: extra_def iop3_def alone_def)
  then show ?thesis
    using b1 store by (auto simp: iop3_def same_queues_def same lookup_step_def)
qed

lemma io_setup_other:
  assumes "btt_inv opts T no_extra b" "ty \<noteq> IOP_Q" "tr_pid (io_t iop) \<noteq> no_pid" "\<not> linked iop"
  shows "returns (setup_ok opts T ty iop b) (io_setup opts ty iop b)"
proof -
  let ?dev = "tr_device (io_t iop)" and ?iop = "iop\<lparr>io_type := ty\<rparr>" and ?t = "tr_time (io_t iop)"
  obtain i b1 where got: "dip_get opts ?dev ?t b = (i, b1)"
    by (cases "dip_get opts ?dev ?t b")
  define b2 where "b2 = update_dip i (\<lambda>d. d\<lparr>pre_culling := False\<rparr>) b1"
  note b1 = dip_get_ok [OF assms(1) got] and b2 = dip_ready [OF assms(1) got b2_def]
  show ?thesis
  proof (cases "pre_culling (devs b1 ! i) \<and> ty \<noteq> IOP_A")
    case True
    then have "io_setup opts ty iop b = Some (?iop\<lparr>io_dip := None\<rparr>, b1)"
      using assms(2,4) got by (simp add: io_setup_def dip_alloc_def Let_def)
    moreover have "queue_of (devs b1 ! i) = Map.empty"
      using True b1 by (simp add: btt_inv_def dips_ok_def dip_ok_def)
    ultimately show ?thesis
      using b1 assms(2,4) by (auto simp: setup_ok_def)
  next
    case False
    let ?iop1 = "?iop\<lparr>linked := True\<rparr>"
    have "heads (devs b2 ! i) ty = Null"
      using b2 assms(2) by (simp add: btt_inv_def dips_ok_def dip_ok_def no_extra_def)
    moreover define b3 where "b3 = update_dip i (\<lambda>d. d\<lparr>heads := (heads d)(ty := single ?iop), end_time := BIT_TIME ?t\<rparr>) b2"
    ultimately have alloc: "dip_alloc opts ?dev ?iop b = Some (Some i, ?iop1, b3)"
      using False got by (auto simp: dip_alloc_def Let_def b2_def b3_def rb_insert_Null)
    have b3: "btt_inv opts T (alone i ty ?iop) b3" "same_queues b2 b3"
      using link_other [OF _ assms(2) _ b3_def] b2 by auto
    have "i < length (devs b3)" "BIT_START ?iop1 = BIT_START ?iop"
      using b2 by (simp_all add: b3_def BIT_START_def)
    then show ?thesis
      using finish_other [OF b3(1) assms(2) _ assms(3), of ?iop1 "ucast (tr_bytes (io_t iop))"] alloc b2 b3(2)
        same_queues_length [OF b3(2)] assms(2)
      by (auto simp: io_setup_def setup_ok_def same_queues_def intro!: exI [of _ b2] dest: map_eq_imp_length_eq)
  qed
qed


text \<open>A queued trace: the tree refuses one with the same start.\<close>

lemma rb_insert_queue:
  assumes "keyed_inv BIT_START t"
  shows "(\<exists>q. tree_map BIT_START t (BIT_START iop) = Some q) \<and> rb_insert iop t = Some (False, t)
    \<or> tree_map BIT_START t (BIT_START iop) = None \<and> (\<exists>t'. rb_insert iop t = Some (True, t') \<and> keyed_inv BIT_START t'
        \<and> tree_map BIT_START t' = (tree_map BIT_START t)(BIT_START iop \<mapsto> iop))"
proof (cases "rb_place BIT_START (BIT_START iop) t []")
  case None
  then obtain u p where up: "rb_find BIT_START (BIT_START iop) t [] = Some (u, p)"
    using rb_place_find [of BIT_START "BIT_START iop" t "[]"] by auto
  then have "\<exists>q. tree_map BIT_START t (BIT_START iop) = Some q"
    using find_refines [OF assms, of "BIT_START iop"] rb_find_Some [OF up] by auto
  then show ?thesis
    using None by (simp add: rb_insert_def)
next
  case (Some p)
  then have "rb_find BIT_START (BIT_START iop) t [] = None"
    using rb_place_find [of BIT_START "BIT_START iop" t "[]"] by (metis option.distinct(1) option.exhaust)
  then have "tree_map BIT_START t (BIT_START iop) = None"
    using find_refines [OF assms, of "BIT_START iop"] by simp
  then show ?thesis
    using insert_refines [OF assms Some] Some by (auto simp: rb_insert_def)
qed

text \<open>The trace has been linked, its device and process follow.\<close>

lemma finish_queue:
  assumes "btt_inv opts T no_extra b" "i < length (devs b)" "pid \<noteq> no_pid" "keyed_inv BIT_START t1"
    "tree_map BIT_START t1 = (queue_of (devs b ! i))(BIT_START iop \<mapsto> iop1)" "BIT_START iop1 = BIT_START iop"
    "b1 = update_dip i (\<lambda>d. d\<lparr>heads := (heads d)(IOP_Q := t1), end_time := e\<rparr>) b"
    "io_type iop = IOP_Q" "linked iop" "d_time iop = no_time \<or> d_time iop \<le> T" "\<not> pre_culling (devs b ! i)"
  shows "\<exists>pip b2 b3. find_process pid b1 = Some (pip, b2)
    \<and> io_store (iop\<lparr>io_dip := Some i, io_pip := pip, bytes_left := n\<rparr>) b2 = Some b3
    \<and> btt_inv opts T no_extra b3 \<and> map device (devs b3) = map device (devs b)
    \<and> map queue_of (devs b3) = (map queue_of (devs b))[i := (queue_of (devs b ! i))(BIT_START iop \<mapsto>
        iop\<lparr>io_dip := Some i, io_pip := pip, bytes_left := n\<rparr>)]
    \<and> (\<forall>p. pip = Some p \<longrightarrow> p < length (procs b3))"
proof -
  have "procs_ok b1"
    using assms(1,7) by (simp add: btt_inv_def)
  then obtain pip b2 where b2: "find_process pid b1 = Some (pip, b2)" "lookup_step b1 (pip, b2)"
    using find_process_ok [of b1 pid] assms(3) by (auto simp: returns_def)
  define iop3 where "iop3 = iop\<lparr>io_dip := Some i, io_pip := pip, bytes_left := n\<rparr>"
  have devs: "devs b2 = devs b1" and np: "length (procs b) \<le> length (procs b2)"
    using b2(2) assms(7) by (simp_all add: lookup_step_def proc_step_def)
  have k: "BIT_START iop3 = BIT_START iop"
    by (simp add: iop3_def BIT_START_def)
  obtain t3 where t3: "io_modify (\<lambda>_. iop3) iop3 t1 = Some t3" "keyed_inv BIT_START t3"
    "tree_map BIT_START t3 = (queue_of (devs b ! i))(BIT_START iop \<mapsto> iop3)"
    using io_modify_queued [OF assms(4), of iop3 iop1] assms(5) k by (auto simp: returns_def)
  define b3 where "b3 = set_tree i IOP_Q t3 b2"
  have "heads (devs b2 ! i) IOP_Q = t1"
    using assms(2,7) by (simp add: devs update_dip_def)
  then have store: "io_store iop3 b2 = Some b3"
    using t3(1) assms(8) by (simp add: io_store_def iop3_def b3_def set_tree_def)
  let ?d = "(devs b ! i)\<lparr>end_time := e, heads := (heads (devs b ! i))(IOP_Q := t3)\<rparr>"
  have devs3: "devs b3 = (devs b)[i := ?d]"
    using assms(2) by (simp add: b3_def set_tree_def update_dip_def devs assms(7))
  have ok: "dips_ok opts T no_extra (length (procs b2)) (devs b)"
    using assms(1) np dips_ok_mono by (auto simp: btt_inv_def)
  have "queued_ok (length (procs b2)) T i iop3"
    using b2(2) assms(8,9,10) by (auto simp: queued_ok_def iop3_def lookup_step_def)
  then have "dip_ok opts T no_extra (length (procs b2)) i ?d"
    using ok assms(2,11) t3(2,3) by (auto simp: dips_ok_def dip_ok_def queue_of_def)
  then have "dips_ok opts T no_extra (length (procs b3)) (devs b3)"
    unfolding devs3 using dips_ok_update [OF ok] by (simp add: b3_def)
  moreover have "procs_ok b3" "p_live_root b3 = p_live_root b" "q_histo b3 = q_histo b" "d_histo b3 = d_histo b"
    using b2(2) assms(7) by (simp_all add: b3_def set_tree_def lookup_step_def proc_step_def)
  ultimately have "btt_inv opts T no_extra b3"
    using assms(1) by (simp add: btt_inv_def)
  moreover have "map queue_of (devs b3) = (map queue_of (devs b))[i := (queue_of (devs b ! i))(BIT_START iop \<mapsto> iop3)]"
    using t3(3) by (simp add: devs3 map_update queue_of_def)
  moreover have "map device (devs b3) = map device (devs b)"
    using assms(2) by (simp add: devs3 map_update) (metis list_update_id nth_map length_map)
  ultimately show ?thesis
    using b2 store by (auto simp: iop3_def lookup_step_def b3_def)
qed

lemma extra_queue: "io_type iop = IOP_Q \<Longrightarrow> extra iop = no_extra"
  by (auto simp: extra_def no_extra_def fun_eq_iff)

lemma io_setup_queue:
  assumes "btt_inv opts T no_extra b" "tr_pid (io_t iop) \<noteq> no_pid" "\<not> linked iop" "d_time iop = no_time \<or> d_time iop \<le> T"
  shows "returns (setup_ok opts T IOP_Q iop b) (io_setup opts IOP_Q iop b)"
proof -
  let ?dev = "tr_device (io_t iop)" and ?iop = "iop\<lparr>io_type := IOP_Q\<rparr>" and ?t = "tr_time (io_t iop)"
  obtain i b1 where got: "dip_get opts ?dev ?t b = (i, b1)"
    by (cases "dip_get opts ?dev ?t b")
  define b2 where "b2 = update_dip i (\<lambda>d. d\<lparr>pre_culling := False\<rparr>) b1"
  note b2 = dip_ready [OF assms(1) got b2_def]
  let ?tree = "heads (devs b2 ! i) IOP_Q"
  have keyed: "keyed_inv BIT_START ?tree"
    using b2 by (simp add: btt_inv_def dips_ok_def dip_ok_def)
  consider "tree_map BIT_START ?tree (BIT_START ?iop) \<noteq> None" "rb_insert ?iop ?tree = Some (False, ?tree)"
    | t1 where "tree_map BIT_START ?tree (BIT_START ?iop) = None" "rb_insert ?iop ?tree = Some (True, t1)" "keyed_inv BIT_START t1"
      "tree_map BIT_START t1 = (tree_map BIT_START ?tree)(BIT_START ?iop \<mapsto> ?iop)"
    using rb_insert_queue [OF keyed, of ?iop] by blast
  then show ?thesis
  proof cases
    case 1
    define b3 where "b3 = update_dip i (\<lambda>d. d\<lparr>heads := (heads d)(IOP_Q := ?tree), end_time := BIT_TIME ?t\<rparr>) b2"
    have "update_dip i (\<lambda>d. d\<lparr>end_time := BIT_TIME ?t\<rparr>) b2 = b3"
      by (simp add: b3_def update_dip_def)
    then have "kept opts T no_extra b2 b3"
      using kept_plain [of opts T no_extra b2 "\<lambda>d. d\<lparr>end_time := BIT_TIME ?t\<rparr>" i] b2 by (simp add: plain_update_def)
    moreover have "io_setup opts IOP_Q iop b = Some (?iop\<lparr>io_dip := Some i\<rparr>, b3)"
      using 1(2) got assms(3) by (simp add: io_setup_def dip_alloc_def Let_def b2_def b3_def)
    moreover have "queue_of (devs b2 ! i) (BIT_START iop) \<noteq> None"
      using 1(1) by (simp add: queue_of_def BIT_START_def)
    moreover have "i < length (devs b3)"
      using b2 by (simp add: b3_def)
    ultimately show ?thesis
      using b2 assms(3) same_queues_nth [of b2 b3 i] by (auto simp: setup_ok_def kept_def same_queues_def grown_def)
  next
    case 2
    define b3 where "b3 = update_dip i (\<lambda>d. d\<lparr>heads := (heads d)(IOP_Q := t1), end_time := BIT_TIME ?t\<rparr>) b2"
    have alloc: "dip_alloc opts ?dev ?iop b = Some (Some i, ?iop\<lparr>linked := True\<rparr>, b3)"
      using 2(2) got by (simp add: dip_alloc_def Let_def b2_def b3_def)
    have "BIT_START (?iop\<lparr>linked := True\<rparr>) = BIT_START ?iop"
      by (simp add: BIT_START_def)
    then obtain pip b4 b5 where "find_process (tr_pid (io_t iop)) b3 = Some (pip, b4)"
      "io_store (?iop\<lparr>linked := True, io_dip := Some i, io_pip := pip, bytes_left := ucast (tr_bytes (io_t iop))\<rparr>) b4 = Some b5"
      "btt_inv opts T no_extra b5" "map device (devs b5) = map device (devs b2)"
      "map queue_of (devs b5) = (map queue_of (devs b2))[i := (queue_of (devs b2 ! i))(BIT_START iop \<mapsto>
        ?iop\<lparr>linked := True, io_dip := Some i, io_pip := pip, bytes_left := ucast (tr_bytes (io_t iop))\<rparr>)]"
      "\<forall>p. pip = Some p \<longrightarrow> p < length (procs b5)"
      using finish_queue [of opts T b2 i "tr_pid (io_t iop)" t1 "?iop\<lparr>linked := True\<rparr>" ?iop b3
        "BIT_TIME ?t" "ucast (tr_bytes (io_t iop))"] b2 2(3,4) b3_def assms(2,4)
      by (auto simp: queue_of_def BIT_START_def)
    moreover have "length (devs b5) = length (devs b2)"
      using calculation(4) map_eq_imp_length_eq by blast
    ultimately show ?thesis
      using alloc b2 2(1)
      by (auto simp: io_setup_def setup_ok_def extra_queue queue_of_def BIT_START_def intro!: exI [of _ b2])
  qed
qed


section \<open>Releasing a trace\<close>

lemma rb_erase_single: "rb_erase (single x) [] = Some Null"
  by (simp add: erase_unlink_def)

lemma io_release_other:
  assumes "btt_inv opts T (extra iop) b" "linked iop" "io_dip iop = Some i" "i < length (devs b)" "io_type iop \<noteq> IOP_Q"
  shows "returns (\<lambda>b'. btt_inv opts T no_extra b' \<and> same_queues b b') (io_release iop b)"
proof -
  have "heads (devs b ! i) (io_type iop) = single iop"
    using assms by (simp add: btt_inv_def dips_ok_def dip_ok_def extra_def)
  then have "io_release iop b = Some (set_tree i (io_type iop) Null b)"
    using assms(2,3) rb_erase_single [of iop] by (simp add: io_release_def iop_rem_dip_def io_erase_def set_tree_def)
  moreover have "btt_inv opts T no_extra (set_tree i (io_type iop) Null b) \<and> same_queues b (set_tree i (io_type iop) Null b)"
    using assms(3) by (intro set_other_tree [OF assms(1,5)]) (auto simp: extra_def no_extra_def)
  ultimately show ?thesis
    by simp
qed

lemma io_release_unlinked: "\<not> linked iop \<Longrightarrow> io_release iop b = Some b"
  by (simp add: io_release_def iop_rem_dip_def)

end
