(* ===== verification/Btt_Handlers.thy ===== *)
theory Btt_Handlers
  imports Btt_Inv
begin

text \<open>
  The handlers of btt on a good state: each is defined, keeps the invariant and changes the queues as it should. The events on
  the way of a request leave the traces that are held alone, a completion drops those it covers.
\<close>

section \<open>Queues up to the times\<close>

text \<open>The traces that a device holds.\<close>

definition pending :: "d_info \<Rightarrow> u64 \<Rightarrow> blk_io_trace option" where
  "pending d k = map_option io_t (queue_of d k)"

definition held :: "btt_opts \<Rightarrow> u64 \<Rightarrow> (nat \<Rightarrow> iop_type \<Rightarrow> io rb) \<Rightarrow> btt \<Rightarrow> btt \<Rightarrow> bool" where
  "held opts T ex b b' \<longleftrightarrow> btt_inv opts T ex b' \<and> map pending (devs b') = map pending (devs b)
     \<and> map device (devs b') = map device (devs b) \<and> length (procs b') = length (procs b)"

lemma pending_cong: "queue_of d = queue_of d' \<Longrightarrow> pending d = pending d'"
  by (simp add: pending_def fun_eq_iff)

lemma map_pending_cong: "map queue_of ds = map queue_of ds' \<Longrightarrow> map pending ds = map pending ds'"
proof -
  assume same: "map queue_of ds = map queue_of ds'"
  have "map pending ds = map (\<lambda>m k. map_option io_t (m k)) (map queue_of ds)" for ds
    by (simp add: pending_def comp_def fun_eq_iff)
  then show ?thesis
    using same by metis
qed

lemma kept_held: "kept opts T ex b b' \<Longrightarrow> held opts T ex b b'"
  using map_pending_cong [of "devs b'" "devs b"] by (simp add: kept_def held_def same_queues_def)

lemma held_refl: "btt_inv opts T ex b \<Longrightarrow> held opts T ex b b"
  by (simp add: held_def)

lemma held_trans: "held opts T ex a b \<Longrightarrow> held opts T ex b c \<Longrightarrow> held opts T ex a c"
  by (simp add: held_def)

lemma held_inv: "held opts T ex a b \<Longrightarrow> btt_inv opts T ex b"
  by (simp add: held_def)

lemma held_length: "held opts T ex b b' \<Longrightarrow> length (devs b') = length (devs b)"
  by (metis held_def length_map)

lemma held_bind:
  assumes "returns (held opts T ex b) m" "\<And>b'. held opts T ex b b' \<Longrightarrow> returns (held opts T ex b') (f b')"
  shows "returns (held opts T ex b) (Option.bind m f)"
  unfolding returns_simps
proof (rule returns_mono [OF assms(1)])
  fix b'
  assume b': "held opts T ex b b'"
  show "returns (held opts T ex b) (f b')"
    by (rule returns_mono [OF assms(2) [OF b']]) (rule held_trans [OF b'])
qed

lemma held_then:
  assumes "kept opts T ex b b1" "returns (held opts T ex b1) m"
  shows "returns (held opts T ex b) m"
  by (rule returns_mono [OF assms(2)]) (rule held_trans [OF kept_held [OF assms(1)]])

text \<open>A queued trace may be stored with new times.\<close>

lemma queue_step_held:
  assumes "queue_step opts T ex b i (\<lambda>m. m(k \<mapsto> q')) b'" "queue_of (devs b ! i) k = Some q" "io_t q' = io_t q"
  shows "held opts T ex b b'"
proof -
  have maps: "map queue_of (devs b') = (map queue_of (devs b))[i := (queue_of (devs b ! i))(k \<mapsto> q')]"
    using assms(1) by (simp add: queue_step_def)
  have len: "length (devs b') = length (devs b)"
    using maps by (metis length_list_update length_map)
  have "pending (devs b' ! j) = pending (devs b ! j)" if "j < length (devs b)" for j
  proof -
    have "queue_of (devs b' ! j) = (if j = i then (queue_of (devs b ! i))(k \<mapsto> q') else queue_of (devs b ! j))"
      using arg_cong [OF maps, of "\<lambda>xs. xs ! j"] that len by (simp add: nth_list_update)
    then show ?thesis
      using assms(2,3) by (auto simp: pending_def fun_eq_iff)
  qed
  then have "map pending (devs b') = map pending (devs b)"
    by (intro nth_equalityI) (simp_all add: len)
  then show ?thesis
    using assms(1) by (simp add: held_def queue_step_def)
qed

lemma queue_member:
  assumes "btt_inv opts T ex b" "i < length (devs b)"
  shows "q \<in> set (inorder (heads (devs b ! i) IOP_Q)) \<longleftrightarrow> queue_of (devs b ! i) (BIT_START q) = Some q"
    and "queue_of (devs b ! i) k = Some q \<Longrightarrow> BIT_START q = k \<and> queued_ok (length (procs b)) T i q"
proof -
  have ok: "dip_ok opts T ex (length (procs b)) i (devs b ! i)"
    using assms by (simp add: btt_inv_def dips_ok_def)
  then show "q \<in> set (inorder (heads (devs b ! i) IOP_Q)) \<longleftrightarrow> queue_of (devs b ! i) (BIT_START q) = Some q"
    using tree_map_Some [of BIT_START "heads (devs b ! i) IOP_Q" "BIT_START q" q] by (simp add: dip_ok_def queue_of_def)
  show "queue_of (devs b ! i) k = Some q \<Longrightarrow> BIT_START q = k \<and> queued_ok (length (procs b)) T i q"
    using ok tree_map_Some [of BIT_START "heads (devs b ! i) IOP_Q" k q] by (auto simp: dip_ok_def queue_of_def)
qed

lemma dip_find_sec_queued:
  assumes "btt_inv opts T ex b" "i < length (devs b)" "dip_find_sec i IOP_Q sec b = Some q"
  shows "queue_of (devs b ! i) (BIT_START q) = Some q \<and> queued_ok (length (procs b)) T i q"
  using rb_find_sec_sound [of sec "heads (devs b ! i) IOP_Q" q] queue_member [OF assms(1,2)] assms(3)
  by (auto simp: dip_find_sec_def)

text \<open>Storing a trace found in the queue, after new times have been set in it.\<close>

lemma io_store_held:
  assumes "btt_inv opts T ex b" "i < length (devs b)" "queue_of (devs b ! i) (BIT_START q) = Some q0" "io_t q = io_t q0"
    "queued_ok (length (procs b)) T i q"
  shows "returns (held opts T ex b) (io_store q b)"
proof (rule returns_mono [OF io_store_queued [OF assms(1-3,5)]])
  fix b'
  assume "queue_step opts T ex b i (\<lambda>m. m(BIT_START q \<mapsto> q)) b'"
  then show "held opts T ex b b'"
    using queue_step_held assms(3,4) by blast
qed

section \<open>Handlers that only set times\<close>

lemma kept_stats: "btt_inv opts T ex b \<Longrightarrow> kept opts T ex b (update_dip i (\<lambda>d. d\<lparr>dip_stats := f (dip_stats d)\<rparr>) b)"
  by (rule kept_plain) (simp_all add: plain_update_def)

lemma plain_count_inactive: "plain_update count_inactive"
  by (simp add: plain_update_def count_inactive_def)

lemma plain_count_active: "plain_update count_active"
  by (simp add: plain_update_def count_active_def)

text \<open>The common shape: the trace found in the queue is stored with a new time, then averages follow.\<close>

lemma stamp_held:
  assumes "btt_inv opts T ex b" "i < length (devs b)" "dip_find_sec i IOP_Q sec b = Some q"
    "io_t q' = io_t q" "io_dip q' = io_dip q" "io_pip q' = io_pip q" "io_type q' = io_type q" "linked q' = linked q"
    "d_time q' = d_time q" "\<And>b'. btt_inv opts T ex b' \<Longrightarrow> returns (held opts T ex b') (f b')"
  shows "returns (held opts T ex b) (Option.bind (io_store q' b) f)"
proof (rule held_bind)
  note q = dip_find_sec_queued [OF assms(1-3)]
  have "BIT_START q' = BIT_START q"
    using assms(4) by (simp add: BIT_START_def)
  then show "returns (held opts T ex b) (io_store q' b)"
    using q assms(4-9) by (intro io_store_held [OF assms(1,2), of _ q]) (auto simp: queued_ok_def)
qed (rule assms(10) [OF held_inv])

lemma held_UPDATE_AVGS:
  "btt_inv opts T ex b \<Longrightarrow> io_dip iop = Some i \<Longrightarrow> returns (held opts T ex b) (UPDATE_AVGS fld iop t b)"
  by (rule returns_mono [OF kept_UPDATE_AVGS kept_held])

lemma held_avgs_then:
  assumes "btt_inv opts T ex b" "io_dip iop = Some i" "\<And>b'. btt_inv opts T ex b' \<Longrightarrow> returns (held opts T ex b') (f b')"
  shows "returns (held opts T ex b) (Option.bind (UPDATE_AVGS fld iop t b) f)"
  by (rule held_bind [OF held_UPDATE_AVGS [OF assms(1,2)]]) (rule assms(3) [OF held_inv])

lemma handle_g_held:
  assumes "btt_inv opts T ex b" "io_dip iop = Some i" "i < length (devs b)"
  shows "returns (held opts T ex b) (handle_g iop b)"
proof -
  let ?b1 = "update_dip i (\<lambda>d. d\<lparr>dip_stats := iostat_getrq iop (dip_stats d)\<rparr>) b"
  have b1: "kept opts T ex b ?b1" and inv: "btt_inv opts T ex ?b1"
    using kept_stats [OF assms(1)] kept_inv by blast+
  have "returns (held opts T ex ?b1) (case dip_find_sec i IOP_Q (tr_sector (io_t iop)) ?b1 of
       None \<Rightarrow> Some ?b1
     | Some q_iop \<Rightarrow> do {
         let q_iop = q_iop\<lparr>g_time := tr_time (io_t iop)\<rparr>;
         b \<leftarrow> io_store q_iop ?b1;
         b \<leftarrow> update_q2g q_iop (tdelta (tr_time (io_t q_iop)) (tr_time (io_t iop))) b;
         if s_time q_iop \<noteq> 0 then update_s2g q_iop (tdelta (s_time q_iop) (tr_time (io_t iop))) b else Some b
       })"
  proof (cases "dip_find_sec i IOP_Q (tr_sector (io_t iop)) ?b1")
    case None
    then show ?thesis
      using held_refl [OF inv] by simp
  next
    case (Some q)
    have dip: "io_dip q = Some i"
      using dip_find_sec_queued [OF inv _ Some] assms(3) by (simp add: queued_ok_def)
    show ?thesis
      unfolding Some option.case Let_def update_defs
      by (rule stamp_held [OF inv _ Some])
        (use assms(3) dip in \<open>auto intro!: held_avgs_then held_UPDATE_AVGS [of _ _ _ _ _ i] held_refl simp del: returns_simps(3)\<close>)
  qed
  then show ?thesis
    using held_then [OF b1] assms(2) by (simp add: handle_g_def Let_def)
qed


lemma handle_s_held:
  assumes "btt_inv opts T ex b" "io_dip iop = Some i" "i < length (devs b)"
  shows "returns (held opts T ex b) (handle_s iop b)"
proof (cases "dip_find_sec i IOP_Q (tr_sector (io_t iop)) b")
  case None
  then show ?thesis
    using assms held_refl by (simp add: handle_s_def)
next
  case (Some q)
  have "returns (held opts T ex b) (Option.bind (io_store (q\<lparr>s_time := tr_time (io_t iop)\<rparr>) b) Some)"
    by (rule stamp_held [OF assms(1,3) Some]) (simp_all add: held_refl)
  then show ?thesis
    using Some assms(2) by (simp add: handle_s_def)
qed

lemma handle_i_held:
  assumes "btt_inv opts T ex b" "io_dip iop = Some i" "i < length (devs b)"
  shows "returns (held opts T ex b) (handle_i iop b)"
proof (cases "dip_find_sec i IOP_Q (tr_sector (io_t iop)) b")
  case None
  then show ?thesis
    using assms held_refl by (simp add: handle_i_def)
next
  case (Some q)
  have dip: "io_dip q = Some i"
    using dip_find_sec_queued [OF assms(1,3) Some] by (simp add: queued_ok_def)
  let ?q = "q\<lparr>i_time := tr_time (io_t iop)\<rparr>"
  have "returns (held opts T ex b) (Option.bind (io_store ?q b)
     (\<lambda>b. if g_time ?q \<noteq> no_time then update_g2i ?q (tdelta (g_time ?q) (tr_time (io_t iop))) b else Some b))"
    unfolding update_defs by (rule stamp_held [OF assms(1,3) Some]) (use dip in \<open>auto intro!: held_UPDATE_AVGS [of _ _ _ _ _ i] held_refl\<close>)
  then show ?thesis
    using Some assms(2) by (simp add: handle_i_def Let_def)
qed

lemma handle_m_held:
  assumes "btt_inv opts T ex b" "io_dip iop = Some i" "i < length (devs b)"
  shows "returns (held opts T ex b) (handle_m iop b)"
proof -
  let ?b1 = "update_dip i (\<lambda>d. d\<lparr>dip_stats := iostat_merge iop (dip_stats d)\<rparr>) b" and ?t = "tr_time (io_t iop)"
  let ?mid = "case dip_find_sec i IOP_Q (tr_sector (io_t iop)) ?b1 of
            None \<Rightarrow> Some ?b1
          | Some q_iop \<Rightarrow> Option.bind (io_store (q_iop\<lparr>m_time := ?t\<rparr>) ?b1)
              (update_q2m (q_iop\<lparr>m_time := ?t\<rparr>) (tdelta (tr_time (io_t q_iop)) ?t))"
  have b1: "kept opts T ex b ?b1" and inv: "btt_inv opts T ex ?b1"
    using kept_stats [OF assms(1)] kept_inv by blast+
  have mid: "returns (held opts T ex ?b1) ?mid"
  proof (cases "dip_find_sec i IOP_Q (tr_sector (io_t iop)) ?b1")
    case None
    then show ?thesis
      using held_refl [OF inv] by simp
  next
    case (Some q)
    have "io_dip q = Some i"
      using dip_find_sec_queued [OF inv _ Some] assms(3) by (simp add: queued_ok_def)
    then show ?thesis
      unfolding Some option.case update_defs
      by (intro stamp_held [OF inv _ Some]) (use assms(3) in \<open>auto intro!: held_UPDATE_AVGS [of _ _ _ _ _ i]\<close>)
  qed
  have last: "returns (held opts T ex ?b1) (Option.bind ?mid (\<lambda>b. Some (update_dip i count_inactive b)))"
    by (rule held_bind [OF mid]) (auto intro: kept_held kept_plain plain_count_inactive dest: held_inv)
  have "handle_m iop b = Option.bind ?mid (\<lambda>b. Some (update_dip i count_inactive b))"
    using assms(2) by (simp add: handle_m_def Let_def split: option.split)
  then show ?thesis
    using held_then [OF b1 last] by (simp only:)
qed

section \<open>Issue\<close>

lemma sector_count: "(ucast (drop_bit 9 (ucast b :: u64)) :: u32) = drop_bit 9 (b :: u32)"
  by (rule bit_word_eqI) (auto simp: bit_simps)

lemma sector_index:
  assumes "512 \<le> (b :: u32)"
  shows "sint (drop_bit 9 b - 1) = int (unat b div 512 - 1)"
proof -
  let ?n = "unat b div 512"
  have b: "512 \<le> unat b" "unat b < 2 ^ 32"
    using assms unsigned_less [of b] by (simp_all add: word_le_nat_alt)
  have "drop_bit 9 b = of_nat ?n"
    by (rule word_unat_eq_iff [THEN iffD2]) (use b in \<open>simp add: drop_bit_eq_div unat_div unsigned_of_nat take_bit_nat_eq_self\<close>)
  then have "drop_bit 9 b - 1 = of_nat (?n - 1)"
    using b by simp
  moreover have "?n - 1 < 2 ^ 31"
    using b by simp
  ultimately show ?thesis
    using sint_of_nat_32 by metis
qed

lemma update_histo_ok:
  assumes "length h = N_HIST_BKTS" "512 \<le> tr_bytes t"
  shows "returns (\<lambda>h'. length h' = N_HIST_BKTS) (update_histo (ucast (tr_bytes t)) h)"
  using assms(1) by (simp add: update_histo_def histo_idx_def Let_def N_HIST_BKTS_def sector_count sector_index [OF assms(2)])

text \<open>Traces that are in the queue of device \<open>i\<close>.\<close>

definition all_queued :: "u64 \<Rightarrow> btt \<Rightarrow> nat \<Rightarrow> io list \<Rightarrow> bool" where
  "all_queued T b i qs \<longleftrightarrow> i < length (devs b)
     \<and> (\<forall>q \<in> set qs. pending (devs b ! i) (BIT_START q) = Some (io_t q) \<and> queued_ok (length (procs b)) T i q)"

lemma all_queued_held: "all_queued T b i qs \<Longrightarrow> held opts T ex b b' \<Longrightarrow> all_queued T b' i qs"
  unfolding all_queued_def held_def by (metis length_map nth_map)

lemma foreach_queued:
  assumes "btt_inv opts T ex b" "i < length (devs b)" "io_dip iop = Some i"
  shows "returns (all_queued T b i) (dip_foreach_list iop IOP_Q b)"
proof -
  have "set (rb_foreach iop t) \<subseteq> set (inorder t)" for t
    by (induction t) auto
  then have "queue_of (devs b ! i) (BIT_START q) = Some q \<and> queued_ok (length (procs b)) T i q"
    if "q \<in> set (rb_foreach iop (heads (devs b ! i) IOP_Q))" for q
    using queue_member [OF assms(1,2)] that by blast
  then show ?thesis
    using assms(2,3) by (simp add: dip_foreach_list_def all_queued_def pending_def)
qed

lemma io_store_pending:
  assumes "btt_inv opts T ex b" "all_queued T b i [q]" "io_t q' = io_t q" "queued_ok (length (procs b)) T i q'"
  shows "returns (held opts T ex b) (io_store q' b)"
proof -
  have k: "BIT_START q' = BIT_START q"
    using assms(3) by (simp add: BIT_START_def)
  obtain q0 where "queue_of (devs b ! i) (BIT_START q') = Some q0" "io_t q0 = io_t q'"
    using assms(2,3) k by (auto simp: all_queued_def pending_def)
  then show ?thesis
    using io_store_held [OF assms(1) _ _ _ assms(4)] assms(2) by (auto simp: all_queued_def)
qed

lemma plain_latency_q2d: "plain_update (latency_q2d opts t w)"
  by (simp add: plain_update_def latency_q2d_def)

lemma plain_latency_q2c: "plain_update (latency_q2c opts t w)"
  by (simp add: plain_update_def latency_q2c_def)

lemma plain_latency_d2c: "plain_update (latency_d2c opts t w)"
  by (simp add: plain_update_def latency_d2c_def)

lemma kept_q2d_histo:
  assumes "btt_inv opts T ex b"
  shows "kept opts T ex b (update_dip i (\<lambda>d. d\<lparr>q2d_priv := Some q\<rparr>) b)"
  by (rule kept_update_dip [OF assms]) (simp_all add: dip_ok_def queue_of_def)

lemma q2d_step_held:
  assumes "btt_inv opts T ex b" "i < length (devs b)"
  shows "returns (held opts T ex b) (q2d_step opts i wait b)"
proof -
  have "output_all_data opts \<Longrightarrow> q2d_priv (devs b ! i) \<noteq> None"
    using assms by (simp add: btt_inv_def dips_ok_def dip_ok_def)
  then show ?thesis
    using held_refl [OF assms(1)] kept_held [OF kept_q2d_histo [OF assms(1)]] by (auto simp: q2d_step_def)
qed

lemma issue_loop_held:
  assumes "btt_inv opts T ex b" "all_queued T b i qs" "tr_time (io_t iop) \<le> T"
  shows "returns (held opts T ex b) (issue_loop opts iop qs b)"
  using assms
proof (induction qs arbitrary: iop b)
  case Nil
  then show ?case
    using held_refl by simp
next
  case (Cons q qs)
  let ?t = "tr_time (io_t iop)" and ?iop = "iop\<lparr>bytes_left := bytes_left iop - ucast (tr_bytes (io_t q))\<rparr>"
  let ?q = "q\<lparr>d_time := ?t, d_sec := tr_sector (io_t ?iop), d_nsec := t_sec (io_t ?iop)\<rparr>"
  have dip: "io_dip q = Some i" "io_dip ?q = Some i"
    using Cons.prems(2) by (simp_all add: all_queued_def queued_ok_def)
  have avgs: "returns (held opts T ex b) (if i_time q \<noteq> no_time then update_i2d q (tdelta (i_time q) ?t) b
           else if m_time q \<noteq> no_time then update_m2d q (tdelta (m_time q) ?t) b else Some b)"
    unfolding update_defs using Cons.prems(1) dip(1) by (auto intro!: held_UPDATE_AVGS [of _ _ _ _ _ i] held_refl)
  have store: "returns (held opts T ex b1) (io_store ?q b1)" if "held opts T ex b b1" for b1
    using all_queued_held [OF Cons.prems(2) that] Cons.prems(3) held_inv [OF that]
    by (intro io_store_pending [of _ _ _ _ i q]) (auto simp: all_queued_def queued_ok_def)
  have rest: "returns (held opts T ex b3) (issue_loop opts ?iop qs (update_dip i (latency_q2d opts ?t w) b3))"
    if "held opts T ex b b3" for b3 w
  proof (rule held_then [OF kept_plain [OF held_inv [OF that] plain_latency_q2d]])
    have b4: "held opts T ex b (update_dip i (latency_q2d opts ?t w) b3)"
      by (rule held_trans [OF that kept_held [OF kept_plain [OF held_inv [OF that] plain_latency_q2d]]])
    show "returns (held opts T ex (update_dip i (latency_q2d opts ?t w) b3))
       (issue_loop opts ?iop qs (update_dip i (latency_q2d opts ?t w) b3))"
      using Cons.IH [OF held_inv [OF b4]] all_queued_held [OF Cons.prems(2) b4] Cons.prems(3) by (simp add: all_queued_def)
  qed
  have "returns (held opts T ex b) (Option.bind (if i_time q \<noteq> no_time then update_i2d q (tdelta (i_time q) ?t) b
           else if m_time q \<noteq> no_time then update_m2d q (tdelta (m_time q) ?t) b else Some b)
     (\<lambda>b. Option.bind (io_store ?q b) (\<lambda>b. Option.bind (q2d_step opts i (?t - tr_time (io_t q)) b)
       (\<lambda>b. issue_loop opts ?iop qs (update_dip i (latency_q2d opts ?t (?t - tr_time (io_t q))) b)))))"
  proof (rule held_bind [OF avgs], rule held_bind [OF store], assumption, rule held_bind [OF q2d_step_held])
    fix b1 b2
    assume 12: "held opts T ex b b1" "held opts T ex b1 b2"
    show "btt_inv opts T ex b2" "i < length (devs b2)"
      using 12 held_inv held_length Cons.prems(2) by (auto simp: all_queued_def)
    show "returns (held opts T ex b3) (issue_loop opts ?iop qs (update_dip i (latency_q2d opts ?t (?t - tr_time (io_t q))) b3))"
      if "held opts T ex b2 b3" for b3
      by (rule rest [OF held_trans [OF held_trans [OF 12] that]])
  qed
  then show ?case
    using dip by (simp add: Let_def del: returns_simps(3))
qed


text \<open>New counts of seeks.\<close>

lemma kept_seek_handle:
  "btt_inv opts T ex b \<Longrightarrow> seeks_ok s \<Longrightarrow> kept opts T ex b (update_dip i (\<lambda>d. d\<lparr>seek_handle := s\<rparr>) b)"
  by (rule kept_update_dip) (simp_all add: dip_ok_def queue_of_def)

lemma kept_q2q_handle:
  "btt_inv opts T ex b \<Longrightarrow> seeks_ok s \<Longrightarrow> kept opts T ex b (update_dip i (\<lambda>d. d\<lparr>q2q_handle := s\<rparr>) b)"
  by (rule kept_update_dip) (simp_all add: dip_ok_def queue_of_def)

lemma kept_d_histo:
  assumes "btt_inv opts T ex b" "512 \<le> tr_bytes t"
  shows "returns (kept opts T ex b) (map_option (\<lambda>h. b\<lparr>d_histo := h\<rparr>) (update_histo (ucast (tr_bytes t)) (d_histo b)))"
proof -
  have "length (d_histo b) = N_HIST_BKTS"
    using assms(1) by (simp add: btt_inv_def)
  from update_histo_ok [OF this assms(2)] show ?thesis
    unfolding returns_simps
  proof (rule returns_mono)
    fix h :: "u64 list"
    assume "length h = N_HIST_BKTS"
    then show "kept opts T ex b (b\<lparr>d_histo := h\<rparr>)"
      using assms(1) by (intro kept_rest) (simp_all add: plain_rest_def btt_inv_def)
  qed
qed

lemma handle_issue_held:
  assumes "btt_inv opts T ex b" "io_dip iop = Some i" "i < length (devs b)" "512 \<le> tr_bytes (io_t iop)" "tr_time (io_t iop) \<le> T"
  shows "returns (held opts T ex b) (handle_issue opts iop b)"
proof -
  let ?t = "BIT_TIME (tr_time (io_t iop))"
  let ?b1 = "update_dip i count_inactive b"
  have b1: "kept opts T ex b ?b1"
    by (rule kept_plain [OF assms(1) plain_count_inactive])
  have "seeks_ok (seek_handle (devs ?b1 ! i))"
    using kept_inv [OF b1] assms(3) by (simp add: btt_inv_def dips_ok_def dip_ok_def)
  from seeki_add_keyed [OF this]
  obtain s where s: "seeki_add (seek_absolute opts) iop (seek_handle (devs ?b1 ! i)) = Some s" "seeks_ok s"
    unfolding returns_def by blast
  let ?b2 = "update_dip i (\<lambda>d. d\<lparr>seek_handle := s\<rparr>) ?b1"
  let ?b3 = "update_dip i (\<lambda>d. d\<lparr>bno_dump_handle := bno_dump_add iop (bno_dump_handle d)\<rparr>) ?b2"
  let ?b4 = "update_dip i (\<lambda>d. d\<lparr>dip_stats := iostat_issue iop (dip_stats d), n_ds := n_ds d + 1\<rparr>) ?b3"
  have b2: "kept opts T ex ?b1 ?b2"
    by (rule kept_seek_handle [OF kept_inv [OF b1] s(2)])
  have b3: "kept opts T ex ?b2 ?b3"
    by (rule kept_plain [OF kept_inv [OF b2]]) (simp add: plain_update_def)
  have b4: "kept opts T ex ?b3 ?b4"
    by (rule kept_plain [OF kept_inv [OF b3]]) (simp add: plain_update_def)
  have b: "kept opts T ex b ?b4"
    by (rule kept_trans [OF kept_trans [OF kept_trans [OF b1 b2] b3] b4])
  let ?h = "if \<not> remapper_dev (tr_device (io_t iop))
           then map_option (\<lambda>h. ?b4\<lparr>d_histo := h\<rparr>) (update_histo (ucast (tr_bytes (io_t iop))) (d_histo ?b4))
           else Some ?b4"
  have histo: "returns (held opts T ex ?b4) ?h"
  proof (rule returns_if)
    show "returns (held opts T ex ?b4) (map_option (\<lambda>h. ?b4\<lparr>d_histo := h\<rparr>) (update_histo (ucast (tr_bytes (io_t iop))) (d_histo ?b4)))"
      by (rule returns_mono [OF kept_d_histo [OF kept_inv [OF b] assms(4)] kept_held])
  qed (simp add: held_refl [OF kept_inv [OF b]])
  let ?aqd = "update_dip i (\<lambda>d. d\<lparr>aqd_handle := aqd_issue ?t (aqd_handle d)\<rparr>)"
  have rest: "returns (held opts T ex b5) (Option.bind (dip_foreach_list iop IOP_Q (?aqd b5)) (\<lambda>qs. issue_loop opts iop qs (?aqd b5)))"
    if "held opts T ex ?b4 b5" for b5
  proof (rule held_then)
    have len: "i < length (devs (?aqd b5))"
      using held_length [OF that] assms(3) by simp
    show k: "kept opts T ex b5 (?aqd b5)"
      by (rule kept_plain [OF held_inv [OF that]]) (simp add: plain_update_def)
    show "returns (held opts T ex (?aqd b5)) (Option.bind (dip_foreach_list iop IOP_Q (?aqd b5)) (\<lambda>qs. issue_loop opts iop qs (?aqd b5)))"
      unfolding returns_simps
      by (rule returns_mono [OF foreach_queued [OF kept_inv [OF k] len assms(2)]])
        (rule issue_loop_held [OF kept_inv [OF k] _ assms(5)])
  qed
  have "handle_issue opts iop b = Option.bind ?h (\<lambda>b. Option.bind (dip_foreach_list iop IOP_Q (?aqd b)) (\<lambda>qs. issue_loop opts iop qs (?aqd b)))"
    using assms(2) s(1) by (simp add: handle_issue_def Let_def)
  then show ?thesis
    using held_then [OF b held_bind [OF histo rest]] by (simp only:)
qed

section \<open>Completion\<close>

lemma p_live_add_held:
  assumes "btt_inv opts T ex b" "i < length (devs b)" "dt \<le> ct"
  shows "returns (held opts T ex b) (p_live_add i dt ct b)"
proof -
  have "live_inv (p_live_handle (devs b ! i))" "live_inv (p_live_root b)"
    using assms(1,2) by (simp_all add: btt_inv_def dips_ok_def dip_ok_def)
  then obtain m r where mr: "p_live_insert dt ct (p_live_handle (devs b ! i)) = Some m" "live_inv m"
    "p_live_insert dt ct (p_live_root b) = Some r" "live_inv r"
    using p_live_insert_ok [OF _ assms(3)] by metis
  let ?b1 = "update_dip i (\<lambda>d. d\<lparr>p_live_handle := m\<rparr>) b"
  have "kept opts T ex b ?b1"
    by (rule kept_update_dip [OF assms(1)]) (use mr(2) in \<open>simp_all add: dip_ok_def queue_of_def\<close>)
  then have "kept opts T ex b (?b1\<lparr>p_live_root := r\<rparr>)"
    using mr(4) by (simp add: kept_def btt_inv_def procs_ok_def same_queues_def)
  then show ?thesis
    using mr(1,3) by (simp add: p_live_add_def kept_held)
qed


lemma completed_step_held:
  assumes "btt_inv opts T ex b" "i < length (devs b)" "queued_ok np T i q" "io_dip c = Some j" "tr_time (io_t c) = T"
  shows "returns (\<lambda>(dt', b'). held opts T ex b b') (completed_step opts q c i dt b)"
proof (cases "d_time q \<noteq> no_time")
  case True
  let ?st = "\<lambda>b. update_dip i (\<lambda>d. d\<lparr>dip_stats := iostat_complete q c (dip_stats d)\<rparr>)
    (update_dip j (\<lambda>d. d\<lparr>dip_stats := iostat_wait q c (dip_stats d)\<rparr>) (update_dip i (latency_d2c opts T (tdelta (d_time q) T)) b))"
  have live: "returns (held opts T ex b) (p_live_add i (d_time q) T b)"
    using assms(3) True by (intro p_live_add_held [OF assms(1,2)]) (simp add: queued_ok_def)
  have d2c: "returns (held opts T ex b1) (update_d2c q (tdelta (d_time q) T) b1)" if "held opts T ex b b1" for b1
    unfolding update_defs using assms(3) by (intro held_UPDATE_AVGS [OF held_inv [OF that], of _ i]) (simp add: queued_ok_def)
  have st: "held opts T ex b1 (?st b1)" if "btt_inv opts T ex b1" for b1
  proof -
    have 1: "kept opts T ex b1 (update_dip i (latency_d2c opts T (tdelta (d_time q) T)) b1)"
      by (rule kept_plain [OF that plain_latency_d2c])
    note 2 = kept_trans [OF 1 kept_stats [OF kept_inv [OF 1]]]
    show ?thesis
      by (rule kept_held [OF kept_trans [OF 2 kept_stats [OF kept_inv [OF 2]]]])
  qed
  have "returns (held opts T ex b) (do { b \<leftarrow> p_live_add i (d_time q) T b; b \<leftarrow> update_d2c q (tdelta (d_time q) T) b; Some (?st b) })"
    by (rule held_bind [OF live], rule held_bind [OF d2c]) (auto intro: st held_inv)
  then show ?thesis
    using True assms(4,5) by (simp add: completed_step_def Let_def)
qed (simp add: completed_step_def held_refl [OF assms(1)])

text \<open>The traces with starts in \<open>ks\<close> leave the queue of device \<open>i\<close>.\<close>

definition dropped :: "btt_opts \<Rightarrow> u64 \<Rightarrow> (nat \<Rightarrow> iop_type \<Rightarrow> io rb) \<Rightarrow> btt \<Rightarrow> nat \<Rightarrow> u64 set \<Rightarrow> btt \<Rightarrow> bool" where
  "dropped opts T ex b i ks b' \<longleftrightarrow> btt_inv opts T ex b' \<and> map device (devs b') = map device (devs b)
     \<and> length (procs b') = length (procs b)
     \<and> map pending (devs b') = (map pending (devs b))[i := pending (devs b ! i) |` (- ks)]"

lemma held_dropped:
  assumes "held opts T ex b b'" "i < length (devs b)"
  shows "dropped opts T ex b i {} b'"
proof -
  have "m |` (- {}) = m" for m :: "u64 \<Rightarrow> blk_io_trace option"
    by (simp add: restrict_map_def)
  moreover have "(map pending (devs b))[i := pending (devs b ! i)] = map pending (devs b)"
    using assms(2) by (metis list_update_id nth_map)
  ultimately show ?thesis
    using assms(1) by (simp add: held_def dropped_def)
qed

lemma dropped_length: "dropped opts T ex b i ks b' \<Longrightarrow> length (devs b') = length (devs b)"
  by (metis dropped_def length_map)

lemma dropped_pending:
  assumes "dropped opts T ex b i ks b'" "i < length (devs b)"
  shows "pending (devs b' ! i) = pending (devs b ! i) |` (- ks)"
proof -
  have "map pending (devs b') ! i = pending (devs b ! i) |` (- ks)"
    using assms by (simp add: dropped_def)
  then show ?thesis
    using assms(2) dropped_length [OF assms(1)] by simp
qed

lemma dropped_trans:
  assumes "dropped opts T ex a i ks b" "dropped opts T ex b i ls c" "i < length (devs a)"
  shows "dropped opts T ex a i (ks \<union> ls) c"
  using assms dropped_pending [OF assms(1,3)] by (simp add: dropped_def restrict_restrict Compl_Un)

lemma io_release_dropped:
  assumes "btt_inv opts T ex b" "all_queued T b i [q]"
  shows "returns (dropped opts T ex b i {BIT_START q}) (io_release q b)"
proof -
  have i: "i < length (devs b)"
    using assms(2) by (simp add: all_queued_def)
  obtain q0 where q0: "queue_of (devs b ! i) (BIT_START q) = Some q0"
    using assms(2) by (auto simp: all_queued_def pending_def)
  have "returns (queue_step opts T ex b i (\<lambda>m. m(BIT_START q := None))) (io_release q b)"
    using assms(2) by (intro io_release_queued [OF assms(1) i q0]) (simp add: all_queued_def)
  then show ?thesis
  proof (rule returns_mono)
    fix b'
    assume step: "queue_step opts T ex b i (\<lambda>m. m(BIT_START q := None)) b'"
    let ?f = "\<lambda>m k. map_option io_t (m k)"
    have pend: "map pending ds = map ?f (map queue_of ds)" for ds
      by (simp add: pending_def comp_def fun_eq_iff)
    have "?f ((queue_of (devs b ! i))(BIT_START q := None)) = pending (devs b ! i) |` (- {BIT_START q})"
      by (auto simp: pending_def fun_eq_iff restrict_map_def)
    then show "dropped opts T ex b i {BIT_START q} b'"
      using step by (simp add: dropped_def queue_step_def pend map_update del: map_map)
  qed
qed

lemma all_queued_dropped:
  assumes "all_queued T b i qs" "dropped opts T ex b i ks b'" "BIT_START ` set qs \<inter> ks = {}"
  shows "all_queued T b' i qs"
proof -
  have "i < length (devs b)"
    using assms(1) by (simp add: all_queued_def)
  then show ?thesis
    using assms dropped_length [OF assms(2)] dropped_pending [OF assms(2)]
    by (auto simp: all_queued_def dropped_def restrict_map_def)
qed

lemma complete_loop_drops:
  assumes "btt_inv opts T ex b" "all_queued T b i qs" "tr_time (io_t c) = T" "io_dip c = Some j" "distinct (map BIT_START qs)"
  shows "returns (\<lambda>(acc', b'). dropped opts T ex b i (BIT_START ` set qs) b') (complete_loop opts c qs acc b)"
  using assms
proof (induction qs arbitrary: c acc b)
  case Nil
  then show ?case
    using held_dropped [OF held_refl] by (simp add: all_queued_def)
next
  case (Cons q qs)
  obtain dt shown pits where acc: "acc = (dt, shown, pits)"
    by (cases acc)
  let ?q2c = "tdelta (tr_time (io_t q)) T" and ?c = "c\<lparr>bytes_left := bytes_left c - ucast (tr_bytes (io_t q))\<rparr>"
  let ?lat = "update_dip i (latency_q2c opts (tr_time (io_t q)) ?q2c)"
  let ?q = "if per_io_ofp opts then q\<lparr>c_time := T, c_sec := tr_sector (io_t ?c), c_nsec := t_sec (io_t ?c)\<rparr> else q"
  have i: "i < length (devs b)" and dip: "io_dip q = Some i" and ok: "queued_ok (length (procs b)) T i q"
    using Cons.prems(2) by (simp_all add: all_queued_def queued_ok_def)
  have k: "BIT_START ?q = BIT_START q" "io_t ?q = io_t q"
    by (simp_all add: BIT_START_def)
  have "queued_ok np T i ?q = queued_ok np T i q" for np
    by (simp add: queued_ok_def)
  then have queued: "all_queued T b' i [?q] = all_queued T b' i [q]" for b'
    by (simp add: all_queued_def k)
  have q2c: "returns (held opts T ex b) (update_q2c q ?q2c b)"
    by (rule returns_mono [OF kept_update_q2c [OF Cons.prems(1) dip] kept_held])
  obtain b1 where b1: "update_q2c q ?q2c b = Some b1" "held opts T ex b b1"
    using q2c by (auto simp: returns_def)
  have b2: "held opts T ex b (?lat b1)"
    by (rule held_trans [OF b1(2) kept_held [OF kept_plain [OF held_inv [OF b1(2)] plain_latency_q2c]]])
  have i2: "i < length (devs (?lat b1))"
    using held_length [OF b1(2)] i by simp
  obtain dt' b3 where b3: "completed_step opts q ?c i dt (?lat b1) = Some (dt', b3)" "held opts T ex (?lat b1) b3"
    using completed_step_held [OF held_inv [OF b2] i2 ok, of ?c j dt] Cons.prems(3,4) by (auto simp: returns_def)
  note h3 = held_trans [OF b2 b3(2)]
  have all3: "all_queued T b3 i (q # qs)"
    by (rule all_queued_held [OF Cons.prems(2) h3])
  have "all_queued T b3 i [?q]"
    unfolding queued using all3 by (simp add: all_queued_def)
  from io_release_dropped [OF held_inv [OF h3] this]
  obtain b4 where b4: "io_release ?q b3 = Some b4" "dropped opts T ex b3 i {BIT_START q} b4"
    unfolding returns_def k by blast
  have d4: "dropped opts T ex b i {BIT_START q} b4"
    using dropped_trans [OF held_dropped [OF h3 i] b4(2) i] by simp
  have "all_queued T b4 i qs"
  proof (rule all_queued_dropped [OF _ b4(2)])
    show "all_queued T b3 i qs"
      using all3 by (simp add: all_queued_def)
    show "BIT_START ` set qs \<inter> {BIT_START q} = {}"
      using Cons.prems(5) by auto
  qed
  moreover have "btt_inv opts T ex b4"
    using d4 by (simp add: dropped_def)
  ultimately have "returns (\<lambda>(acc', b'). dropped opts T ex b4 i (BIT_START ` set qs) b') (complete_loop opts ?c qs acc' b4)" for acc'
    using Cons.prems(3-5) by (intro Cons.IH) simp_all
  then have "returns (\<lambda>(acc', b'). dropped opts T ex b i (BIT_START ` set (q # qs)) b') (complete_loop opts ?c qs acc' b4)" for acc'
    by (rule returns_mono) (use dropped_trans [OF d4 _ i] in auto)
  then show ?case
    using acc dip b1(1) b3(1) b4(1) Cons.prems(3) by (simp add: Let_def)
qed

end
