(* ===== verification/Btt_Run.thy ===== *)
theory Btt_Run
  imports Btt_Handlers
begin

text \<open>
  What btt holds: for each device the queued traces that have not been completed. This abstract state and its steps are
  written down without trees, devices or times, and \<open>btt_add_trace\<close> follows them.
\<close>

section \<open>Queues of a device\<close>

type_synonym queue = "u64 \<Rightarrow> blk_io_trace option"

definition sectors :: "blk_io_trace \<Rightarrow> u64" where
  "sectors t = ucast (drop_bit 9 (tr_bytes t))"

text \<open>The trace at \<open>k\<close> lies inside the completed one.\<close>

definition completes :: "blk_io_trace \<Rightarrow> u64 \<Rightarrow> blk_io_trace \<Rightarrow> bool" where
  "completes c k t \<longleftrightarrow> tr_sector c \<le> k \<and> k + sectors t \<le> tr_sector c + sectors c"

definition spec_queue :: "blk_io_trace \<Rightarrow> queue \<Rightarrow> queue" where
  "spec_queue t m = (if m (tr_sector t) = None then m(tr_sector t \<mapsto> t) else m)"

definition spec_complete :: "blk_io_trace \<Rightarrow> queue \<Rightarrow> queue" where
  "spec_complete c m = (\<lambda>k. case m k of None \<Rightarrow> None | Some t \<Rightarrow> if completes c k t then None else Some t)"

text \<open>No trace is empty or wraps around, and none reaches into the next.\<close>

definition queue_apart :: "queue \<Rightarrow> bool" where
  "queue_apart m \<longleftrightarrow> (\<forall>k t. m k = Some t \<longrightarrow> k < k + sectors t)
     \<and> (\<forall>k t l. m k = Some t \<longrightarrow> m l \<noteq> None \<longrightarrow> k < l \<longrightarrow> k + sectors t \<le> l)"

text \<open>What a completion makes of a queue: it drops only traces inside of it, and all of them when they are apart.\<close>

definition after_complete :: "blk_io_trace \<Rightarrow> queue \<Rightarrow> queue \<Rightarrow> bool" where
  "after_complete c m m' \<longleftrightarrow> (\<forall>k. m' k = m k \<or> m' k = None \<and> (\<exists>t. m k = Some t \<and> completes c k t))
     \<and> (queue_apart m \<longrightarrow> m' = spec_complete c m)"

lemma spec_complete_empty [simp]: "spec_complete c Map.empty = Map.empty"
  by (simp add: spec_complete_def)

lemma after_complete_empty: "after_complete c Map.empty Map.empty"
  by (simp add: after_complete_def)

section \<open>The traces of a completion\<close>

lemma rb_foreach_mset: "mset (rb_foreach iop t) \<subseteq># mset (inorder t)"
  by (induction t) (auto simp: subset_mset.add_mono intro: subset_mset.order_trans)

lemma rb_foreach_distinct:
  assumes "keyed_inv BIT_START t"
  shows "distinct (map BIT_START (rb_foreach iop t))"
proof -
  have "distinct (map BIT_START (inorder t))"
    using assms by (simp add: keyed_inv_def strict_sorted_iff)
  moreover have "mset (map BIT_START (rb_foreach iop t)) \<subseteq># mset (map BIT_START (inorder t))"
    using image_mset_subseteq_mono [OF rb_foreach_mset] by simp
  then obtain zs where "mset (map BIT_START (inorder t)) = mset (map BIT_START (rb_foreach iop t) @ zs)"
    by (metis ex_mset mset_append mset_subset_eq_exists_conv)
  ultimately have "distinct (map BIT_START (rb_foreach iop t) @ zs)"
    using mset_eq_imp_distinct_iff by blast
  then show ?thesis
    by simp
qed

lemma rb_foreach_sound: "q \<in> set (rb_foreach iop t) \<Longrightarrow> q \<in> set (inorder t) \<and> covers iop q"
  by (induction t) (auto simp: covers_def split: if_splits)

lemma covers_completes: "covers c q \<longleftrightarrow> completes (io_t c) (BIT_START q) (io_t q)"
  by (simp add: covers_def completes_def BIT_START_def BIT_END_def sectors_def)

lemma queue_extents_apart:
  assumes "btt_inv opts T ex b" "i < length (devs b)" "queue_apart (pending (devs b ! i))"
  shows "extents_apart (heads (devs b ! i) IOP_Q)"
proof -
  let ?t = "heads (devs b ! i) IOP_Q"
  have held: "pending (devs b ! i) (BIT_START q) = Some (io_t q)" if "q \<in> set (inorder ?t)" for q
    using queue_member(1) [OF assms(1,2)] that by (simp add: pending_def)
  have ends: "BIT_END q = BIT_START q + sectors (io_t q)" for q
    by (simp add: BIT_START_def BIT_END_def sectors_def)
  have "sorted_wrt (\<lambda>p q. BIT_START p < BIT_START q) (inorder ?t)"
    using assms(1,2) by (simp add: btt_inv_def dips_ok_def dip_ok_def keyed_inv_def sorted_wrt_map)
  then have "sorted_wrt (\<lambda>p q. BIT_END p \<le> BIT_START q) (inorder ?t)"
  proof (rule sorted_wrt_mono_rel [rotated])
    fix p q
    assume "p \<in> set (inorder ?t)" "q \<in> set (inorder ?t)" "BIT_START p < BIT_START q"
    then show "BIT_END p \<le> BIT_START q"
      using assms(3) held [of p] held [of q] unfolding ends queue_apart_def by blast
  qed
  moreover have "extent_ok q" if "q \<in> set (inorder ?t)" for q
    using assms(3) held [OF that] unfolding extent_ok_def ends queue_apart_def by blast
  ultimately show ?thesis
    by (simp add: extents_apart_def)
qed

text \<open>The traces that are dropped for a completion.\<close>

definition taken :: "blk_io_trace \<Rightarrow> queue \<Rightarrow> u64 set \<Rightarrow> bool" where
  "taken c m ks \<longleftrightarrow> (\<forall>k \<in> ks. \<exists>t. m k = Some t \<and> completes c k t)
     \<and> (queue_apart m \<longrightarrow> ks = {k. \<exists>t. m k = Some t \<and> completes c k t})"

lemma taken_after: "taken c m ks \<Longrightarrow> after_complete c m (m |` (- ks))"
  unfolding after_complete_def
proof (intro conjI allI impI)
  assume taken: "taken c m ks"
  fix k
  show "(m |` (- ks)) k = m k \<or> (m |` (- ks)) k = None \<and> (\<exists>t. m k = Some t \<and> completes c k t)"
    using taken by (cases "k \<in> ks") (simp_all add: taken_def)
  assume "queue_apart m"
  then have "ks = {k. \<exists>t. m k = Some t \<and> completes c k t}"
    using taken unfolding taken_def by blast
  then have "k \<in> ks \<longleftrightarrow> (\<exists>t. m k = Some t \<and> completes c k t)" for k
    by (rule ssubst) simp
  then have "(m |` (- ks)) k = spec_complete c m k" for k
    by (cases "m k") (simp_all add: spec_complete_def restrict_map_def)
  then show "m |` (- ks) = spec_complete c m"
    by (simp add: fun_eq_iff)
qed

lemma foreach_taken:
  assumes "btt_inv opts T ex b" "i < length (devs b)"
  shows "taken (io_t iop) (pending (devs b ! i)) (BIT_START ` set (rb_foreach iop (heads (devs b ! i) IOP_Q)))"
proof -
  let ?t = "heads (devs b ! i) IOP_Q" and ?m = "pending (devs b ! i)"
  have held: "?m (BIT_START q) = Some (io_t q)" if "q \<in> set (inorder ?t)" for q
    using queue_member(1) [OF assms] that by (simp add: pending_def)
  have origin: "\<exists>q. k = BIT_START q \<and> q \<in> set (inorder ?t) \<and> t = io_t q" if "?m k = Some t" for k t
  proof -
    obtain q where q: "queue_of (devs b ! i) k = Some q" "t = io_t q"
      using \<open>?m k = Some t\<close> by (auto simp: pending_def)
    then show ?thesis
      using queue_member(2) [OF assms q(1)] queue_member(1) [OF assms, of q] by blast
  qed
  have "BIT_START ` set (rb_foreach iop ?t) = {k. \<exists>t. ?m k = Some t \<and> completes (io_t iop) k t}" if "queue_apart ?m"
  proof -
    have "set (rb_foreach iop ?t) = {q \<in> set (inorder ?t). covers iop q}"
      using rb_foreach_covered [OF queue_extents_apart [OF assms that], of iop] by (metis mset_eq_setD set_filter)
    then show ?thesis
      using held origin by (fastforce simp: covers_completes)
  qed
  then show ?thesis
    using rb_foreach_sound [of _ iop ?t] held by (fastforce simp: taken_def covers_completes)
qed


section \<open>The handler of completions\<close>

definition moved :: "btt_opts \<Rightarrow> u64 \<Rightarrow> (nat \<Rightarrow> iop_type \<Rightarrow> io rb) \<Rightarrow> btt \<Rightarrow> nat \<Rightarrow> (queue \<Rightarrow> queue \<Rightarrow> bool) \<Rightarrow> btt \<Rightarrow> bool" where
  "moved opts T ex b i R b' \<longleftrightarrow> btt_inv opts T ex b' \<and> map device (devs b') = map device (devs b)
     \<and> (\<exists>m. R (pending (devs b ! i)) m \<and> map pending (devs b') = (map pending (devs b))[i := m])"

lemma held_moved:
  assumes "held opts T ex b b'" "i < length (devs b)"
  shows "moved opts T ex b i (=) b'"
proof -
  have "(map pending (devs b))[i := pending (devs b ! i)] = map pending (devs b)"
    using assms(2) by (metis list_update_id nth_map)
  then show ?thesis
    using assms(1) by (simp add: held_def moved_def)
qed

lemma held_then_moved:
  assumes "held opts T ex b b1" "i < length (devs b)" "moved opts T ex b1 i R b'"
  shows "moved opts T ex b i R b'"
proof -
  have "pending (devs b1 ! i) = pending (devs b ! i)"
    using assms(1,2) held_length [OF assms(1)] by (metis held_def nth_map)
  then show ?thesis
    using assms(1,3) by (simp add: moved_def held_def)
qed

lemma moved_then_held: "moved opts T ex b i R b1 \<Longrightarrow> held opts T ex b1 b' \<Longrightarrow> moved opts T ex b i R b'"
  by (simp add: moved_def held_def)

lemma dropped_moved:
  assumes "dropped opts T ex b i ks b'" "taken c (pending (devs b ! i)) ks"
  shows "moved opts T ex b i (after_complete c) b'"
  using assms taken_after [OF assms(2)] by (auto simp: moved_def dropped_def)

text \<open>What precedes the loop.\<close>

definition completion_counts :: "btt_opts \<Rightarrow> io \<Rightarrow> nat \<Rightarrow> btt \<Rightarrow> btt" where
  "completion_counts opts c_iop i b =
     (let t = tr_time (io_t c_iop);
          b = b\<lparr>all_regions := update_cregion (range_delta opts) t (all_regions b)\<rparr>;
          b = update_dip i (\<lambda>d. d\<lparr>regions := update_cregion (range_delta opts) t (regions d)\<rparr>) b;
          b = (case io_pip c_iop of
                None \<Rightarrow> b
              | Some p \<Rightarrow> update_proc p (\<lambda>pr. pr\<lparr>pi_regions := update_cregion (range_delta opts) t (pi_regions pr)\<rparr>) b);
          b = update_dip i (\<lambda>d. d\<lparr>aqd_handle := aqd_complete (BIT_TIME t) (aqd_handle d)\<rparr>) b;
          (mine, sys) = rstat_add (BIT_TIME t) (ucast (drop_bit 9 (tr_bytes (io_t c_iop)))) (rstat_handle (devs b ! i), sys_info b)
      in update_dip i (\<lambda>d. d\<lparr>rstat_handle := mine\<rparr>) b\<lparr>sys_info := sys\<rparr>)"

lemma kept_completion_counts:
  assumes "btt_inv opts T ex b"
  shows "kept opts T ex b (completion_counts opts c i b)"
proof -
  let ?t = "tr_time (io_t c)"
  let ?b1 = "b\<lparr>all_regions := update_cregion (range_delta opts) ?t (all_regions b)\<rparr>"
  let ?b2 = "update_dip i (\<lambda>d. d\<lparr>regions := update_cregion (range_delta opts) ?t (regions d)\<rparr>) ?b1"
  let ?b3 = "case io_pip c of None \<Rightarrow> ?b2
              | Some p \<Rightarrow> update_proc p (\<lambda>pr. pr\<lparr>pi_regions := update_cregion (range_delta opts) ?t (pi_regions pr)\<rparr>) ?b2"
  let ?b4 = "update_dip i (\<lambda>d. d\<lparr>aqd_handle := aqd_complete (BIT_TIME ?t) (aqd_handle d)\<rparr>) ?b3"
  have 1: "kept opts T ex b ?b1"
    by (rule kept_rest [OF assms]) (simp add: plain_rest_def)
  have 2: "kept opts T ex ?b1 ?b2"
    by (rule kept_plain [OF kept_inv [OF 1]]) (simp add: plain_update_def)
  have 3: "kept opts T ex ?b2 ?b3"
    using kept_inv [OF 2] by (auto intro: kept_refl kept_update_proc split: option.split)
  have 4: "kept opts T ex ?b3 ?b4"
    by (rule kept_plain [OF kept_inv [OF 3]]) (simp add: plain_update_def)
  obtain mine sys where rs: "rstat_add (BIT_TIME ?t) (ucast (drop_bit 9 (tr_bytes (io_t c)))) (rstat_handle (devs ?b4 ! i), sys_info ?b4) = (mine, sys)"
    by fastforce
  let ?b5 = "update_dip i (\<lambda>d. d\<lparr>rstat_handle := mine\<rparr>) ?b4"
  have 5: "kept opts T ex ?b4 ?b5"
    by (rule kept_plain [OF kept_inv [OF 4]]) (simp add: plain_update_def)
  have 6: "kept opts T ex ?b5 (?b5\<lparr>sys_info := sys\<rparr>)"
    by (rule kept_rest [OF kept_inv [OF 5]]) (simp add: plain_rest_def)
  have "completion_counts opts c i b = ?b5\<lparr>sys_info := sys\<rparr>"
    unfolding completion_counts_def Let_def rs by simp
  then show ?thesis
    using kept_trans [OF kept_trans [OF kept_trans [OF kept_trans [OF kept_trans [OF 1 2] 3] 4] 5] 6] by (simp only:)
qed

text \<open>The loop and what follows it.\<close>

definition completion_tail :: "btt_opts \<Rightarrow> io \<Rightarrow> nat \<Rightarrow> btt \<Rightarrow> btt option" where
  "completion_tail opts c_iop i b = do {
     qs \<leftarrow> dip_foreach_list c_iop IOP_Q b;
     ((dt, shown, pits), b) \<leftarrow> complete_loop opts c_iop qs (no_time, [], []) b;
     let b = (if per_io_ofp opts then b\<lparr>tracks := tracks b @ [shown]\<rparr> else b);
     Some (update_dip i (\<lambda>d. d\<lparr>pit_fp := fprintf (pits, dt, tr_time (io_t c_iop)) (pit_fp d)\<rparr>) b)
   }"

lemma handle_complete_parts:
  "io_dip c = Some i \<Longrightarrow>
   handle_complete opts c b = Option.bind (update_blks c b) (\<lambda>b. completion_tail opts c i (completion_counts opts c i b))"
  by (simp add: handle_complete_def completion_tail_def completion_counts_def Let_def case_prod_beta)

lemma completion_tail_moved:
  assumes "btt_inv opts T ex b" "i < length (devs b)" "io_dip c = Some i" "tr_time (io_t c) = T"
  shows "returns (moved opts T ex b i (after_complete (io_t c))) (completion_tail opts c i b)"
proof -
  let ?qs = "rb_foreach c (heads (devs b ! i) IOP_Q)"
  have qs: "dip_foreach_list c IOP_Q b = Some ?qs" "all_queued T b i ?qs"
    using foreach_queued [OF assms(1-3)] assms(3) by (simp_all add: dip_foreach_list_def)
  have "distinct (map BIT_START ?qs)"
    using assms(1,2) by (intro rb_foreach_distinct) (simp add: btt_inv_def dips_ok_def dip_ok_def)
  from complete_loop_drops [OF assms(1) qs(2) assms(4,3) this, of "(no_time, [], [])"]
  obtain dt shown pits b1 where b1: "complete_loop opts c ?qs (no_time, [], []) b = Some ((dt, shown, pits), b1)"
    "dropped opts T ex b i (BIT_START ` set ?qs) b1"
    unfolding returns_def by auto
  have m1: "moved opts T ex b i (after_complete (io_t c)) b1"
    by (rule dropped_moved [OF b1(2) foreach_taken [OF assms(1,2)]])
  let ?b2 = "if per_io_ofp opts then b1\<lparr>tracks := tracks b1 @ [shown]\<rparr> else b1"
  let ?b3 = "update_dip i (\<lambda>d. d\<lparr>pit_fp := fprintf (pits, dt, tr_time (io_t c)) (pit_fp d)\<rparr>) ?b2"
  have inv: "btt_inv opts T ex b1"
    using m1 by (simp add: moved_def)
  then have 2: "kept opts T ex b1 ?b2"
    by (auto intro: kept_refl kept_rest simp: plain_rest_def)
  have 3: "kept opts T ex ?b2 ?b3"
    by (rule kept_plain [OF kept_inv [OF 2]]) (simp add: plain_update_def)
  have "completion_tail opts c i b = Some ?b3"
    by (simp add: completion_tail_def qs(1) b1(1) Let_def)
  then show ?thesis
    using moved_then_held [OF m1 kept_held [OF kept_trans [OF 2 3]]] by (simp only: returns_simps)
qed

lemma handle_complete_moved:
  assumes "btt_inv opts T ex b" "i < length (devs b)" "io_dip c = Some i" "tr_time (io_t c) = T"
  shows "returns (moved opts T ex b i (after_complete (io_t c))) (handle_complete opts c b)"
  unfolding handle_complete_parts [OF assms(3)] returns_simps
proof (rule returns_mono [OF kept_update_blks [OF assms(1,3)]])
  fix b1
  assume "kept opts T ex b b1"
  then have k: "kept opts T ex b (completion_counts opts c i b1)"
    using kept_trans kept_completion_counts [OF kept_inv] by blast
  note h = kept_held [OF k]
  have "i < length (devs (completion_counts opts c i b1))"
    using held_length [OF h] assms(2) by simp
  then have "returns (moved opts T ex (completion_counts opts c i b1) i (after_complete (io_t c)))
      (completion_tail opts c i (completion_counts opts c i b1))"
    by (rule completion_tail_moved [OF held_inv [OF h] _ assms(3,4)])
  then show "returns (moved opts T ex b i (after_complete (io_t c))) (completion_tail opts c i (completion_counts opts c i b1))"
    by (rule returns_mono) (rule held_then_moved [OF h assms(2)])
qed


section \<open>The queues of all devices\<close>

type_synonym queues = "u32 \<Rightarrow> queue"

definition queues_of :: "btt \<Rightarrow> queues" where
  "queues_of b dev = (case map_of (zip (map device (devs b)) (map pending (devs b))) dev of None \<Rightarrow> Map.empty | Some m \<Rightarrow> m)"

definition btt_ok :: "btt_opts \<Rightarrow> u64 \<Rightarrow> btt \<Rightarrow> bool" where
  "btt_ok opts T b \<longleftrightarrow> btt_inv opts T no_extra b \<and> distinct (map device (devs b))"

lemma queues_of_cong:
  "map device (devs b') = map device (devs b) \<Longrightarrow> map pending (devs b') = map pending (devs b) \<Longrightarrow> queues_of b' = queues_of b"
  by (simp add: queues_of_def fun_eq_iff)

lemma queues_of_nth:
  assumes "distinct (map device (devs b))" "i < length (devs b)"
  shows "queues_of b (device (devs b ! i)) = pending (devs b ! i)"
proof -
  have "map_of (zip (map device (devs b)) (map pending (devs b))) (map device (devs b) ! i) = Some (map pending (devs b) ! i)"
    using assms by (intro map_of_zip_nth) simp_all
  then show ?thesis
    using assms(2) by (simp add: queues_of_def)
qed

lemma queues_of_other: "dev \<notin> set (map device (devs b)) \<Longrightarrow> queues_of b dev = Map.empty"
  by (simp add: queues_of_def map_of_zip_is_None [THEN iffD2])

lemma queues_of_grown:
  assumes "grown b b'"
  shows "queues_of b' = queues_of b \<and> (distinct (map device (devs b)) \<longrightarrow> distinct (map device (devs b')))"
proof -
  obtain ext where ext: "map device (devs b') = map device (devs b) @ ext"
    "map queue_of (devs b') = map queue_of (devs b) @ replicate (length ext) Map.empty"
    using assms by (auto simp: grown_def)
  have pend: "map pending ds = map (\<lambda>m k. map_option io_t (m k)) (map queue_of ds)" for ds
    by (simp add: pending_def comp_def fun_eq_iff)
  have "map pending (devs b') = map pending (devs b) @ replicate (length ext) Map.empty"
    by (simp only: pend ext(2) map_append) (simp add: map_replicate)
  moreover have "m = Map.empty" if "map_of (zip ext (replicate (length ext) Map.empty)) dev = Some m" for dev and m :: queue
    using map_of_SomeD [OF that] by (auto dest: set_zip_rightD)
  moreover have known: "dev \<in> device ` set (devs b)"
    if "map_of (zip (map device (devs b)) (map pending (devs b))) dev = Some m" for dev m
    using set_zip_leftD [OF map_of_SomeD [OF that]] by simp
  ultimately have "queues_of b' dev = queues_of b dev" for dev
    unfolding queues_of_def ext(1)
    by (cases "map_of (zip (map device (devs b)) (map pending (devs b))) dev") (auto simp: map_add_def dest: known split: option.split)
  then show ?thesis
    using assms by (auto simp: grown_def)
qed

lemma queues_of_update:
  assumes "distinct (map device (devs b))" "i < length (devs b)" "map device (devs b') = map device (devs b)"
    "map pending (devs b') = (map pending (devs b))[i := m]"
  shows "queues_of b' = (queues_of b)(device (devs b ! i) := m)"
proof
  fix dev
  have len: "length (devs b') = length (devs b)"
    using assms(3) map_eq_imp_length_eq by blast
  show "queues_of b' dev = ((queues_of b)(device (devs b ! i) := m)) dev"
  proof (cases "dev \<in> set (map device (devs b))")
    case True
    then obtain j where j: "j < length (devs b)" "dev = device (devs b ! j)"
      by (auto simp: in_set_conv_nth)
    have dev: "device (devs b' ! j) = dev"
      using arg_cong [OF assms(3), of "\<lambda>xs. xs ! j"] j len by simp
    have "pending (devs b' ! j) = (if j = i then m else pending (devs b ! j))"
      using arg_cong [OF assms(4), of "\<lambda>xs. xs ! j"] j len by (simp add: nth_list_update)
    moreover have "j = i \<longleftrightarrow> dev = device (devs b ! i)"
      using assms(1,2) j by (auto simp: distinct_conv_nth)
    ultimately show ?thesis
      using queues_of_nth [of b' j] queues_of_nth [of b j] assms(1,3) j len dev by auto
  next
    case False
    then show ?thesis
      using queues_of_other [of dev b] queues_of_other [of dev b'] assms(2,3) by auto
  qed
qed

section \<open>One trace\<close>

text \<open>The state is good after time \<open>T\<close>, and the queue of the device changes as \<open>R\<close> says.\<close>

definition stepped :: "btt_opts \<Rightarrow> u64 \<Rightarrow> btt \<Rightarrow> u32 \<Rightarrow> (queue \<Rightarrow> queue \<Rightarrow> bool) \<Rightarrow> btt \<Rightarrow> bool" where
  "stepped opts T b dev R b' \<longleftrightarrow> btt_ok opts T b'
     \<and> (\<exists>m. R (queues_of b dev) m \<and> queues_of b' = (queues_of b)(dev := m))"

lemma stepped_same: "btt_ok opts T b' \<Longrightarrow> queues_of b' = queues_of b \<Longrightarrow> stepped opts T b dev (=) b'"
  by (auto simp: stepped_def)

lemma held_stepped: "btt_ok opts T b \<Longrightarrow> held opts T no_extra b b' \<Longrightarrow> stepped opts T b dev (=) b'"
  by (rule stepped_same) (auto simp: btt_ok_def held_def intro: queues_of_cong)

lemma trace_with_stepped:
  assumes "btt_ok opts T b" "ty \<noteq> IOP_Q" "tr_pid (io_t iop) \<noteq> no_pid" "\<not> linked iop" "tr_bytes (io_t iop) \<noteq> 0"
    "\<And>iop' b1 i. btt_inv opts T (extra iop') b1 \<Longrightarrow> i < length (devs b1) \<Longrightarrow> io_dip iop' = Some i \<Longrightarrow> io_t iop' = io_t iop
       \<Longrightarrow> returns (moved opts T (extra iop') b1 i R) (handle iop' b1)"
    "R Map.empty Map.empty"
  shows "returns (stepped opts T b (tr_device (io_t iop)) R) (trace_with opts ty handle iop b)"
proof -
  let ?dev = "tr_device (io_t iop)"
  have "btt_inv opts T no_extra b"
    using assms(1) by (simp add: btt_ok_def)
  from io_setup_other [OF this assms(2-4)]
  obtain iop' b' where set: "io_setup opts ty iop b = Some (iop', b')" "setup_ok opts T ty iop b (iop', b')"
    by (auto simp: returns_def)
  show ?thesis
  proof (cases "linked iop'")
    case False
    then obtain i where "grown b b'" "btt_inv opts T no_extra b'" "i < length (devs b')" "device (devs b' ! i) = ?dev"
      "queue_of (devs b' ! i) = Map.empty"
      using set(2) assms(2) by (auto simp: setup_ok_def)
    moreover from this have "queues_of b ?dev = Map.empty"
      using queues_of_grown [of b b'] queues_of_nth [of b' i] assms(1) by (simp add: btt_ok_def pending_def fun_eq_iff)
    ultimately have "stepped opts T b ?dev R b'"
      using queues_of_grown [of b b'] assms(1,7) by (auto simp: stepped_def btt_ok_def fun_upd_idem intro!: exI [of _ Map.empty])
    then show ?thesis
      using False set(1) assms(5) by (simp add: trace_with_def io_release_unlinked)
  next
    case True
    then obtain i b1 where b1: "grown b b1" "i < length (devs b1)" "length (devs b') = length (devs b1)"
      "map device (devs b') = map device (devs b1)" "device (devs b1 ! i) = ?dev" "io_dip iop' = Some i" "io_type iop' = ty"
      "btt_inv opts T (extra iop') b'" "map queue_of (devs b') = map queue_of (devs b1)" "io_t iop' = io_t iop"
      using set(2) assms(2) by (auto simp: setup_ok_def)
    have i: "i < length (devs b')"
      using b1 by simp
    have same: "queues_of b' = queues_of b" "distinct (map device (devs b'))"
      using queues_of_grown [OF b1(1)] queues_of_cong [OF b1(4) map_pending_cong [OF b1(9)]] assms(1) b1(4)
      by (simp_all add: btt_ok_def)
    have dev: "device (devs b' ! i) = ?dev"
      using b1(2-5) by (metis nth_map)
    obtain b2 where b2: "handle iop' b' = Some b2" "moved opts T (extra iop') b' i R b2"
      using assms(6) [OF b1(8) i b1(6,10)] by (auto simp: returns_def)
    then obtain m where m: "btt_inv opts T (extra iop') b2" "map device (devs b2) = map device (devs b')"
      "R (pending (devs b' ! i)) m" "map pending (devs b2) = (map pending (devs b'))[i := m]"
      by (auto simp: moved_def)
    have i2: "i < length (devs b2)"
      using m(2) i by (metis length_map)
    obtain b3 where b3: "io_release iop' b2 = Some b3" "btt_inv opts T no_extra b3" "same_queues b2 b3"
      using io_release_other [OF m(1) True b1(6) i2] b1(7) assms(2) by (auto simp: returns_def)
    have "queues_of b3 = queues_of b2"
      using b3(3) by (intro queues_of_cong map_pending_cong) (simp_all add: same_queues_def)
    also have "\<dots> = (queues_of b)(?dev := m)"
      using queues_of_update [OF same(2) i m(2,4)] same(1) dev by simp
    finally have "queues_of b3 = (queues_of b)(?dev := m)" .
    moreover have "queues_of b ?dev = pending (devs b' ! i)"
      using queues_of_nth [OF same(2) i] same(1) dev by simp
    ultimately have "stepped opts T b ?dev R b3"
      using b3(2,3) m(2,3) same(2) by (auto simp: stepped_def btt_ok_def same_queues_def)
    then show ?thesis
      using True set(1) b2(1) b3(1) assms(5) by (simp add: trace_with_def)
  qed
qed


section \<open>Events on the way of a request\<close>

lemma extra_time: "btt_inv opts T ex b \<Longrightarrow> i < length (devs b) \<Longrightarrow> returns (held opts T ex b) m \<Longrightarrow> returns (moved opts T ex b i (=)) m"
  by (erule returns_mono) (rule held_moved)

lemma trace_on_the_way:
  assumes "btt_ok opts T b" "tr_pid (io_t iop) \<noteq> no_pid" "\<not> linked iop" "tr_bytes (io_t iop) \<noteq> 0"
  shows "returns (stepped opts T b (tr_device (io_t iop)) (=)) (trace_getrq opts iop b)"
    and "returns (stepped opts T b (tr_device (io_t iop)) (=)) (trace_sleeprq opts iop b)"
    and "returns (stepped opts T b (tr_device (io_t iop)) (=)) (trace_insert opts iop b)"
    and "returns (stepped opts T b (tr_device (io_t iop)) (=)) (trace_merge opts iop b)"
  unfolding trace_getrq_def trace_sleeprq_def trace_insert_def trace_merge_def
  by (rule trace_with_stepped [OF assms(1) _ assms(2-4)];
      (simp | (rule extra_time, assumption, assumption, (rule handle_g_held handle_s_held handle_i_held handle_m_held; assumption))))+

lemma trace_issue_stepped:
  assumes "btt_ok opts T b" "tr_pid (io_t iop) \<noteq> no_pid" "\<not> linked iop" "512 \<le> tr_bytes (io_t iop)" "tr_time (io_t iop) \<le> T"
  shows "returns (stepped opts T b (tr_device (io_t iop)) (=)) (trace_issue opts iop b)"
  unfolding trace_issue_def
proof (rule trace_with_stepped [OF assms(1) _ assms(2,3)])
  show "tr_bytes (io_t iop) \<noteq> 0"
    using assms(4) by auto
  fix iop' b1 i
  assume *: "btt_inv opts T (extra iop') b1" "i < length (devs b1)" "io_dip iop' = Some i" "io_t iop' = io_t iop"
  show "returns (moved opts T (extra iop') b1 i (=)) (handle_issue opts iop' b1)"
    by (rule extra_time [OF *(1,2) handle_issue_held [OF *(1,3,2)]]) (use assms(4,5) * in simp_all)
qed simp_all

lemma trace_complete_stepped:
  assumes "btt_ok opts T b" "tr_pid (io_t iop) \<noteq> no_pid" "\<not> linked iop" "tr_bytes (io_t iop) \<noteq> 0" "tr_time (io_t iop) = T"
  shows "returns (stepped opts T b (tr_device (io_t iop)) (after_complete (io_t iop))) (trace_complete opts iop b)"
  unfolding trace_complete_def
proof (rule trace_with_stepped [OF assms(1) _ assms(2-4)])
  fix iop' b1 i
  assume *: "btt_inv opts T (extra iop') b1" "i < length (devs b1)" "io_dip iop' = Some i" "io_t iop' = io_t iop"
  show "returns (moved opts T (extra iop') b1 i (after_complete (io_t iop))) (handle_complete opts iop' b1)"
    using handle_complete_moved [OF *(1-3)] assms(5) *(4) by simp
qed (simp_all add: after_complete_empty)

section \<open>Queue events\<close>

definition queue_counts :: "btt_opts \<Rightarrow> io \<Rightarrow> nat \<Rightarrow> seeki \<Rightarrow> btt \<Rightarrow> btt" where
  "queue_counts opts q_iop i seeks b =
     (let t = tr_time (io_t q_iop);
          b = update_dip i (\<lambda>d. d\<lparr>q2q_handle := seeks\<rparr>) b;
          b = b\<lparr>all_regions := update_qregion (range_delta opts) t (all_regions b)\<rparr>;
          b = update_dip i (dip_update_q opts t) b
      in case io_pip q_iop of
           None \<Rightarrow> b
         | Some p \<Rightarrow> update_proc p (pip_update_q opts (remapper_dev (device (devs b ! i))) t) b)"

definition queue_histo :: "io \<Rightarrow> btt \<Rightarrow> btt option" where
  "queue_histo q_iop b =
     (let t = tr_time (io_t q_iop)
      in if remapper_dev (tr_device (io_t q_iop))
         then let (lq, a) = update_lq t (all_last_q b, q2q_dm (all_avgs b))
              in Some (b\<lparr>all_last_q := lq, all_avgs := (all_avgs b)\<lparr>q2q_dm := a\<rparr>\<rparr>)
         else do {
           h \<leftarrow> update_histo (ucast (tr_bytes (io_t q_iop))) (q_histo b);
           let (lq, a) = update_lq t (all_last_q b, q2q (all_avgs b));
           Some (b\<lparr>q_histo := h, all_last_q := lq, all_avgs := (all_avgs b)\<lparr>q2q := a\<rparr>\<rparr>)
         })"

lemma handle_queue_parts:
  "io_dip q = Some i \<Longrightarrow>
   handle_queue opts q b = Option.bind (seeki_add (seek_absolute opts) q (q2q_handle (devs b ! i))) (\<lambda>seeks.
     Option.bind (queue_histo q (queue_counts opts q i seeks b)) (\<lambda>b.
     Option.bind (io_store (q\<lparr>i_time := no_time, g_time := no_time, c_time := no_time, m_time := no_time, d_time := no_time\<rparr>) b)
       (\<lambda>b. Some (update_dip i count_active b))))"
  by (simp add: handle_queue_def queue_counts_def queue_histo_def Let_def case_prod_beta)

lemma kept_queue_counts:
  assumes "btt_inv opts T ex b" "seeks_ok seeks"
  shows "kept opts T ex b (queue_counts opts q i seeks b)"
proof -
  let ?t = "tr_time (io_t q)"
  let ?b1 = "update_dip i (\<lambda>d. d\<lparr>q2q_handle := seeks\<rparr>) b"
  let ?b2 = "?b1\<lparr>all_regions := update_qregion (range_delta opts) ?t (all_regions ?b1)\<rparr>"
  let ?b3 = "update_dip i (dip_update_q opts ?t) ?b2"
  have 1: "kept opts T ex b ?b1"
    by (rule kept_q2q_handle [OF assms])
  have 2: "kept opts T ex ?b1 ?b2"
    by (rule kept_rest [OF kept_inv [OF 1]]) (simp add: plain_rest_def)
  have 3: "kept opts T ex ?b2 ?b3"
    by (rule kept_plain [OF kept_inv [OF 2]]) (simp add: plain_update_def dip_update_q_def Let_def case_prod_beta)
  have 4: "kept opts T ex ?b3 (queue_counts opts q i seeks b)"
    using kept_inv [OF 3] by (auto simp: queue_counts_def Let_def intro: kept_refl kept_update_proc split: option.split)
  show ?thesis
    by (rule kept_trans [OF kept_trans [OF kept_trans [OF 1 2] 3] 4])
qed

lemma kept_queue_histo:
  assumes "btt_inv opts T ex b" "512 \<le> tr_bytes (io_t q)"
  shows "returns (kept opts T ex b) (queue_histo q b)"
proof -
  have len: "length (q_histo b) = N_HIST_BKTS"
    using assms(1) by (simp add: btt_inv_def)
  obtain h where h: "update_histo (ucast (tr_bytes (io_t q))) (q_histo b) = Some h" "length h = N_HIST_BKTS"
    using update_histo_ok [OF len assms(2)] by (auto simp: returns_def)
  show ?thesis
    by (auto simp: queue_histo_def h(1) Let_def case_prod_beta plain_rest_def h(2) len intro!: kept_rest [OF assms(1)])
qed

lemma handle_queue_held:
  assumes "btt_inv opts T ex b" "i < length (devs b)" "queue_of (devs b ! i) (BIT_START q) = Some q" "512 \<le> tr_bytes (io_t q)"
  shows "returns (held opts T ex b) (handle_queue opts q b)"
proof -
  let ?q = "q\<lparr>i_time := no_time, g_time := no_time, c_time := no_time, m_time := no_time, d_time := no_time\<rparr>"
  have ok: "queued_ok (length (procs b)) T i q"
    using queue_member(2) [OF assms(1-3)] by simp
  have dip: "io_dip q = Some i"
    using ok by (simp add: queued_ok_def)
  have "seeks_ok (q2q_handle (devs b ! i))"
    using assms(1,2) by (simp add: btt_inv_def dips_ok_def dip_ok_def)
  from seeki_add_keyed [OF this]
  obtain s where s: "seeki_add (seek_absolute opts) q (q2q_handle (devs b ! i)) = Some s" "seeks_ok s"
    unfolding returns_def by blast
  note 1 = kept_queue_counts [OF assms(1) s(2), of q i]
  obtain b2 where b2: "queue_histo q (queue_counts opts q i s b) = Some b2" "kept opts T ex (queue_counts opts q i s b) b2"
    using kept_queue_histo [OF kept_inv [OF 1] assms(4)] by (auto simp: returns_def)
  note 2 = kept_trans [OF 1 b2(2)]
  have same: "same_queues b b2"
    using 2 by (simp add: kept_def)
  have len2: "i < length (devs b2)" "length (procs b2) = length (procs b)"
    using same_queues_length [OF same] assms(2) same by (simp_all add: same_queues_def)
  have "queue_of (devs b2 ! i) (BIT_START ?q) = Some q"
    using same_queues_nth [OF same assms(2)] assms(3) by (simp add: BIT_START_def)
  moreover have "queued_ok (length (procs b2)) T i ?q"
    using ok len2(2) by (simp add: queued_ok_def)
  ultimately obtain b3 where b3: "io_store ?q b2 = Some b3" "held opts T ex b2 b3"
    using io_store_held [OF kept_inv [OF 2] len2(1), of ?q q] by (auto simp: returns_def)
  have "held opts T ex b (update_dip i count_active b3)"
    using held_trans [OF held_trans [OF kept_held [OF 2] b3(2)] kept_held [OF kept_plain [OF held_inv [OF b3(2)] plain_count_active]]] .
  then show ?thesis
    by (simp add: handle_queue_parts [OF dip] s(1) b2(1) b3(1))
qed

lemma trace_queue_stepped:
  assumes "btt_ok opts T b" "tr_pid (io_t iop) \<noteq> no_pid" "\<not> linked iop" "512 \<le> tr_bytes (io_t iop)" "d_time iop \<le> T"
  shows "returns (stepped opts T b (tr_device (io_t iop)) (\<lambda>m m'. m' = spec_queue (io_t iop) m)) (trace_queue opts iop b)"
proof -
  let ?dev = "tr_device (io_t iop)" and ?R = "\<lambda>m m'. m' = spec_queue (io_t iop) m" and ?k = "tr_sector (io_t iop)"
  have inv: "btt_inv opts T no_extra b" and nonzero: "tr_bytes (io_t iop) \<noteq> 0"
    using assms(1,4) by (auto simp: btt_ok_def)
  obtain iop' b' where set: "io_setup opts IOP_Q iop b = Some (iop', b')" "setup_ok opts T IOP_Q iop b (iop', b')"
    using io_setup_queue [OF inv assms(2,3)] assms(5) by (auto simp: returns_def)
  show ?thesis
  proof (cases "linked iop'")
    case False
    then obtain i where i: "grown b b'" "btt_inv opts T no_extra b'" "i < length (devs b')" "device (devs b' ! i) = ?dev"
      "queue_of (devs b' ! i) ?k \<noteq> None"
      using set(2) by (auto simp: setup_ok_def BIT_START_def)
    then have "queues_of b ?dev ?k \<noteq> None"
      using queues_of_grown [of b b'] queues_of_nth [of b' i] assms(1) by (simp add: btt_ok_def pending_def)
    then have "stepped opts T b ?dev ?R b'"
      using queues_of_grown [OF i(1)] i(2) assms(1) by (auto simp: stepped_def btt_ok_def spec_queue_def)
    then show ?thesis
      using False set(1) nonzero by (simp add: trace_queue_def io_release_unlinked)
  next
    case True
    then obtain i b1 where b1: "grown b b1" "i < length (devs b1)" "length (devs b') = length (devs b1)"
      "map device (devs b') = map device (devs b1)" "device (devs b1 ! i) = ?dev" "io_dip iop' = Some i" "io_type iop' = IOP_Q"
      "btt_inv opts T (extra iop') b'" "queue_of (devs b1 ! i) ?k = None" "io_t iop' = io_t iop"
      "map queue_of (devs b') = (map queue_of (devs b1))[i := (queue_of (devs b1 ! i))(?k \<mapsto> iop')]"
      using set(2) by (auto simp: setup_ok_def BIT_START_def)
    have i: "i < length (devs b')"
      using b1 by simp
    have inv': "btt_inv opts T no_extra b'"
      using b1(8) extra_queue [OF b1(7)] by simp
    have "map queue_of (devs b') ! i = (queue_of (devs b1 ! i))(?k \<mapsto> iop')"
      using b1(2) unfolding b1(11) by simp
    then have q: "queue_of (devs b' ! i) (BIT_START iop') = Some iop'"
      using i b1(10) by (simp add: BIT_START_def)
    obtain b2 where b2: "handle_queue opts iop' b' = Some b2" "held opts T no_extra b' b2"
      using handle_queue_held [OF inv' i q] assms(4) b1(10) by (auto simp: returns_def)
    have pend: "map pending ds = map (\<lambda>m k. map_option io_t (m k)) (map queue_of ds)" for ds
      by (simp add: pending_def comp_def fun_eq_iff)
    have "map pending (devs b') = (map pending (devs b1))[i := (pending (devs b1 ! i))(?k \<mapsto> io_t iop)]"
      unfolding pend b1(11) by (simp add: map_update b1(10) pending_def fun_upd_def if_distrib cong: if_cong)
    then have "queues_of b' = (queues_of b1)(?dev := (pending (devs b1 ! i))(?k \<mapsto> io_t iop))"
      using queues_of_update [OF _ b1(2,4)] queues_of_grown [OF b1(1)] assms(1) b1(5) by (simp add: btt_ok_def)
    moreover have "pending (devs b1 ! i) = queues_of b ?dev" "queues_of b1 = queues_of b" "distinct (map device (devs b1))"
      using queues_of_grown [OF b1(1)] queues_of_nth [OF _ b1(2)] assms(1) b1(5) by (simp_all add: btt_ok_def)
    moreover have "queues_of b2 = queues_of b'"
      using b2(2) by (intro queues_of_cong) (simp_all add: held_def)
    moreover from calculation have "queues_of b ?dev ?k = None"
      using b1(9) by (metis map_option_is_None pending_def)
    ultimately have "stepped opts T b ?dev ?R b2"
      using b2(2) b1(4) by (auto simp: stepped_def btt_ok_def held_def spec_queue_def)
    then show ?thesis
      using True set(1) b2(1) nonzero by (simp add: trace_queue_def)
  qed
qed


section \<open>The other events\<close>

lemma kept_ok: "btt_ok opts T b \<Longrightarrow> kept opts T no_extra b b' \<Longrightarrow> btt_ok opts T b' \<and> queues_of b' = queues_of b"
  using held_stepped [of opts T b b'] kept_held [of opts T no_extra b b'] by (auto simp: stepped_def)

lemma kept_stepped: "btt_ok opts T b \<Longrightarrow> kept opts T no_extra b b' \<Longrightarrow> stepped opts T b dev (=) b'"
  by (rule stepped_same) (auto dest: kept_ok)

lemma kept_plug: "btt_inv opts T ex b \<Longrightarrow> kept opts T ex b (dip_plug dev t b)"
  by (auto simp: dip_plug_def plain_update_def intro: kept_refl kept_plain split: option.split)

lemma kept_unplug: "btt_inv opts T ex b \<Longrightarrow> kept opts T ex b (dip_unplug dev t n b)"
  by (auto simp: dip_unplug_def unplug_def plain_update_def intro: kept_refl kept_plain split: option.split)

lemma kept_unplug_tm: "btt_inv opts T ex b \<Longrightarrow> kept opts T ex b (dip_unplug_tm dev t n b)"
  by (auto simp: dip_unplug_tm_def unplug_def plain_update_def intro: kept_refl kept_plain split: option.split)

text \<open>The number of I/Os of an unplug event can be read and is not negative as an \<open>int\<close>.\<close>

definition unplug_ok :: "blk_io_trace \<Rightarrow> bool" where
  "unplug_ok t \<longleftrightarrow> (case get_be (tr_pdu t) 0 8 of None \<Rightarrow> False | Some n \<Rightarrow> 0 \<le> sint (ucast n :: u32))"

lemma get_nio_up_ok: "unplug_ok (io_t u) \<Longrightarrow> \<exists>n. get_nio_up u = Some n \<and> 0 \<le> sint (ucast n :: u32)"
  by (auto simp: unplug_ok_def get_nio_up_def split: option.splits)

lemma kept_unplug_hist:
  assumes "btt_inv opts T ex b" "unplug_ok (io_t u)"
  shows "returns (kept opts T ex b) (unplug_hist_add u b)"
proof (cases "dip_find (tr_device (io_t u)) b")
  case None
  then show ?thesis
    using kept_refl [OF assms(1)] by (simp add: unplug_hist_add_def)
next
  case (Some i)
  then have found: "dip_find (tr_device (io_t u)) b = Some i" .
  have ok: "dip_ok opts T ex (length (procs b)) i (devs b ! i)"
    using assms(1) dip_find_Some [OF found] by (simp add: btt_inv_def dips_ok_def)
  obtain n where n: "get_nio_up u = Some n" "0 \<le> sint (ucast n :: u32)"
    using get_nio_up_ok [OF assms(2)] by auto
  show ?thesis
  proof (cases "up_hist_handle (devs b ! i)")
    case None
    then show ?thesis
      using found kept_refl [OF assms(1)] by (simp add: unplug_hist_add_def)
  next
    case (Some h)
    have "length h = NBKTS"
      using ok Some by (simp add: dip_ok_def)
    then obtain h' where h': "unplug_hist_count n h = Some h'" "length h' = NBKTS"
      using unplug_hist_count_ok [OF n(2)] by auto
    have "kept opts T ex b (update_dip i (\<lambda>d. d\<lparr>up_hist_handle := Some h'\<rparr>) b)"
      by (rule kept_update_dip [OF assms(1)]) (use h'(2) in \<open>simp_all add: dip_ok_def queue_of_def\<close>)
    then show ?thesis
      using Some h'(1) n(1) found by (simp add: unplug_hist_add_def)
  qed
qed

lemma trace_plug_stepped:
  assumes "btt_ok opts T b" "\<not> linked iop"
  shows "returns (stepped opts T b dev (=)) (trace_plug iop b)"
  using kept_stepped [OF assms(1) kept_plug] assms by (simp add: trace_plug_def io_release_unlinked btt_ok_def)

lemma trace_unplug_stepped:
  assumes "btt_ok opts T b" "\<not> linked iop" "unplug_ok (io_t iop)"
  shows "returns (stepped opts T b dev (=)) (trace_unplug_io iop b)"
    and "returns (stepped opts T b dev (=)) (trace_unplug_timer iop b)"
proof -
  let ?dev = "tr_device (io_t iop)" and ?t = "BIT_TIME (tr_time (io_t iop))"
  obtain n where n: "get_nio_up iop = Some n"
    using get_nio_up_ok [OF assms(3)] by auto
  have inv: "btt_inv opts T no_extra b"
    using assms(1) by (simp add: btt_ok_def)
  show "returns (stepped opts T b dev (=)) (trace_unplug_timer iop b)"
    using kept_stepped [OF assms(1) kept_unplug_tm [OF inv]] assms(2) n by (simp add: trace_unplug_timer_def io_release_unlinked)
  obtain b1 where b1: "unplug_hist_add iop b = Some b1" "kept opts T no_extra b b1"
    using kept_unplug_hist [OF inv assms(3)] by (auto simp: returns_def)
  show "returns (stepped opts T b dev (=)) (trace_unplug_io iop b)"
    using kept_stepped [OF assms(1) kept_trans [OF b1(2) kept_unplug [OF kept_inv [OF b1(2)]]]] assms(2) n b1(1)
    by (simp add: trace_unplug_io_def io_release_unlinked)
qed

text \<open>Requeues, remaps and messages set up a trace of another type and release it.\<close>

lemma setup_release:
  assumes "btt_ok opts T b" "ty \<noteq> IOP_Q" "tr_pid (io_t iop) \<noteq> no_pid" "\<not> linked iop"
    "\<And>iop' b1. btt_inv opts T (extra iop') b1 \<Longrightarrow> linked iop' \<Longrightarrow> \<exists>i < length (devs b1). io_dip iop' = Some i
       \<Longrightarrow> returns (kept opts T (extra iop') b1) (f iop' b1)"
  shows "returns (stepped opts T b dev (=)) (Option.bind (io_setup opts ty iop b)
    (\<lambda>(iop', b1). Option.bind (if linked iop' then f iop' b1 else Some b1) (io_release iop')))"
proof -
  have "btt_inv opts T no_extra b"
    using assms(1) by (simp add: btt_ok_def)
  from io_setup_other [OF this assms(2-4)]
  obtain iop' b' where set: "io_setup opts ty iop b = Some (iop', b')" "setup_ok opts T ty iop b (iop', b')"
    by (auto simp: returns_def)
  show ?thesis
  proof (cases "linked iop'")
    case False
    then have "stepped opts T b dev (=) b'"
      using set(2) queues_of_grown [of b b'] assms(1) by (intro stepped_same) (auto simp: setup_ok_def btt_ok_def)
    then show ?thesis
      using False set(1) by (simp add: io_release_unlinked)
  next
    case True
    then obtain i b1 where b1: "grown b b1" "i < length (devs b1)" "length (devs b') = length (devs b1)"
      "map device (devs b') = map device (devs b1)" "io_dip iop' = Some i" "io_type iop' = ty"
      "btt_inv opts T (extra iop') b'" "map queue_of (devs b') = map queue_of (devs b1)"
      using set(2) assms(2) by (auto simp: setup_ok_def)
    obtain b2 where b2: "f iop' b' = Some b2" "kept opts T (extra iop') b' b2"
      using assms(5) [OF b1(7) True] b1(2,3,5) by (auto simp: returns_def)
    have "i < length (devs b2)"
      using b1(2,3) same_queues_length [of b' b2] b2(2) by (simp add: kept_def)
    then obtain b3 where b3: "io_release iop' b2 = Some b3" "btt_inv opts T no_extra b3" "same_queues b2 b3"
      using io_release_other [OF kept_inv [OF b2(2)] True b1(5)] b1(6) assms(2) by (auto simp: returns_def)
    have same: "same_queues b' b3"
      using b2(2) b3(3) same_queues_trans by (auto simp: kept_def)
    have "queues_of b3 = queues_of b1"
      using same b1(4,8) by (intro queues_of_cong map_pending_cong) (simp_all add: same_queues_def)
    moreover have "btt_ok opts T b3"
      using b3(2) same b1(4) queues_of_grown [OF b1(1)] assms(1) by (simp add: btt_ok_def same_queues_def)
    ultimately have "stepped opts T b dev (=) b3"
      using queues_of_grown [OF b1(1)] by (intro stepped_same) simp_all
    then show ?thesis
      using True set(1) b2(1) b3(1) by simp
  qed
qed

lemma trace_requeue_stepped:
  assumes "btt_ok opts T b" "tr_pid (io_t iop) \<noteq> no_pid" "\<not> linked iop"
  shows "returns (stepped opts T b dev (=)) (trace_requeue opts iop b)"
  unfolding trace_requeue_def
  by (rule setup_release [OF assms(1) _ assms(2,3)]) (auto intro: kept_plain [OF _ plain_count_active])

lemma trace_remap_stepped:
  assumes "btt_ok opts T b" "tr_pid (io_t iop) \<noteq> no_pid" "\<not> linked iop" "ignore_remaps opts \<or> cvt_pdu_remap (tr_pdu (io_t iop)) \<noteq> None"
  shows "returns (stepped opts T b dev (=)) (trace_remap opts iop b)"
proof (cases "ignore_remaps opts")
  case True
  then show ?thesis
    using kept_stepped [OF assms(1) kept_refl] assms(1,3) by (simp add: trace_remap_def io_release_unlinked btt_ok_def)
next
  case False
  then obtain rp where rp: "cvt_pdu_remap (tr_pdu (io_t iop)) = Some rp"
    using assms(4) by auto
  let ?f = "\<lambda>a_iop b. case dip_find (r_device_from rp) b of None \<Rightarrow> Some b
    | Some q_dip \<Rightarrow> (case dip_find_sec q_dip IOP_Q (r_sector_from rp) b of None \<Rightarrow> Some b
       | Some q_iop \<Rightarrow> update_q2a q_iop (tdelta (tr_time (io_t q_iop)) (tr_time (io_t a_iop))) b)"
  have "returns (kept opts T (extra iop') b1) (?f iop' b1)" if "btt_inv opts T (extra iop') b1" for iop' b1
  proof (cases "dip_find (r_device_from rp) b1")
    case None
    then show ?thesis
      using kept_refl [OF that] by simp
  next
    case (Some q)
    then show ?thesis
      using kept_refl [OF that] kept_update_q2a [OF that, of _ q] dip_find_Some [OF Some] dip_find_sec_queued [OF that, of q]
      by (auto simp: queued_ok_def split: option.split)
  qed
  from setup_release [OF assms(1) _ assms(2,3), of IOP_A ?f] this show ?thesis
    using False rp by (simp add: trace_remap_def)
qed


section \<open>All traces\<close>

lemma kept_messages: "btt_inv opts T ex b \<Longrightarrow> kept opts T ex b (b\<lparr>msgs := ms\<rparr>)"
  by (rule kept_rest) (simp_all add: plain_rest_def)

lemma message_stepped:
  assumes "btt_ok opts T b" "tr_pid (io_t iop) \<noteq> no_pid" "\<not> linked iop"
  shows "returns (stepped opts T b dev (=)) (Option.bind (trace_message opts iop b) (\<lambda>(iop, b). io_release iop b))"
proof -
  let ?f = "\<lambda>iop b. Option.bind (io_dip iop) (\<lambda>i. Some (b\<lparr>msgs := msgs b @ [(make_dev_hdr 15 (devmap (devs b ! i)) (device (devs b ! i)) True,
      tr_time (io_t iop), takeWhile (\<lambda>x. x \<noteq> 0) (tr_pdu (io_t iop)))]\<rparr>))"
  have same: "Option.bind (trace_message opts iop b) (\<lambda>(iop, b). io_release iop b)
    = Option.bind (io_setup opts IOP_M iop b) (\<lambda>(iop', b1). Option.bind (if linked iop' then ?f iop' b1 else Some b1) (io_release iop'))"
    by (auto simp: trace_message_def Let_def split: option.splits bind_splits)
  show ?thesis
    unfolding same by (rule setup_release [OF assms(1) _ assms(2,3)]) (auto intro: kept_messages)
qed

text \<open>A new process changes no queue.\<close>

lemma proc_step_ok:
  assumes "btt_ok opts T b" "proc_step b b'"
  shows "btt_ok opts T b' \<and> queues_of b' = queues_of b"
proof -
  have "devs b' = devs b"
    using proc_step_frame [OF assms(2)] by simp
  then show ?thesis
    using btt_inv_proc_step [OF _ assms(2)] assms(1) by (auto simp: btt_ok_def intro!: queues_of_cong)
qed

lemma notify_process_stepped:
  assumes "btt_ok opts T b" "tr_pid (io_t iop) = 0 \<or> (\<exists>x \<in> set (tr_pdu (io_t iop)). x = 0 \<or> x = 0x2f)"
  shows "returns (stepped opts T b dev (=)) (notify_process iop b)"
proof -
  have "procs_ok b"
    using assms(1) by (simp add: btt_ok_def btt_inv_def)
  then have "returns (proc_step b) (process_alloc pid name b)" for pid name
    by (rule process_alloc_ok)
  then have "returns (proc_step b) (notify_process iop b)"
    using assms(2) by (auto simp: notify_process_def Let_def)
  then show ?thesis
    by (rule returns_mono) (auto intro: stepped_same dest: proc_step_ok [OF assms(1)])
qed

text \<open>Reports of iostat during the run.\<close>

lemma dump_dips_kept:
  "None \<notin> set ds \<Longrightarrow> btt_inv opts T ex b
   \<Longrightarrow> returns (\<lambda>(b', asp'). kept opts T ex b b') (dump_dips stamp all ds b asp)"
proof (induction stamp all ds b asp rule: dump_dips.induct)
  case (1 stamp all b asp)
  then show ?case
    using kept_refl by simp
next
  case (3 stamp all i ds b asp)
  obtain line st asp1 where one: "dump_stats stamp all (iostat_start b)
      (make_dev_hdr 11 (devmap (devs b ! i)) (device (devs b ! i)) True) (dip_stats (devs b ! i)) asp = (line, st, asp1)"
    by (metis prod_cases3)
  let ?b1 = "update_dip i (\<lambda>d. d\<lparr>dip_stats := st\<rparr>) b" and ?ls = "iostat_lines b @ [line]"
  have 1: "kept opts T ex b ?b1"
    by (rule kept_plain [OF 3(3)]) (simp add: plain_update_def)
  have 2: "kept opts T ex ?b1 (?b1\<lparr>iostat_lines := ?ls\<rparr>)"
    by (rule kept_rest [OF kept_inv [OF 1]]) (simp add: plain_rest_def)
  note k = kept_trans [OF 1 2]
  have "returns (\<lambda>(b', asp'). kept opts T ex (?b1\<lparr>iostat_lines := ?ls\<rparr>) b') (dump_dips stamp all ds (?b1\<lparr>iostat_lines := ?ls\<rparr>) asp1)"
    using 3(1) [OF refl one [symmetric] refl refl] 3(2) kept_inv [OF k] by simp
  then have "returns (\<lambda>(b', asp'). kept opts T ex b b') (dump_dips stamp all ds (?b1\<lparr>iostat_lines := ?ls\<rparr>) asp1)"
    by (rule returns_mono) (auto intro: kept_trans [OF k])
  then show ?case
    by (simp add: one Let_def)
qed simp

definition opts_ok :: "btt_opts \<Rightarrow> bool" where
  "opts_ok opts \<longleftrightarrow> \<not> iostat_ofp opts \<or> devices opts = None"

lemma report_dips_all: "devices opts = None \<Longrightarrow> None \<notin> set (report_dips opts b)"
  by (auto simp: report_dips_def)

lemma iostat_dump_kept:
  assumes "devices opts = None" "btt_inv opts T ex b"
  shows "returns (kept opts T ex b) (iostat_dump_stats opts stamp all b)"
proof -
  let ?b0 = "if all then b\<lparr>iostat_lines := iostat_lines b @ [iostat_hdr]\<rparr> else b"
  have 0: "kept opts T ex b ?b0"
    using assms(2) by (auto intro: kept_refl kept_rest simp: plain_rest_def)
  from dump_dips_kept [OF report_dips_all [OF assms(1)] kept_inv [OF 0]]
  obtain b1 asp where b1: "dump_dips stamp all (report_dips opts b) ?b0 zero_stats_t = Some (b1, asp)" "kept opts T ex ?b0 b1"
    unfolding returns_def by fast
  have 2: "kept opts T ex b1 (b1\<lparr>iostat_lines := ls\<rparr>)" for ls
    by (rule kept_rest [OF kept_inv [OF b1(2)]]) (simp add: plain_rest_def)
  show ?thesis
    unfolding iostat_dump_stats_def b1(1) by (simp add: kept_trans [OF kept_trans [OF 0 b1(2)] 2])
qed

lemma kept_iostat_times:
  "btt_inv opts T ex b \<Longrightarrow> kept opts T ex b (b\<lparr>iostat_start := s\<rparr>)"
  "btt_inv opts T ex b \<Longrightarrow> kept opts T ex b (b\<lparr>iostat_last_stamp := s\<rparr>)"
  by (rule kept_rest; simp add: plain_rest_def)+

lemma iostat_check_kept:
  assumes "opts_ok opts" "btt_inv opts T ex b"
  shows "returns (kept opts T ex b) (iostat_check_time opts stamp b)"
proof (cases "iostat_ofp opts")
  case True
  then have "devices opts = None"
    using assms(1) by (simp add: opts_ok_def)
  from iostat_dump_kept [OF this assms(2)]
  obtain b1 where b1: "iostat_dump_stats opts stamp False b = Some b1" "kept opts T ex b b1"
    unfolding returns_def by blast
  have later: "kept opts T ex b (b'\<lparr>iostat_last_stamp := stamp\<rparr>)" if "kept opts T ex b b'" for b'
    by (rule kept_trans [OF that kept_iostat_times(2) [OF kept_inv [OF that]]])
  have "kept opts T ex b (b1\<lparr>iostat_start := stamp\<rparr>)"
    by (rule kept_trans [OF b1(2) kept_iostat_times(1) [OF kept_inv [OF b1(2)]]])
  then show ?thesis
    using later later [OF kept_iostat_times(1) [OF assms(2)]] later [OF kept_refl [OF assms(2)]] b1(1) True
    by (simp add: iostat_check_time_def)
qed (simp add: iostat_check_time_def kept_refl [OF assms(2)])


section \<open>The abstract step\<close>

text \<open>The traces that go to the handlers: not notes, not commands, and in the time that was asked for.\<close>

definition handled :: "btt_opts \<Rightarrow> blk_io_trace \<Rightarrow> bool" where
  "handled opts t \<longleftrightarrow> \<not> has_tc (tr_action t) TC_NOTIFY \<and> \<not> has_tc (tr_action t) TC_PC
     \<and> \<not> (time_bounded opts \<and> (BIT_TIME (tr_time t) < t_astart opts \<or> BIT_TIME (tr_time t) > t_aend opts))"

definition event_is :: "blk_io_trace \<Rightarrow> blk_ta \<Rightarrow> bool" where
  "event_is t ta \<longleftrightarrow> tr_action t AND 0xffff = ta_code ta"

definition spec_step :: "btt_opts \<Rightarrow> blk_io_trace \<Rightarrow> queues \<Rightarrow> queues" where
  "spec_step opts t Q =
     (let dev = tr_device t
      in if \<not> handled opts t \<or> tr_bytes t = 0 then Q
         else if event_is t TA_QUEUE then Q(dev := spec_queue t (Q dev))
         else if event_is t TA_COMPLETE then Q(dev := spec_complete t (Q dev))
         else Q)"

text \<open>The step on the queue of the device, whether its traces are apart or not.\<close>

definition spec_rel :: "btt_opts \<Rightarrow> blk_io_trace \<Rightarrow> queue \<Rightarrow> queue \<Rightarrow> bool" where
  "spec_rel opts t m m' \<longleftrightarrow>
     (if \<not> handled opts t \<or> tr_bytes t = 0 then m' = m
      else if event_is t TA_QUEUE then m' = spec_queue t m
      else if event_is t TA_COMPLETE then after_complete t m m'
      else m' = m)"

text \<open>What the handlers rely on in a trace.\<close>

definition trace_ok :: "btt_opts \<Rightarrow> blk_io_trace \<Rightarrow> bool" where
  "trace_ok opts t \<longleftrightarrow> tr_pid t \<noteq> no_pid \<and> (tr_bytes t = 0 \<or> 512 \<le> tr_bytes t)
     \<and> (tr_action t = BLK_TN TN_PROCESS \<longrightarrow> tr_pid t = 0 \<or> (\<exists>x \<in> set (tr_pdu t). x = 0 \<or> x = 0x2f))
     \<and> (event_is t TA_UNPLUG_IO \<or> event_is t TA_UNPLUG_TIMER \<longrightarrow> unplug_ok t)
     \<and> (event_is t TA_REMAP \<longrightarrow> ignore_remaps opts \<or> cvt_pdu_remap (tr_pdu t) \<noteq> None)"

lemma stepped_mono: "returns (stepped opts T b dev R) m \<Longrightarrow> (\<And>x y. R x y \<Longrightarrow> R' x y) \<Longrightarrow> returns (stepped opts T b dev R') m"
  by (erule returns_mono) (auto simp: stepped_def)

lemma stepped_nothing:
  assumes "returns (stepped opts T b dev (=)) m" "tr_bytes t = 0 \<or> \<not> event_is t TA_QUEUE \<and> \<not> event_is t TA_COMPLETE"
  shows "returns (stepped opts T b dev (spec_rel opts t)) m"
  by (rule stepped_mono [OF assms(1)]) (use assms(2) in \<open>auto simp: spec_rel_def\<close>)

lemma stepped_unhandled:
  assumes "returns (stepped opts T b dev (=)) m" "\<not> handled opts t"
  shows "returns (stepped opts T b dev (spec_rel opts t)) m"
  by (rule stepped_mono [OF assms(1)]) (use assms(2) in \<open>auto simp: spec_rel_def\<close>)

lemma trace_switch_stepped:
  assumes "btt_ok opts T b" "trace_ok opts (io_t iop)" "\<not> linked iop" "tr_time (io_t iop) = T" "d_time iop \<le> T"
    "handled opts (io_t iop)"
  shows "returns (stepped opts T b (tr_device (io_t iop)) (spec_rel opts (io_t iop))) (trace_switch opts iop b)"
proof -
  let ?dev = "tr_device (io_t iop)" and ?R = "spec_rel opts (io_t iop)" and ?act = "tr_action (io_t iop) AND 0xffff"
  have pid: "tr_pid (io_t iop) \<noteq> no_pid" and bytes: "tr_bytes (io_t iop) \<noteq> 0 \<Longrightarrow> 512 \<le> tr_bytes (io_t iop)"
    using assms(2) by (auto simp: trace_ok_def)
  have same: "returns (stepped opts T b ?dev (=)) (Some b)"
    by (simp add: kept_stepped [OF assms(1) kept_refl] assms(1) [unfolded btt_ok_def])
  consider "tr_bytes (io_t iop) = 0" "?act \<in> ta_code ` {TA_QUEUE, TA_INSERT, TA_GETRQ, TA_BACKMERGE, TA_FRONTMERGE, TA_ISSUE, TA_COMPLETE, TA_SLEEPRQ}"
    | "tr_bytes (io_t iop) \<noteq> 0" "event_is (io_t iop) TA_QUEUE" | "tr_bytes (io_t iop) \<noteq> 0" "event_is (io_t iop) TA_COMPLETE"
    | "tr_bytes (io_t iop) \<noteq> 0" "?act \<in> ta_code ` {TA_INSERT, TA_GETRQ, TA_BACKMERGE, TA_FRONTMERGE, TA_ISSUE, TA_SLEEPRQ}"
    | "?act \<notin> ta_code ` {TA_QUEUE, TA_INSERT, TA_GETRQ, TA_BACKMERGE, TA_FRONTMERGE, TA_ISSUE, TA_COMPLETE, TA_SLEEPRQ}"
    by (auto simp: event_is_def)
  then show ?thesis
  proof cases
    case 1
    then have "trace_switch opts iop b = Some b"
      by (auto simp: trace_switch_def trace_queue_def trace_with_def trace_insert_def trace_getrq_def trace_merge_def
          trace_issue_def trace_complete_def trace_sleeprq_def)
    then show ?thesis
      using 1(1) by (simp only:) (rule stepped_nothing [OF same], simp)
  next
    case 2
    then have "trace_switch opts iop b = trace_queue opts iop b"
      by (simp add: trace_switch_def event_is_def)
    then show ?thesis
      using stepped_mono [OF trace_queue_stepped [OF assms(1) pid assms(3) bytes assms(5)], of ?R] 2 assms(6)
      by (simp add: spec_rel_def)
  next
    case 3
    then have "trace_switch opts iop b = trace_complete opts iop b"
      by (simp add: trace_switch_def event_is_def)
    then show ?thesis
      using stepped_mono [OF trace_complete_stepped [OF assms(1) pid assms(3) 3(1) assms(4)], of ?R] 3 assms(6)
      by (simp add: spec_rel_def event_is_def)
  next
    case 4
    have "tr_time (io_t iop) \<le> T"
      using assms(4) by simp
    then have "returns (stepped opts T b ?dev (=)) (trace_switch opts iop b)"
      using 4(2) trace_on_the_way [OF assms(1) pid assms(3) 4(1)] trace_issue_stepped [OF assms(1) pid assms(3) bytes [OF 4(1)]]
      by (auto simp: trace_switch_def)
    then show ?thesis
      using 4(2) by (intro stepped_nothing) (auto simp: event_is_def)
  next
    case 5
    have remap: "?act = ta_code TA_REMAP \<Longrightarrow> ignore_remaps opts \<or> cvt_pdu_remap (tr_pdu (io_t iop)) \<noteq> None"
      and unplug: "?act = ta_code TA_UNPLUG_IO \<Longrightarrow> unplug_ok (io_t iop)" "?act = ta_code TA_UNPLUG_TIMER \<Longrightarrow> unplug_ok (io_t iop)"
      using assms(2) by (simp_all add: trace_ok_def event_is_def)
    have "returns (stepped opts T b ?dev (=)) (trace_switch opts iop b)"
      using 5 same trace_remap_stepped [OF assms(1) pid assms(3) remap] trace_requeue_stepped [OF assms(1) pid assms(3)]
        trace_plug_stepped [OF assms(1,3)] trace_unplug_stepped [OF assms(1,3) unplug(1)] trace_unplug_stepped [OF assms(1,3) unplug(2)]
      unfolding trace_switch_def Let_def by (simp add: io_release_unlinked [OF assms(3)] del: ta_code.simps)
    then show ?thesis
      using 5 by (intro stepped_nothing) (auto simp: event_is_def)
  qed
qed

lemma kept_trans_stepped:
  assumes "btt_ok opts T b" "kept opts T no_extra b b1" "returns (stepped opts T b1 dev R) m"
  shows "returns (stepped opts T b dev R) m"
  by (rule returns_mono [OF assms(3)]) (use kept_ok [OF assms(1,2)] in \<open>simp add: stepped_def\<close>)

lemma add_io_trace_stepped:
  assumes "btt_ok opts T b" "trace_ok opts (io_t iop)" "\<not> linked iop" "tr_time (io_t iop) = T" "d_time iop \<le> T"
    "handled opts (io_t iop)" "opts_ok opts"
  shows "returns (stepped opts T b (tr_device (io_t iop)) (spec_rel opts (io_t iop))) (add_io_trace opts iop b)"
proof -
  let ?b1 = "b\<lparr>last_t_seen := BIT_TIME (tr_time (io_t iop)), n_traces := n_traces b + 1\<rparr>"
  have 1: "kept opts T no_extra b ?b1"
    using assms(1) by (intro kept_rest) (simp_all add: plain_rest_def btt_ok_def)
  from iostat_check_kept [OF assms(7) kept_inv [OF 1]]
  obtain b2 where b2: "iostat_check_time opts (tr_time (io_t iop)) ?b1 = Some b2" "kept opts T no_extra ?b1 b2"
    unfolding returns_def by blast
  note 2 = kept_trans [OF 1 b2(2)]
  have "returns (stepped opts T b (tr_device (io_t iop)) (spec_rel opts (io_t iop))) (trace_switch opts iop b2)"
    using kept_ok [OF assms(1) 2] assms(2-6) by (intro kept_trans_stepped [OF assms(1) 2] trace_switch_stepped) simp_all
  then show ?thesis
    by (simp add: add_io_trace_def Let_def b2(1) del: returns_simps(3))
qed

lemma btt_add_trace_stepped:
  assumes "btt_ok opts T b" "trace_ok opts (io_t iop)" "\<not> linked iop" "tr_time (io_t iop) = T" "d_time iop \<le> T" "opts_ok opts"
  shows "returns (stepped opts T b (tr_device (io_t iop)) (spec_rel opts (io_t iop))) (btt_add_trace opts iop b)"
proof -
  let ?dev = "tr_device (io_t iop)"
  have pid: "tr_pid (io_t iop) \<noteq> no_pid"
    using assms(2) by (simp add: trace_ok_def)
  have same: "kept opts T no_extra b b" "kept opts T no_extra b (b\<lparr>btt_done := True\<rparr>)"
    using assms(1) by (auto intro: kept_refl kept_rest simp: btt_ok_def plain_rest_def)
  show ?thesis
  proof (cases "has_tc (tr_action (io_t iop)) TC_NOTIFY")
    case True
    have "returns (stepped opts T b ?dev (=)) (notify_process iop b)" if "tr_action (io_t iop) = BLK_TN TN_PROCESS"
      using assms(2) that by (intro notify_process_stepped [OF assms(1)]) (simp add: trace_ok_def)
    then have "returns (stepped opts T b ?dev (=)) (btt_add_trace opts iop b)"
      using True message_stepped [OF assms(1) pid assms(3), of ?dev] kept_stepped [OF assms(1) same(1)]
      by (auto simp: btt_add_trace_def Let_def io_release_unlinked [OF assms(3)])
    then show ?thesis
      by (rule stepped_unhandled) (simp add: handled_def True)
  next
    case False
    show ?thesis
    proof (cases "handled opts (io_t iop)")
      case True
      then show ?thesis
        using add_io_trace_stepped [OF assms(1-5) True assms(6)] by (auto simp: btt_add_trace_def Let_def handled_def)
    next
      case unhandled: False
      then have "btt_add_trace opts iop b = Some b \<or> btt_add_trace opts iop b = Some (b\<lparr>btt_done := True\<rparr>)"
        using False by (auto simp: btt_add_trace_def Let_def io_release_unlinked [OF assms(3)] handled_def)
      then have "returns (stepped opts T b ?dev (=)) (btt_add_trace opts iop b)"
        using kept_stepped [OF assms(1) same(1)] kept_stepped [OF assms(1) same(2)] by auto
      then show ?thesis
        by (rule stepped_unhandled [OF _ unhandled])
    qed
  qed
qed


section \<open>A run\<close>

text \<open>The traces of the input one after the other, until the end time has been passed.\<close>

fun btt_run :: "btt_opts \<Rightarrow> blk_io_trace list \<Rightarrow> btt \<Rightarrow> btt option" where
  "btt_run opts [] b = Some b"
| "btt_run opts (t # ts) b =
     (if btt_done b then Some b else Option.bind (btt_add_trace opts (io_alloc t) b) (btt_run opts ts))"

text \<open>Whenever a completion is handled, the traces that are held for its device are apart.\<close>

fun apart_along :: "btt_opts \<Rightarrow> blk_io_trace list \<Rightarrow> queues \<Rightarrow> bool" where
  "apart_along opts [] Q = True"
| "apart_along opts (t # ts) Q =
     ((handled opts t \<and> tr_bytes t \<noteq> 0 \<and> event_is t TA_COMPLETE \<longrightarrow> queue_apart (Q (tr_device t)))
      \<and> apart_along opts ts (spec_step opts t Q))"

lemma io_alloc_fields [simp]: "io_t (io_alloc t) = t" "\<not> linked (io_alloc t)" "d_time (io_alloc t) = 0"
  by (simp_all add: io_alloc_def)

lemma btt_ok_mono: "btt_ok opts T b \<Longrightarrow> T \<le> T' \<Longrightarrow> btt_ok opts T' b"
  by (auto simp: btt_ok_def intro: btt_inv_mono)

text \<open>One trace of the run.\<close>

lemma btt_add_trace_ok:
  assumes "btt_ok opts T b" "opts_ok opts" "trace_ok opts t" "T \<le> tr_time t"
  shows "returns (stepped opts (tr_time t) b (tr_device t) (spec_rel opts t)) (btt_add_trace opts (io_alloc t) b)"
  using btt_add_trace_stepped [OF btt_ok_mono [OF assms(1,4)], of "io_alloc t"] assms(2,3) by simp

lemma stepped_spec:
  assumes "stepped opts T b (tr_device t) (spec_rel opts t) b'"
    "handled opts t \<and> tr_bytes t \<noteq> 0 \<and> event_is t TA_COMPLETE \<longrightarrow> queue_apart (queues_of b (tr_device t))"
  shows "queues_of b' = spec_step opts t (queues_of b)"
proof -
  obtain m where m: "spec_rel opts t (queues_of b (tr_device t)) m" "queues_of b' = (queues_of b)(tr_device t := m)"
    using assms(1) by (auto simp: stepped_def)
  have "\<not> (event_is t TA_QUEUE \<and> event_is t TA_COMPLETE)"
    by (simp add: event_is_def)
  then show ?thesis
    using m assms(2) by (auto simp: spec_rel_def spec_step_def Let_def after_complete_def split: if_splits)
qed

lemma btt_run_follows:
  assumes "btt_ok opts T b" "opts_ok opts" "sorted (T # map tr_time ts)" "\<forall>t \<in> set ts. trace_ok opts t"
  shows "\<exists>b' n. btt_run opts ts b = Some b' \<and> (\<exists>T'. btt_ok opts T' b') \<and> n \<le> length ts \<and> (n < length ts \<longrightarrow> btt_done b')
    \<and> (apart_along opts ts (queues_of b) \<longrightarrow> queues_of b' = fold (spec_step opts) (take n ts) (queues_of b))"
  using assms
proof (induction ts arbitrary: T b)
  case (Cons t ts)
  show ?case
  proof (cases "btt_done b")
    case True
    then show ?thesis
      using Cons.prems(1) by (intro exI [of _ b] exI [of _ 0]) auto
  next
    case False
    have "returns (stepped opts (tr_time t) b (tr_device t) (spec_rel opts t)) (btt_add_trace opts (io_alloc t) b)"
      using Cons.prems by (intro btt_add_trace_ok [OF Cons.prems(1,2)]) simp_all
    then obtain b1 where b1: "btt_add_trace opts (io_alloc t) b = Some b1"
      "stepped opts (tr_time t) b (tr_device t) (spec_rel opts t) b1"
      by (auto simp: returns_def)
    have "btt_ok opts (tr_time t) b1"
      using b1(2) by (simp add: stepped_def)
    from Cons.IH [OF this Cons.prems(2)]
    obtain b' n where b': "btt_run opts ts b1 = Some b'" "\<exists>T'. btt_ok opts T' b'" "n \<le> length ts" "n < length ts \<longrightarrow> btt_done b'"
      "apart_along opts ts (queues_of b1) \<longrightarrow> queues_of b' = fold (spec_step opts) (take n ts) (queues_of b1)"
      using Cons.prems(3,4) by auto
    have "queues_of b' = fold (spec_step opts) (take (Suc n) (t # ts)) (queues_of b)"
      if "apart_along opts (t # ts) (queues_of b)"
      using that b'(5) stepped_spec [OF b1(2)] by simp
    then show ?thesis
      using False b1(1) b' by (intro exI [of _ b'] exI [of _ "Suc n"]) auto
  qed
qed auto

lemma btt_init_ok: "btt_ok opts 0 btt_init"
  by (simp add: btt_ok_def btt_inv_def dips_ok_def procs_ok_def btt_init_def)

lemma btt_init_queues: "queues_of btt_init = (\<lambda>_. Map.empty)"
  by (simp add: queues_of_def btt_init_def fun_eq_iff)

text \<open>On traces in the order of their times, whose processes and payloads can be read and which have no or at least
  one sector, btt handles every trace up to the end time without an access outside of its data, and all its trees stay
  balanced and sorted.\<close>

theorem btt_run_safe:
  assumes "opts_ok opts" "sorted (map tr_time ts)" "\<forall>t \<in> set ts. trace_ok opts t"
  shows "\<exists>b'. btt_run opts ts btt_init = Some b' \<and> (\<exists>T. btt_ok opts T b')"
proof -
  have "sorted (0 # map tr_time ts)"
    using assms(2) by simp
  then show ?thesis
    using btt_run_follows [OF btt_init_ok assms(1) _ assms(3)] by blast
qed

text \<open>C6: btt holds for every device exactly the traces that have been queued and not completed since, as the abstract steps
  say, as long as the held traces of a device do not overlap when one is completed.\<close>

theorem btt_holds_incomplete:
  assumes "opts_ok opts" "sorted (map tr_time ts)" "\<forall>t \<in> set ts. trace_ok opts t" "apart_along opts ts (\<lambda>_. Map.empty)"
  shows "\<exists>b' n. btt_run opts ts btt_init = Some b' \<and> n \<le> length ts \<and> (n = length ts \<or> btt_done b')
    \<and> queues_of b' = fold (spec_step opts) (take n ts) (\<lambda>_. Map.empty)"
proof -
  have "sorted (0 # map tr_time ts)"
    using assms(2) by simp
  from btt_run_follows [OF btt_init_ok assms(1) this assms(3), unfolded btt_init_queues] assms(4)
  show ?thesis
    by (metis le_neq_implies_less)
qed


text \<open>Two traces are queued, and the first is issued and completed.\<close>

definition example_event :: "u64 \<Rightarrow> blk_ta \<Rightarrow> u64 \<Rightarrow> blk_io_trace" where
  "example_event t ta sector = \<lparr>tr_magic = 0, tr_sequence = 0, tr_time = t, tr_sector = sector, tr_bytes = 4096,
     tr_action = ta_code ta, tr_pid = 1, tr_device = 0x800000, tr_cpu = 0, tr_error = 0, tr_vec_count = 0, tr_seq = 0,
     tr_pdu_len = 0, tr_pdu = []\<rparr>"

definition example_run :: "blk_io_trace list" where
  "example_run = [example_event 10 TA_QUEUE 8, example_event 20 TA_QUEUE 100, example_event 30 TA_ISSUE 8,
     example_event 40 TA_COMPLETE 8]"

lemma example_handled: "handled plain_opts (example_event t ta sector)"
  by (cases ta) (simp_all add: handled_def example_event_def plain_opts_def has_tc_def const_defs BLK_TC.simps)

lemma example_events [simp]:
  "tr_time (example_event t ta s) = t" "tr_sector (example_event t ta s) = s" "tr_device (example_event t ta s) = 0x800000"
  "sectors (example_event t ta s) = 8" "tr_bytes (example_event t ta s) = 4096"
  by (simp_all add: example_event_def sectors_def drop_bit_eq_div)

lemma example_event_is [simp]: "event_is (example_event t ta s) ta' \<longleftrightarrow> ta = ta'"
  by (cases ta; cases ta') (simp_all add: event_is_def example_event_def)

lemma example_run_ok: "\<forall>t \<in> set example_run. trace_ok plain_opts t"
  by (simp add: example_run_def example_event_def trace_ok_def event_is_def no_pid_def BLK_TN_value)

lemma example_run_apart: "apart_along plain_opts example_run (\<lambda>_. Map.empty)"
  by (auto simp: example_run_def example_handled spec_step_def spec_queue_def queue_apart_def Let_def split: if_splits)

lemma plain_opts_ok: "opts_ok plain_opts"
  by (simp add: opts_ok_def plain_opts_def)

lemma btt_run_safe_witness:
  "\<exists>b'. btt_run plain_opts example_run btt_init = Some b' \<and> (\<exists>T. btt_ok plain_opts T b')"
  by (rule btt_run_safe [OF plain_opts_ok _ example_run_ok]) (simp add: example_run_def example_event_def)

lemma btt_holds_incomplete_witness:
  "\<exists>b' n. btt_run plain_opts example_run btt_init = Some b' \<and> n \<le> length example_run \<and> (n = length example_run \<or> btt_done b')
    \<and> queues_of b' = fold (spec_step plain_opts) (take n example_run) (\<lambda>_. Map.empty)"
  by (rule btt_holds_incomplete [OF plain_opts_ok _ example_run_ok example_run_apart])
    (simp add: example_run_def example_event_def)

lemma example_run_result:
  "fold (spec_step plain_opts) example_run (\<lambda>_. Map.empty) 0x800000 = [100 \<mapsto> example_event 20 TA_QUEUE 100]"
  by (auto simp: example_run_def example_handled spec_step_def spec_queue_def spec_complete_def completes_def fun_eq_iff Let_def)

text \<open>When queued traces overlap, btt loses track of requests: there is a balanced tree in order with a trace inside the completed
  one that is neither found by its sector nor visited at the completion, so that it is held for ever.\<close>

theorem overlap_loses_request:
  "\<exists>t c q. keyed_inv BIT_START t \<and> q \<in> set (inorder t) \<and> covers c q \<and> q \<notin> set (rb_foreach c t)
    \<and> rb_find_sec (BIT_START q) t \<noteq> Some q"
proof -
  let ?q = "example_io 12 2048" and ?c = "example_io 8 4096"
  let ?t = "Nd RB_BLACK Null (example_io 8 8192) (Nd RB_RED Null ?q Null)"
  have "keyed_inv BIT_START ?t"
    by (simp add: keyed_inv_def rb_inv_def)
  moreover have "example_io 8 8192 \<noteq> ?q"
    by (simp add: example_io_def io_alloc_def)
  ultimately show ?thesis
    by (intro exI [of _ ?t] exI [of _ ?c] exI [of _ ?q]) (simp add: covers_def drop_bit_eq_div)
qed

end
