(* ===== verification/Btt_Input.thy ===== *)
theory Btt_Input
  imports Btt_Run Trace_Input
begin

text \<open>
  The input of btt, \<open>btt/mmap.c\<close>, and the loop over its traces, \<open>process\<close> in \<open>btt/bt_timeline.c\<close>. The file is mapped in windows; a
  read outside of the window, or behind the last page of the file, is \<open>None\<close>. The size of a page is a parameter.
\<close>

section \<open>Windows of the file\<close>

definition DEF_LEN :: nat where
  "DEF_LEN = 16 * 1024 * 1024"

record mapped =
  mp_native :: native
  mp_min :: nat
  mp_cur :: nat
  mp_max :: nat

text \<open>The return value and the new window. A file that ends before the window gives a huge unsigned length.\<close>

definition move_map :: "nat \<Rightarrow> nat \<Rightarrow> mapped \<Rightarrow> bool \<times> mapped" where
  "move_map pgsz total_size m =
     (let cur_min = mp_cur m - mp_cur m mod pgsz;
          len = (if total_size < cur_min then DEF_LEN else min DEF_LEN (total_size - cur_min))
      in if len < sizeof_trace then (False, m\<lparr>mp_min := cur_min\<rparr>)
         else (mp_cur m < cur_min + len, m\<lparr>mp_min := cur_min, mp_max := cur_min + len\<rparr>))"

definition whole_pages :: "nat \<Rightarrow> nat \<Rightarrow> nat" where
  "whole_pages pgsz n = (n + pgsz - 1) div pgsz * pgsz"

text \<open>\<open>n\<close> bytes from the current position; the last page of the file is filled up with zeros.\<close>

definition map_bytes :: "nat \<Rightarrow> u8 list \<Rightarrow> mapped \<Rightarrow> nat \<Rightarrow> u8 list option" where
  "map_bytes pgsz data m n =
     (if mp_cur m + n \<le> mp_min m + whole_pages pgsz (mp_max m - mp_min m) \<and> mp_cur m + n \<le> whole_pages pgsz (length data)
      then Some (take n (drop (mp_cur m) (data @ replicate pgsz 0)))
      else None)"

section \<open>Conversion\<close>

text \<open>The CPU is converted as a number of 16 bits, and two fields keep the zero of \<open>io_alloc\<close>.\<close>

definition btt_to_cpu :: "native \<Rightarrow> blk_io_trace \<Rightarrow> blk_io_trace" where
  "btt_to_cpu native t =
     (if native \<noteq> Native_no then t
      else (trace_to_cpu Native_no t)\<lparr>tr_cpu := ucast (bswap_16 (ucast (tr_cpu t))), tr_vec_count := 0, tr_seq := 0\<rparr>)"

definition convert_to_cpu :: "nat \<Rightarrow> u8 list \<Rightarrow> mapped \<Rightarrow> (blk_io_trace \<times> native \<times> nat) option" where
  "convert_to_cpu pgsz data m = do {
     h \<leftarrow> map_bytes pgsz data m sizeof_trace;
     let t = trace_of_bytes h;
     let n = (if mp_native m = Native_unknown then fst (check_data_endianness Native_unknown (tr_magic t)) else mp_native m);
     let tp = btt_to_cpu n t;
     let len = unat (tr_pdu_len tp);
     pdu \<leftarrow> (if len \<noteq> 0 then map_option (drop sizeof_trace) (map_bytes pgsz data m (sizeof_trace + len)) else Some []);
     Some (tp\<lparr>tr_pdu := pdu\<rparr>, n, sizeof_trace + len)
   }"

definition next_trace :: "nat \<Rightarrow> u8 list \<Rightarrow> mapped \<Rightarrow> (blk_io_trace option \<times> mapped) option" where
  "next_trace pgsz data m =
     (let (ok, m) = (if mp_cur m + 512 > mp_max m then move_map pgsz (length data) m else (True, m))
      in if \<not> ok then Some (None, m)
         else map_option (\<lambda>(t, n, this_len). (Some t, m\<lparr>mp_native := n, mp_cur := mp_cur m + this_len\<rparr>))
                (convert_to_cpu pgsz data m))"

section \<open>The loop\<close>

lemma map_bytes_bound:
  assumes "map_bytes pgsz data m n = Some bs"
  shows "mp_cur m + n \<le> length data + pgsz"
proof -
  have "whole_pages pgsz (length data) \<le> length data + pgsz"
    unfolding whole_pages_def using div_times_less_eq_dividend [of "length data + pgsz - 1" pgsz] by linarith
  then show ?thesis
    using assms by (simp add: map_bytes_def split: if_splits)
qed

lemma move_map_cur [simp]: "mp_cur (snd (move_map pgsz n m)) = mp_cur m" "mp_native (snd (move_map pgsz n m)) = mp_native m"
  by (simp_all add: move_map_def Let_def)

lemma next_trace_advances:
  assumes "next_trace pgsz data m = Some (Some t, m')"
  shows "mp_cur m < mp_cur m' \<and> mp_cur m < length data + pgsz"
proof -
  define w where "w = (if mp_cur m + 512 > mp_max m then move_map pgsz (length data) m else (True, m))"
  have cur: "mp_cur (snd w) = mp_cur m"
    by (simp add: w_def)
  have "map_option (\<lambda>(t, n, len). (Some t, (snd w)\<lparr>mp_native := n, mp_cur := mp_cur (snd w) + len\<rparr>)) (convert_to_cpu pgsz data (snd w))
      = Some (Some t, m')"
    using assms unfolding next_trace_def w_def [symmetric] by (simp add: case_prod_beta split: if_splits)
  then obtain n len where conv: "convert_to_cpu pgsz data (snd w) = Some (t, n, len)" "mp_cur m' = mp_cur (snd w) + len"
    by auto
  have "sizeof_trace \<le> len" "map_bytes pgsz data (snd w) sizeof_trace \<noteq> None"
    using conv(1) by (auto simp: convert_to_cpu_def Let_def bind_eq_Some_conv)
  then show ?thesis
    using cur conv(2) map_bytes_bound [of pgsz data "snd w" sizeof_trace] by (auto simp: sizeof_trace_def)
qed

function btt_process :: "nat \<Rightarrow> btt_opts \<Rightarrow> u8 list \<Rightarrow> mapped \<Rightarrow> btt \<Rightarrow> btt option" where
  "btt_process pgsz opts data m b =
     (if btt_done b then Some b
      else case next_trace pgsz data m of
             None \<Rightarrow> None
           | Some (None, m') \<Rightarrow> Some b
           | Some (Some t, m') \<Rightarrow> Option.bind (btt_add_trace opts (io_alloc t) b) (btt_process pgsz opts data m'))"
  by pat_completeness auto
termination
  by (relation "measure (\<lambda>(pgsz, opts, data, m, b). length data + pgsz - mp_cur m)")
    (auto dest!: next_trace_advances)

declare btt_process.simps [simp del]

text \<open>\<open>setup_ifile\<close> exits when nothing can be mapped.\<close>

definition setup_ifile :: "nat \<Rightarrow> u8 list \<Rightarrow> mapped option" where
  "setup_ifile pgsz data =
     (let (ok, m) = move_map pgsz (length data) \<lparr>mp_native = Native_unknown, mp_min = 0, mp_cur = 0, mp_max = 0\<rparr>
      in if ok then Some m else None)"

section \<open>Lemmas\<close>

text \<open>What comes out for a record of a machine of this or of the other byte order.\<close>

definition btt_decoded :: "native \<Rightarrow> blk_io_trace \<Rightarrow> blk_io_trace" where
  "btt_decoded native t = (if native = Native_no then t\<lparr>tr_cpu := drop_bit 16 (tr_cpu t), tr_vec_count := 0, tr_seq := 0\<rparr> else t)"

lemma bswap_cpu: "ucast (bswap_16 (ucast (bswap_32 (c :: u32)))) = drop_bit 16 c"
proof -
  have "ucast (bswap_32 c) = bswap_16 (ucast (drop_bit 16 c))"
  proof (rule bit_word_eqI)
    fix n
    assume n: "n < LENGTH(16)"
    have "bit (bswap_32 c) n = bit c (24 + n)" if "n < 8"
      using bit_bswap_32 [of 0 n c] that by simp
    moreover have "bit (bswap_32 c) n = bit c (8 + n)" if "\<not> n < 8"
    proof -
      have "8 * 1 + (n - 8) = n" "8 * (3 - 1) + (n - 8) = 8 + n"
        using that by simp_all
      then show ?thesis
        using bit_bswap_32 [of 1 "n - 8" c] n that by simp
    qed
    ultimately show "bit (ucast (bswap_32 c) :: u16) n = bit (bswap_16 (ucast (drop_bit 16 c))) n"
      using n by (cases "n < 8") (auto simp: bswap_16_def bit_simps)
  qed
  then have "bswap_16 (ucast (bswap_32 c)) = (ucast (drop_bit 16 c) :: u16)"
    by simp
  then show ?thesis
    by (simp, intro bit_word_eqI) (auto simp: bit_simps dest: bit_imp_le_length)
qed

lemma btt_to_cpu_wire:
  assumes "native \<noteq> Native_unknown"
  shows "btt_to_cpu native ((wire native t)\<lparr>tr_pdu := p\<rparr>) = (btt_decoded native t)\<lparr>tr_pdu := p\<rparr>"
  using assms bswap_cpu [of "tr_cpu t"]
  by (auto simp: btt_to_cpu_def wire_def foreign_def btt_decoded_def trace_to_cpu_def)

text \<open>A record as btt reads it: of this version, with its payload.\<close>

definition in_file :: "blk_io_trace \<Rightarrow> bool" where
  "in_file t \<longleftrightarrow> tr_magic t = 0x65617407 \<and> length (tr_pdu t) = unat (tr_pdu_len t) \<and> length (tr_pdu t) \<le> 456"

lemma in_file_endianness:
  assumes "in_file t" "native \<noteq> Native_unknown"
  shows "fst (check_data_endianness Native_unknown (tr_magic (wire native t))) = native"
  using assms by (cases native) (simp_all add: in_file_def check_data_endianness_def wire_def foreign_def trace_to_cpu_def
      bswap_magic bswap_magic_back BLK_IO_TRACE_MAGIC_def Let_def)

lemma whole_pages_ge: "0 < pgsz \<Longrightarrow> n \<le> whole_pages pgsz n"
proof -
  assume "0 < pgsz"
  then have "n + pgsz - 1 < (n + pgsz - 1) div pgsz * pgsz + pgsz"
    by (metis add.commute dividend_less_div_times)
  then show ?thesis
    unfolding whole_pages_def by linarith
qed

lemma map_bytes_inside:
  assumes "0 < pgsz" "data = pre @ bs @ rest" "mp_cur m = length pre" "mp_min m \<le> mp_max m" "length pre + length bs \<le> mp_max m"
    "n = length bs"
  shows "map_bytes pgsz data m n = Some bs"
proof -
  have "mp_max m - mp_min m \<le> whole_pages pgsz (mp_max m - mp_min m)" "length data \<le> whole_pages pgsz (length data)"
    using whole_pages_ge [OF assms(1)] by blast+
  then show ?thesis
    using assms by (simp add: map_bytes_def)
qed

lemma convert_record:
  assumes "0 < pgsz" "data = pre @ trace_bytes (wire native t) @ rest" "mp_cur m = length pre" "mp_min m \<le> mp_max m"
    "length pre + length (trace_bytes (wire native t)) \<le> mp_max m" "in_file t" "native \<noteq> Native_unknown"
    "mp_native m \<in> {Native_unknown, native}"
  shows "convert_to_cpu pgsz data m = Some (btt_decoded native t, native, length (trace_bytes (wire native t)))"
proof -
  let ?h = "header_bytes (wire native t)" and ?n = "unat (tr_pdu_len t)"
  have pdu: "length (tr_pdu t) = ?n"
    using assms(6) by (simp add: in_file_def)
  have len: "length (trace_bytes (wire native t)) = sizeof_trace + ?n"
    by (simp add: trace_bytes_def pdu)
  have 1: "map_bytes pgsz data m sizeof_trace = Some ?h"
    using assms(2,5) by (intro map_bytes_inside [where rest = "tr_pdu t @ rest", OF assms(1) _ assms(3,4)]) (simp_all add: trace_bytes_def)
  have 2: "map_bytes pgsz data m (sizeof_trace + ?n) = Some (trace_bytes (wire native t))"
    using len by (intro map_bytes_inside [OF assms(1-5)]) simp
  have n: "(if mp_native m = Native_unknown then fst (check_data_endianness Native_unknown (tr_magic (trace_of_bytes ?h))) else mp_native m) = native"
    using assms(8) in_file_endianness [OF assms(6,7)] by (auto simp: trace_of_header)
  have t: "btt_to_cpu native (trace_of_bytes ?h) = (btt_decoded native t)\<lparr>tr_pdu := []\<rparr>"
    by (simp add: trace_of_header btt_to_cpu_wire [OF assms(7)])
  have pl: "tr_pdu_len (btt_decoded native t) = tr_pdu_len t" "tr_pdu (btt_decoded native t) = tr_pdu t"
    by (simp_all add: btt_decoded_def)
  have "(btt_decoded native t)\<lparr>tr_pdu := tr_pdu t\<rparr> = btt_decoded native t"
    using pl(2) by (cases "btt_decoded native t") simp
  then show ?thesis
    using pdu 2 by (auto simp: convert_to_cpu_def 1 n t pl Let_def len trace_bytes_def)
qed

text \<open>The window lies in the file around the current position.\<close>

definition window_ok :: "u8 list \<Rightarrow> native \<Rightarrow> mapped \<Rightarrow> bool" where
  "window_ok data native m \<longleftrightarrow> mp_min m \<le> mp_cur m \<and> mp_min m \<le> mp_max m \<and> mp_max m \<le> length data
     \<and> mp_native m \<in> {Native_unknown, native}"

lemma next_record:
  assumes "0 < pgsz" "pgsz \<le> 65536" "data = pre @ trace_bytes (wire native t) @ rest" "mp_cur m = length pre"
    "in_file t" "native \<noteq> Native_unknown" "window_ok data native m"
  shows "\<exists>m'. next_trace pgsz data m = Some (Some (btt_decoded native t), m') \<and> window_ok data native m'
    \<and> mp_cur m' = length pre + length (trace_bytes (wire native t))"
proof -
  let ?n = "length (trace_bytes (wire native t))"
  have n: "sizeof_trace \<le> ?n" "?n \<le> 512" "length pre + ?n \<le> length data"
    using assms(3,5) by (simp_all add: trace_bytes_def in_file_def sizeof_trace_def)
  define w where "w = (if mp_cur m + 512 > mp_max m then move_map pgsz (length data) m else (True, m))"
  have w: "fst w \<and> window_ok data native (snd w) \<and> mp_cur (snd w) = mp_cur m \<and> length pre + ?n \<le> mp_max (snd w)"
  proof (cases "mp_cur m + 512 > mp_max m")
    case False
    then show ?thesis
      using assms(4,7) n by (simp add: w_def)
  next
    case True
    define x where "x = mp_cur m - mp_cur m mod pgsz"
    define len where "len = min DEF_LEN (length data - x)"
    have "mp_cur m mod pgsz < pgsz" "mp_cur m mod pgsz \<le> mp_cur m"
      using assms(1) by simp_all
    then have x: "x \<le> mp_cur m" "mp_cur m + 512 \<le> x + DEF_LEN"
      using assms(2) by (simp_all add: x_def DEF_LEN_def)
    then have fits: "length pre + ?n \<le> x + len" "x + len \<le> length data"
      using n assms(4) unfolding len_def min_def by (cases "DEF_LEN \<le> length data - x"; simp; linarith)+
    then have "sizeof_trace \<le> len" "mp_cur m < x + len"
      using n(1) x(1) assms(4) by (simp_all add: sizeof_trace_def)
    moreover have "move_map pgsz (length data) m = (True, m\<lparr>mp_min := x, mp_max := x + len\<rparr>)"
      using calculation fits(2) by (simp add: move_map_def Let_def x_def [symmetric] len_def [symmetric])
    moreover note fits x(1)
    ultimately show ?thesis
      using True assms(4,7) n by (auto simp: w_def window_ok_def)
  qed
  then have "convert_to_cpu pgsz data (snd w) = Some (btt_decoded native t, native, ?n)"
    using assms(4) by (intro convert_record [OF assms(1,3) _ _ _ assms(5,6)]) (auto simp: window_ok_def)
  then have "next_trace pgsz data m = Some (Some (btt_decoded native t), (snd w)\<lparr>mp_native := native, mp_cur := mp_cur (snd w) + ?n\<rparr>)"
    unfolding next_trace_def w_def [symmetric] using w by (cases w) simp
  then show ?thesis
    using w assms(4) by (auto simp: window_ok_def)
qed

lemma no_next_record:
  assumes "mp_cur m = length data" "window_ok data native m"
  shows "\<exists>m'. next_trace pgsz data m = Some (None, m')"
  using assms by (auto simp: next_trace_def move_map_def window_ok_def Let_def)

lemma process_records:
  assumes "0 < pgsz" "pgsz \<le> 65536" "data = pre @ stream_of native ts" "mp_cur m = length pre" "\<forall>t \<in> set ts. in_file t"
    "native \<noteq> Native_unknown" "window_ok data native m"
  shows "btt_process pgsz opts data m b = btt_run opts (map (btt_decoded native) ts) b"
  using assms(3-7)
proof (induction ts arbitrary: pre m b)
  case Nil
  then obtain m' where "next_trace pgsz data m = Some (None, m')"
    using no_next_record [of m data native pgsz] by (auto simp: stream_of_def)
  then show ?case
    by (simp add: btt_process.simps [of pgsz opts data m b])
next
  case (Cons t ts)
  have data: "data = pre @ trace_bytes (wire native t) @ stream_of native ts"
    using Cons.prems(1) by (simp add: stream_of_def)
  obtain m' where m': "next_trace pgsz data m = Some (Some (btt_decoded native t), m')" "window_ok data native m'"
    "mp_cur m' = length pre + length (trace_bytes (wire native t))"
    using next_record [OF assms(1,2) data Cons.prems(2) _ Cons.prems(4,5)] Cons.prems(3) by auto
  have "btt_process pgsz opts data m' = btt_run opts (map (btt_decoded native) ts)"
    by (rule ext) (use Cons.IH [of "pre @ trace_bytes (wire native t)" m'] data m'(2,3) Cons.prems(3,4) in simp)
  then show ?case
    using m'(1) by (simp add: btt_process.simps [of pgsz opts data m b])
qed

lemma setup_window:
  assumes "ts \<noteq> []"
  shows "\<exists>m. setup_ifile pgsz (stream_of native ts) = Some m \<and> mp_cur m = 0 \<and> window_ok (stream_of native ts) native m"
proof -
  let ?data = "stream_of native ts" and ?m = "\<lparr>mp_native = Native_unknown, mp_min = 0, mp_cur = 0, mp_max = 0\<rparr>"
  have "sizeof_trace \<le> length ?data"
    using assms by (cases ts) (simp_all add: stream_of_def trace_bytes_def)
  then have "move_map pgsz (length ?data) ?m = (True, ?m\<lparr>mp_max := min DEF_LEN (length ?data)\<rparr>)"
    by (auto simp: move_map_def Let_def DEF_LEN_def sizeof_trace_def)
  then show ?thesis
    by (auto simp: setup_ifile_def window_ok_def)
qed

text \<open>C18: on a file of records with payloads of up to 456 bytes, of either byte order, btt handles exactly the records of the file in their
  order, with their payloads; of a machine of the other byte order, the number of the CPU and two unused fields are lost.\<close>

theorem btt_reads_file:
  assumes "0 < pgsz" "pgsz \<le> 65536" "native \<noteq> Native_unknown" "ts \<noteq> []" "\<forall>t \<in> set ts. in_file t"
  shows "\<exists>m. setup_ifile pgsz (stream_of native ts) = Some m
    \<and> btt_process pgsz opts (stream_of native ts) m b = btt_run opts (map (btt_decoded native) ts) b"
  using setup_window [OF assms(4)] process_records [OF assms(1,2) _ _ assms(5,3), of "stream_of native ts" "[]"] by fastforce

definition example_file :: "blk_io_trace list" where
  "example_file = map (\<lambda>t. t\<lparr>tr_magic := 0x65617407\<rparr>) example_run"

lemma btt_reads_file_witness:
  "\<exists>m. setup_ifile 4096 (stream_of Native_no example_file) = Some m
    \<and> btt_process 4096 plain_opts (stream_of Native_no example_file) m btt_init
      = btt_run plain_opts (map (btt_decoded Native_no) example_file) btt_init"
  by (rule btt_reads_file) (simp_all add: example_file_def example_run_def example_event_def in_file_def)

end
