(* ===== verification/Btt_Output.thy ===== *)
theory Btt_Output
  imports Btt_Run
begin

text \<open>
  The reports of btt, \<open>btt/output.c\<close>. A call of \<open>fprintf\<close> is its format with its arguments; the state of a report is the
  program, what has been written to the file of averages and, for \<open>easy_parse_avgs\<close>, to the file that is easy to parse.
  The static counters start at zero, since \<open>output_avgs\<close> is called once. A real number divided by zero is 0.
\<close>

section \<open>Lines\<close>

datatype arg = S string | N int | R real

type_synonym line = "string \<times> arg list"

definition NL :: string where
  "NL = [CHR 0x0A]"

record out_opts =
  easy_parse_avgs :: bool
  exes :: "string option"
  output_name :: "string option"
  do_p_live :: bool

record outp =
  prog :: btt
  ofp :: "line list"
  xofp :: "line list"

definition out :: "line list \<Rightarrow> outp \<Rightarrow> outp" where
  "out ls s = s\<lparr>ofp := ofp s @ ls\<rparr>"

definition xout :: "out_opts \<Rightarrow> line list \<Rightarrow> outp \<Rightarrow> outp" where
  "xout oo ls s = (if easy_parse_avgs oo then s\<lparr>xofp := xofp s @ ls\<rparr> else s)"

abbreviation U :: "'a :: len word \<Rightarrow> arg" where
  "U w \<equiv> N (uint w)"

abbreviation I :: "'a :: len word \<Rightarrow> arg" where
  "I w \<equiv> N (sint w)"

text \<open>The name of a device.\<close>

definition dip_hdr :: "btt \<Rightarrow> nat \<Rightarrow> bool \<Rightarrow> arg" where
  "dip_hdr b i add_parens = (let d = devs b ! i in S (make_dev_hdr 15 (devmap d) (device d) add_parens))"

text \<open>\<open>dip_foreach_out\<close>: the function is not called for the pointer \<open>NULL\<close> without an access to it.\<close>

fun dip_foreach_out :: "(nat \<Rightarrow> 's \<Rightarrow> 's option) \<Rightarrow> nat option list \<Rightarrow> 's \<Rightarrow> 's option" where
  "dip_foreach_out f [] s = Some s"
| "dip_foreach_out f (None # ds) s = None"
| "dip_foreach_out f (Some i # ds) s = Option.bind (f i s) (dip_foreach_out f ds)"

text \<open>\<open>strchr\<close> splits the names at the commas.\<close>

function split_exes :: "string \<Rightarrow> string list" where
  "split_exes s = takeWhile (\<lambda>c. c \<noteq> CHR '','') s # (case dropWhile (\<lambda>c. c \<noteq> CHR '','') s of [] \<Rightarrow> [] | _ # s' \<Rightarrow> split_exes s')"
  by pat_completeness auto
termination
proof (relation "measure length")
  fix s :: string and c s'
  assume "dropWhile (\<lambda>c. c \<noteq> CHR '','') s = c # s'"
  then show "(s', s) \<in> measure length"
    using length_dropWhile_le [of "\<lambda>c. c \<noteq> CHR '','' " s] by simp
qed simp

declare split_exes.simps [simp del]

text \<open>\<open>pip_foreach_out\<close>: all processes in the order of their names, or those that are named.\<close>

definition pip_list :: "out_opts \<Rightarrow> btt \<Rightarrow> nat list" where
  "pip_list oo b =
     (case exes oo of
        None \<Rightarrow> map snd (inorder (root_name b))
      | Some s \<Rightarrow> List.map_filter (\<lambda>exe. find_process_by_name (bytes_of exe) b) (split_exes s))"

section \<open>Averages\<close>

definition output_section_hdr :: "string \<Rightarrow> outp \<Rightarrow> outp" where
  "output_section_hdr hdr = out [(''==================== '', []), (''%s'', [S hdr]), ('' ===================='' @ NL @ NL, [])]"

definition output_hdr :: "string \<Rightarrow> outp \<Rightarrow> outp" where
  "output_hdr hdr = out
     [(''%15s %13s %13s %13s %11s'' @ NL, [S hdr, S ''MIN'', S ''AVG'', S ''MAX'', S ''N'']),
      (''--------------- ------------- ------------- ------------- -----------'' @ NL, [])]"

definition avg_value :: "avg_info \<Rightarrow> real" where
  "avg_value ap = BIT_TIME (ai_total ap) / of_int (sint (ai_n ap))"

definition output_avg :: "out_opts \<Rightarrow> string \<Rightarrow> avg_info \<Rightarrow> bool \<Rightarrow> outp \<Rightarrow> outp" where
  "output_avg oo hdr ap do_easy s =
     (if sint (ai_n ap) > 0 then
        let args = [S hdr, R (BIT_TIME (ai_min ap)), R (avg_value ap), R (BIT_TIME (ai_max ap)), I (ai_n ap)];
            s = out [(''%-15s %13.9f %13.9f %13.9f %11d'' @ NL, args)] s
        in if do_easy then xout oo [(''%s %.9lf %.9lf %.9lf %d'' @ NL, args)] s else s
      else s)"

definition output_dip_avg :: "btt_opts \<Rightarrow> out_opts \<Rightarrow> string \<Rightarrow> (avgs_info \<Rightarrow> avg_info) \<Rightarrow> outp \<Rightarrow> outp option" where
  "output_dip_avg opts oo hdr func s =
     map_option (out [(NL, [])])
       (dip_foreach_out (\<lambda>i s.
          let d = devs (prog s) ! i; ap = func (avgs d)
          in Some (if sint (ai_n ap) > 0 then output_avg oo (make_dev_hdr 15 (devmap d) (device d) True) ap False s else s))
        (report_dips opts (prog s)) (output_hdr hdr s))"

text \<open>The name of a process is cut to 14 characters.\<close>

definition output_pip_avg :: "out_opts \<Rightarrow> string \<Rightarrow> (avgs_info \<Rightarrow> avg_info) \<Rightarrow> outp \<Rightarrow> outp" where
  "output_pip_avg oo hdr func s =
     out [(NL, [])]
       (fold (\<lambda>p s.
          let pr = procs (prog s) ! p; ap = func (pi_avgs pr)
          in if sint (ai_n ap) > 0 then output_avg oo (take 14 (map (\<lambda>x. char_of (unat x)) (pi_name pr))) ap False s else s)
        (pip_list oo (prog s)) (output_hdr hdr s))"

section \<open>Time to dispatch\<close>

definition q2d_display_header :: "line list" where
  "q2d_display_header = map (\<lambda>s. (''%5s '', [S s]))
     [''<.005'', ''<.010'', ''<.025'', ''<.050'', ''<.075'', ''<.100'', ''<.250'', ''<.500'', ''< 1.0'', ''>=1.0'' @ NL]"

definition q2d_display_dashes :: "line list" where
  "q2d_display_dashes = replicate (Q2D_MAX_HISTO + 1) (''===== '', []) @ [(NL, [])]"

definition q2d_lines :: "q2d_info \<Rightarrow> line list" where
  "q2d_lines q = map (\<lambda>p. (''%5.1lf '', [R p])) (q2d_display q) @ [(NL, [])]"

definition output_q2d_dip :: "nat \<Rightarrow> q2d_info \<times> nat \<times> outp \<Rightarrow> (q2d_info \<times> nat \<times> outp) option" where
  "output_q2d_dip i = (\<lambda>(q2d_all, n, s).
     case q2d_priv (devs (prog s) ! i) of
       None \<Rightarrow> Some (q2d_all, n, s)
     | Some q \<Rightarrow>
         Some (if nhistos q > 0
           then (q2d_acc q2d_all q, n + 1, out ((''%10s | '', [dip_hdr (prog s) i True]) # q2d_lines q) s)
           else (q2d_all, n, s)))"

definition output_q2d_histo :: "btt_opts \<Rightarrow> outp \<Rightarrow> outp option" where
  "output_q2d_histo opts s =
     map_option (\<lambda>(q2d_all, n, s).
         if n \<noteq> 0 then out ((''========== | '', []) # q2d_display_dashes @ [(''%10s | '', [S ''AVG''])] @ q2d_lines q2d_all @ [(NL, [])]) s
         else s)
       (dip_foreach_out output_q2d_dip (report_dips opts (prog s))
          (q2d_alloc, 0, out ((''%10s | '', [S ''DEV'']) # q2d_display_header @ (''--------- | '', []) # q2d_display_dashes) s))"

section \<open>Merges\<close>

record merge_data =
  md_nq :: u64
  md_nd :: u64
  md_blkmin :: u64
  md_blkmax :: u64
  md_total :: u64

definition merge_add :: "nat \<Rightarrow> d_info \<Rightarrow> merge_data \<Rightarrow> merge_data" where
  "merge_add n_merges d md =
     (let bl = blks (avgs d);
          md = (if n_merges = 0 then md\<lparr>md_blkmin := ai_min bl, md_blkmax := ai_max bl\<rparr> else md);
          md = md\<lparr>md_nq := md_nq md + n_qs d, md_nd := md_nd md + n_ds d, md_total := md_total md + ai_total bl\<rparr>;
          md = (if ai_min bl < md_blkmin md then md\<lparr>md_blkmin := ai_min bl\<rparr> else md)
      in if ai_max bl > md_blkmax md then md\<lparr>md_blkmax := ai_max bl\<rparr> else md)"

text \<open>The counter of queue events is raised to that of the issue events, in the device itself.\<close>

definition output_dip_merge_ratio :: "out_opts \<Rightarrow> nat \<Rightarrow> nat \<times> merge_data \<times> outp \<Rightarrow> (nat \<times> merge_data \<times> outp) option" where
  "output_dip_merge_ratio oo i = (\<lambda>(n_merges, md, s).
     let d = devs (prog s) ! i
     in if n_qs d = 0 \<or> n_ds d = 0 then Some (n_merges, md, s)
        else
          let s = (if n_qs d < n_ds d then s\<lparr>prog := update_dip i (\<lambda>d. d\<lparr>n_qs := n_ds d\<rparr>) (prog s)\<rparr> else s);
              d = devs (prog s) ! i;
              bl = blks (avgs d);
              q2c_n = real (unat (n_qs d)); d2c_n = real (unat (n_ds d));
              ratio = (if q2c_n < d2c_n then 1 else q2c_n / d2c_n);
              blks_avg = real (unat (ai_total bl)) / d2c_n;
              args = (\<lambda>p. [dip_hdr (prog s) i p, U (n_qs d), U (n_ds d), R ratio, U (ai_min bl), N \<lfloor>blks_avg\<rfloor>, U (ai_max bl),
                U (ai_total bl)]);
              s = out [(''%10s | %8llu %8llu %7.1lf | %8llu %8llu %8llu %8llu'' @ NL, args True)] s;
              s = xout oo [(''DMI %s %llu %llu %.9lf %llu %llu %llu %llu'' @ NL, args False)] s
          in Some (n_merges + 1, merge_add n_merges d md, s))"

definition merge_hdr :: "line list" where
  "merge_hdr = [(''%10s | %8s %8s %7s | %8s %8s %8s %8s'' @ NL,
     map S [''DEV'', ''#Q'', ''#D'', ''Ratio'', ''BLKmin'', ''BLKavg'', ''BLKmax'', ''Total''])]"

definition merge_dashes :: "line list" where
  "merge_dashes = [(''---------- | -------- -------- ------- | -------- -------- -------- --------'' @ NL, [])]"

definition zero_merge_data :: merge_data where
  "zero_merge_data = \<lparr>md_nq = 0, md_nd = 0, md_blkmin = 0, md_blkmax = 0, md_total = 0\<rparr>"

definition output_merge_ratio :: "btt_opts \<Rightarrow> out_opts \<Rightarrow> outp \<Rightarrow> outp option" where
  "output_merge_ratio opts oo s =
     map_option (\<lambda>(n_merges, md, s).
         out ((if n_merges > 1
               then merge_dashes @ merge_hdr @ [(''%10s | %8llu %8llu %7.1lf | %8llu %8llu %8llu %8llu'' @ NL,
                 [S ''TOTAL'', U (md_nq md), U (md_nd md), R (real (unat (md_nq md)) / real (unat (md_nd md))), U (md_blkmin md),
                  U (md_total md div md_nd md), U (md_blkmax md), U (md_total md)])]
               else []) @ [(NL, [])]) s)
       (dip_foreach_out (output_dip_merge_ratio oo) (report_dips opts (prog s)) (0, zero_merge_data, out (merge_hdr @ merge_dashes) s))"

section \<open>Overhead\<close>

record ohead =
  oh_total :: u64
  oh_n :: u32

record ohead_data =
  od_q2g :: ohead
  od_g2i :: ohead
  od_q2m :: ohead
  od_i2d :: ohead
  od_d2c :: ohead
  od_q2c :: ohead

definition update_odp :: "avg_info \<Rightarrow> ohead \<Rightarrow> ohead" where
  "update_odp ap oh = \<lparr>oh_total = oh_total oh + ai_total ap, oh_n = oh_n oh + ai_n ap\<rparr>"

definition zero_ohead_data :: ohead_data where
  "zero_ohead_data = (let z = \<lparr>oh_total = 0, oh_n = 0\<rparr>
     in \<lparr>od_q2g = z, od_g2i = z, od_q2m = z, od_i2d = z, od_d2c = z, od_q2c = z\<rparr>)"

definition ohead_fmt :: string where
  "ohead_fmt = ''%10s | %8.4lf%% %8.4lf%% %8.4lf%% %8.4lf%% %8.4lf%%'' @ NL"

definition percent :: "u64 \<Rightarrow> real \<Rightarrow> real" where
  "percent part q2c_total = 100 * real (unat part) / q2c_total"

definition output_dip_ohead :: "nat \<Rightarrow> ohead_data \<times> outp \<Rightarrow> (ohead_data \<times> outp) option" where
  "output_dip_ohead i = (\<lambda>(od, s).
     let a = avgs (devs (prog s) ! i)
     in if sint (ai_n (q2c a)) > 0 \<and> ai_total (q2c a) > 0 then
          let q2c_total = real (unat (ai_total (q2c a)));
              s = out [(ohead_fmt, dip_hdr (prog s) i True # map (\<lambda>ap. R (percent (ai_total ap) q2c_total)) [q2g a, g2i a, q2m a, i2d a, d2c a])] s
          in Some (\<lparr>od_q2g = update_odp (q2g a) (od_q2g od), od_g2i = update_odp (g2i a) (od_g2i od),
                    od_q2m = update_odp (q2m a) (od_q2m od), od_i2d = update_odp (i2d a) (od_i2d od),
                    od_d2c = update_odp (d2c a) (od_d2c od), od_q2c = update_odp (q2c a) (od_q2c od)\<rparr>, s)
        else Some (od, s))"

definition OD_AVG :: "ohead \<Rightarrow> real \<Rightarrow> real" where
  "OD_AVG oh q2c_total = (if oh_n oh = 0 then 0 else 100 * (real (unat (oh_total oh)) / q2c_total))"

definition ohead_dashes :: line where
  "ohead_dashes = (''---------- | --------- --------- --------- --------- ---------'' @ NL, [])"

definition output_prep_ohead :: "btt_opts \<Rightarrow> outp \<Rightarrow> outp option" where
  "output_prep_ohead opts s =
     map_option (\<lambda>(od, s).
         let phases = [od_q2g od, od_g2i od, od_q2m od, od_i2d od, od_d2c od]
         in out ((if \<forall>oh \<in> set phases. oh_n oh = 0 then []
                  else let q2c_total = real (unat (oh_total (od_q2c od)))
                       in [ohead_dashes, (ohead_fmt, S ''Overall'' # map (\<lambda>oh. R (OD_AVG oh q2c_total)) phases)])
                 @ [(NL, [])]) s)
       (dip_foreach_out output_dip_ohead (report_dips opts (prog s))
          (zero_ohead_data,
           out [(''%10s | %9s %9s %9s %9s %9s'' @ NL, map S [''DEV'', ''Q2G'', ''G2I'', ''Q2M'', ''I2D'', ''D2C'']), ohead_dashes] s))"


section \<open>Seeks\<close>

text \<open>The modes with their numbers of seeks; the numbers are \<open>int\<close>s.\<close>

record o_seek_info =
  os_nseeks :: s64
  os_median :: s64
  os_mean :: real
  os_head :: "(s64 \<times> u32) list"

definition zero_seek_info :: o_seek_info where
  "zero_seek_info = \<lparr>os_nseeks = 0, os_median = 0, os_mean = 0, os_head = []\<rparr>"

text \<open>One mode of a device: the first entry for it grows, or there is a new one at the front.\<close>

primrec bump_mode :: "u32 \<Rightarrow> s64 \<Rightarrow> (s64 \<times> u32) list \<Rightarrow> (s64 \<times> u32) list" where
  "bump_mode most mode [] = []"
| "bump_mode most mode (x # smips) = (if fst x = mode then (fst x, snd x + most) # smips else x # bump_mode most mode smips)"

definition add_seek_mode :: "u32 \<Rightarrow> s64 \<Rightarrow> (s64 \<times> u32) list \<Rightarrow> (s64 \<times> u32) list" where
  "add_seek_mode most mode smips = (if mode \<in> fst ` set smips then bump_mode most mode smips else (mode, most) # smips)"

definition add_seek_mode_info :: "seek_mode \<Rightarrow> (s64 \<times> u32) list \<Rightarrow> (s64 \<times> u32) list" where
  "add_seek_mode_info mp smips = fold (add_seek_mode (most_seeks mp)) (case modes mp of None \<Rightarrow> [] | Some ms \<Rightarrow> ms) smips"

text \<open>The loop that builds \<open>new_list\<close>.\<close>

fun mode_list :: "(s64 \<times> u32) list \<Rightarrow> (s64 \<times> u32) list \<Rightarrow> (s64 \<times> u32) list" where
  "mode_list [] new_list = new_list"
| "mode_list ((m, n) # rest) [] = mode_list rest [(m, n)]"
| "mode_list ((m, n) # rest) ((m1, n1) # others) =
     (let new_list = (m1, n1) # others
      in if sint n > sint n1 then mode_list rest [(m, n)]
         else if n = n1 then
           (case find (\<lambda>(m2, n2). m2 = m) new_list of
              Some (m2, n2) \<Rightarrow> mode_list rest [(m, n + n2)]
            | None \<Rightarrow> mode_list rest ((m, n) # new_list))
         else mode_list rest new_list)"

definition more_line :: "nat \<Rightarrow> line" where
  "more_line n = (NL @ ''%10s   %15s %15s %15s   ...(%d more)'' @ NL, [S '''', S '''', S '''', S '''', N (int n)])"

definition output_seek_mode_info :: "o_seek_info \<Rightarrow> outp \<Rightarrow> outp option" where
  "output_seek_mode_info sip s =
     (case mode_list (os_head sip) [] of
        [] \<Rightarrow> None
      | (m, n) # others \<Rightarrow>
          Some (out ((''%10s | %15lld %15.1lf %15lld | %lld(%d)'',
               [S ''Average'', I (os_nseeks sip), R (os_mean sip / of_int (sint (os_nseeks sip))),
                N (sint (os_median sip) sdiv sint (os_nseeks sip)), I m, I n])
             # (if others \<noteq> [] then [more_line (length others)] else [])) s))"

text \<open>The modes after the first.\<close>

definition other_modes :: "s64 list \<Rightarrow> line list" where
  "other_modes ms = map (\<lambda>m. ('' %lld'', [I m])) (drop 1 ms) @ [(NL, [])]"

definition do_output_dip_seek_info :: "out_opts \<Rightarrow> bool \<Rightarrow> nat \<Rightarrow> nat \<times> o_seek_info \<times> outp \<Rightarrow> (nat \<times> o_seek_info \<times> outp) option" where
  "do_output_dip_seek_info oo is_q2q i = (\<lambda>(n_seeks, si, s).
     let d = devs (prog s) ! i; handle = (if is_q2q then q2q_handle d else seek_handle d); nseeks = seeki_nseeks handle
     in if sint nseeks > 0 then
          let mean = seeki_mean handle; median = seeki_median handle; m = seeki_mode handle;
              ms = (case modes m of None \<Rightarrow> [] | Some ms \<Rightarrow> ms);
              first = (if ms \<noteq> [] then I (hd ms) else N 0);
              s = out ((''%10s | %15lld %15.1lf %15lld | %lld(%d)'', [dip_hdr (prog s) i True, I nseeks, R mean, I median, first, I (most_seeks m)])
                    # (if length ms > 2 then [more_line (length ms - 1)] else other_modes ms)) s;
              s = xout oo ((''%s %s %lld %.9lf %lld %lld %d'',
                     [S (if is_q2q then ''QSK'' else ''DSK''), dip_hdr (prog s) i False, I nseeks, R mean, I median, first, I (most_seeks m)])
                    # other_modes ms) s
          in Some (n_seeks + 1,
               si\<lparr>os_nseeks := os_nseeks si + nseeks, os_mean := os_mean si + of_int (sint nseeks) * mean,
                  os_median := os_median si + nseeks * median, os_head := add_seek_mode_info m (os_head si)\<rparr>, s)
        else Some (n_seeks, si, s))"

definition seek_dashes :: line where
  "seek_dashes = (''---------- | --------------- --------------- --------------- | ---------------'' @ NL, [])"

definition seek_hdr :: "string \<Rightarrow> line" where
  "seek_hdr dev = (''%10s | %15s %15s %15s | %-15s'' @ NL, [S dev, S ''NSEEKS'', S ''MEAN'', S ''MEDIAN'', S ''MODE''])"

text \<open>\<open>output_dip_q2q_seek_info\<close> and \<open>output_dip_seek_info\<close>; \<open>n_seeks\<close> starts at 1.\<close>

definition output_seek_info :: "btt_opts \<Rightarrow> out_opts \<Rightarrow> bool \<Rightarrow> outp \<Rightarrow> outp option" where
  "output_seek_info opts oo is_q2q s = do {
     (n_seeks, si, s) \<leftarrow> dip_foreach_out (do_output_dip_seek_info oo is_q2q) (report_dips opts (prog s))
        (1, zero_seek_info, out [seek_hdr ''DEV'', seek_dashes] s);
     s \<leftarrow> (if n_seeks > 1 then map_option (out [(NL, [])]) (output_seek_mode_info si (out [seek_dashes, seek_hdr ''Overall''] s))
           else Some s);
     Some (out [(NL, [])] s)
   }"

section \<open>Plugs\<close>

record plug_info =
  pi_n_plugs :: int
  pi_n_unplugs_t :: int
  pi_percent :: real

definition output_dip_plug :: "out_opts \<Rightarrow> nat \<Rightarrow> nat \<times> plug_info \<times> outp \<Rightarrow> (nat \<times> plug_info \<times> outp) option" where
  "output_dip_plug oo i = (\<lambda>(n_plugs, pi, s).
     let d = devs (prog s) ! i;
         s = (if is_plugged d then s\<lparr>prog := dip_unplug (device d) (end_time d) 0 (prog s)\<rparr> else s);
         d = devs (prog s) ! i
     in if sint (nplugs d + nplugs_t d) > 0 then
          let delta = end_time d - start_time d; pct = 100 * (plugged_time d / delta);
              args = (\<lambda>p. [dip_hdr (prog s) i p, I (nplugs d), I (nplugs_t d), R pct]);
              s = out [(''%10s | %10d(%10d) | %13.9lf%%'' @ NL, args True)] s;
              s = xout oo [(''PLG %s %d %d %.9lf'' @ NL, args False)] s
          in Some (n_plugs + 1,
               pi\<lparr>pi_n_plugs := pi_n_plugs pi + sint (nplugs d), pi_n_unplugs_t := pi_n_unplugs_t pi + sint (nplugs_t d),
                  pi_percent := pi_percent pi + pct\<rparr>, s)
        else Some (n_plugs, pi, s))"

definition plug_all :: "nat \<Rightarrow> plug_info \<Rightarrow> line list" where
  "plug_all n_plugs p =
     [(''---------- | ---------- ----------  | ----------------'' @ NL, []),
      (''%10s | %10s %10s  | %s'' @ NL, map S [''Overall'', ''# Plugs'', ''# Timer Us'', ''% Time Q Plugged'']),
      (''%10s | %10ld(%10ld) | %13.9lf%%'' @ NL,
       [S ''Average'', N (pi_n_plugs p sdiv int n_plugs), N (pi_n_unplugs_t p sdiv int n_plugs), R (pi_percent p / real n_plugs)])]"

record nios_plug_info =
  n_nios_uplugs :: u64
  n_nios_uplugs_t :: u64
  tot_nios_up :: u64
  tot_nios_up_t :: u64

definition output_dip_plug_nios :: "out_opts \<Rightarrow> nat \<Rightarrow> nios_plug_info \<times> outp \<Rightarrow> (nios_plug_info \<times> outp) option" where
  "output_dip_plug_nios oo i = (\<lambda>(np, s).
     let d = devs (prog s) ! i;
         up = nios_up d \<noteq> 0 \<and> nplugs d \<noteq> 0; upt = nios_upt d \<noteq> 0 \<and> nplugs_t d \<noteq> 0;
         a = (if up then real (unat (nios_up d)) / of_int (sint (nplugs d)) else 0);
         a_t = (if upt then real (unat (nios_upt d)) / of_int (sint (nplugs_t d)) else 0);
         np = (if up then np\<lparr>n_nios_uplugs := n_nios_uplugs np + scast (nplugs d), tot_nios_up := tot_nios_up np + nios_up d\<rparr> else np);
         np = (if upt then np\<lparr>n_nios_uplugs_t := n_nios_uplugs_t np + scast (nplugs_t d), tot_nios_up_t := tot_nios_up_t np + nios_upt d\<rparr> else np);
         s = out [(''%10s | %10.1lf   %10.1lf'' @ NL, [dip_hdr (prog s) i True, R a, R a_t])] s
     in Some (np, xout oo [(''UPG %s %.9lf %.9lf'' @ NL, [dip_hdr (prog s) i False, R a, R a_t])] s))"

definition uplug_all :: "nios_plug_info \<Rightarrow> line list" where
  "uplug_all p =
     [(''---------- | ----------   ----------'' @ NL, []),
      (''%10s | %10s   %10s'' @ NL, map S [''Overall'', ''IOs/Unp'', ''IOs/Unp(to)'']),
      (''%10s | %10.1lf   %10.1lf'' @ NL, [S ''Average'',
         R (if n_nios_uplugs p \<noteq> 0 then real (unat (tot_nios_up p)) / real (unat (n_nios_uplugs p)) else 0),
         R (if n_nios_uplugs_t p \<noteq> 0 then real (unat (tot_nios_up_t p)) / real (unat (n_nios_uplugs_t p)) else 0)])]"

definition output_plug_info :: "btt_opts \<Rightarrow> out_opts \<Rightarrow> outp \<Rightarrow> outp option" where
  "output_plug_info opts oo s = do {
     (n_plugs, pi, s) \<leftarrow> dip_foreach_out (output_dip_plug oo) (report_dips opts (prog s))
       (0, \<lparr>pi_n_plugs = 0, pi_n_unplugs_t = 0, pi_percent = 0\<rparr>,
        out [(''%10s | %10s %10s  | %s'' @ NL, map S [''DEV'', ''# Plugs'', ''# Timer Us'', ''% Time Q Plugged'']),
             (''---------- | ---------- ----------  | ----------------'' @ NL, [])] s);
     let s = out ((if n_plugs > 1 then plug_all n_plugs pi else []) @ [(NL, []),
             (''%10s | %10s   %10s'' @ NL, map S [''DEV'', ''IOs/Unp'', ''IOs/Unp(to)'']),
             (''---------- | ----------   ----------'' @ NL, [])]) s;
     (np, s) \<leftarrow> dip_foreach_out (output_dip_plug_nios oo) (report_dips opts (prog s))
       (\<lparr>n_nios_uplugs = 0, n_nios_uplugs_t = 0, tot_nios_up = 0, tot_nios_up_t = 0\<rparr>, s);
     Some (out ((if n_nios_uplugs np \<noteq> 0 \<or> n_nios_uplugs_t np \<noteq> 0 then uplug_all np else []) @ [(NL, [])]) s)
   }"

section \<open>Active requests\<close>

definition output_dip_actQ :: "out_opts \<Rightarrow> nat \<Rightarrow> nat \<times> (u64 \<times> u64) \<times> outp \<Rightarrow> (nat \<times> (u64 \<times> u64) \<times> outp) option" where
  "output_dip_actQ oo i = (\<lambda>(n_actQs, (t_qs, t_act_qs), s).
     let d = devs (prog s) ! i
     in if n_qs d > 0 \<and> \<not> remapper_dev (device d) then
          let a_actQs = real (unat (t_act_q d)) / real (unat (n_qs d));
              s = out [(''%10s | %13.1lf'' @ NL, [dip_hdr (prog s) i True, R a_actQs])] s;
              s = xout oo [(''ARQ %s %.9lf'' @ NL, [dip_hdr (prog s) i False, R a_actQs])] s
          in Some (n_actQs + 1, (t_qs + n_qs d, t_act_qs + t_act_q d), s)
        else Some (n_actQs, (t_qs, t_act_qs), s))"

definition output_actQ_info :: "btt_opts \<Rightarrow> out_opts \<Rightarrow> outp \<Rightarrow> outp option" where
  "output_actQ_info opts oo s =
     map_option (\<lambda>(n_actQs, (t_qs, t_act_qs), s).
         out ((if n_actQs > 1
               then [(''---------- | -------------'' @ NL, []), (''%10s | %13s'' @ NL, [S ''Overall'', S ''Avgs Reqs @ Q'']),
                     (''%10s | %13.1lf'' @ NL, [S ''Average'', R (real (unat t_act_qs) / real (unat t_qs))])]
               else []) @ [(NL, [])]) s)
       (dip_foreach_out (output_dip_actQ oo) (report_dips opts (prog s))
          (0, (0, 0), out [(''%10s | %13s'' @ NL, [S ''DEV'', S ''Avg Reqs @ Q'']), (''---------- | -------------'' @ NL, [])] s))"


section \<open>Active periods\<close>

text \<open>The line of a device or, without one, of the system; the files are named and hold what \<open>p_live_get\<close> writes.\<close>

definition output_dip_p_live :: "btt_opts \<Rightarrow> out_opts \<Rightarrow> nat option
    \<Rightarrow> nat \<times> (string \<times> (real \<times> real) list) list \<times> outp \<Rightarrow> nat \<times> (string \<times> (real \<times> real) list) list \<times> outp" where
  "output_dip_p_live opts oo dip = (\<lambda>(base_y, files, s).
     let (ttl, bn, tree) = (case dip of
            Some i \<Rightarrow> (dip_hdr (prog s) i True, dip_name (devs (prog s) ! i), p_live_handle (devs (prog s) ! i))
          | None \<Rightarrow> (S ''Total Sys'', ''sys'', p_live_root (prog s)));
         nm = bn @ ''_live.dat'';
         (pli, file) = p_live_get (do_p_live oo \<and> opens opts nm) tree (real base_y);
         s = out [(''%10s | %10lu %13.9lf %13.9lf %6.2lf'' @ NL,
               [ttl, U (nlives pli), R (avg_live pli), R (avg_lull pli), R (live_percent pli)])] s
     in (if nlives pli \<noteq> 0 then base_y + 1 else base_y,
         case file of None \<Rightarrow> files | Some ls \<Rightarrow> files @ [(nm, ls)], s))"

definition output_p_live :: "btt_opts \<Rightarrow> out_opts \<Rightarrow> outp \<Rightarrow> (string \<times> (real \<times> real) list) list \<times> outp" where
  "output_p_live opts oo s =
     (let dashes = (''---------- | ---------- '' @ ''------------- ------------- ------'' @ NL, []);
          (base_y, files, s) = fold (output_dip_p_live opts oo) (report_dips opts (prog s))
            (1, [], out [(''%10s | %10s %13s %13s %6s'' @ NL, map S [''DEV'', ''# Live'', ''Avg. Act'', ''Avg. !Act'', ''% Live'']), dashes] s);
          (base_y, files, s) = output_dip_p_live opts oo None (0, files, out [dashes] s)
      in (files, out [(NL, [])] s))"

section \<open>Histograms of sizes\<close>

definition histo_lines :: "string \<Rightarrow> u64 list \<Rightarrow> line list" where
  "histo_lines c h =
     map (\<lambda>i. (''%4d %lld'' @ NL, [N (int i + 1), I (h ! i)])) [0..<N_HIST_BKTS - 1]
     @ [(NL @ ''# '' @ c @ '' bucket for > %d'' @ NL @ ''%4d %lld'' @ NL,
         [N (int (N_HIST_BKTS - 1)), N (int (N_HIST_BKTS - 1)), I (h ! (N_HIST_BKTS - 1))])]"

text \<open>The files, in the order in which they are written. The second is not tried when the first cannot be opened.\<close>

definition output_histos :: "btt_opts \<Rightarrow> out_opts \<Rightarrow> btt \<Rightarrow> (string \<times> line list) list" where
  "output_histos opts oo b =
     (case output_name oo of
        None \<Rightarrow> []
      | Some name \<Rightarrow>
          if \<not> opens opts (name @ ''_qhist.dat'') then []
          else (name @ ''_qhist.dat'', [(''# BTT histogram data'' @ NL, []), (''# Q buckets'' @ NL, [])] @ histo_lines ''Q'' (q_histo b))
            # (if opens opts (name @ ''_dhist.dat'')
               then [(name @ ''_dhist.dat'', (''# D buckets'' @ NL, []) # histo_lines ''D'' (d_histo b))] else []))"

section \<open>All averages\<close>

definition empty_line :: "outp \<Rightarrow> outp" where
  "empty_line = out [(NL, [])]"

text \<open>The averages with their names; \<open>M2D\<close> is only in the list for all devices.\<close>

definition dm_avgs :: "(string \<times> (avgs_info \<Rightarrow> avg_info)) list" where
  "dm_avgs = [(''Q2Qdm'', q2q_dm), (''Q2Adm'', q2a_dm), (''Q2Cdm'', q2c_dm)]"

definition phase_avgs :: "bool \<Rightarrow> (string \<times> (avgs_info \<Rightarrow> avg_info)) list" where
  "phase_avgs all = [(''Q2Q'', q2q), (''Q2A'', q2a), (''Q2G'', q2g), (''S2G'', s2g), (''G2I'', g2i), (''Q2M'', q2m), (''I2D'', i2d)]
     @ (if all then [(''M2D'', m2d)] else []) @ [(''D2C'', d2c), (''Q2C'', q2c)]"

definition output_pip_avgs :: "out_opts \<Rightarrow> (string \<times> (avgs_info \<Rightarrow> avg_info)) list \<Rightarrow> outp \<Rightarrow> outp" where
  "output_pip_avgs oo fs s = fold (\<lambda>(hdr, func). output_pip_avg oo hdr func) fs s"

primrec output_dip_avgs :: "btt_opts \<Rightarrow> out_opts \<Rightarrow> (string \<times> (avgs_info \<Rightarrow> avg_info)) list \<Rightarrow> outp \<Rightarrow> outp option" where
  "output_dip_avgs opts oo [] s = Some s"
| "output_dip_avgs opts oo (f # fs) s = Option.bind (output_dip_avg opts oo (fst f) (snd f) s) (output_dip_avgs opts oo fs)"

definition output_all_avgs :: "out_opts \<Rightarrow> bool \<Rightarrow> (string \<times> (avgs_info \<Rightarrow> avg_info)) list \<Rightarrow> outp \<Rightarrow> outp" where
  "output_all_avgs oo do_easy fs s = fold (\<lambda>(hdr, func) s. output_avg oo hdr (func (all_avgs (prog s))) do_easy s) fs s"

definition output_per_process :: "out_opts \<Rightarrow> outp \<Rightarrow> outp" where
  "output_per_process oo s =
     (if exes oo = None \<or> exes oo \<noteq> Some []
      then output_pip_avgs oo (phase_avgs False) (empty_line (output_pip_avgs oo dm_avgs (output_section_hdr ''Per Process'' s)))
      else s)"

definition output_per_device :: "btt_opts \<Rightarrow> out_opts \<Rightarrow> outp \<Rightarrow> outp option" where
  "output_per_device opts oo s = do {
     s \<leftarrow> output_dip_avgs opts oo dm_avgs (output_section_hdr ''Per Device'' s);
     output_dip_avgs opts oo (phase_avgs False) (empty_line s)
   }"

text \<open>The files of active periods and of histograms, and the state.\<close>

definition output_avgs :: "btt_opts \<Rightarrow> out_opts \<Rightarrow> outp
    \<Rightarrow> ((string \<times> (real \<times> real) list) list \<times> (string \<times> line list) list \<times> outp) option" where
  "output_avgs opts oo s = do {
     s \<leftarrow> (if output_all_data opts then output_per_device opts oo (output_per_process oo s) else Some s);
     let s = output_all_avgs oo False dm_avgs (output_hdr ''ALL'' (output_section_hdr ''All Devices'' s));
     let s = empty_line (output_all_avgs oo True (phase_avgs True) (empty_line s));
     s \<leftarrow> output_prep_ohead opts (output_section_hdr ''Device Overhead'' s);
     s \<leftarrow> output_merge_ratio opts oo (output_section_hdr ''Device Merge Information'' s);
     s \<leftarrow> output_seek_info opts oo True (output_section_hdr ''Device Q2Q Seek Information'' s);
     s \<leftarrow> output_seek_info opts oo False (output_section_hdr ''Device D2D Seek Information'' s);
     s \<leftarrow> output_plug_info opts oo (output_section_hdr ''Plug Information'' s);
     s \<leftarrow> output_actQ_info opts oo (output_section_hdr ''Active Requests At Q Information'' s);
     let (lives, s) = output_p_live opts oo (output_section_hdr ''I/O Active Period Information'' s);
     let histos = output_histos opts oo (prog s);
     s \<leftarrow> (if output_all_data opts then output_q2d_histo opts (output_section_hdr ''Q2D Histogram'' s) else Some s);
     Some (lives, histos, s)
   }"

section \<open>Ranges\<close>

definition range_lines :: "real \<Rightarrow> range_info list \<Rightarrow> line list" where
  "range_lines base rs =
     concat (map (\<lambda>rip. let limit = base + 4 / 10; f = (\<lambda>t y. (''%13.9lf %5.1f'' @ NL, [R (BIT_TIME t), R y]))
                in [f (ri_start rip) base, f (ri_start rip) limit, f (ri_end rip) limit, f (ri_end rip) base]) rs)"

text \<open>The return value and the lines.\<close>

definition output_regions :: "string \<Rightarrow> region_info \<Rightarrow> real \<Rightarrow> bool \<times> line list" where
  "output_regions header reg base =
     (if qranges reg = [] \<and> cranges reg = [] then (False, [])
      else (True, [(''# %16s : q activity'' @ NL, [S header])] @ range_lines base (qranges reg) @ [(NL, [])]
             @ [(''# %16s : c activity'' @ NL, [S header])] @ range_lines (base + 5 / 10) (cranges reg) @ [(NL, [])]))"

definition output_dev :: "btt \<Rightarrow> nat \<Rightarrow> real \<times> line list \<Rightarrow> (real \<times> line list) option" where
  "output_dev b i = (\<lambda>(base, ls).
     let d = devs b ! i;
         (some, new) = output_regions (fmt_u (MAJOR (device d)) @ '','' @ fmt_u (MINOR (device d))) (regions d) base
     in Some (if some then base + 1 else base, ls @ new))"

definition output_proc :: "btt \<Rightarrow> nat \<Rightarrow> real \<times> line list \<Rightarrow> real \<times> line list" where
  "output_proc b p = (\<lambda>(base, ls).
     (base + 1, ls @ snd (output_regions (map (\<lambda>x. char_of (unat x)) (pi_name (procs b ! p))) (pi_regions (procs b ! p)) base)))"

definition output_ranges :: "btt_opts \<Rightarrow> out_opts \<Rightarrow> btt \<Rightarrow> line list option" where
  "output_ranges opts oo b = do {
     let (some, ls) = output_regions ''Total System'' (all_regions b) 0;
     let base = (if some then 1 else 0);
     (base, ls) \<leftarrow> (if length (devs b) > 1
        then dip_foreach_out (output_dev b) (report_dips opts b) (base, [(''# %s'' @ NL, [S ''Total System''])] @ ls @ [(''# Per device'' @ NL, [])])
        else Some (base, [(''# %s'' @ NL, [S ''Total System''])] @ ls));
     Some (snd (fold (output_proc b) (pip_list oo b) (base, ls @ [(''# Per process'' @ NL, [])])))
   }"


section \<open>Lemmas on the modes\<close>

definition at_most :: "(s64 \<times> u32) list \<Rightarrow> s64 \<times> u32 \<Rightarrow> bool" where
  "at_most xs x \<longleftrightarrow> (\<forall>y \<in> set xs. sint (snd y) \<le> sint (snd x))"

lemma find_mode_None: "m \<notin> fst ` set xs \<Longrightarrow> find (\<lambda>(m2, n2). m2 = m) xs = None"
  by (force simp: find_None_iff)

lemma mode_list_from:
  assumes "acc \<noteq> []" "\<forall>x \<in> set acc. snd x = c" "distinct (map fst (rest @ acc))"
  shows "mode_list rest acc = rev (filter (\<lambda>x. at_most rest x \<and> sint c \<le> sint (snd x)) rest) @ (if at_most rest (0, c) then acc else [])"
  using assms
proof (induction rest acc arbitrary: c rule: mode_list.induct)
  case (3 m n rest m1 n1 more)
  have c: "n1 = c" and fresh: "m \<notin> fst ` set ((m1, n1) # more)"
    using "3.prems" by auto
  show ?case
  proof (cases "sint n > sint n1")
    case True
    have "mode_list ((m, n) # rest) ((m1, n1) # more) = mode_list rest [(m, n)]"
      using True by simp
    also have "\<dots> = rev (filter (\<lambda>x. at_most rest x \<and> sint n \<le> sint (snd x)) rest) @ (if at_most rest (0, n) then [(m, n)] else [])"
      using "3.prems"(3) by (intro "3.IH"(1) [OF refl True]) auto
    finally show ?thesis
      using True c by (auto simp: at_most_def intro!: filter_cong arg_cong [where f = rev])
  next
    case False
    show ?thesis
    proof (cases "n = n1")
      case True
      have "mode_list ((m, n) # rest) ((m1, n1) # more) = mode_list rest ((m, n) # (m1, n1) # more)"
        using True find_mode_None [OF fresh] by simp
      also have "\<dots> = rev (filter (\<lambda>x. at_most rest x \<and> sint c \<le> sint (snd x)) rest)
          @ (if at_most rest (0, c) then (m, n) # (m1, n1) # more else [])"
        using "3.prems" True c find_mode_None [OF fresh] by (intro "3.IH"(2) [OF refl False True]) auto
      finally show ?thesis
        using True c by (auto simp: at_most_def intro!: filter_cong arg_cong [where f = rev])
    next
      case ne: False
      have less: "sint n < sint c"
      proof -
        have "sint n \<noteq> sint c"
          using ne c signed_word_eqI [of n c] by blast
        then show ?thesis
          using False c by simp
      qed
      have "mode_list ((m, n) # rest) ((m1, n1) # more) = mode_list rest ((m1, n1) # more)"
        using False ne by simp
      also have "\<dots> = rev (filter (\<lambda>x. at_most rest x \<and> sint c \<le> sint (snd x)) rest)
          @ (if at_most rest (0, c) then (m1, n1) # more else [])"
        using "3.prems" by (intro "3.IH"(4) [OF refl False ne]) auto
      finally show ?thesis
        using less by (auto simp: at_most_def intro!: filter_cong arg_cong [where f = rev])
    qed
  qed
qed (auto simp: at_most_def)

lemma mode_list_most:
  assumes "distinct (map fst smips)"
  shows "mode_list smips [] = rev (filter (at_most smips) smips)"
proof (cases smips)
  case (Cons x rest)
  obtain m n where x: "x = (m, n)"
    by (cases x)
  have "mode_list smips [] = mode_list rest [(m, n)]"
    using Cons x by simp
  also have "\<dots> = rev (filter (\<lambda>x. at_most rest x \<and> sint n \<le> sint (snd x)) rest) @ (if at_most rest (0, n) then [(m, n)] else [])"
    using assms Cons x by (intro mode_list_from) auto
  finally show ?thesis
    using Cons x by (force simp: at_most_def intro!: filter_cong arg_cong [where f = rev])
qed simp

text \<open>The list that is collected names each mode once, with the sum of its numbers.\<close>

lemma bump_mode_fst: "map fst (bump_mode most mode smips) = map fst smips"
  by (induction smips) auto

lemma bump_mode_map_of: "map_of smips mode = Some n \<Longrightarrow>
   map_of (bump_mode most mode smips) k = (if k = mode then Some (n + most) else map_of smips k)"
  by (induction smips) (auto split: if_splits)

lemma add_seek_mode_distinct: "distinct (map fst smips) \<Longrightarrow> distinct (map fst (add_seek_mode most mode smips))"
  by (auto simp: add_seek_mode_def bump_mode_fst)

lemma add_seek_mode_info_distinct: "distinct (map fst smips) \<Longrightarrow> distinct (map fst (add_seek_mode_info mp smips))"
  unfolding add_seek_mode_info_def
  by (rule fold_invariant [where Q = "\<lambda>_. True" and P = "\<lambda>xs. distinct (map fst xs)"]) (simp_all add: add_seek_mode_distinct)

definition mode_count :: "(s64 \<times> u32) list \<Rightarrow> s64 \<Rightarrow> u32" where
  "mode_count smips k = (case map_of smips k of None \<Rightarrow> 0 | Some n \<Rightarrow> n)"

lemma add_seek_mode_count: "mode_count (add_seek_mode most mode smips) k = mode_count smips k + (if k = mode then most else 0)"
proof (cases "mode \<in> fst ` set smips")
  case True
  then obtain n where "map_of smips mode = Some n"
    by (metis map_of_eq_None_iff not_None_eq)
  then show ?thesis
    using True by (auto simp: mode_count_def add_seek_mode_def bump_mode_map_of split: option.split)
next
  case False
  then have "map_of smips mode = None"
    by (simp add: map_of_eq_None_iff)
  then show ?thesis
    using False by (auto simp: mode_count_def add_seek_mode_def split: option.split)
qed

definition modes_of :: "seek_mode \<Rightarrow> s64 list" where
  "modes_of mp = (case modes mp of None \<Rightarrow> [] | Some ms \<Rightarrow> ms)"

lemma add_seek_mode_info_count:
  "distinct (modes_of mp) \<Longrightarrow>
   mode_count (add_seek_mode_info mp smips) k = mode_count smips k + (if k \<in> set (modes_of mp) then most_seeks mp else 0)"
proof -
  have "mode_count (fold (add_seek_mode n) ms smips) k = mode_count smips k + (if k \<in> set ms then n else 0)" if "distinct ms" for n ms
    using that by (induction ms arbitrary: smips) (auto simp: add_seek_mode_count)
  then show "distinct (modes_of mp) \<Longrightarrow> ?thesis"
    unfolding add_seek_mode_info_def modes_of_def .
qed

text \<open>The summary of the seeks of all devices names each mode of a device once, with the sum of its numbers of seeks over
  the devices, and the modes that it prints are exactly those with the largest sum.\<close>

theorem overall_modes_reported:
  assumes "\<forall>mp \<in> set mps. distinct (modes_of mp)" "smips = fold add_seek_mode_info mps []"
  shows "distinct (map fst smips)
    \<and> (\<forall>k. mode_count smips k = sum_list (map (\<lambda>mp. if k \<in> set (modes_of mp) then most_seeks mp else 0) mps))
    \<and> mode_list smips [] = rev (filter (at_most smips) smips)"
proof -
  have count: "mode_count (fold add_seek_mode_info mps xs) k
      = mode_count xs k + sum_list (map (\<lambda>mp. if k \<in> set (modes_of mp) then most_seeks mp else 0) mps)" for xs k
    using assms(1) by (induction mps arbitrary: xs) (simp_all add: add_seek_mode_info_count ac_simps)
  have dist: "distinct (map fst smips)"
    unfolding assms(2)
    by (rule fold_invariant [where Q = "\<lambda>_. True" and P = "\<lambda>xs. distinct (map fst xs)"]) (simp_all add: add_seek_mode_info_distinct)
  then show ?thesis
    using mode_list_most [OF dist] count [of "[]"] by (simp add: assms(2) mode_count_def)
qed

lemma overall_modes_reported_witness:
  "mode_list (fold add_seek_mode_info [\<lparr>most_seeks = 2, modes = Some [8, 64]\<rparr>, \<lparr>most_seeks = 3, modes = Some [64]\<rparr>] []) []
   = [(64, 5)]"
proof -
  let ?mps = "[\<lparr>most_seeks = 2, modes = Some [8, 64]\<rparr>, \<lparr>most_seeks = 3, modes = Some [64]\<rparr>]"
  have s: "fold add_seek_mode_info ?mps [] = [(64, 5), (8, 2)]"
    by (simp add: add_seek_mode_info_def add_seek_mode_def)
  have "mode_list [(64, 5), (8, 2)] [] = rev (filter (at_most [(64, 5), (8, 2)]) [(64, 5), (8, 2)])"
    by (rule overall_modes_reported [of ?mps, THEN conjunct2, THEN conjunct2]) (simp_all only: s, simp add: modes_of_def)
  then show ?thesis
    unfolding s by (simp add: at_most_def)
qed


section \<open>Lemmas on the merges\<close>

definition merge_active :: "btt \<Rightarrow> nat \<Rightarrow> bool" where
  "merge_active b i \<longleftrightarrow> n_qs (devs b ! i) \<noteq> 0 \<and> n_ds (devs b ! i) \<noteq> 0"

definition reported_qs :: "btt \<Rightarrow> nat \<Rightarrow> u64" where
  "reported_qs b i = max (n_qs (devs b ! i)) (n_ds (devs b ! i))"

text \<open>The devices stay as they are up to the counters of queue events.\<close>

definition same_merges :: "btt \<Rightarrow> btt \<Rightarrow> bool" where
  "same_merges b b' \<longleftrightarrow> length (devs b') = length (devs b)
     \<and> (\<forall>j < length (devs b). avgs (devs b' ! j) = avgs (devs b ! j) \<and> n_ds (devs b' ! j) = n_ds (devs b ! j)
          \<and> reported_qs b' j = reported_qs b j \<and> merge_active b' j = merge_active b j)"

definition merges_of :: "btt \<Rightarrow> nat list \<Rightarrow> merge_data \<Rightarrow> bool" where
  "merges_of b as md \<longleftrightarrow> md_nq md = sum_list (map (reported_qs b) as) \<and> md_nd md = sum_list (map (\<lambda>i. n_ds (devs b ! i)) as)
     \<and> md_total md = sum_list (map (\<lambda>i. ai_total (blks (avgs (devs b ! i)))) as)
     \<and> (as \<noteq> [] \<longrightarrow> md_blkmin md = Min ((\<lambda>i. ai_min (blks (avgs (devs b ! i)))) ` set as)
          \<and> md_blkmax md = Max ((\<lambda>i. ai_max (blks (avgs (devs b ! i)))) ` set as))"

lemma out_prog [simp]: "prog (out ls s) = prog s" "prog (xout oo ls s) = prog s"
  by (simp_all add: out_def xout_def)

lemma merge_step_inactive:
  "\<not> merge_active (prog s) i \<Longrightarrow> output_dip_merge_ratio oo i (n, md, s) = Some (n, md, s)"
  by (auto simp: output_dip_merge_ratio_def merge_active_def Let_def)

lemma merge_add_fields:
  "md_nq (merge_add n d md) = md_nq md + n_qs d" "md_nd (merge_add n d md) = md_nd md + n_ds d"
  "md_total (merge_add n d md) = md_total md + ai_total (blks (avgs d))"
  "md_blkmin (merge_add n d md) = (if n = 0 then ai_min (blks (avgs d)) else min (md_blkmin md) (ai_min (blks (avgs d))))"
  "md_blkmax (merge_add n d md) = (if n = 0 then ai_max (blks (avgs d)) else max (md_blkmax md) (ai_max (blks (avgs d))))"
  by (auto simp: merge_add_def Let_def min_def max_def)

lemma merge_step_active:
  assumes "merge_active (prog s) i" "i < length (devs (prog s))"
  shows "\<exists>s' d. output_dip_merge_ratio oo i (n, md, s) = Some (n + 1, merge_add n d md, s') \<and> same_merges (prog s) (prog s')
    \<and> avgs d = avgs (devs (prog s) ! i) \<and> n_ds d = n_ds (devs (prog s) ! i) \<and> n_qs d = reported_qs (prog s) i"
proof -
  let ?d = "devs (prog s) ! i"
  define s1 where "s1 = (if n_qs ?d < n_ds ?d then s\<lparr>prog := update_dip i (\<lambda>d. d\<lparr>n_qs := n_ds d\<rparr>) (prog s)\<rparr> else s)"
  have d1: "n_qs (devs (prog s1) ! i) = reported_qs (prog s) i" "n_ds (devs (prog s1) ! i) = n_ds ?d"
    "avgs (devs (prog s1) ! i) = avgs ?d"
    using assms(2) by (auto simp: s1_def reported_qs_def update_dip_def)
  have same: "same_merges (prog s) (prog s1)"
    using assms(1,2) by (auto simp: same_merges_def s1_def update_dip_def reported_qs_def merge_active_def nth_list_update)
  have "\<exists>t. output_dip_merge_ratio oo i (n, md, s) = Some (n + 1, merge_add n (devs (prog s1) ! i) md, t) \<and> prog t = prog s1"
    using assms(1) unfolding output_dip_merge_ratio_def by (simp add: merge_active_def Let_def s1_def [symmetric])
  then show ?thesis
    using same d1 by metis
qed

lemma same_merges_refl: "same_merges b b"
  by (simp add: same_merges_def)

lemma same_merges_trans: "same_merges a b \<Longrightarrow> same_merges b c \<Longrightarrow> same_merges a c"
  by (simp add: same_merges_def)

lemma merges_loop:
  assumes "same_merges b0 (prog s)" "merges_of b0 as md" "\<forall>i \<in> set is. i < length (devs b0)"
  shows "\<exists>md' s'. dip_foreach_out (output_dip_merge_ratio oo) (map Some is) (length as, md, s)
      = Some (length (as @ filter (merge_active b0) is), md', s') \<and> merges_of b0 (as @ filter (merge_active b0) is) md'"
  using assms
proof (induction "is" arbitrary: as md s)
  case (Cons i "is")
  have i: "i < length (devs (prog s))" "merge_active (prog s) i = merge_active b0 i" "reported_qs (prog s) i = reported_qs b0 i"
    "avgs (devs (prog s) ! i) = avgs (devs b0 ! i)" "n_ds (devs (prog s) ! i) = n_ds (devs b0 ! i)"
    using Cons.prems(1,3) by (auto simp: same_merges_def)
  show ?case
  proof (cases "merge_active b0 i")
    case False
    then show ?thesis
      using Cons.IH [OF Cons.prems(1,2)] Cons.prems(3) merge_step_inactive [of s i oo "length as" md] i(2) by simp
  next
    case True
    obtain s1 d where s1: "output_dip_merge_ratio oo i (length as, md, s) = Some (length (as @ [i]), merge_add (length as) d md, s1)"
      "same_merges (prog s) (prog s1)" "avgs d = avgs (devs b0 ! i)" "n_ds d = n_ds (devs b0 ! i)" "n_qs d = reported_qs b0 i"
      using merge_step_active [of s i oo "length as" md] True i by auto
    have "merges_of b0 (as @ [i]) (merge_add (length as) d md)"
      using Cons.prems(2) s1(3-5) by (cases "as = []") (simp_all add: merges_of_def merge_add_fields min.commute max.commute)
    from Cons.IH [OF same_merges_trans [OF Cons.prems(1) s1(2)] this] show ?thesis
      using Cons.prems(3) s1(1) True by simp
  qed
qed simp

text \<open>C26: the totals of the report on merges are those of the devices that have queue and issue events: the sums of the
  events, where no device has less queue than issue events, and of the blocks, and the smallest and largest number of blocks.\<close>

theorem merge_totals:
  assumes "\<forall>i \<in> set is. i < length (devs (prog s))"
  shows "\<exists>md s'. dip_foreach_out (output_dip_merge_ratio oo) (map Some is) (0, zero_merge_data, s)
      = Some (length (filter (merge_active (prog s)) is), md, s') \<and> merges_of (prog s) (filter (merge_active (prog s)) is) md"
  using merges_loop [of "prog s" s "[]" zero_merge_data "is" oo] assms
  by (simp add: same_merges_refl merges_of_def zero_merge_data_def)

definition plain_out :: out_opts where
  "plain_out = \<lparr>easy_parse_avgs = False, exes = None, output_name = None, do_p_live = False\<rparr>"

definition example_report :: outp where
  "example_report = \<lparr>prog = btt_init\<lparr>devs := [(new_dip plain_opts 0x800000 0)\<lparr>n_qs := 2, n_ds := 3\<rparr>, new_dip plain_opts 0x800010 0]\<rparr>,
     ofp = [], xofp = []\<rparr>"

lemma merge_totals_witness:
  "\<exists>md s'. dip_foreach_out (output_dip_merge_ratio plain_out) (map Some [0, 1]) (0, zero_merge_data, example_report) = Some (1, md, s')
     \<and> md_nq md = 3 \<and> md_nd md = 3"
proof -
  have "filter (merge_active (prog example_report)) [0, 1] = [0]"
    by (simp add: example_report_def merge_active_def new_dip_def Let_def)
  then show ?thesis
    using merge_totals [of "[0, 1]" example_report plain_out]
    by (auto simp: merges_of_def reported_qs_def) (auto simp: example_report_def)
qed

end
