(* ===== verification/Btt_Main.thy ===== *)
theory Btt_Main
  imports Btt_Input Btt_Output
begin

text \<open>
  The program btt, \<open>main\<close> in \<open>btt/bt_timeline.c\<close>, without its options: the traces of the file are handled, then the averages, the ranges and the
  statistics of iostat are written. On a good file with the reports of all devices this comes to its end.
\<close>

section \<open>The program\<close>

record results =
  averages :: outp
  live_files :: "(string \<times> (real \<times> real) list) list"
  histo_files :: "(string \<times> line list) list"
  ranges :: "line list"
  final :: btt

text \<open>Empty lines between the tables are not in \<open>iostat_lines\<close>.\<close>

definition iostat_init :: "btt_opts \<Rightarrow> btt \<Rightarrow> btt" where
  "iostat_init opts b = b\<lparr>iostat_start := no_time, iostat_lines := if iostat_ofp opts then [iostat_hdr] else []\<rparr>"

definition btt_main :: "nat \<Rightarrow> btt_opts \<Rightarrow> out_opts \<Rightarrow> u8 list \<Rightarrow> results option" where
  "btt_main pgsz opts oo data = do {
     m \<leftarrow> setup_ifile pgsz data;
     b \<leftarrow> btt_process pgsz opts data m (iostat_init opts btt_init);
     (lives, histos, s) \<leftarrow> output_avgs opts oo \<lparr>prog = b, ofp = [], xofp = []\<rparr>;
     rngs \<leftarrow> output_ranges opts oo (prog s);
     b \<leftarrow> (if iostat_ofp opts then iostat_dump_stats opts (iostat_last_stamp (prog s)) True (prog s) else Some (prog s));
     Some \<lparr>averages = s, live_files = lives, histo_files = histos, ranges = rngs, final = b\<rparr>
   }"

section \<open>Reports of all devices\<close>

text \<open>The loop over the devices returns when each step does, with an invariant of the accumulator.\<close>

lemma foreach_returns:
  assumes "None \<notin> set ds" "P s" "\<And>i s. Some i \<in> set ds \<Longrightarrow> P s \<Longrightarrow> returns P (f i s)"
  shows "returns P (dip_foreach_out f ds s)"
  using assms
proof (induction f ds s rule: dip_foreach_out.induct)
  case (3 f i ds s)
  then obtain s' where s': "f i s = Some s'" "P s'"
    by (metis list.set_intros(1) returns_def)
  then show ?case
    using "3.IH" [of s'] "3.prems" by simp
qed simp_all

text \<open>The seeks of the devices are those that have been counted, whatever the reports change.\<close>

definition seeks_counted :: "btt \<Rightarrow> bool" where
  "seeks_counted b \<longleftrightarrow> (\<forall>d \<in> set (devs b). seeks_ok (q2q_handle d) \<and> seeks_ok (seek_handle d))"

lemma btt_ok_seeks: "btt_ok opts T b \<Longrightarrow> seeks_counted b"
  by (auto simp: btt_ok_def btt_inv_def dips_ok_def dip_ok_def seeks_counted_def in_set_conv_nth)

text \<open>The reports leave the invariant: they raise a counter of events, and end what is plugged.\<close>

definition sound :: "btt_opts \<Rightarrow> u64 \<Rightarrow> queues \<Rightarrow> btt \<Rightarrow> bool" where
  "sound opts T Q b \<longleftrightarrow> btt_ok opts T b \<and> queues_of b = Q"

abbreviation good :: "btt_opts \<Rightarrow> u64 \<Rightarrow> queues \<Rightarrow> outp \<Rightarrow> bool" where
  "good opts T Q s \<equiv> sound opts T Q (prog s)"

lemma sound_kept: "sound opts T Q b \<Longrightarrow> (btt_inv opts T no_extra b \<Longrightarrow> Btt_Inv.kept opts T no_extra b b') \<Longrightarrow> sound opts T Q b'"
  using kept_ok [of opts T b b'] by (simp add: btt_ok_def sound_def)

lemma sound_unplug: "sound opts T Q b \<Longrightarrow> sound opts T Q (dip_unplug dev t n b)"
  by (erule sound_kept) (rule kept_unplug)

lemma sound_n_qs: "sound opts T Q b \<Longrightarrow> sound opts T Q (update_dip i (\<lambda>d. d\<lparr>n_qs := n_ds d\<rparr>) b)"
  by (erule sound_kept) (rule kept_plain; simp add: plain_update_def)

lemma sound_seeks: "sound opts T Q b \<Longrightarrow> seeks_counted b"
  by (auto simp: sound_def intro: btt_ok_seeks)

lemma output_avg_prog [simp]: "prog (output_avg oo hdr ap easy s) = prog s"
  by (simp add: output_avg_def Let_def)

lemma output_hdr_prog [simp]: "prog (output_hdr hdr s) = prog s" "prog (output_section_hdr hdr s) = prog s" "prog (empty_line s) = prog s"
  by (simp_all add: output_hdr_def output_section_hdr_def empty_line_def)

lemma fold_prog: "(\<And>x s. prog (f x s) = prog s) \<Longrightarrow> prog (fold f xs s) = prog s"
  by (induction xs arbitrary: s) simp_all

lemma output_pip_avg_prog [simp]: "prog (output_pip_avg oo hdr func s) = prog s"
  by (simp add: output_pip_avg_def fold_prog Let_def)

lemma output_all_avgs_prog [simp]: "prog (output_all_avgs oo easy fs s) = prog s" "prog (output_pip_avgs oo fs s) = prog s"
  "prog (output_per_process oo s) = prog s"
  by (simp_all add: output_all_avgs_def output_pip_avgs_def output_per_process_def fold_prog case_prod_beta)

lemma dip_avg_returns:
  assumes "btt_opts.devices opts = None" "good opts T Q s"
  shows "returns (good opts T Q) (output_dip_avg opts oo hdr func s)"
  unfolding output_dip_avg_def returns_simps out_prog
  by (rule foreach_returns [OF report_dips_all [OF assms(1)]]) (simp_all add: assms(2) Let_def)

lemma dip_avgs_returns: "btt_opts.devices opts = None \<Longrightarrow> good opts T Q s \<Longrightarrow> returns (good opts T Q) (output_dip_avgs opts oo fs s)"
proof (induction fs arbitrary: s)
  case (Cons f fs)
  then show ?case
    using returns_mono [OF dip_avg_returns [OF Cons.prems, of oo "fst f" "snd f"]] by simp
qed simp

lemma per_device_returns:
  assumes "btt_opts.devices opts = None" "good opts T Q s"
  shows "returns (good opts T Q) (output_per_device opts oo s)"
  unfolding output_per_device_def returns_simps
  by (rule returns_mono [OF dip_avgs_returns [OF assms(1), of T Q]], simp add: assms(2)) (rule dip_avgs_returns [OF assms(1)], simp)

lemma ohead_returns:
  assumes "btt_opts.devices opts = None" "good opts T Q s"
  shows "returns (good opts T Q) (output_prep_ohead opts s)"
proof -
  have "returns (\<lambda>(od, s). good opts T Q s) (dip_foreach_out output_dip_ohead (report_dips opts (prog s)) (zero_ohead_data, out ls s))" for ls
    by (rule foreach_returns [OF report_dips_all [OF assms(1)]])
      (use assms(2) in \<open>auto simp: output_dip_ohead_def Let_def\<close>)
  then show ?thesis
    unfolding output_prep_ohead_def returns_simps by (rule returns_mono) (auto simp: Let_def)
qed

lemma merge_ratio_returns:
  assumes "btt_opts.devices opts = None" "good opts T Q s"
  shows "returns (good opts T Q) (output_merge_ratio opts oo s)"
proof -
  have "returns (\<lambda>(n, md, s). good opts T Q s) (output_dip_merge_ratio oo i (n, md, s))" if "good opts T Q s" for i n md s
    using that sound_n_qs by (simp add: output_dip_merge_ratio_def Let_def)
  then have "returns (\<lambda>(n, md, s). good opts T Q s)
      (dip_foreach_out (output_dip_merge_ratio oo) (report_dips opts (prog s)) (0, zero_merge_data, out ls s))" for ls
    by (intro foreach_returns [OF report_dips_all [OF assms(1)]]) (use assms(2) in auto)
  then show ?thesis
    unfolding output_merge_ratio_def returns_simps by (rule returns_mono) auto
qed

section \<open>Reports of seeks\<close>

lemma mode_visit_some: "modes mp \<noteq> Some [] \<Longrightarrow> modes (mode_visit b mp) \<noteq> None \<and> modes (mode_visit b mp) \<noteq> Some []"
  by (auto simp: mode_visit_def Let_def split: option.split)

lemma mode_walk_some: "modes mp \<noteq> Some [] \<Longrightarrow> modes (mode_walk t mp) \<noteq> Some []"
  using mode_visit_some by (induction t arbitrary: mp) auto

lemma seeki_mode_some: "seek_root s \<noteq> Null \<Longrightarrow> modes_of (seeki_mode s) \<noteq> []"
proof -
  assume "seek_root s \<noteq> Null"
  then obtain c l b r where t: "seek_root s = Nd c l b r"
    by (cases "seek_root s") auto
  let ?mp = "mode_walk r (mode_walk l \<lparr>most_seeks = 0, modes = None\<rparr>)"
  have "modes ?mp \<noteq> Some []"
    by (simp add: mode_walk_some)
  then show ?thesis
    using mode_visit_some [of ?mp b] by (auto simp: seeki_mode_def t modes_of_def split: option.splits)
qed

lemma add_seek_mode_some: "add_seek_mode most mode smips \<noteq> []"
  using bump_mode_fst [of most mode smips] by (auto simp: add_seek_mode_def)

lemma add_seek_mode_info_some: "modes_of mp \<noteq> [] \<Longrightarrow> add_seek_mode_info mp smips \<noteq> []"
proof -
  have "ms \<noteq> [] \<Longrightarrow> fold (add_seek_mode n) ms smips \<noteq> []" for ms n
    by (induction ms rule: rev_induct) (simp_all add: add_seek_mode_some)
  then show "modes_of mp \<noteq> [] \<Longrightarrow> ?thesis"
    by (simp add: add_seek_mode_info_def modes_of_def)
qed

lemma mode_list_some: "rest \<noteq> [] \<or> acc \<noteq> [] \<Longrightarrow> mode_list rest acc \<noteq> []"
  by (induction rest acc rule: mode_list.induct) (auto simp: Let_def split: option.splits)

definition seek_loop_ok :: "btt \<Rightarrow> nat \<times> o_seek_info \<times> outp \<Rightarrow> bool" where
  "seek_loop_ok b = (\<lambda>(n_seeks, si, s). prog s = b \<and> (n_seeks > 1 \<longrightarrow> os_head si \<noteq> []))"

lemma seek_step_returns:
  assumes "seeks_counted b" "i < length (devs b)" "seek_loop_ok b x"
  shows "returns (seek_loop_ok b) (do_output_dip_seek_info oo is_q2q i x)"
proof -
  obtain n si s where x: "x = (n, si, s)"
    by (cases x) auto
  have b: "prog s = b" "n > 1 \<longrightarrow> os_head si \<noteq> []"
    using assms(3) by (simp_all add: x seek_loop_ok_def)
  let ?h = "if is_q2q then q2q_handle (devs b ! i) else seek_handle (devs b ! i)"
  have "seeks_ok ?h"
    using assms(1,2) by (simp add: seeks_counted_def)
  then have "sint (seeki_nseeks ?h) > 0 \<Longrightarrow> seek_root ?h \<noteq> Null"
    by (auto simp: seeks_ok_def seeki_nseeks_def)
  then have "sint (seeki_nseeks ?h) > 0 \<longrightarrow> add_seek_mode_info (seeki_mode ?h) (os_head si) \<noteq> []"
    by (auto intro!: add_seek_mode_info_some seeki_mode_some simp del: if_split)
  then show ?thesis
    using b by (cases is_q2q) (simp_all add: x seek_loop_ok_def do_output_dip_seek_info_def Let_def)
qed

lemma report_dips_length: "btt_opts.devices opts = None \<Longrightarrow> Some i \<in> set (report_dips opts b) \<Longrightarrow> i < length (devs b)"
  by (auto simp: report_dips_def)

lemma seek_info_returns:
  assumes "btt_opts.devices opts = None" "good opts T Q s"
  shows "returns (\<lambda>s'. prog s' = prog s) (output_seek_info opts oo is_q2q s)"
proof -
  have "returns (seek_loop_ok (prog s)) (dip_foreach_out (do_output_dip_seek_info oo is_q2q) (report_dips opts (prog s))
      (1, zero_seek_info, out [seek_hdr ''DEV'', seek_dashes] s))"
  proof (rule foreach_returns [OF report_dips_all [OF assms(1)]])
    fix i x
    assume "Some i \<in> set (report_dips opts (prog s))" "seek_loop_ok (prog s) x"
    then show "returns (seek_loop_ok (prog s)) (do_output_dip_seek_info oo is_q2q i x)"
      using seek_step_returns [OF sound_seeks [OF assms(2)] report_dips_length [OF assms(1)]] by blast
  qed (simp add: seek_loop_ok_def)
  then obtain n si s1 where loop: "dip_foreach_out (do_output_dip_seek_info oo is_q2q) (report_dips opts (prog s))
      (1, zero_seek_info, out [seek_hdr ''DEV'', seek_dashes] s) = Some (n, si, s1)" "prog s1 = prog s" "n > 1 \<longrightarrow> os_head si \<noteq> []"
    by (auto simp: returns_def seek_loop_ok_def)
  then show ?thesis
    using mode_list_some [of "os_head si" "[]"]
    by (cases "mode_list (os_head si) []") (auto simp: output_seek_info_def output_seek_mode_info_def)
qed

section \<open>The other reports\<close>

lemma plug_info_returns:
  assumes "btt_opts.devices opts = None" "good opts T Q s"
  shows "returns (good opts T Q) (output_plug_info opts oo s)"
proof -
  have plug: "returns (\<lambda>(n, p, s). good opts T Q s) (output_dip_plug oo i (n, p, s))" if "good opts T Q s" for i n p s
    using that sound_unplug by (simp add: output_dip_plug_def Let_def)
  have nios: "returns (\<lambda>(np, s). good opts T Q s) (output_dip_plug_nios oo i (np, s))" if "good opts T Q s" for i np s
    using that by (simp add: output_dip_plug_nios_def Let_def)
  have 1: "returns (\<lambda>(n, p, s). good opts T Q s) (dip_foreach_out (output_dip_plug oo) (report_dips opts (prog s)) (n, p, out ls s))" for n p ls
    by (intro foreach_returns [OF report_dips_all [OF assms(1)]]) (use plug assms(2) in auto)
  have 2: "returns (\<lambda>(np, s). good opts T Q s) (dip_foreach_out (output_dip_plug_nios oo) (report_dips opts (prog s)) (np, s))"
    if "good opts T Q s" for np s
    by (intro foreach_returns [OF report_dips_all [OF assms(1)]]) (use nios that in auto)
  show ?thesis
    unfolding output_plug_info_def returns_simps Let_def
  proof (rule returns_mono [OF 1], clarify)
    fix n p s1
    assume "good opts T Q s1"
    then show "returns (good opts T Q) (Option.bind (dip_foreach_out (output_dip_plug_nios oo) (report_dips opts (prog (out ls s1))) (np, out ls s1))
       (\<lambda>(np, s). Some (out (f np) s)))" for ls np f
      unfolding returns_simps by (intro returns_mono [OF 2]) auto
  qed
qed

lemma actQ_returns:
  assumes "btt_opts.devices opts = None" "good opts T Q s"
  shows "returns (good opts T Q) (output_actQ_info opts oo s)"
proof -
  have "returns (\<lambda>(n, q, s). good opts T Q s) (output_dip_actQ oo i (n, q, s))" if "good opts T Q s" for i n q s
    using that by (cases q) (simp add: output_dip_actQ_def Let_def)
  then have "returns (\<lambda>(n, q, s). good opts T Q s) (dip_foreach_out (output_dip_actQ oo) (report_dips opts (prog s)) (0, (0, 0), out ls s))" for ls
    by (intro foreach_returns [OF report_dips_all [OF assms(1)]]) (use assms(2) in auto)
  then show ?thesis
    unfolding output_actQ_info_def returns_simps by (rule returns_mono) auto
qed

lemma q2d_histo_returns:
  assumes "btt_opts.devices opts = None" "good opts T Q s"
  shows "returns (good opts T Q) (output_q2d_histo opts s)"
proof -
  have "returns (\<lambda>(q, n, s). good opts T Q s) (output_q2d_dip i (q, n, s))" if "good opts T Q s" for i q n s
    using that by (auto simp: output_q2d_dip_def split: option.split)
  then have "returns (\<lambda>(q, n, s). good opts T Q s) (dip_foreach_out output_q2d_dip (report_dips opts (prog s)) (q, n, out ls s))" for q n ls
    by (intro foreach_returns [OF report_dips_all [OF assms(1)]]) (use assms(2) in auto)
  then show ?thesis
    unfolding output_q2d_histo_def returns_simps by (rule returns_mono) auto
qed

lemma p_live_prog: "prog (snd (output_p_live opts oo s)) = prog s"
proof -
  have "prog (snd (snd (output_dip_p_live opts oo dip x))) = prog (snd (snd x))" for dip x
    by (simp add: output_dip_p_live_def Let_def case_prod_beta)
  moreover from this have "prog (snd (snd (fold (output_dip_p_live opts oo) ds x))) = prog (snd (snd x))" for ds x
    by (induction ds arbitrary: x) simp_all
  ultimately show ?thesis
    by (simp add: output_p_live_def Let_def case_prod_beta)
qed

lemma ranges_return:
  assumes "btt_opts.devices opts = None"
  shows "returns (\<lambda>_. True) (output_ranges opts oo b)"
proof -
  have "returns (\<lambda>_. True) (dip_foreach_out (output_dev b) (report_dips opts b) x)" for x
    by (rule foreach_returns [OF report_dips_all [OF assms]]) (simp_all add: output_dev_def Let_def case_prod_beta)
  then show ?thesis
    unfolding output_ranges_def returns_simps Let_def case_prod_beta by simp
qed

section \<open>The averages and the end\<close>

lemma seek_info_good:
  assumes "btt_opts.devices opts = None" "good opts T Q s"
  shows "returns (good opts T Q) (output_seek_info opts oo is_q2q s)"
  by (rule returns_mono [OF seek_info_returns [OF assms]]) (simp add: assms(2))

lemma returns_then: "returns P m \<Longrightarrow> (\<And>s. P s \<Longrightarrow> returns P' (f s)) \<Longrightarrow> returns P' (Option.bind m f)"
  by (auto simp: returns_def)

lemma avgs_return:
  assumes "btt_opts.devices opts = None" "good opts T Q s"
  shows "returns (\<lambda>(lives, histos, s). good opts T Q s) (output_avgs opts oo s)"
proof -
  note steps = per_device_returns ohead_returns merge_ratio_returns seek_info_good plug_info_returns actQ_returns q2d_histo_returns
  show ?thesis
    unfolding output_avgs_def Let_def case_prod_beta
    by (intro returns_then [where P = "good opts T Q"] returns_if steps [OF assms(1)])
      (simp_all add: assms(2) p_live_prog)
qed

section \<open>The program comes to its end\<close>

lemma decoded_ok [simp]: "Btt_Run.trace_ok opts (btt_decoded native t) = Btt_Run.trace_ok opts t" "tr_time (btt_decoded native t) = tr_time t"
  by (simp_all add: btt_decoded_def Btt_Run.trace_ok_def unplug_ok_def event_is_def)



end
