(* ===== verification/Spec2Isabelle.thy ===== *)
theory Spec2Isabelle
  imports Act_Mask Jhash Rbtree Skip_List Cpu_Map Ms_Streams Kernel_Attr Kernel_Journal Kernel_Print Btt_Main
begin

text \<open>
  A verification library for blktrace with the changes of \<open>s-blktrace\<close>: the tracer of the block layer of the Linux
  kernel, the tools that read its traces, and a parser of the journal of ext3.

  \<^bold>\<open>The program.\<close> The kernel (\<open>blktrace-kernel/blktrace.c\<close>) hooks the tracepoints of a request queue and writes a
  \<open>struct blk_io_trace\<close> with a payload for each event to the relay buffer of the CPU, numbered per CPU; for
  writes of a journal it scans the pages of the request. \<open>blktrace\<close> copies the buffers to files or to a pipe.
  \<open>blkparse\<close> (\<open>blkparse.c\<close>, \<open>blkparse_fmt.c\<close>) reads them in either byte order, sorts them by time across CPUs and
  devices, watches for lost sequence numbers, accounts the events per CPU and per process, tracks requests from
  allocation to completion, prints a line for each and writes a sorted binary copy. The red-black trees of
  \<open>rbtree.c\<close> and the hash of \<open>jhash.h\<close> are its data structures. \<open>stat/ext-journal.c\<close> follows the transactions of a journal in the writes of a virtual disk.
  \<open>btt\<close> (\<open>btt/\<close>) follows each request from its queue event to its completion and reports the times between the steps.

  \<^bold>\<open>The theories\<close>, in the order of their dependence:

  \<^item> \<open>Prelude\<close>: machine integers and shared lemmas. \<open>C_Text\<close>: \<open>printf\<close>, \<open>sscanf\<close> and \<open>strsep\<close>.
  \<^item> \<open>Trace_Format\<close> (\<open>blktrace_api.h\<close>, \<open>blktrace.h\<close>): the record, its actions, byte order and verification.
  \<^item> \<open>Act_Mask\<close> (\<open>act_mask.c\<close>), \<open>Jhash\<close> (\<open>jhash.h\<close>): categories by name; the hash functions.
  \<^item> \<open>Rbtree\<close> (\<open>rbtree.c\<close>): every function, on positions in a tree in place of node pointers; insertion and removal keep
    the tree balanced and dereference no null pointer. \<open>Keyed_Tree\<close>: the searches of the clients, with a tree as a map.
  \<^item> \<open>Blkparse_State\<close>: the structs and globals of \<open>blkparse.c\<close>. On them: \<open>Skip_List\<close> (lost sequence numbers),
    \<open>Cpu_Map\<close> (the CPUs of a device), \<open>Process_Map\<close> (names and statistics of processes), \<open>Io_Stats\<close>
    (accounting), \<open>Io_Track\<close> (requests in flight), \<open>Dump\<close> (\<open>dump_trace\<close>, the switch over the actions),
    \<open>Trace_Queue\<close> (the trees of traces), \<open>Sort_Pipeline\<close> (\<open>sort_entries\<close>, \<open>show_entries_rb\<close>), \<open>Trace_Input\<close>
    (\<open>read_data\<close>, \<open>read_events\<close>, \<open>do_pipe\<close>), \<open>Ms_Streams\<close> (\<open>do_file\<close>), \<open>Blkparse_Fmt\<close> (\<open>blkparse_fmt.c\<close>).
  \<^item> \<open>Kernel_Trace\<close> (notes, events, tracepoints), \<open>Kernel_Control\<close> (ioctls and attributes), \<open>Kernel_Machine\<close> (the
    tracer as a step relation with its invariant), \<open>Kernel_Attr\<close> and \<open>Kernel_Print\<close> (text), and \<open>Kernel_Journal\<close>
    (the scan of descriptor blocks), all of \<open>blktrace-kernel/blktrace.c\<close>. \<open>Ext_Journal\<close>: \<open>stat/ext-journal.c\<close>.

  \<^item> btt: \<open>Btt_Base\<close> (averages, ranges of activity, the trees of queued traces), \<open>Btt_Seek\<close> (distances), \<open>Btt_Live\<close> (active
    periods), \<open>Btt_Files\<close> and \<open>Btt_Iostat\<close> (collectors of a device), \<open>Btt_Devs\<close> (devices, processes, the state of the program),
    \<open>Btt_Trace\<close> (the handlers of the traces). \<open>Btt_Inv\<close> and \<open>Btt_Handlers\<close> hold the invariant and that every handler keeps it,
    \<open>Btt_Run\<close> the refinement of the queues of incomplete requests, \<open>Btt_Input\<close> the mapped file, \<open>Btt_Output\<close> the
    reports, and \<open>Btt_Main\<close> the program from its file to its reports.

  \<^bold>\<open>State.\<close> A struct is a record, a global variable a field of a record that the operations take and return. A
  pointer is an index or a key of what it points to. A null dereference, an access outside an array and the reading of unset
  memory are the value \<open>None\<close>, so a theorem that an operation returns says that these do not happen. Integers have the width
  of the C type on a 64-bit host and wrap around. A \<open>double\<close> is a real number without rounding; a division by zero, which
  gives an infinity in the code, gives 0.

  \<^bold>\<open>What is shown.\<close> The sorting and showing of a batch and of files (\<open>Sort_Pipeline\<close>, \<open>Trace_Input\<close>, \<open>Ms_Streams\<close>): what comes
  out is the sorted list of what was read and selected, and the loops return. The loops that may run on are functions with values in
  an option by \<open>partial_function\<close>, and the theorems say that their value is defined for the inputs described; no
  fuel is used. Trees, skip lists, CPU maps and process tables implement the maps, sets and functions they stand for; locales
  state what their clients need, and the interpretations in the theories of the providers discharge it. \<open>dump_trace\<close> returns for all
  traces with a proper payload and keeps the tracked requests consistent. The kernel keeps its invariant in all reachable states. btt
  handles every good file to its end, and what it holds for a device at any time are the traces that were queued and not completed, as
  long as these do not overlap. Theorems on faults, such as
  \<open>pipe_cpu_map_overflow\<close>, say what goes wrong and on which input.

  \<^bold>\<open>Not modelled.\<close> Input and output proper: files, pipes and relay buffers are lists of bytes or of results of system calls, and
  what is printed is a list of texts or of the arguments of the calls. Failing allocations in the tools, which exit there; allocation caches,
  locks, interrupts and signals beyond the flag \<open>done\<close>. The local time zone is a parameter. The collector \<open>blktrace.c\<close> consists of threads
  around system calls. Of btt, the
  options (\<open>args.c\<close>), which are the parameters \<open>btt_opts\<close> and \<open>out_opts\<close>, the display of the progress and the freeing of memory at
  the end are left out. Planned: the reports of blkparse, \<open>blkiomon\<close>, \<open>btrecord\<close> and the parsers of file systems.
\<close>

end
